(* ===== verification/Cj_Prelude.thy ===== *)
theory Cj_Prelude
  imports Main "HOL-Library.Word" "HOL-Library.AList" "HOL-Library.List_Lexorder"
    "HOL-Library.Char_ord"
begin

text \<open>
  Shared vocabulary of the development: bytes, hashes and timestamps, the integer
  conversions Rust's \<open>as\<close> and \<open>to_be_bytes\<close> perform, the \<open>?\<close> operator on
  state-passing computations, and generic facts about lists and association lists.
\<close>

section \<open>Bytes, hashes, timestamps\<close>

type_synonym byte = "8 word"
type_synonym bytes = "byte list"

text \<open>
  A \<open>[u8; 32]\<close> is a byte list; \<open>is_hash\<close> states its length where a fact depends on it.
  A \<open>DateTime<Utc>\<close> is its number of nanoseconds since the Unix epoch.
\<close>

type_synonym hash = bytes
type_synonym timestamp = int

definition is_hash :: "hash \<Rightarrow> bool" where
  "is_hash h \<longleftrightarrow> length h = 32"

definition zero_hash :: hash where
  "zero_hash = replicate 32 0"

definition str_bytes :: "string \<Rightarrow> bytes" where
  "str_bytes s = map of_char s"

definition be_bytes :: "nat \<Rightarrow> nat \<Rightarrow> bytes" where
  "be_bytes w n = map (\<lambda>i. of_nat (n div 256 ^ i)) (rev [0..<w])"

definition le_bytes :: "nat \<Rightarrow> int \<Rightarrow> bytes" where
  "le_bytes w n = map (\<lambda>i. of_int (n div 256 ^ i)) [0..<w]"

section \<open>Machine integers\<close>

text \<open>\<open>x as i64\<close> and \<open>x as u32\<close>; signed division truncates towards zero.\<close>

definition as_i64 :: "int \<Rightarrow> int" where
  "as_i64 x = (x + 2 ^ 63) mod 2 ^ 64 - 2 ^ 63"

definition as_u32 :: "nat \<Rightarrow> nat" where
  "as_u32 n = n mod 2 ^ 32"

definition in_i64 :: "int \<Rightarrow> bool" where
  "in_i64 x \<longleftrightarrow> - (2 ^ 63) \<le> x \<and> x < 2 ^ 63"

definition trunc_div :: "int \<Rightarrow> int \<Rightarrow> int" where
  "trunc_div a b = sgn a * sgn b * (\<bar>a\<bar> div \<bar>b\<bar>)"

text \<open>\<open>AtomicU64::fetch_add(1)\<close>: the old value, and the counter wrapped at 64 bits.\<close>

definition fetch_add64 :: "nat \<Rightarrow> nat \<times> nat" where
  "fetch_add64 n = (n, (n + 1) mod 2 ^ 64)"

section \<open>The question-mark operator\<close>

text \<open>
  A Rust function with \<open>&self\<close> state returns its result together with the state it
  leaves behind, on the error path too: a change made before an early return persists.
\<close>

definition try_then :: "('e + 'a) \<times> 's \<Rightarrow> ('a \<Rightarrow> 's \<Rightarrow> ('e + 'b) \<times> 's) \<Rightarrow> ('e + 'b) \<times> 's" where
  "try_then r k = (case r of (Inl e, s) \<Rightarrow> (Inl e, s) | (Inr x, s) \<Rightarrow> k x s)"

definition try_pure :: "('e + 'a) \<Rightarrow> ('a \<Rightarrow> 'e + 'b) \<Rightarrow> 'e + 'b" where
  "try_pure r k = (case r of Inl e \<Rightarrow> Inl e | Inr x \<Rightarrow> k x)"

lemma try_then_simps [simp]:
  "try_then (Inl e, s) k = (Inl e, s)"
  "try_then (Inr x, s) k = k x s"
  by (simp_all add: try_then_def)

lemma try_then_assoc: "try_then (try_then r f) g = try_then r (\<lambda>x s. try_then (f x s) g)"
  by (simp add: try_then_def split: prod.split sum.split)

lemma try_pure_simps [simp]:
  "try_pure (Inl e) k = Inl e"
  "try_pure (Inr x) k = k x"
  by (simp_all add: try_pure_def)

lemma try_then_cong [fundef_cong]:
  assumes "r = r'" and "\<And>x s. r' = (Inr x, s) \<Longrightarrow> k x s = k' x s"
  shows "try_then r k = try_then r' k'"
  using assms by (auto simp: try_then_def split: prod.splits sum.splits)

lemma try_pure_cong [fundef_cong]:
  assumes "r = r'" and "\<And>x. r' = Inr x \<Longrightarrow> k x = k' x"
  shows "try_pure r k = try_pure r' k'"
  using assms by (auto simp: try_pure_def split: sum.splits)

lemma try_then_InrE:
  assumes "try_then r k = (Inr y, t)"
  obtains x s where "r = (Inr x, s)" and "k x s = (Inr y, t)"
  using assms by (auto simp: try_then_def split: prod.splits sum.splits)

lemma try_pure_InrE:
  assumes "try_pure r k = Inr y"
  obtains x where "r = Inr x" and "k x = Inr y"
  using assms by (auto simp: try_pure_def split: sum.splits)

lemma try_then_Inl_iff:
  "try_then r k = (Inl e, t) \<longleftrightarrow>
     r = (Inl e, t) \<or> (\<exists>x s. r = (Inr x, s) \<and> k x s = (Inl e, t))"
  by (auto simp: try_then_def split: prod.splits sum.splits)

section \<open>A sample hash function\<close>

text \<open>A concrete 32-byte digest for the closed instances of theorems about hashes.\<close>

definition sample_digest :: "bytes \<Rightarrow> hash" where
  "sample_digest x = take 32 (x @ replicate 32 0)"

lemma length_sample_digest [simp]: "length (sample_digest x) = 32"
  by (simp add: sample_digest_def)

lemma is_hash_sample_digest [simp]: "is_hash (sample_digest x)"
  by (simp add: is_hash_def)

section \<open>Generic facts\<close>

lemma is_hash_zero [simp]: "is_hash zero_hash"
  by (simp add: is_hash_def zero_hash_def)

lemma length_be_bytes [simp]: "length (be_bytes w n) = w"
  by (simp add: be_bytes_def)

lemma length_str_bytes [simp]: "length (str_bytes s) = length s"
  by (simp add: str_bytes_def)

lemma str_bytes_append: "str_bytes (s @ t) = str_bytes s @ str_bytes t"
  by (simp add: str_bytes_def)

lemma as_i64_id: "in_i64 x \<Longrightarrow> as_i64 x = x"
  by (simp add: as_i64_def in_i64_def)

lemma as_u32_id: "n < 2 ^ 32 \<Longrightarrow> as_u32 n = n"
  by (simp add: as_u32_def)

lemma trunc_div_nonneg: "0 \<le> a \<Longrightarrow> 0 < b \<Longrightarrow> trunc_div a b = a div b"
  by (cases "a = 0") (simp_all add: trunc_div_def)

lemma append_eq_same_length:
  "length a = length b \<Longrightarrow> a @ c = b @ d \<longleftrightarrow> a = b \<and> c = d"
  by (rule append_eq_append_conv) simp

lemma map_of_AList_update [simp]: "map_of (AList.update k v al) = (map_of al)(k \<mapsto> v)"
  by (simp add: update_conv')

lemma map_of_AList_delete [simp]: "map_of (AList.delete k al) = (map_of al)(k := None)"
  by (simp add: delete_conv')

lemma distinct_AList_update [simp]:
  "distinct (map fst al) \<Longrightarrow> distinct (map fst (AList.update k v al))"
  by (rule distinct_update)

lemma distinct_AList_delete [simp]:
  "distinct (map fst al) \<Longrightarrow> distinct (map fst (AList.delete k al))"
  by (rule distinct_delete)

lemma in_set_AList_update:
  "distinct (map fst al) \<Longrightarrow>
     (k', v') \<in> set (AList.update k v al) \<longleftrightarrow> (if k' = k then v' = v else (k', v') \<in> set al)"
  by (subst map_of_eq_Some_iff[symmetric]) auto

lemma in_set_AList_delete:
  "distinct (map fst al) \<Longrightarrow> (k', v') \<in> set (AList.delete k al) \<longleftrightarrow> k' \<noteq> k \<and> (k', v') \<in> set al"
  by (subst map_of_eq_Some_iff[symmetric]) auto

end
