(* ===== verification/Cj_Types.thy ===== *)
theory Cj_Types
  imports Cj_Prelude
begin

text \<open>
  The data every component shares: errors (\<open>src/error.rs\<close>, \<open>src/config/error.rs\<close>),
  JSON values, the configuration (\<open>src/config/mod.rs\<close>, \<open>src/types/*.rs\<close>), the named
  time levels of \<open>src/time/level.rs\<close>, and the record of third-party functions
  (SHA-256, RFC 3339 formatting, JSON encoding) the code calls.

  Error values keep the variant and its structured fields; the human-readable message
  of a string variant is dropped, except for the field name of an invalid
  configuration value. \<open>Panicked\<close> is not a variant of the source: it marks the
  branches on which the Rust code panics.
\<close>

section \<open>Errors\<close>

datatype config_error =
    ConfigIo
  | ParseError
  | SerializeError
  | ValidationError
  | MissingValue string
  | InvalidValue string
  | FileNotFound
  | EnvVarError
  | OtherConfigError

datatype cj_error =
    Io
  | SerdeJson
  | Toml
  | ConfigError config_error
  | HashingError
  | MerkleTreeError
  | StorageError
  | CompressionError
  | DecompressionError
  | InvalidFileFormat
  | TimeHierarchyError
  | InvalidInput
  | NotFound
  | PageNotFound nat nat
  | NotSupported
  | Timeout
  | AlreadyInUse
  | NotInitialized
  | NotAllowed
  | Unknown
  | Panicked

text \<open>The constructors of \<open>impl CJError\<close> and the conversions into it.\<close>

definition cj_error_new :: cj_error where
  "cj_error_new = InvalidInput"

definition cj_not_found :: cj_error where
  "cj_not_found = NotFound"

definition cj_not_supported :: cj_error where
  "cj_not_supported = NotSupported"

section \<open>JSON values\<close>

text \<open>
  \<open>serde_json::Value\<close>. A number is kept as its text. An object is a
  \<open>BTreeMap<String, Value>\<close>: an association list in strictly increasing key order,
  which is also its iteration order.
\<close>

datatype json =
    JNull
  | JBool bool
  | JNumber string
  | JString string
  | JArray "json list"
  | JObject "(string \<times> json) list"

fun is_null :: "json \<Rightarrow> bool" where
  "is_null JNull = True"
| "is_null _ = False"

text \<open>\<open>BTreeMap::insert\<close> on a list in key order.\<close>

fun btree_insert :: "'k::linorder \<Rightarrow> 'v \<Rightarrow> ('k \<times> 'v) list \<Rightarrow> ('k \<times> 'v) list" where
  "btree_insert k v [] = [(k, v)]"
| "btree_insert k v ((k', v') # xs) =
     (if k < k' then (k, v) # (k', v') # xs
      else if k = k' then (k, v) # xs
      else (k', v') # btree_insert k v xs)"

definition btree_ok :: "('k::linorder \<times> 'v) list \<Rightarrow> bool" where
  "btree_ok xs \<longleftrightarrow> sorted_wrt (<) (map fst xs)"

section \<open>Third-party functions\<close>

text \<open>
  The functions of the crates \<open>sha2\<close>, \<open>chrono\<close> and \<open>serde_json\<close> that end up in hashed
  bytes. Feeding a hasher piece by piece hashes the concatenation of the pieces.
  \<open>json_to_vec\<close> is \<open>None\<close> where \<open>serde_json::to_vec\<close> fails, \<open>json_parses\<close> tells
  whether \<open>serde_json::from_slice::<Value>\<close> accepts the bytes.
\<close>

record externals =
  sha256 :: "bytes \<Rightarrow> hash"
  rfc3339 :: "timestamp \<Rightarrow> bytes"
  json_to_vec :: "json \<Rightarrow> bytes option"
  json_parses :: "bytes \<Rightarrow> bool"

section \<open>Configuration\<close>

datatype rollup_retention_policy =
    KeepIndefinitely
  | DeleteAfterSecs nat
  | KeepNPages nat

datatype rollup_content_type =
    ChildHashes
  | NetPatchesType
  | ChildHashesAndNetPatches

record level_rollup_config =
  max_items_per_page :: nat
  max_page_age_seconds :: nat
  content_type :: rollup_content_type

record time_level =
  level_name :: string
  duration_seconds :: nat
  rollup_config :: level_rollup_config
  retention_policy :: "rollup_retention_policy option"

datatype storage_type = MemoryType | FileType

datatype compression_algorithm = Zstd | Lz4 | Snappy | NoCompression

datatype log_level = Off | Error | Warn | Info | Debug | Trace

record storage_config =
  storage_type :: storage_type
  base_path :: string
  max_open_files :: nat

record compression_config =
  compression_enabled :: bool
  algorithm :: compression_algorithm
  compression_level :: nat

record logging_config =
  logging_level :: log_level
  console :: bool
  log_file :: bool
  file_path :: string

record metrics_config =
  metrics_enabled :: bool
  push_interval_seconds :: nat
  endpoint :: string

record retention_config =
  retention_enabled :: bool
  period_seconds :: nat
  cleanup_interval_seconds :: nat

record snapshot_retention_config =
  snap_retention_enabled :: bool
  max_count :: "nat option"
  max_age_seconds :: "nat option"

record snapshot_automatic_creation_config =
  automatic_enabled :: bool
  cron_schedule :: "string option"
  interval_seconds :: "nat option"

record snapshot_config =
  snapshot_enabled :: bool
  dedicated_level :: nat
  snap_retention :: snapshot_retention_config
  automatic_creation :: snapshot_automatic_creation_config

record config =
  levels :: "time_level list"
  storage_cfg :: storage_config
  compression_cfg :: compression_config
  logging_cfg :: logging_config
  metrics_cfg :: metrics_config
  retention_cfg :: retention_config
  snapshot_cfg :: snapshot_config
  force_rollup_on_shutdown :: bool

section \<open>Default values\<close>

definition default_rollup_config :: level_rollup_config where
  "default_rollup_config =
     \<lparr>max_items_per_page = 1000, max_page_age_seconds = 0,
      content_type = ChildHashesAndNetPatches\<rparr>"

definition new_time_level ::
  "string \<Rightarrow> nat \<Rightarrow> level_rollup_config \<Rightarrow> rollup_retention_policy option \<Rightarrow> time_level" where
  "new_time_level n d rc rp =
     \<lparr>level_name = n, duration_seconds = d, rollup_config = rc, retention_policy = rp\<rparr>"

definition default_time_hierarchy :: "time_level list" where
  "default_time_hierarchy =
     [new_time_level ''raw'' 1 default_rollup_config None,
      new_time_level ''minute'' 60 default_rollup_config (Some KeepIndefinitely),
      new_time_level ''hour'' 3600 default_rollup_config (Some KeepIndefinitely),
      new_time_level ''day'' 86400 default_rollup_config (Some KeepIndefinitely),
      new_time_level ''month'' 2592000 default_rollup_config (Some KeepIndefinitely),
      new_time_level ''year'' 31536000 default_rollup_config (Some KeepIndefinitely),
      new_time_level ''decade'' 315360000 default_rollup_config (Some KeepIndefinitely),
      new_time_level ''century'' 3153600000 default_rollup_config (Some KeepIndefinitely)]"

definition default_storage_config :: storage_config where
  "default_storage_config =
     \<lparr>storage_type = FileType, base_path = ''./data'', max_open_files = 100\<rparr>"

definition default_compression_config :: compression_config where
  "default_compression_config =
     \<lparr>compression_enabled = True, algorithm = Zstd, compression_level = 3\<rparr>"

definition default_logging_config :: logging_config where
  "default_logging_config =
     \<lparr>logging_level = Info, console = True, log_file = False,
      file_path = ''./civicjournal.log''\<rparr>"

definition default_metrics_config :: metrics_config where
  "default_metrics_config =
     \<lparr>metrics_enabled = True, push_interval_seconds = 60, endpoint = ''''\<rparr>"

definition default_retention_config :: retention_config where
  "default_retention_config =
     \<lparr>retention_enabled = False, period_seconds = 0, cleanup_interval_seconds = 3600\<rparr>"

definition default_snapshot_config :: snapshot_config where
  "default_snapshot_config =
     \<lparr>snapshot_enabled = True, dedicated_level = 250,
      snap_retention =
        \<lparr>snap_retention_enabled = False, max_count = None, max_age_seconds = None\<rparr>,
      automatic_creation =
        \<lparr>automatic_enabled = False, cron_schedule = None, interval_seconds = None\<rparr>\<rparr>"

definition default_levels :: "time_level list" where
  "default_levels =
     [\<lparr>level_name = ''day'', duration_seconds = 86400,
       rollup_config = default_rollup_config\<lparr>content_type := ChildHashes\<rparr>,
       retention_policy = None\<rparr>,
      \<lparr>level_name = ''week'', duration_seconds = 604800,
       rollup_config = default_rollup_config\<lparr>content_type := ChildHashesAndNetPatches\<rparr>,
       retention_policy = None\<rparr>,
      \<lparr>level_name = ''month'', duration_seconds = 2592000,
       rollup_config = default_rollup_config\<lparr>content_type := ChildHashesAndNetPatches\<rparr>,
       retention_policy = None\<rparr>,
      \<lparr>level_name = ''year'', duration_seconds = 31536000,
       rollup_config = default_rollup_config\<lparr>content_type := NetPatchesType\<rparr>,
       retention_policy = None\<rparr>]"

definition default_config :: config where
  "default_config =
     \<lparr>levels = default_levels,
      storage_cfg = default_storage_config,
      compression_cfg = default_compression_config,
      logging_cfg = default_logging_config,
      metrics_cfg = default_metrics_config,
      retention_cfg = default_retention_config,
      snapshot_cfg = default_snapshot_config,
      force_rollup_on_shutdown = True\<rparr>"

lemmas default_config_defs =
  default_config_def default_levels_def default_rollup_config_def
  default_storage_config_def default_compression_config_def default_logging_config_def
  default_metrics_config_def default_retention_config_def default_snapshot_config_def

section \<open>Text forms of the enumerations\<close>

text \<open>\<open>str::to_lowercase\<close> on the ASCII range, the range of every accepted word.\<close>

definition lower_char :: "char \<Rightarrow> char" where
  "lower_char c =
     (if 65 \<le> (of_char c :: nat) \<and> (of_char c :: nat) \<le> 90
      then char_of ((of_char c :: nat) + 32) else c)"

definition to_lowercase :: "string \<Rightarrow> string" where
  "to_lowercase s = map lower_char s"

fun log_level_display :: "log_level \<Rightarrow> string" where
  "log_level_display Off = ''off''"
| "log_level_display Error = ''error''"
| "log_level_display Warn = ''warn''"
| "log_level_display Info = ''info''"
| "log_level_display Debug = ''debug''"
| "log_level_display Trace = ''trace''"

definition log_level_from_str :: "string \<Rightarrow> log_level option" where
  "log_level_from_str s =
     (let l = to_lowercase s in
      if l = ''off'' then Some Off
      else if l = ''error'' then Some Error
      else if l = ''warn'' then Some Warn
      else if l = ''info'' then Some Info
      else if l = ''debug'' then Some Debug
      else if l = ''trace'' then Some Trace
      else None)"

text \<open>Deserialisation never fails: an unknown word means \<open>Info\<close>.\<close>

definition log_level_deserialize :: "string \<Rightarrow> log_level" where
  "log_level_deserialize s =
     (let l = to_lowercase s in
      if l = ''off'' then Off
      else if l = ''error'' then Error
      else if l = ''warn'' then Warn
      else if l = ''info'' then Info
      else if l = ''debug'' then Debug
      else if l = ''trace'' then Trace
      else Info)"

fun storage_type_display :: "storage_type \<Rightarrow> string" where
  "storage_type_display MemoryType = ''memory''"
| "storage_type_display FileType = ''file''"

definition storage_type_from_str :: "string \<Rightarrow> storage_type option" where
  "storage_type_from_str s =
     (let l = to_lowercase s in
      if l = ''memory'' then Some MemoryType
      else if l = ''file'' then Some FileType
      else None)"

fun compression_display :: "compression_algorithm \<Rightarrow> string" where
  "compression_display Zstd = ''zstd''"
| "compression_display Lz4 = ''lz4''"
| "compression_display Snappy = ''snappy''"
| "compression_display NoCompression = ''none''"

section \<open>Named time levels\<close>

text \<open>The enumeration \<open>TimeLevel\<close> of \<open>src/time/level.rs\<close>, ordered as it is declared.\<close>

datatype named_level = Minute | Hour | Day | Month | Year | Decade | Century

definition from_level_num :: "nat \<Rightarrow> cj_error + named_level" where
  "from_level_num n =
     (if n = 0 then Inr Minute
      else if n = 1 then Inr Hour
      else if n = 2 then Inr Day
      else if n = 3 then Inr Month
      else if n = 4 then Inr Year
      else if n = 5 then Inr Decade
      else if n = 6 then Inr Century
      else Inl InvalidInput)"

fun to_level_num :: "named_level \<Rightarrow> nat" where
  "to_level_num Minute = 0"
| "to_level_num Hour = 1"
| "to_level_num Day = 2"
| "to_level_num Month = 3"
| "to_level_num Year = 4"
| "to_level_num Decade = 5"
| "to_level_num Century = 6"

fun named_duration_seconds :: "named_level \<Rightarrow> nat" where
  "named_duration_seconds Minute = 60"
| "named_duration_seconds Hour = 3600"
| "named_duration_seconds Day = 86400"
| "named_duration_seconds Month = 2592000"
| "named_duration_seconds Year = 31536000"
| "named_duration_seconds Decade = 315360000"
| "named_duration_seconds Century = 3153600000"

text \<open>The derived \<open>PartialOrd\<close>/\<open>Ord\<close> of both enumerations.\<close>

instantiation named_level :: linorder
begin

definition less_eq_named_level :: "named_level \<Rightarrow> named_level \<Rightarrow> bool" where
  "less_eq_named_level a b \<longleftrightarrow> to_level_num a \<le> to_level_num b"

definition less_named_level :: "named_level \<Rightarrow> named_level \<Rightarrow> bool" where
  "less_named_level a b \<longleftrightarrow> to_level_num a < to_level_num b"

instance
proof
  fix a b :: named_level
  assume "a \<le> b" and "b \<le> a"
  then show "a = b"
    by (cases a; cases b) (simp_all add: less_eq_named_level_def)
qed (auto simp: less_eq_named_level_def less_named_level_def)

end

fun log_level_rank :: "log_level \<Rightarrow> nat" where
  "log_level_rank Off = 0"
| "log_level_rank Error = 1"
| "log_level_rank Warn = 2"
| "log_level_rank Info = 3"
| "log_level_rank Debug = 4"
| "log_level_rank Trace = 5"

instantiation log_level :: linorder
begin

definition less_eq_log_level :: "log_level \<Rightarrow> log_level \<Rightarrow> bool" where
  "less_eq_log_level a b \<longleftrightarrow> log_level_rank a \<le> log_level_rank b"

definition less_log_level :: "log_level \<Rightarrow> log_level \<Rightarrow> bool" where
  "less_log_level a b \<longleftrightarrow> log_level_rank a < log_level_rank b"

instance
proof
  fix a b :: log_level
  assume "a \<le> b" and "b \<le> a"
  then show "a = b"
    by (cases a; cases b) (simp_all add: less_eq_log_level_def)
qed (auto simp: less_eq_log_level_def less_log_level_def)

end

section \<open>Facts\<close>

lemma map_of_btree_insert: "map_of (btree_insert k v xs) = (map_of xs)(k \<mapsto> v)"
  by (induction k v xs rule: btree_insert.induct) auto

lemma set_fst_btree_insert: "fst ` set (btree_insert k v xs) = insert k (fst ` set xs)"
  by (induction k v xs rule: btree_insert.induct) auto

lemma btree_ok_insert: "btree_ok xs \<Longrightarrow> btree_ok (btree_insert k v xs)"
proof (induction k v xs rule: btree_insert.induct)
  case (2 k v k' v' xs)
  then have tail: "btree_ok xs" and low: "\<forall>x\<in>fst ` set xs. k' < x"
    by (auto simp: btree_ok_def)
  show ?case
  proof (cases "k < k' \<or> k = k'")
    case True
    with tail low show ?thesis by (auto simp: btree_ok_def)
  next
    case False
    then have "btree_ok (btree_insert k v xs)" using "2.IH" tail by auto
    moreover have "\<forall>x\<in>fst ` set (btree_insert k v xs). k' < x"
      using False low by (auto simp: set_fst_btree_insert)
    ultimately show ?thesis using False by (auto simp: btree_ok_def)
  qed
qed (simp add: btree_ok_def)

lemma level_num_roundtrip: "from_level_num (to_level_num l) = Inr l"
  by (cases l) (simp_all add: from_level_num_def)

lemma from_level_num_Inr: "from_level_num n = Inr l \<Longrightarrow> n = to_level_num l"
  by (auto simp: from_level_num_def split: if_splits)

lemma from_level_num_bound: "from_level_num n = Inl e \<longleftrightarrow> 6 < n \<and> e = InvalidInput"
  by (auto simp: from_level_num_def)

lemma named_duration_mono: "a < b \<Longrightarrow> named_duration_seconds a < named_duration_seconds b"
  by (cases a; cases b) (simp_all add: less_named_level_def)

lemma log_level_roundtrip: "log_level_from_str (log_level_display l) = Some l"
  by (cases l) (simp_all add: log_level_from_str_def to_lowercase_def lower_char_def)

lemma storage_type_roundtrip: "storage_type_from_str (storage_type_display t) = Some t"
  by (cases t) (simp_all add: storage_type_from_str_def to_lowercase_def lower_char_def)

lemma log_level_deserialize_from_str:
  "log_level_deserialize s = (case log_level_from_str s of Some l \<Rightarrow> l | None \<Rightarrow> Info)"
  by (simp add: log_level_deserialize_def log_level_from_str_def Let_def)

end
