(* ===== verification/Merkle.thy ===== *)
theory Merkle
  imports Cj_Types
begin

text \<open>
  The Merkle trees of \<open>src/core/merkle.rs\<close>: construction level by level, the root,
  inclusion proofs and their verification. The compression function \<open>H\<close> is SHA-256
  of the concatenated pair and is a parameter; facts that need it collision free say
  for which finite set of inputs.
\<close>

section \<open>Definitions\<close>

type_synonym merkle_root = hash

datatype proof_direction = Left | Right

type_synonym merkle_proof = "(hash \<times> proof_direction) list"

record merkle_tree =
  nodes :: "hash list list"

text \<open>One pass of the inner loop: adjacent pairs are hashed, an odd last node with itself.\<close>

fun pair_level :: "(bytes \<Rightarrow> hash) \<Rightarrow> hash list \<Rightarrow> hash list" where
  "pair_level H [] = []"
| "pair_level H [x] = [H (x @ x)]"
| "pair_level H (x # y # zs) = H (x @ y) # pair_level H zs"

lemma length_pair_level: "length (pair_level H xs) = (length xs + 1) div 2"
  by (induction H xs rule: pair_level.induct) simp_all

text \<open>The outer loop, while the last level has more than one node.\<close>

function build_levels :: "(bytes \<Rightarrow> hash) \<Rightarrow> hash list list \<Rightarrow> hash list list" where
  "build_levels H ns =
     (if 1 < length (last ns) then build_levels H (ns @ [pair_level H (last ns)]) else ns)"
  by pat_completeness auto
termination
  by (relation "measure (\<lambda>(H, ns). length (last ns))") (auto simp: length_pair_level)

declare build_levels.simps [simp del]

definition merkle_new :: "(bytes \<Rightarrow> hash) \<Rightarrow> hash list \<Rightarrow> cj_error + merkle_tree" where
  "merkle_new H leaf_hashes =
     (if leaf_hashes = [] then Inl InvalidInput
      else Inr \<lparr>nodes = build_levels H [leaf_hashes]\<rparr>)"

definition get_root :: "merkle_tree \<Rightarrow> merkle_root option" where
  "get_root t =
     (case nodes t of
        [] \<Rightarrow> None
      | _ \<Rightarrow> (case last (nodes t) of [] \<Rightarrow> None | r # _ \<Rightarrow> Some r))"

text \<open>The sibling of node \<open>i\<close> in a level and the side it is on.\<close>

definition sibling :: "hash list \<Rightarrow> nat \<Rightarrow> hash \<times> proof_direction" where
  "sibling level i =
     (if i mod 2 = 0
      then (if i + 1 < length level then level ! (i + 1) else level ! i, Right)
      else (level ! (i - 1), Left))"

text \<open>The loop over the levels below the root.\<close>

fun proof_steps :: "hash list list \<Rightarrow> nat \<Rightarrow> merkle_proof" where
  "proof_steps (level # parent # rest) i =
     sibling level i # proof_steps (parent # rest) (i div 2)"
| "proof_steps _ i = []"

definition get_proof :: "merkle_tree \<Rightarrow> nat \<Rightarrow> merkle_proof option" where
  "get_proof t leaf_index =
     (case nodes t of
        [] \<Rightarrow> None
      | leaves # rest \<Rightarrow>
          if length leaves \<le> leaf_index then None
          else if rest = [] then Some []
          else Some (proof_steps (nodes t) leaf_index))"

text \<open>The bytes the verifier hashes at one step, and the whole fold.\<close>

fun step_input :: "hash \<Rightarrow> hash \<times> proof_direction \<Rightarrow> bytes" where
  "step_input current (sib, Left) = sib @ current"
| "step_input current (sib, Right) = current @ sib"

fun fold_proof :: "(bytes \<Rightarrow> hash) \<Rightarrow> hash \<Rightarrow> merkle_proof \<Rightarrow> hash" where
  "fold_proof H current [] = current"
| "fold_proof H current (s # p) = fold_proof H (H (step_input current s)) p"

definition verify_merkle_proof ::
  "(bytes \<Rightarrow> hash) \<Rightarrow> hash \<Rightarrow> merkle_proof \<Rightarrow> merkle_root \<Rightarrow> bool" where
  "verify_merkle_proof H current p expected_root \<longleftrightarrow> fold_proof H current p = expected_root"

text \<open>
  Specification: the root as a recursive function of the leaves, and the byte strings
  that a verification, or the construction of a tree, feeds to the hash.
\<close>

function root_spec :: "(bytes \<Rightarrow> hash) \<Rightarrow> hash list \<Rightarrow> hash" where
  "root_spec H xs = (if 1 < length xs then root_spec H (pair_level H xs) else hd xs)"
  by pat_completeness auto
termination
  by (relation "measure (\<lambda>(H, xs). length xs)") (auto simp: length_pair_level)

declare root_spec.simps [simp del]

fun path_inputs :: "(bytes \<Rightarrow> hash) \<Rightarrow> hash \<Rightarrow> merkle_proof \<Rightarrow> bytes set" where
  "path_inputs H current [] = {}"
| "path_inputs H current (s # p) =
     insert (step_input current s) (path_inputs H (H (step_input current s)) p)"

fun pair_inputs :: "hash list \<Rightarrow> bytes list" where
  "pair_inputs [] = []"
| "pair_inputs [x] = [x @ x]"
| "pair_inputs (x # y # zs) = (x @ y) # pair_inputs zs"

function tree_inputs :: "(bytes \<Rightarrow> hash) \<Rightarrow> hash list \<Rightarrow> bytes list" where
  "tree_inputs H xs =
     (if 1 < length xs then pair_inputs xs @ tree_inputs H (pair_level H xs) else [])"
  by pat_completeness auto
termination
  by (relation "measure (\<lambda>(H, xs). length xs)") (auto simp: length_pair_level)

declare tree_inputs.simps [simp del]

section \<open>The shape of a tree\<close>

text \<open>A list of levels in which each is the pairing of the one below, up to a single node.\<close>

fun tower :: "(bytes \<Rightarrow> hash) \<Rightarrow> hash list list \<Rightarrow> bool" where
  "tower H [] \<longleftrightarrow> False"
| "tower H [l] \<longleftrightarrow> length l = 1"
| "tower H (l # p # ls) \<longleftrightarrow> 1 < length l \<and> p = pair_level H l \<and> tower H (p # ls)"

fun levels_of :: "(bytes \<Rightarrow> hash) \<Rightarrow> nat \<Rightarrow> hash list \<Rightarrow> hash list list" where
  "levels_of H 0 xs = [xs]"
| "levels_of H (Suc n) xs =
     (if 1 < length xs then xs # levels_of H n (pair_level H xs) else [xs])"

lemma build_levels_append:
  "build_levels H (ms @ [xs]) = ms @ build_levels H [xs]"
proof (induction "length xs" arbitrary: ms xs rule: less_induct)
  case less
  show ?case
  proof (cases "1 < length xs")
    case True
    then have shorter: "length (pair_level H xs) < length xs"
      by (simp add: length_pair_level)
    have "build_levels H (ms @ [xs]) = build_levels H ((ms @ [xs]) @ [pair_level H xs])"
      using True by (subst build_levels.simps) simp
    also have "\<dots> = ms @ [xs] @ build_levels H [pair_level H xs]"
      using less[OF shorter, of "ms @ [xs]"] by simp
    also have "[xs] @ build_levels H [pair_level H xs] = build_levels H [xs]"
      using True less[OF shorter, of "[xs]"] by (subst (2) build_levels.simps) simp
    finally show ?thesis .
  next
    case False
    then show ?thesis by (simp add: build_levels.simps)
  qed
qed

lemma build_levels_rec:
  "build_levels H [xs] =
     (if 1 < length xs then xs # build_levels H [pair_level H xs] else [xs])"
  using build_levels_append[of H "[xs]" "pair_level H xs"]
  by (subst build_levels.simps) simp

lemma build_levels_Cons: "\<exists>ls. build_levels H [xs] = xs # ls"
  by (subst build_levels_rec) simp

lemma tower_build_levels: "xs \<noteq> [] \<Longrightarrow> tower H (build_levels H [xs])"
proof (induction "length xs" arbitrary: xs rule: less_induct)
  case less
  show ?case
  proof (cases "1 < length xs")
    case True
    let ?p = "pair_level H xs"
    have "length ?p < length xs" "?p \<noteq> []"
      using True length_pair_level[of H xs] by auto
    then have "tower H (build_levels H [?p])" by (rule less)
    moreover obtain ls where "build_levels H [?p] = ?p # ls"
      using build_levels_Cons by blast
    ultimately show ?thesis using True by (subst build_levels_rec) simp
  next
    case False
    with less.prems have "length xs = 1" by (cases xs) auto
    then show ?thesis by (subst build_levels_rec) simp
  qed
qed

lemma tower_nonempty: "tower H (l # ls) \<Longrightarrow> l \<noteq> []"
  by (cases ls) auto

lemma tower_root: "tower H (l # ls) \<Longrightarrow> last (l # ls) = [root_spec H l]"
proof (induction H "l # ls" arbitrary: l ls rule: tower.induct)
  case (2 H l)
  then show ?case by (cases l) (auto simp: root_spec.simps)
next
  case (3 H l p ls)
  have t: "tower H (p # ls)" using "3.prems" by auto
  have "root_spec H l = root_spec H p"
    using "3.prems" by (simp add: root_spec.simps[of H l])
  moreover have "last (p # ls) = [root_spec H p]" using t by (rule "3.hyps")
  ultimately show ?case by (simp only: last_ConsR list.simps not_False_eq_True)
qed

lemma merkle_new_Inr:
  "merkle_new H xs = Inr t \<Longrightarrow> xs \<noteq> [] \<and> nodes t = build_levels H [xs]"
  by (auto simp: merkle_new_def split: if_splits)

lemma merkle_new_shape:
  assumes "merkle_new H xs = Inr t"
  obtains ls where "nodes t = xs # ls" and "tower H (xs # ls)"
  using merkle_new_Inr[OF assms] build_levels_Cons[of H xs] tower_build_levels[of xs H] by auto

lemma get_root_spec: "merkle_new H xs = Inr t \<Longrightarrow> get_root t = Some (root_spec H xs)"
proof (erule merkle_new_shape)
  fix ls
  assume "nodes t = xs # ls" and "tower H (xs # ls)"
  then show ?thesis using tower_root[of H xs ls] by (simp only: get_root_def) simp
qed

section \<open>Completeness of inclusion proofs\<close>

lemma pair_level_nth:
  "i < length xs \<Longrightarrow>
     H (step_input (xs ! i) (sibling xs i)) = pair_level H xs ! (i div 2)"
proof (induction H xs arbitrary: i rule: pair_level.induct)
  case (3 H x y zs)
  show ?case
  proof (cases i)
    case 0
    then show ?thesis by (simp add: sibling_def)
  next
    case (Suc j)
    show ?thesis
    proof (cases j)
      case 0
      with Suc show ?thesis by (simp add: sibling_def)
    next
      case (Suc k)
      with \<open>i = Suc j\<close> have i: "i = Suc (Suc k)" by simp
      with "3.prems" have k: "k < length zs" by simp
      have "(x # y # zs) ! (i - 1) = zs ! (k - 1)" if "k mod 2 = 1"
        using i that by (cases k) simp_all
      then have "sibling (x # y # zs) i = sibling zs k"
        using i by (auto simp: sibling_def)
      with "3.IH"[OF k] i show ?thesis by simp
    qed
  qed
qed (simp_all add: sibling_def)

lemma fold_proof_steps:
  "tower H (l # ls) \<Longrightarrow> i < length l \<Longrightarrow>
     fold_proof H (l ! i) (proof_steps (l # ls) i) = root_spec H l"
proof (induction H "l # ls" arbitrary: l ls i rule: tower.induct)
  case (2 H l)
  then show ?case by (cases l) (auto simp: root_spec.simps)
next
  case (3 H l p ls)
  then have p: "p = pair_level H l" and l: "1 < length l" by auto
  have "i div 2 < length p" using 3 by (auto simp: length_pair_level)
  then have "fold_proof H (p ! (i div 2)) (proof_steps (p # ls) (i div 2)) = root_spec H p"
    using 3 by auto
  moreover have "H (step_input (l ! i) (sibling l i)) = p ! (i div 2)"
    using pair_level_nth[of i l H] 3 p by simp
  ultimately show ?case using l p by (simp add: root_spec.simps[of H l])
qed

lemma get_proof_eq:
  assumes "merkle_new H xs = Inr t"
  shows "get_proof t i =
           (if i < length xs then Some (proof_steps (build_levels H [xs]) i) else None)"
proof -
  from assms obtain ls where "nodes t = xs # ls" by (rule merkle_new_shape)
  moreover have "nodes t = build_levels H [xs]" using merkle_new_Inr[OF assms] by simp
  ultimately show ?thesis by (auto simp: get_proof_def)
qed

lemma proof_complete:
  assumes "merkle_new H xs = Inr t" and "get_root t = Some r" and "get_proof t i = Some p"
  shows "verify_merkle_proof H (xs ! i) p r"
proof -
  from assms(1) obtain ls where ls: "nodes t = xs # ls" "tower H (xs # ls)"
    by (rule merkle_new_shape)
  have i: "i < length xs" and p: "p = proof_steps (xs # ls) i"
    using assms ls merkle_new_Inr[OF assms(1)] get_proof_eq[OF assms(1)]
    by (auto split: if_splits)
  have "r = root_spec H xs" using assms get_root_spec by fastforce
  with fold_proof_steps[OF ls(2) i] p show ?thesis by (simp add: verify_merkle_proof_def)
qed

text \<open>Every index the proof loop reads lies inside its level.\<close>

lemma sibling_in_level: "i < length l \<Longrightarrow> fst (sibling l i) \<in> set l"
  by (auto simp: sibling_def)

section \<open>Soundness of verification\<close>

text \<open>
  Two verifications that take the same turns and reach the same root started from the
  same hash and used the same siblings, unless the hash function collides on an input
  that one of them feeds to it.
\<close>

definition proof_hashes :: "merkle_proof \<Rightarrow> bool" where
  "proof_hashes p \<longleftrightarrow> (\<forall>s\<in>set p. is_hash (fst s))"

lemma step_input_inject:
  assumes "step_input a s = step_input b s'" and "snd s = snd s'"
    and "is_hash a" and "is_hash b" and "is_hash (fst s)" and "is_hash (fst s')"
  shows "a = b \<and> s = s'"
  using assms
  by (cases s; cases s'; cases "snd s") (auto simp: is_hash_def)

lemma fold_proof_inject:
  assumes "fold_proof H a p = fold_proof H b q" and "map snd p = map snd q"
    and "is_hash a" and "is_hash b" and "proof_hashes p" and "proof_hashes q"
    and "\<And>x. is_hash (H x)"
    and "inj_on H (path_inputs H a p \<union> path_inputs H b q)"
  shows "a = b \<and> p = q"
  using assms
proof (induction p arbitrary: a b q)
  case Nil
  then show ?case by simp
next
  case (Cons s p)
  then obtain s' q' where q: "q = s' # q'" by (cases q) auto
  let ?x = "step_input a s" and ?y = "step_input b s'"
  have inj: "inj_on H (path_inputs H (H ?x) p \<union> path_inputs H (H ?y) q')"
    by (rule inj_on_subset[OF Cons.prems(8)]) (auto simp: q)
  have eq: "H ?x = H ?y \<and> p = q'"
    using Cons.prems q inj by (intro Cons.IH) (auto simp: proof_hashes_def)
  have "?x = ?y"
    by (rule inj_onD[OF Cons.prems(8)]) (use eq q in auto)
  with step_input_inject[of a s b s'] Cons.prems q eq show ?case
    by (auto simp: proof_hashes_def)
qed

lemma is_hash_pair_level:
  "(\<And>x. is_hash (H x)) \<Longrightarrow> \<forall>h\<in>set (pair_level H xs). is_hash h"
  by (induction H xs rule: pair_level.induct) auto

lemma proof_steps_hashes:
  "tower H (l # ls) \<Longrightarrow> i < length l \<Longrightarrow> (\<And>x. is_hash (H x)) \<Longrightarrow>
     \<forall>h\<in>set l. is_hash h \<Longrightarrow> proof_hashes (proof_steps (l # ls) i)"
proof (induction H "l # ls" arbitrary: l ls i rule: tower.induct)
  case (2 H l)
  then show ?case by (simp add: proof_hashes_def)
next
  case (3 H l p ls)
  then have p: "p = pair_level H l" by auto
  have "i div 2 < length p" using 3 p by (auto simp: length_pair_level)
  then have "proof_hashes (proof_steps (p # ls) (i div 2))"
    using 3 p is_hash_pair_level[of H l] by auto
  moreover have "is_hash (fst (sibling l i))"
    using 3 sibling_in_level[of i l] by auto
  ultimately show ?case by (simp add: proof_hashes_def)
qed

lemma proof_sound:
  assumes t: "merkle_new H xs = Inr t" "get_root t = Some r" "get_proof t i = Some q"
    and v: "verify_merkle_proof H h p r"
    and dirs: "map snd p = map snd q"
    and len: "\<And>x. is_hash (H x)" "\<forall>x\<in>set xs. is_hash x" "is_hash h" "proof_hashes p"
    and inj: "inj_on H (path_inputs H h p \<union> path_inputs H (xs ! i) q)"
  shows "h = xs ! i \<and> p = q"
proof -
  from t(1) obtain ls where ls: "nodes t = xs # ls" "tower H (xs # ls)"
    by (rule merkle_new_shape)
  have i: "i < length xs" and q: "q = proof_steps (xs # ls) i"
    using t ls merkle_new_Inr[OF t(1)] get_proof_eq[OF t(1)] by (auto split: if_splits)
  have "fold_proof H h p = fold_proof H (xs ! i) q"
    using v proof_complete[OF t] by (simp add: verify_merkle_proof_def)
  moreover have "proof_hashes q"
    using proof_steps_hashes[OF ls(2) i len(1)] len(2) q by simp
  ultimately show ?thesis
    using fold_proof_inject[OF _ dirs len(3) _ len(4) _ len(1) inj] len(2) i by auto
qed

section \<open>The root binds the leaves\<close>

lemma pair_level_map: "pair_level H xs = map H (pair_inputs xs)"
  by (induction H xs rule: pair_level.induct) simp_all

lemma length_pair_inputs: "length (pair_inputs xs) = (length xs + 1) div 2"
  by (induction xs rule: pair_inputs.induct) simp_all

lemma pair_inputs_inject:
  "pair_inputs xs = pair_inputs ys \<Longrightarrow> length xs = length ys \<Longrightarrow>
     \<forall>x\<in>set xs. is_hash x \<Longrightarrow> \<forall>y\<in>set ys. is_hash y \<Longrightarrow> xs = ys"
proof (induction xs arbitrary: ys rule: pair_inputs.induct)
  case 1
  then show ?case by simp
next
  case (2 x)
  then obtain y where "ys = [y]" by (cases ys) auto
  with 2 show ?case by (simp add: is_hash_def)
next
  case (3 x1 x2 zs)
  then obtain y1 y2 us where ys: "ys = y1 # y2 # us"
    by (cases ys rule: pair_inputs.cases) auto
  with 3 show ?case by (auto simp: is_hash_def)
qed

lemma root_binding:
  assumes "root_spec H xs = root_spec H ys" and "length xs = length ys" and "xs \<noteq> []"
    and "\<forall>x\<in>set xs. is_hash x" and "\<forall>y\<in>set ys. is_hash y"
    and "\<And>x. is_hash (H x)"
    and "inj_on H (set (tree_inputs H xs) \<union> set (tree_inputs H ys))"
  shows "xs = ys"
  using assms
proof (induction "length xs" arbitrary: xs ys rule: less_induct)
  case less
  show ?case
  proof (cases "1 < length xs")
    case False
    with less.prems(2,3) have "length xs = 1" "length ys = 1"
      by (auto simp: Suc_lessI not_less le_Suc_eq)
    with less.prems(1) show ?thesis
      by (cases xs; cases ys) (auto simp: root_spec.simps)
  next
    case True
    let ?p = "pair_level H xs" and ?q = "pair_level H ys"
    from True less.prems(2) have ys: "1 < length ys" by simp
    have in_xs: "tree_inputs H xs = pair_inputs xs @ tree_inputs H ?p"
      and in_ys: "tree_inputs H ys = pair_inputs ys @ tree_inputs H ?q"
      using True ys by (simp_all add: tree_inputs.simps[of H xs] tree_inputs.simps[of H ys])
    have inj: "inj_on H (set (tree_inputs H ?p) \<union> set (tree_inputs H ?q))"
      by (rule inj_on_subset[OF less.prems(7)]) (auto simp: in_xs in_ys)
    have "root_spec H ?p = root_spec H ?q"
      using less.prems(1) True ys by (simp add: root_spec.simps[of H xs] root_spec.simps[of H ys])
    moreover have "length ?p < length xs" "length ?p = length ?q" and "?p \<noteq> []"
      using True less.prems(2) length_pair_level[of H xs] length_pair_level[of H ys]
      by (simp, simp, fastforce)
    ultimately have "?p = ?q"
      using less.hyps[of ?p ?q] less.prems(6) inj is_hash_pair_level[of H] by auto
    moreover have "inj_on H (set (pair_inputs xs) \<union> set (pair_inputs ys))"
      by (rule inj_on_subset[OF less.prems(7)]) (auto simp: in_xs in_ys)
    ultimately have "pair_inputs xs = pair_inputs ys"
      by (simp add: pair_level_map inj_on_map_eq_map)
    then show ?thesis by (rule pair_inputs_inject) (use less.prems in auto)
  qed
qed

text \<open>Repeating the last leaf of an odd level does not change the level above.\<close>

lemma pair_level_odd_snoc:
  "odd (length xs) \<Longrightarrow> pair_level H (xs @ [last xs]) = pair_level H xs"
  by (induction H xs rule: pair_level.induct) auto

lemma root_spec_odd_snoc:
  "odd (length xs) \<Longrightarrow> 1 < length xs \<Longrightarrow> root_spec H (xs @ [last xs]) = root_spec H xs"
  using pair_level_odd_snoc[of xs H]
  by (auto simp add: root_spec.simps[of H xs] root_spec.simps[of H "xs @ [last xs]"])

lemma length_proof_steps:
  "tower H (l # ls) \<Longrightarrow> length (proof_steps (l # ls) i) = length ls"
  by (induction H "l # ls" arbitrary: l ls i rule: tower.induct) auto

lemma tower_levels_bound: "tower H (l # ls) \<Longrightarrow> 2 ^ length ls < 2 * length l"
proof (induction H "l # ls" arbitrary: l ls rule: tower.induct)
  case (3 H l p ls)
  then have ih: "2 ^ length ls < 2 * length p" and p: "length p = (length l + 1) div 2"
    and l: "1 < length l"
    by (auto simp: length_pair_level)
  have "2 ^ length ls < length l"
  proof (cases "even (length l)")
    case True
    with ih p show ?thesis by auto
  next
    case False
    with ih p have "2 ^ length ls \<le> length l" by (auto elim!: oddE)
    moreover have "2 ^ length ls \<noteq> length l"
    proof
      assume "2 ^ length ls = length l"
      with False l have "odd ((2::nat) ^ length ls)" and "1 < (2::nat) ^ length ls" by simp_all
      then show False by simp
    qed
    ultimately show ?thesis by simp
  qed
  then show ?case by simp
qed simp

section \<open>Properties\<close>

text \<open>
  C16: completeness of inclusion proofs. For every leaf of a tree that \<open>MerkleTree::new\<close>
  builds, \<open>get_proof\<close> returns a proof, \<open>get_root\<close> a root, \<open>verify_merkle_proof\<close> accepts
  the leaf with them, and the proof has logarithmically many steps.
\<close>

theorem merkle_inclusion_complete:
  assumes "merkle_new H xs = Inr t" and "i < length xs"
  shows "\<exists>p r. get_proof t i = Some p \<and> get_root t = Some r \<and>
           verify_merkle_proof H (xs ! i) p r \<and> 2 ^ length p < 2 * length xs"
proof -
  obtain ls where ls: "nodes t = xs # ls" "tower H (xs # ls)"
    using assms(1) by (rule merkle_new_shape)
  let ?p = "proof_steps (xs # ls) i"
  have p: "get_proof t i = Some ?p"
    using ls assms(2) merkle_new_Inr[OF assms(1)] get_proof_eq[OF assms(1)] by simp
  have r: "get_root t = Some (root_spec H xs)" using assms(1) by (rule get_root_spec)
  show ?thesis
    using p r proof_complete[OF assms(1) r p] length_proof_steps[OF ls(2)]
      tower_levels_bound[OF ls(2)] by auto
qed

theorem merkle_inclusion_complete_witness:
  "\<exists>t p r. merkle_new sample_digest [[1], [2], [3]] = Inr t \<and> get_proof t 2 = Some p \<and>
     get_root t = Some r \<and> verify_merkle_proof sample_digest [3] p r"
proof -
  obtain t where t: "merkle_new sample_digest [[1], [2], [3]] = Inr t"
    by (simp add: merkle_new_def)
  show ?thesis using merkle_inclusion_complete[OF t, of 2] t by (auto simp: numeral_2_eq_2)
qed

text \<open>
  C15: soundness of verification. Whoever makes \<open>verify_merkle_proof\<close> accept against the root
  of a tree, with a proof that takes the turns of leaf \<open>i\<close>, has leaf \<open>i\<close> and its honest
  proof, unless SHA-256 collides on one of the inputs the two verifications hash. The
  hash is assumed to return 32 bytes, as \<open>[u8; 32]\<close> says.
\<close>

theorem merkle_inclusion_sound:
  assumes "merkle_new H xs = Inr t" and "get_root t = Some r" and "get_proof t i = Some q"
    and "verify_merkle_proof H h p r" and "map snd p = map snd q"
    and "\<And>x. is_hash (H x)" and "\<forall>x\<in>set xs. is_hash x" and "is_hash h" and "proof_hashes p"
    and "inj_on H (path_inputs H h p \<union> path_inputs H (xs ! i) q)"
  shows "h = xs ! i \<and> p = q"
  using assms by (rule proof_sound)

theorem merkle_inclusion_sound_witness:
  "\<exists>t r q. merkle_new sample_digest [replicate 32 1, replicate 32 2] = Inr t \<and>
     get_root t = Some r \<and> get_proof t 0 = Some q \<and>
     verify_merkle_proof sample_digest (replicate 32 1) q r \<and>
     replicate 32 1 = [replicate 32 1, replicate 32 (2 :: byte)] ! 0"
proof -
  let ?xs = "[replicate 32 1, replicate 32 2] :: hash list"
  obtain t where t: "merkle_new sample_digest ?xs = Inr t" by (simp add: merkle_new_def)
  then obtain q where q: "get_proof t 0 = Some q" "q = [sibling ?xs 0]"
    by (simp add: get_proof_eq build_levels_rec)
  have r: "get_root t = Some (root_spec sample_digest ?xs)" using t by (rule get_root_spec)
  have v: "verify_merkle_proof sample_digest (replicate 32 1) q (root_spec sample_digest ?xs)"
    using proof_complete[OF t r q(1)] by simp
  have "replicate 32 1 = ?xs ! 0 \<and> q = q"
    by (rule merkle_inclusion_sound[OF t r q(1) v])
      (auto simp: is_hash_def proof_hashes_def q(2) sibling_def)
  with t r q v show ?thesis by blast
qed

text \<open>
  The root binds the leaves. Two lists of 32-byte hashes of the same length with
  the same Merkle root are equal, unless SHA-256 collides on an input hashed while
  building one of the two trees.
\<close>

theorem merkle_root_binds_leaves:
  assumes "merkle_new H xs = Inr t" and "merkle_new H ys = Inr u"
    and "get_root t = get_root u" and "length xs = length ys"
    and "\<forall>x\<in>set xs \<union> set ys. is_hash x" and "\<And>x. is_hash (H x)"
    and "inj_on H (set (tree_inputs H xs) \<union> set (tree_inputs H ys))"
  shows "xs = ys"
proof (rule root_binding[OF _ assms(4) _ _ _ assms(6,7)])
  show "root_spec H xs = root_spec H ys"
    using assms(1-3) get_root_spec by fastforce
qed (use assms merkle_new_Inr in auto)

theorem merkle_root_binds_leaves_witness:
  "\<exists>t. merkle_new sample_digest [zero_hash, zero_hash] = Inr t \<and>
     [zero_hash, zero_hash] = [zero_hash, replicate 32 0]"
proof -
  obtain t where t: "merkle_new sample_digest [zero_hash, zero_hash] = Inr t"
    by (simp add: merkle_new_def)
  have t': "merkle_new sample_digest [zero_hash, replicate 32 0] = Inr t"
    using t by (simp add: zero_hash_def)
  have "[zero_hash, zero_hash] = [zero_hash, replicate 32 0]"
    by (rule merkle_root_binds_leaves[OF t t'])
      (auto simp: tree_inputs.simps is_hash_def zero_hash_def)
  with t show ?thesis by blast
qed

text \<open>
  The root does not bind the number of leaves. Because an odd last node is hashed
  with itself, repeating the last leaf of a tree with an odd number of leaves (three or
  more) leaves the root unchanged, whatever the hash function: a page content and the
  content with its last item duplicated have the same Merkle root.
\<close>

theorem merkle_root_duplicate_last:
  assumes "odd (length xs)" and "1 < length xs"
    and "merkle_new H xs = Inr t" and "merkle_new H (xs @ [last xs]) = Inr u"
  shows "get_root u = get_root t"
  using assms get_root_spec[OF assms(3)] get_root_spec[OF assms(4)] root_spec_odd_snoc[of xs H]
  by simp

theorem merkle_root_duplicate_last_witness:
  "\<exists>t u. merkle_new sample_digest [[1], [2], [3]] = Inr t \<and>
     merkle_new sample_digest [[1], [2], [3], [3]] = Inr u \<and> get_root u = get_root t"
proof -
  obtain t u where t: "merkle_new sample_digest [[1], [2], [3]] = Inr t"
    and u: "merkle_new sample_digest ([[1], [2], [3]] @ [last [[1], [2], [3]]]) = Inr u"
    by (simp add: merkle_new_def)
  have "get_root u = get_root t" by (rule merkle_root_duplicate_last[OF _ _ t u]) simp_all
  with t u show ?thesis by auto
qed

end
