(* ===== verification/Leaf.thy ===== *)
theory Leaf
  imports Cj_Types
begin

text \<open>
  Journal leaves (\<open>src/core/leaf.rs\<close>) and the hashing helpers of \<open>src/core/hash.rs\<close>. The
  global counter \<open>NEXT_LEAF_ID\<close> is passed as an argument and returned.
\<close>

section \<open>Definitions\<close>

definition sha256_hash :: "externals \<Rightarrow> bytes \<Rightarrow> hash" where
  "sha256_hash X data = sha256 X data"

definition sha256_hash_concat :: "externals \<Rightarrow> bytes list \<Rightarrow> hash" where
  "sha256_hash_concat X slices = sha256 X (concat slices)"

record journal_leaf =
  leaf_id :: nat
  leaf_timestamp :: timestamp
  leaf_prev_hash :: "hash option"
  container_id :: string
  delta_payload :: json
  leaf_hash :: hash

record leaf_data_v1 =
  data_timestamp :: timestamp
  data_content_type :: string
  data_content :: bytes
  data_author :: string
  data_signature :: string

datatype leaf_data = V1 leaf_data_v1

text \<open>\<open>if let Some(x) = opt { hasher.update(x) }\<close>.\<close>

definition opt_bytes :: "('a \<Rightarrow> bytes) \<Rightarrow> 'a option \<Rightarrow> bytes" where
  "opt_bytes f opt = (case opt of None \<Rightarrow> [] | Some x \<Rightarrow> f x)"

definition leaf_hash_input ::
  "externals \<Rightarrow> nat \<Rightarrow> timestamp \<Rightarrow> hash option \<Rightarrow> string \<Rightarrow> bytes \<Rightarrow> bytes" where
  "leaf_hash_input X i ts prev cid payload =
     be_bytes 8 i @ rfc3339 X ts @ opt_bytes id prev @ str_bytes cid @ payload"

text \<open>
  \<open>JournalLeaf::new\<close>. The id is drawn before the payload is serialised, so a payload that
  does not serialise, or whose bytes do not parse back, still uses one up.
\<close>

definition leaf_new ::
  "externals \<Rightarrow> timestamp \<Rightarrow> hash option \<Rightarrow> string \<Rightarrow> json \<Rightarrow> nat \<Rightarrow>
     (cj_error + journal_leaf) \<times> nat" where
  "leaf_new X ts prev cid payload next_leaf_id =
     (let (i, next') = fetch_add64 next_leaf_id in
      case json_to_vec X payload of
        None \<Rightarrow> (Inl SerdeJson, next')
      | Some payload_bytes \<Rightarrow>
          if \<not> json_parses X payload_bytes then (Inl SerdeJson, next')
          else (Inr \<lparr>leaf_id = i, leaf_timestamp = ts, leaf_prev_hash = prev,
                     container_id = cid, delta_payload = payload,
                     leaf_hash = sha256 X (leaf_hash_input X i ts prev cid payload_bytes)\<rparr>,
                next'))"

text \<open>Several leaves in a row, each from the counter the one before left.\<close>

fun leaves_new ::
  "externals \<Rightarrow> (timestamp \<times> hash option \<times> string \<times> json) list \<Rightarrow> nat \<Rightarrow>
     (cj_error + journal_leaf) list \<times> nat" where
  "leaves_new X [] n = ([], n)"
| "leaves_new X ((ts, prev, cid, payload) # rs) n =
     (let (l, n') = leaf_new X ts prev cid payload n; (ls, n'') = leaves_new X rs n'
      in (l # ls, n''))"

definition created :: "(cj_error + journal_leaf) list \<Rightarrow> journal_leaf list" where
  "created rs = concat (map (\<lambda>r. case r of Inl _ \<Rightarrow> [] | Inr l \<Rightarrow> [l]) rs)"

section \<open>Facts\<close>

lemma opt_bytes_simps [simp]:
  "opt_bytes f None = []" "opt_bytes f (Some x) = f x"
  by (simp_all add: opt_bytes_def)

lemma leaf_new_counter: "snd (leaf_new X ts prev cid payload n) = (n + 1) mod 2 ^ 64"
  by (simp add: leaf_new_def fetch_add64_def split: option.split)

lemma leaf_new_Inr:
  "fst (leaf_new X ts prev cid payload n) = Inr l \<longleftrightarrow>
     (\<exists>bs. json_to_vec X payload = Some bs \<and> json_parses X bs \<and>
        l = \<lparr>leaf_id = n, leaf_timestamp = ts, leaf_prev_hash = prev, container_id = cid,
             delta_payload = payload,
             leaf_hash = sha256 X (leaf_hash_input X n ts prev cid bs)\<rparr>)"
  by (auto simp: leaf_new_def fetch_add64_def split: option.splits)

lemma leaves_new_ids:
  "n + length rs < 2 ^ 64 \<Longrightarrow>
     (\<forall>l\<in>set (created (fst (leaves_new X rs n))). n \<le> leaf_id l \<and> leaf_id l < n + length rs) \<and>
     sorted_wrt (<) (map leaf_id (created (fst (leaves_new X rs n)))) \<and>
     snd (leaves_new X rs n) = n + length rs"
proof (induction X rs n rule: leaves_new.induct)
  case (1 X n)
  then show ?case by (simp add: created_def)
next
  case (2 X ts prev cid payload rs n)
  obtain r n' where r: "leaf_new X ts prev cid payload n = (r, n')" by fastforce
  then have n': "n' = n + 1"
    using leaf_new_counter[of X ts prev cid payload n] 2(2) by simp
  obtain ls n'' where ls: "leaves_new X rs n' = (ls, n'')" by fastforce
  have ih: "(\<forall>l\<in>set (created ls). n' \<le> leaf_id l \<and> leaf_id l < n' + length rs) \<and>
     sorted_wrt (<) (map leaf_id (created ls)) \<and> n'' = n' + length rs"
    using 2(1)[OF r[symmetric] refl] 2(2) n' ls by simp
  show ?case
  proof (cases r)
    case (Inl e)
    with ih r ls n' show ?thesis by (auto simp: created_def)
  next
    case (Inr l)
    then have "leaf_id l = n"
      using leaf_new_Inr[of X ts prev cid payload n l] r by auto
    with Inr ih r ls n' show ?thesis by (fastforce simp: created_def)
  qed
qed

section \<open>Properties\<close>

text \<open>
  Leaf ids are unique and increasing. Creating any number of leaves one after the
  other, failed attempts included, draws strictly increasing ids, as long as the 64-bit
  counter does not wrap.
\<close>

theorem leaf_ids_increase:
  assumes "n + length rs < 2 ^ 64"
  shows "sorted_wrt (<) (map leaf_id (created (fst (leaves_new X rs n))))"
  using leaves_new_ids[OF assms] by blast

definition sample_externals :: externals where
  "sample_externals =
     \<lparr>sha256 = id, rfc3339 = (\<lambda>t. [of_int t]),
      json_to_vec = (\<lambda>j. case j of JNumber s \<Rightarrow> Some (str_bytes s) | JNull \<Rightarrow> None
                               | _ \<Rightarrow> Some [123, 125]),
      json_parses = (\<lambda>_. True)\<rparr>"

theorem leaf_ids_increase_witness:
  "sorted_wrt (<) (map leaf_id (created (fst (leaves_new sample_externals
     [(1, None, ''a'', JNumber ''7''), (2, None, ''a'', JNull), (3, None, ''b'', JNumber ''8'')] 5))))
   \<and> map leaf_id (created (fst (leaves_new sample_externals
     [(1, None, ''a'', JNumber ''7''), (2, None, ''a'', JNull), (3, None, ''b'', JNumber ''8'')] 5)))
     = [5, 7]"
  using leaf_ids_increase[of 5
      "[(1, None, ''a'', JNumber ''7''), (2, None, ''a'', JNull), (3, None, ''b'', JNumber ''8'')]"
      sample_externals]
  by (simp add: leaf_new_def fetch_add64_def created_def sample_externals_def)

text \<open>
  The leaf hash does not separate the container id from the payload. The hashed bytes
  have no length prefix, so moving the first bytes of the serialised payload to the end
  of the container id gives a different leaf with the same hash.
\<close>

theorem leaf_hash_ambiguous:
  assumes "json_to_vec X p = Some (str_bytes s @ bs)" and "json_to_vec X q = Some bs"
    and "fst (leaf_new X ts prev cid p n) = Inr l"
    and "fst (leaf_new X ts prev (cid @ s) q n) = Inr l'"
  shows "leaf_hash l = leaf_hash l'"
  using assms by (auto simp: leaf_new_Inr leaf_hash_input_def str_bytes_append)

theorem leaf_hash_ambiguous_witness:
  "\<exists>l l'. fst (leaf_new sample_externals 1 None ''user1'' (JNumber ''23'') 0) = Inr l \<and>
     fst (leaf_new sample_externals 1 None ''user12'' (JNumber ''3'') 0) = Inr l' \<and>
     container_id l \<noteq> container_id l' \<and> delta_payload l \<noteq> delta_payload l' \<and>
     leaf_hash l = leaf_hash l'"
proof -
  obtain l l' where l: "fst (leaf_new sample_externals 1 None ''user1'' (JNumber ''23'') 0) = Inr l"
    and l': "fst (leaf_new sample_externals 1 None (''user1'' @ ''2'') (JNumber ''3'') 0) = Inr l'"
    by (simp add: leaf_new_def fetch_add64_def sample_externals_def)
  have "leaf_hash l = leaf_hash l'"
    by (rule leaf_hash_ambiguous[OF _ _ l l', where bs = "str_bytes ''3''"])
      (simp_all add: sample_externals_def str_bytes_def)
  moreover have "container_id l \<noteq> container_id l' \<and> delta_payload l \<noteq> delta_payload l'"
    using l l' by (auto simp: leaf_new_Inr)
  ultimately show ?thesis using l l' by auto
qed

end
