(* ===== verification/Page.thy ===== *)
theory Page
  imports Merkle Leaf
begin

text \<open>
  Journal pages (\<open>src/core/page.rs\<close>) and the snapshot payload they may carry
  (\<open>src/core/snapshot.rs\<close>): creation, the three operations that add content, the
  recalculation of Merkle root and page hash, the finalisation test and the page id
  generator.

  A \<open>HashMap\<close> of net patches is an association list with distinct keys; the facts about
  hashing show that its order does not matter.
\<close>

section \<open>Definitions\<close>

type_synonym field_patches = "(string \<times> json) list"
type_synonym net_patches = "(string \<times> field_patches) list"

record snapshot_container_state =
  cs_container_id :: string
  state_payload :: bytes
  last_leaf_hash_applied :: hash
  last_leaf_timestamp_applied :: timestamp

record snapshot_page_payload =
  snapshot_id :: string
  as_of_timestamp :: timestamp
  created_at_timestamp :: timestamp
  container_states :: "snapshot_container_state list"
  preceding_journal_page_hash :: "hash option"
  previous_snapshot_page_hash_on_snapshot_level :: "hash option"
  container_states_merkle_root :: hash

datatype page_content =
    Leaves "journal_leaf list"
  | ThrallHashes "hash list"
  | ThrallHashesWithNetPatches "hash list" net_patches
  | NetPatches net_patches
  | Snapshot snapshot_page_payload

record journal_page =
  page_id :: nat
  page_level :: nat
  creation_timestamp :: timestamp
  end_time :: timestamp
  content :: page_content
  page_merkle_root :: merkle_root
  prev_page_hash :: "hash option"
  last_leaf_timestamp :: "timestamp option"
  page_hash :: hash
  ts_proof :: "bytes option"
  first_child_ts :: "timestamp option"
  last_child_ts :: "timestamp option"

record page_summary =
  sum_page_id :: nat
  sum_level :: nat
  sum_creation_timestamp :: timestamp
  sum_end_time :: timestamp
  sum_page_hash :: hash

definition summary_of :: "journal_page \<Rightarrow> page_summary" where
  "summary_of p =
     \<lparr>sum_page_id = page_id p, sum_level = page_level p,
      sum_creation_timestamp = creation_timestamp p, sum_end_time = end_time p,
      sum_page_hash = page_hash p\<rparr>"

subsection \<open>The page id generator\<close>

definition id_next :: "nat \<Rightarrow> nat \<times> nat" where
  "id_next counter = fetch_add64 counter"

definition id_revert :: "nat \<Rightarrow> nat \<Rightarrow> nat" where
  "id_revert i counter =
     (if (i + 1) mod 2 ^ 64 = counter then (counter + 2 ^ 64 - 1) mod 2 ^ 64 else counter)"

subsection \<open>Creation\<close>

text \<open>\<open>levels.get(level)\<close>.\<close>

definition level_at :: "config \<Rightarrow> nat \<Rightarrow> time_level option" where
  "level_at cfg l = (if l < length (levels cfg) then Some (levels cfg ! l) else None)"

definition nanos :: "int \<Rightarrow> int" where
  "nanos secs = secs * 1000000000"

definition page_end_time :: "config \<Rightarrow> nat \<Rightarrow> timestamp \<Rightarrow> timestamp" where
  "page_end_time cfg l start =
     start + nanos (as_i64 (int (case level_at cfg l of None \<Rightarrow> 1 | Some lc \<Rightarrow> duration_seconds lc)))"

definition initial_content :: "config \<Rightarrow> nat \<Rightarrow> page_content" where
  "initial_content cfg l =
     (if l = 0 then Leaves []
      else case (case level_at cfg l of None \<Rightarrow> ChildHashes
                 | Some lc \<Rightarrow> content_type (rollup_config lc)) of
             ChildHashes \<Rightarrow> ThrallHashes []
           | NetPatchesType \<Rightarrow> NetPatches []
           | ChildHashesAndNetPatches \<Rightarrow> ThrallHashesWithNetPatches [] [])"

definition new_with_id ::
  "externals \<Rightarrow> config \<Rightarrow> nat \<Rightarrow> nat \<Rightarrow> hash option \<Rightarrow> timestamp \<Rightarrow> journal_page" where
  "new_with_id X cfg pid l prev start =
     (let en = page_end_time cfg l start in
      \<lparr>page_id = pid, page_level = l, creation_timestamp = start, end_time = en,
       content = initial_content cfg l,
       page_merkle_root = zero_hash,
       prev_page_hash = prev,
       last_leaf_timestamp = None,
       page_hash =
         sha256 X (be_bytes 8 pid @ be_bytes 1 l @ rfc3339 X start @ rfc3339 X en @
                   zero_hash @ opt_bytes id prev),
       ts_proof = None, first_child_ts = None, last_child_ts = None\<rparr>)"

text \<open>\<open>JournalPage::new\<close>: the id comes from the global counter \<open>NEXT_PAGE_ID\<close>.\<close>

definition page_new ::
  "externals \<Rightarrow> config \<Rightarrow> nat \<Rightarrow> hash option \<Rightarrow> timestamp \<Rightarrow> nat \<Rightarrow> journal_page \<times> nat" where
  "page_new X cfg l prev start next_page_id =
     (let (pid, next') = fetch_add64 next_page_id
      in (new_with_id X cfg pid l prev start, next'))"

subsection \<open>Adding content\<close>

text \<open>\<open>first_child_ts\<close> and \<open>last_child_ts\<close> as the three operations update them.\<close>

definition lower_ts :: "timestamp option \<Rightarrow> timestamp \<Rightarrow> timestamp option" where
  "lower_ts old t = (case old of None \<Rightarrow> Some t | Some f \<Rightarrow> if t < f then Some t else old)"

definition upper_ts :: "timestamp option \<Rightarrow> timestamp \<Rightarrow> timestamp option" where
  "upper_ts old t = (case old of None \<Rightarrow> Some t | Some f \<Rightarrow> if f < t then Some t else old)"

definition first_ts :: "timestamp option \<Rightarrow> timestamp \<Rightarrow> timestamp option" where
  "first_ts old t = (case old of None \<Rightarrow> Some t | Some f \<Rightarrow> old)"

definition page_add_leaf :: "journal_page \<Rightarrow> journal_leaf \<Rightarrow> cj_error + journal_page" where
  "page_add_leaf p leaf =
     (if page_level p \<noteq> 0 then Inl Panicked
      else case content p of
        Leaves ls \<Rightarrow>
          Inr (p\<lparr>last_leaf_timestamp := Some (leaf_timestamp leaf),
                first_child_ts := lower_ts (first_child_ts p) (leaf_timestamp leaf),
                last_child_ts := upper_ts (last_child_ts p) (leaf_timestamp leaf),
                content := Leaves (ls @ [leaf])\<rparr>)
      | _ \<Rightarrow> Inl Panicked)"

definition add_thrall_hash ::
  "journal_page \<Rightarrow> hash \<Rightarrow> timestamp \<Rightarrow> cj_error + journal_page" where
  "add_thrall_hash p h t =
     (if page_level p = 0 then Inl Panicked
      else case content p of
        ThrallHashes hs \<Rightarrow>
          Inr (p\<lparr>first_child_ts := first_ts (first_child_ts p) t,
                last_child_ts := upper_ts (last_child_ts p) t,
                content := ThrallHashes (hs @ [h])\<rparr>)
      | ThrallHashesWithNetPatches hs ps \<Rightarrow>
          Inr (p\<lparr>first_child_ts := first_ts (first_child_ts p) t,
                last_child_ts := upper_ts (last_child_ts p) t,
                content := ThrallHashesWithNetPatches (hs @ [h]) ps\<rparr>)
      | _ \<Rightarrow> Inl Panicked)"

definition merge_fields :: "field_patches \<Rightarrow> field_patches \<Rightarrow> field_patches" where
  "merge_fields fps entry = fold (\<lambda>(f, v) m. AList.update f v m) fps entry"

definition patch_entry :: "net_patches \<Rightarrow> string \<Rightarrow> field_patches" where
  "patch_entry ps oid = (case map_of ps oid of None \<Rightarrow> [] | Some fm \<Rightarrow> fm)"

definition merge_patch_maps :: "net_patches \<Rightarrow> net_patches \<Rightarrow> net_patches" where
  "merge_patch_maps to_merge existing =
     fold (\<lambda>(oid, fps) m. AList.update oid (merge_fields fps (patch_entry m oid)) m)
       to_merge existing"

definition merge_net_patches ::
  "journal_page \<Rightarrow> net_patches \<Rightarrow> timestamp \<Rightarrow> cj_error + journal_page" where
  "merge_net_patches p to_merge t =
     (if page_level p = 0 then Inl Panicked
      else case content p of
        NetPatches ps \<Rightarrow>
          Inr (p\<lparr>first_child_ts := first_ts (first_child_ts p) t,
                last_child_ts := upper_ts (last_child_ts p) t,
                content := NetPatches (merge_patch_maps to_merge ps)\<rparr>)
      | ThrallHashesWithNetPatches hs ps \<Rightarrow>
          Inr (p\<lparr>first_child_ts := first_ts (first_child_ts p) t,
                last_child_ts := upper_ts (last_child_ts p) t,
                content := ThrallHashesWithNetPatches hs (merge_patch_maps to_merge ps)\<rparr>)
      | _ \<Rightarrow> Inl Panicked)"

subsection \<open>Merkle root and page hash\<close>

definition patch_tuple_hash :: "externals \<Rightarrow> string \<Rightarrow> string \<Rightarrow> json \<Rightarrow> hash" where
  "patch_tuple_hash X oid f v =
     (let value_bytes = (case json_to_vec X v of None \<Rightarrow> [] | Some bs \<Rightarrow> bs)
      in sha256 X (str_bytes oid @ str_bytes f @ sha256 X value_bytes))"

definition field_hashes :: "externals \<Rightarrow> string \<Rightarrow> field_patches \<Rightarrow> hash list" where
  "field_hashes X oid fm =
     concat (map (\<lambda>f. case map_of fm f of None \<Rightarrow> [] | Some v \<Rightarrow> [patch_tuple_hash X oid f v])
       (sort (map fst fm)))"

definition net_patch_hashes :: "externals \<Rightarrow> net_patches \<Rightarrow> hash list" where
  "net_patch_hashes X ps =
     concat (map (\<lambda>oid. case map_of ps oid of None \<Rightarrow> [] | Some fm \<Rightarrow> field_hashes X oid fm)
       (sort (map fst ps)))"

fun content_hashes :: "externals \<Rightarrow> page_content \<Rightarrow> hash list" where
  "content_hashes X (Leaves ls) = map leaf_hash ls"
| "content_hashes X (ThrallHashes hs) = hs"
| "content_hashes X (ThrallHashesWithNetPatches hs ps) = hs"
| "content_hashes X (NetPatches ps) = (if ps = [] then [] else net_patch_hashes X ps)"
| "content_hashes X (Snapshot sp) =
     (if container_states sp \<noteq> [] then [container_states_merkle_root sp] else [])"

definition root_of_hashes :: "externals \<Rightarrow> hash list \<Rightarrow> merkle_root" where
  "root_of_hashes X hs =
     (if hs = [] then zero_hash
      else case merkle_new (sha256 X) hs of
             Inl e \<Rightarrow> zero_hash
           | Inr t \<Rightarrow> (case get_root t of None \<Rightarrow> zero_hash | Some r \<Rightarrow> r))"

definition page_hash_input :: "externals \<Rightarrow> journal_page \<Rightarrow> bytes" where
  "page_hash_input X p =
     be_bytes 8 (page_id p) @ be_bytes 1 (page_level p) @
     rfc3339 X (creation_timestamp p) @ rfc3339 X (end_time p) @
     page_merkle_root p @ opt_bytes id (prev_page_hash p) @
     opt_bytes (rfc3339 X) (first_child_ts p) @ opt_bytes (rfc3339 X) (last_child_ts p)"

definition recalculate :: "externals \<Rightarrow> journal_page \<Rightarrow> journal_page" where
  "recalculate X p =
     (let p' = p\<lparr>page_merkle_root := root_of_hashes X (content_hashes X (content p))\<rparr>
      in p'\<lparr>page_hash := sha256 X (page_hash_input X p')\<rparr>)"

subsection \<open>Size, emptiness, finalisation\<close>

fun content_length :: "page_content \<Rightarrow> nat" where
  "content_length (Leaves ls) = length ls"
| "content_length (ThrallHashes hs) = length hs"
| "content_length (ThrallHashesWithNetPatches hs ps) = length hs"
| "content_length (NetPatches ps) = length ps"
| "content_length (Snapshot sp) = length (container_states sp)"

definition content_len :: "journal_page \<Rightarrow> nat" where
  "content_len p = content_length (content p)"

fun content_empty :: "page_content \<Rightarrow> bool" where
  "content_empty (Leaves ls) \<longleftrightarrow> ls = []"
| "content_empty (ThrallHashes hs) \<longleftrightarrow> hs = []"
| "content_empty (ThrallHashesWithNetPatches hs ps) \<longleftrightarrow> hs = [] \<and> ps = []"
| "content_empty (NetPatches ps) \<longleftrightarrow> ps = []"
| "content_empty (Snapshot sp) \<longleftrightarrow> container_states sp = []"

definition is_content_empty :: "journal_page \<Rightarrow> bool" where
  "is_content_empty p \<longleftrightarrow> content_empty (content p)"

definition should_finalize ::
  "journal_page \<Rightarrow> timestamp \<Rightarrow> timestamp \<Rightarrow> nat \<Rightarrow> int option \<Rightarrow> bool \<times> bool" where
  "should_finalize p new_leaf_timestamp operation_time max_leaves max_age =
     (let is_over_max_leaves = max_leaves \<le> content_len p;
          oldest_ts = (case first_child_ts p of None \<Rightarrow> creation_timestamp p | Some t \<Rightarrow> t);
          calculated_age = operation_time - oldest_ts;
          is_over_age = (case max_age of None \<Rightarrow> False | Some a \<Rightarrow> a \<le> calculated_age);
          is_outside_window = end_time p \<le> new_leaf_timestamp
      in (is_over_max_leaves \<or> is_over_age, is_outside_window))"

section \<open>Consistency of a page\<close>

text \<open>A page whose stored Merkle root and hash are the recalculated ones.\<close>

definition page_consistent :: "externals \<Rightarrow> journal_page \<Rightarrow> bool" where
  "page_consistent X p \<longleftrightarrow> recalculate X p = p"

lemma recalculate_simps [simp]:
  "page_id (recalculate X p) = page_id p"
  "page_level (recalculate X p) = page_level p"
  "creation_timestamp (recalculate X p) = creation_timestamp p"
  "end_time (recalculate X p) = end_time p"
  "content (recalculate X p) = content p"
  "prev_page_hash (recalculate X p) = prev_page_hash p"
  "first_child_ts (recalculate X p) = first_child_ts p"
  "last_child_ts (recalculate X p) = last_child_ts p"
  by (simp_all add: recalculate_def Let_def)

lemma recalculate_root:
  "page_merkle_root (recalculate X p) = root_of_hashes X (content_hashes X (content p))"
  by (simp add: recalculate_def Let_def)

lemma recalculate_idem: "recalculate X (recalculate X p) = recalculate X p"
  by (simp add: recalculate_def Let_def page_hash_input_def)

lemma recalculate_consistent [simp]: "page_consistent X (recalculate X p)"
  by (simp add: page_consistent_def recalculate_idem)

lemma page_consistent_iff:
  "page_consistent X p \<longleftrightarrow>
     page_merkle_root p = root_of_hashes X (content_hashes X (content p)) \<and>
     page_hash p = sha256 X (page_hash_input X p)"
proof
  assume "page_consistent X p"
  then have eq: "recalculate X p = p" by (simp add: page_consistent_def)
  have "page_hash (recalculate X p) = sha256 X (page_hash_input X (recalculate X p))"
    by (simp add: recalculate_def Let_def page_hash_input_def)
  with eq recalculate_root[of X p]
  show "page_merkle_root p = root_of_hashes X (content_hashes X (content p)) \<and>
        page_hash p = sha256 X (page_hash_input X p)" by simp
next
  assume "page_merkle_root p = root_of_hashes X (content_hashes X (content p)) \<and>
        page_hash p = sha256 X (page_hash_input X p)"
  then show "page_consistent X p"
    by (simp add: page_consistent_def recalculate_def Let_def page_hash_input_def)
qed

lemma initial_content_empty [simp]: "content_empty (initial_content cfg l)"
  by (simp add: initial_content_def split: option.split rollup_content_type.split)

lemma content_hashes_empty: "content_empty c \<Longrightarrow> content_hashes X c = []"
  by (cases c) auto

lemma new_with_id_simps [simp]:
  "page_id (new_with_id X cfg i l prev t) = i"
  "page_level (new_with_id X cfg i l prev t) = l"
  "creation_timestamp (new_with_id X cfg i l prev t) = t"
  "end_time (new_with_id X cfg i l prev t) = page_end_time cfg l t"
  "content (new_with_id X cfg i l prev t) = initial_content cfg l"
  "prev_page_hash (new_with_id X cfg i l prev t) = prev"
  "first_child_ts (new_with_id X cfg i l prev t) = None"
  "last_child_ts (new_with_id X cfg i l prev t) = None"
  by (simp_all add: new_with_id_def Let_def)

lemma new_with_id_consistent: "page_consistent X (new_with_id X cfg i l prev t)"
  by (simp add: page_consistent_iff content_hashes_empty root_of_hashes_def)
    (simp add: new_with_id_def Let_def page_hash_input_def)

lemma new_with_id_empty [simp]: "is_content_empty (new_with_id X cfg i l prev t)"
  by (simp add: is_content_empty_def)

lemma content_empty_length: "content_empty c \<Longrightarrow> content_length c = 0"
  by (cases c) auto

lemma root_of_hashes_spec:
  "root_of_hashes X hs = (if hs = [] then zero_hash else root_spec (sha256 X) hs)"
proof (cases "hs = []")
  case False
  then obtain t where "merkle_new (sha256 X) hs = Inr t" by (simp add: merkle_new_def)
  with False get_root_spec[OF this] show ?thesis by (simp add: root_of_hashes_def)
qed (simp add: root_of_hashes_def)

section \<open>Merging net patches\<close>

definition patches_wf :: "net_patches \<Rightarrow> bool" where
  "patches_wf ps \<longleftrightarrow> distinct (map fst ps) \<and> (\<forall>fm\<in>snd ` set ps. distinct (map fst fm))"

definition patch_lookup :: "net_patches \<Rightarrow> string \<Rightarrow> string \<Rightarrow> json option" where
  "patch_lookup ps oid f = map_of (patch_entry ps oid) f"

lemma patch_entry_update:
  "patch_entry (AList.update oid fm ps) o' = (if o' = oid then fm else patch_entry ps o')"
  by (simp add: patch_entry_def)

lemma map_of_merge_fields:
  "distinct (map fst fps) \<Longrightarrow> map_of (merge_fields fps entry) = map_of entry ++ map_of fps"
proof (induction fps arbitrary: entry)
  case Nil
  then show ?case by (simp add: merge_fields_def)
next
  case (Cons kv fps)
  obtain k v where kv: "kv = (k, v)" by fastforce
  have "map_of (merge_fields (kv # fps) entry) =
      map_of (AList.update k v entry) ++ map_of fps"
    using Cons kv by (simp add: merge_fields_def)
  moreover have "map_of fps k = None"
    using Cons.prems kv by (simp add: map_of_eq_None_iff)
  ultimately show ?case
    using kv by (auto simp: map_add_def fun_eq_iff split: option.splits)
qed

lemma distinct_merge_fields:
  "distinct (map fst entry) \<Longrightarrow> distinct (map fst (merge_fields fps entry))"
  unfolding merge_fields_def
  by (induction fps arbitrary: entry) (auto simp: distinct_update)

lemma merge_patch_maps_Nil [simp]: "merge_patch_maps [] ex = ex"
  by (simp add: merge_patch_maps_def)

lemma merge_patch_maps_Cons:
  "merge_patch_maps ((oid, fps) # tm) ex =
     merge_patch_maps tm (AList.update oid (merge_fields fps (patch_entry ex oid)) ex)"
  by (simp add: merge_patch_maps_def)

lemma patch_entry_merge:
  "distinct (map fst tm) \<Longrightarrow>
     patch_entry (merge_patch_maps tm ex) oid =
       (case map_of tm oid of None \<Rightarrow> patch_entry ex oid
        | Some fps \<Rightarrow> merge_fields fps (patch_entry ex oid))"
proof (induction tm arbitrary: ex)
  case Nil
  then show ?case by simp
next
  case (Cons kv tm)
  obtain k fps where kv: "kv = (k, fps)" by fastforce
  with Cons.prems have "map_of tm k = None" by (simp add: map_of_eq_None_iff)
  with Cons kv show ?case
    by (cases "oid = k") (simp_all add: merge_patch_maps_Cons patch_entry_update split: option.split)
qed

lemma patches_wf_update:
  "patches_wf ps \<Longrightarrow> distinct (map fst fm) \<Longrightarrow> patches_wf (AList.update oid fm ps)"
proof -
  assume wf: "patches_wf ps" and d: "distinct (map fst fm)"
  have sub: "snd ` set (AList.update oid fm ps) \<subseteq> insert fm (snd ` set ps)"
    by (induction ps) auto
  show ?thesis
    unfolding patches_wf_def
  proof (intro conjI ballI)
    show "distinct (map fst (AList.update oid fm ps))" using wf by (simp add: patches_wf_def)
    fix x
    assume "x \<in> snd ` set (AList.update oid fm ps)"
    then have "x = fm \<or> x \<in> snd ` set ps" using sub by blast
    then show "distinct (map fst x)" using wf d by (auto simp: patches_wf_def)
  qed
qed

lemma patches_wf_entry: "patches_wf ps \<Longrightarrow> distinct (map fst (patch_entry ps oid))"
  by (auto simp: patches_wf_def patch_entry_def split: option.split dest: map_of_SomeD)

lemma patches_wf_merge: "patches_wf ex \<Longrightarrow> patches_wf (merge_patch_maps tm ex)"
proof (induction tm arbitrary: ex)
  case (Cons kv tm)
  then show ?case
    by (cases kv) (simp add: merge_patch_maps_Cons patches_wf_update distinct_merge_fields
        patches_wf_entry)
qed simp

lemma patch_lookup_merge:
  "patches_wf tm \<Longrightarrow>
     patch_lookup (merge_patch_maps tm ex) oid f =
       (case patch_lookup tm oid f of Some v \<Rightarrow> Some v | None \<Rightarrow> patch_lookup ex oid f)"
proof -
  assume wf: "patches_wf tm"
  then have d: "distinct (map fst tm)" by (simp add: patches_wf_def)
  show ?thesis
  proof (cases "map_of tm oid")
    case None
    then show ?thesis
      by (simp add: patch_lookup_def patch_entry_merge[OF d]) (simp add: patch_lookup_def patch_entry_def)
  next
    case (Some fps)
    then have "distinct (map fst fps)" using patches_wf_entry[OF wf, of oid]
      by (simp add: patch_entry_def)
    with Some show ?thesis
      by (simp add: patch_lookup_def patch_entry_merge[OF d] map_of_merge_fields)
        (simp add: patch_lookup_def patch_entry_def map_add_def split: option.split)
  qed
qed

section \<open>The order of a HashMap does not reach the hashes\<close>

lemma sort_keys_eq:
  fixes a :: "('k::linorder \<times> 'v) list" and b :: "('k \<times> 'w) list"
  assumes "distinct (map fst a)" and "distinct (map fst b)"
    and "fst ` set a = fst ` set b"
  shows "sort (map fst a) = sort (map fst b)"
  using assms by (intro sorted_distinct_set_unique) auto

lemma field_hashes_order:
  assumes "distinct (map fst a)" and "distinct (map fst b)" and "map_of a = map_of b"
  shows "field_hashes X oid a = field_hashes X oid b"
proof -
  have "fst ` set a = fst ` set b"
    using assms(3) by (metis dom_map_of_conv_image_fst)
  with assms show ?thesis by (simp add: field_hashes_def sort_keys_eq[of a b])
qed

lemma net_patch_hashes_order:
  assumes wf: "patches_wf a" "patches_wf b"
    and dom: "fst ` set a = fst ` set b"
    and eq: "\<And>oid f. patch_lookup a oid f = patch_lookup b oid f"
  shows "net_patch_hashes X a = net_patch_hashes X b"
proof -
  have keys: "sort (map fst a) = sort (map fst b)"
    using wf dom by (intro sort_keys_eq) (auto simp: patches_wf_def)
  have same: "(case map_of a oid of None \<Rightarrow> [] | Some fm \<Rightarrow> field_hashes X oid fm) =
        (case map_of b oid of None \<Rightarrow> [] | Some fm \<Rightarrow> field_hashes X oid fm)" for oid
  proof -
    have "map_of a oid = None \<longleftrightarrow> map_of b oid = None"
      using dom by (simp add: map_of_eq_None_iff)
    moreover have "map_of (patch_entry a oid) = map_of (patch_entry b oid)"
      using eq[of oid] by (simp add: patch_lookup_def fun_eq_iff)
    then have "field_hashes X oid (patch_entry a oid) = field_hashes X oid (patch_entry b oid)"
      using wf by (intro field_hashes_order patches_wf_entry)
    ultimately show ?thesis by (auto simp: patch_entry_def split: option.splits)
  qed
  show ?thesis by (simp add: net_patch_hashes_def keys same)
qed

section \<open>Time bounds of an L0 page\<close>

text \<open>The child bounds of a page of leaves are the least and the greatest leaf timestamp.\<close>

definition leaf_bounds :: "journal_page \<Rightarrow> bool" where
  "leaf_bounds p \<longleftrightarrow>
     (\<forall>ls. content p = Leaves ls \<longrightarrow>
        first_child_ts p = (if ls = [] then None else Some (Min (leaf_timestamp ` set ls))) \<and>
        last_child_ts p = (if ls = [] then None else Some (Max (leaf_timestamp ` set ls))))"

lemma leaf_bounds_new: "leaf_bounds (new_with_id X cfg i 0 prev t)"
  by (simp add: leaf_bounds_def initial_content_def)

lemma page_add_leaf_Inr:
  "page_add_leaf p leaf = Inr q \<longleftrightarrow>
     page_level p = 0 \<and> (\<exists>ls. content p = Leaves ls \<and>
       q = p\<lparr>last_leaf_timestamp := Some (leaf_timestamp leaf),
             first_child_ts := lower_ts (first_child_ts p) (leaf_timestamp leaf),
             last_child_ts := upper_ts (last_child_ts p) (leaf_timestamp leaf),
             content := Leaves (ls @ [leaf])\<rparr>)"
  by (auto simp: page_add_leaf_def split: page_content.splits)

lemma leaf_bounds_add:
  assumes "leaf_bounds p" and "page_add_leaf p leaf = Inr q"
  shows "leaf_bounds q"
proof -
  obtain ls where ls: "content p = Leaves ls"
    and q: "content q = Leaves (ls @ [leaf])"
      "first_child_ts q = lower_ts (first_child_ts p) (leaf_timestamp leaf)"
      "last_child_ts q = upper_ts (last_child_ts p) (leaf_timestamp leaf)"
    using assms(2) by (auto simp: page_add_leaf_Inr)
  show ?thesis
  proof (cases "ls = []")
    case True
    with assms(1) ls q show ?thesis by (simp add: leaf_bounds_def lower_ts_def upper_ts_def)
  next
    case False
    define lo hi where "lo = Min (leaf_timestamp ` set ls)" and "hi = Max (leaf_timestamp ` set ls)"
    have "Min (insert (leaf_timestamp leaf) (leaf_timestamp ` set ls)) = min (leaf_timestamp leaf) lo"
      and "Max (insert (leaf_timestamp leaf) (leaf_timestamp ` set ls)) = max (leaf_timestamp leaf) hi"
      using False by (simp_all add: lo_def hi_def)
    moreover have "first_child_ts p = Some lo" and "last_child_ts p = Some hi"
      using assms(1) ls False by (simp_all add: leaf_bounds_def lo_def hi_def)
    ultimately show ?thesis
      using q by (simp del: Min_insert Max_insert add: leaf_bounds_def lower_ts_def upper_ts_def)
  qed
qed

section \<open>What the page hash covers\<close>

lemma content_hashes_same:
  assumes "page_consistent X p" and "content_hashes X c = content_hashes X (content p)"
  shows "page_consistent X (p\<lparr>content := c\<rparr>)"
  using assms by (simp add: page_consistent_iff page_hash_input_def)

definition hash_tail :: "externals \<Rightarrow> journal_page \<Rightarrow> bytes" where
  "hash_tail X p =
     opt_bytes id (prev_page_hash p) @
     opt_bytes (rfc3339 X) (first_child_ts p) @ opt_bytes (rfc3339 X) (last_child_ts p)"

lemma page_hash_input_split:
  "page_hash_input X p =
     be_bytes 8 (page_id p) @ be_bytes 1 (page_level p) @
     rfc3339 X (creation_timestamp p) @ rfc3339 X (end_time p) @
     page_merkle_root p @ hash_tail X p"
  by (simp add: page_hash_input_def hash_tail_def)

lemma page_hash_binds_root:
  assumes "page_consistent X p" and "page_consistent X q" and "page_hash p = page_hash q"
    and "page_id p = page_id q" and "page_level p = page_level q"
    and "creation_timestamp p = creation_timestamp q" and "end_time p = end_time q"
    and "is_hash (page_merkle_root p)" and "is_hash (page_merkle_root q)"
    and "inj_on (sha256 X) {page_hash_input X p, page_hash_input X q}"
  shows "page_merkle_root p = page_merkle_root q"
proof -
  have "sha256 X (page_hash_input X p) = sha256 X (page_hash_input X q)"
    using assms(1-3) by (simp add: page_consistent_iff)
  then have "page_hash_input X p = page_hash_input X q"
    by (rule inj_onD[OF assms(10)]) simp_all
  then have "page_merkle_root p @ hash_tail X p = page_merkle_root q @ hash_tail X q"
    unfolding page_hash_input_split by (simp only: assms(4-7) same_append_eq)
  then show ?thesis
    using assms(8,9) by (simp add: append_eq_same_length is_hash_def)
qed

lemma is_hash_root_of_hashes:
  assumes "\<And>x. is_hash (sha256 X x)" and "\<forall>h\<in>set hs. is_hash h"
  shows "is_hash (root_of_hashes X hs)"
proof -
  have "xs \<noteq> [] \<Longrightarrow> \<forall>h\<in>set xs. is_hash h \<Longrightarrow> is_hash (root_spec (sha256 X) xs)" for xs
  proof (induction "length xs" arbitrary: xs rule: less_induct)
    case less
    show ?case
    proof (cases "1 < length xs")
      case True
      let ?p = "pair_level (sha256 X) xs"
      have "length ?p < length xs" "?p \<noteq> []"
        using True length_pair_level[of "sha256 X" xs] by auto
      then have "is_hash (root_spec (sha256 X) ?p)"
        using less.hyps[of ?p] is_hash_pair_level[of "sha256 X" xs] assms(1) by blast
      with True show ?thesis by (simp add: root_spec.simps[of _ xs])
    next
      case False
      with less.prems show ?thesis by (cases xs) (auto simp: root_spec.simps)
    qed
  qed
  with assms(2) show ?thesis by (simp add: root_of_hashes_spec)
qed

section \<open>Properties\<close>

text \<open>
  C17: the page hash binds the content hashes. Two consistent pages with the same id,
  level, window and page hash hold the same list of item hashes when they hold equally
  many, unless SHA-256 collides on an input hashed for one of the two pages.
\<close>

theorem page_hash_binds_content:
  assumes "page_consistent X p" and "page_consistent X q" and "page_hash p = page_hash q"
    and "page_id p = page_id q" and "page_level p = page_level q"
    and "creation_timestamp p = creation_timestamp q" and "end_time p = end_time q"
    and "length (content_hashes X (content p)) = length (content_hashes X (content q))"
    and "\<forall>h\<in>set (content_hashes X (content p)) \<union> set (content_hashes X (content q)). is_hash h"
    and "\<And>x. is_hash (sha256 X x)"
    and "inj_on (sha256 X)
           ({page_hash_input X p, page_hash_input X q} \<union>
            set (tree_inputs (sha256 X) (content_hashes X (content p))) \<union>
            set (tree_inputs (sha256 X) (content_hashes X (content q))))"
  shows "content_hashes X (content p) = content_hashes X (content q)"
proof -
  let ?a = "content_hashes X (content p)" and ?b = "content_hashes X (content q)"
  have roots: "page_merkle_root p = root_of_hashes X ?a" "page_merkle_root q = root_of_hashes X ?b"
    using assms(1,2) by (simp_all add: page_consistent_iff)
  have "inj_on (sha256 X) {page_hash_input X p, page_hash_input X q}"
    by (rule inj_on_subset[OF assms(11)]) blast
  moreover have "is_hash (page_merkle_root p)" and "is_hash (page_merkle_root q)"
    using roots is_hash_root_of_hashes[OF assms(10)] assms(9) by simp_all
  ultimately have "page_merkle_root p = page_merkle_root q"
    by (intro page_hash_binds_root[OF assms(1-7)])
  moreover have "?a = [] \<longleftrightarrow> ?b = []" using assms(8) by auto
  ultimately have "?a \<noteq> [] \<Longrightarrow> root_spec (sha256 X) ?a = root_spec (sha256 X) ?b"
    using roots by (simp add: root_of_hashes_spec)
  moreover have "inj_on (sha256 X)
      (set (tree_inputs (sha256 X) ?a) \<union> set (tree_inputs (sha256 X) ?b))"
    by (rule inj_on_subset[OF assms(11)]) blast
  ultimately show ?thesis
    using root_binding[OF _ assms(8) _ _ _ assms(10)] assms(8,9) by (cases "?a = []") auto
qed

definition sample_hashing :: externals where
  "sample_hashing = sample_externals\<lparr>sha256 := sample_digest\<rparr>"

definition sample_page :: journal_page where
  "sample_page = recalculate sample_hashing
     (new_with_id sample_hashing default_config 7 1 None 0
        \<lparr>content := ThrallHashes [replicate 32 1]\<rparr>)"

definition page_with :: "page_content \<Rightarrow> journal_page" where
  "page_with c = recalculate sample_hashing (sample_page\<lparr>content := c\<rparr>)"

definition leaf_with_hash :: "hash \<Rightarrow> journal_leaf" where
  "leaf_with_hash h =
     \<lparr>leaf_id = 0, leaf_timestamp = 0, leaf_prev_hash = None, container_id = [], delta_payload = JNull,
      leaf_hash = h\<rparr>"

text \<open>
  A page of two leaves and the page of their hashes have the same page hash, so the property
  applies to them; it tells the page of the same hashes in the other order apart.
\<close>

theorem page_hash_binds_content_witness:
  "let p = page_with (Leaves [leaf_with_hash (replicate 32 1), leaf_with_hash (replicate 32 2)]);
       q = page_with (ThrallHashes [replicate 32 1, replicate 32 2]);
       r = page_with (ThrallHashes [replicate 32 2, replicate 32 1])
   in p \<noteq> q \<and> page_hash p = page_hash q \<and>
      content_hashes sample_hashing (content p) = content_hashes sample_hashing (content q) \<and>
      page_hash q \<noteq> page_hash r"
proof -
  let ?a = "replicate 32 1 :: hash" and ?b = "replicate 32 2 :: hash"
  let ?p = "page_with (Leaves [leaf_with_hash ?a, leaf_with_hash ?b])"
  let ?q = "page_with (ThrallHashes [?a, ?b])" and ?r = "page_with (ThrallHashes [?b, ?a])"
  have inputs: "tree_inputs H [x, y] = [x @ y]" for H :: "bytes \<Rightarrow> hash" and x y
    by (simp add: tree_inputs.simps)
  have roots: "root_of_hashes sample_hashing [?a, ?b] = ?a" "root_of_hashes sample_hashing [?b, ?a] = ?b"
    by (simp_all add: root_of_hashes_spec root_spec.simps sample_hashing_def sample_digest_def)
  have hash: "is_hash (sha256 sample_hashing x)" for x by (simp add: sample_hashing_def)
  have ok: "page_consistent sample_hashing (page_with c)" for c by (simp add: page_with_def)
  have same: "content (page_with c) = c" "page_id (page_with c) = 7" "page_level (page_with c) = 1"
    "creation_timestamp (page_with c) = 0" "end_time (page_with c) = end_time sample_page" for c
    by (simp_all add: page_with_def sample_page_def)
  have h: "content_hashes sample_hashing (content ?p) = [?a, ?b]"
    "content_hashes sample_hashing (content ?q) = [?a, ?b]" "content_hashes sample_hashing (content ?r) = [?b, ?a]"
    by (simp_all add: same leaf_with_hash_def)
  have input: "page_hash_input sample_hashing (page_with c) = [0, 0, 0, 0, 0, 0, 0, 7, 1, 0, of_int (end_time sample_page)] @
      root_of_hashes sample_hashing (content_hashes sample_hashing c)" for c
  proof -
    have "be_bytes 8 7 = [0, 0, 0, 0, 0, 0, 0, 7]" and "be_bytes 1 1 = [1]"
      by (simp_all add: be_bytes_def upt_conv_Cons)
    moreover have "page_merkle_root (page_with c) = root_of_hashes sample_hashing (content_hashes sample_hashing c)"
      using ok[of c] by (simp add: page_consistent_iff same)
    moreover have "prev_page_hash (page_with c) = None" "first_child_ts (page_with c) = None"
      "last_child_ts (page_with c) = None" "rfc3339 sample_hashing t = [of_int t]" for t
      by (simp_all add: page_with_def sample_page_def sample_hashing_def sample_externals_def)
    ultimately show ?thesis by (simp add: page_hash_input_def same opt_bytes_def)
  qed
  have H: "sha256 sample_hashing = sample_digest" by (simp add: sample_hashing_def)
  have inputs_of: "page_hash_input sample_hashing (page_with c) =
      [0, 0, 0, 0, 0, 0, 0, 7, 1, 0, of_int (end_time sample_page)] @ x"
    if "content_hashes sample_hashing c = xs" "root_of_hashes sample_hashing xs = x" for c x xs
    using that input by simp
  note I = inputs_of[OF h(1)[unfolded same] roots(1)] inputs_of[OF h(2)[unfolded same] roots(1)]
    inputs_of[OF h(3)[unfolded same] roots(2)]
  have pq: "page_hash_input sample_hashing ?p = page_hash_input sample_hashing ?q" using I by simp
  have repl: "replicate 32 x = x # replicate 31 x" for x :: byte
    using replicate_Suc[of 31 x] by simp
  have digests: "inj_on (sha256 sample_hashing)
      {page_hash_input sample_hashing ?q, page_hash_input sample_hashing ?r, ?a @ ?b, ?b @ ?a}"
    unfolding I H by (simp add: sample_digest_def inj_on_def repl)
  have "page_hash ?p = page_hash ?q"
    using ok[of "content ?p"] ok[of "content ?q"] I by (simp add: page_consistent_iff same)
  moreover have "content_hashes sample_hashing (content ?p) = content_hashes sample_hashing (content ?q)"
    by (rule page_hash_binds_content[OF ok ok calculation _ _ _ _ _ _ hash])
      (simp_all add: same(2-5) h inputs pq is_hash_def del: inj_on_insert, rule inj_on_subset[OF digests], blast)
  moreover have "page_hash ?q \<noteq> page_hash ?r"
  proof
    assume e: "page_hash ?q = page_hash ?r"
    have "content_hashes sample_hashing (content ?q) = content_hashes sample_hashing (content ?r)"
      by (rule page_hash_binds_content[OF ok ok e _ _ _ _ _ _ hash])
        (simp_all add: same(2-5) h inputs is_hash_def del: inj_on_insert,
          rule inj_on_subset[OF digests], blast)
    then show False by (simp add: h)
  qed
  moreover have "?p \<noteq> ?q" by (metis page_content.distinct(1) same(1))
  ultimately show ?thesis by (simp add: Let_def)
qed

text \<open>
  The iteration order of the patch maps does not reach the page hash. Two pages that
  agree except that their net patches are the same maps in a different order get the
  same Merkle root and the same page hash from \<open>recalculate_merkle_root_and_page_hash\<close>.
\<close>

theorem recalculate_ignores_map_order:
  assumes "patches_wf a" and "patches_wf b" and "fst ` set a = fst ` set b"
    and "\<forall>oid f. patch_lookup a oid f = patch_lookup b oid f"
  shows "page_hash (recalculate X (p\<lparr>content := NetPatches a\<rparr>)) =
           page_hash (recalculate X (p\<lparr>content := NetPatches b\<rparr>)) \<and>
         page_merkle_root (recalculate X (p\<lparr>content := NetPatches a\<rparr>)) =
           page_merkle_root (recalculate X (p\<lparr>content := NetPatches b\<rparr>))"
proof -
  have "content_hashes X (NetPatches a) = content_hashes X (NetPatches b)"
    using net_patch_hashes_order[OF assms(1-3)] assms(3,4) by auto
  then show ?thesis
    by (simp add: recalculate_def Let_def page_hash_input_def del: content_hashes.simps)
qed

theorem recalculate_ignores_map_order_witness:
  "page_hash (recalculate sample_hashing (sample_page
      \<lparr>content := NetPatches [(''a'', [(''x'', JNull), (''y'', JBool True)]), (''b'', [])]\<rparr>)) =
   page_hash (recalculate sample_hashing (sample_page
      \<lparr>content := NetPatches [(''b'', []), (''a'', [(''y'', JBool True), (''x'', JNull)])]\<rparr>))"
  by (rule conjunct1[OF recalculate_ignores_map_order])
    (auto simp: patches_wf_def patch_lookup_def patch_entry_def)

text \<open>
  Merging net patches is last write wins. After \<open>merge_net_patches\<close> a field of an object
  has the value of the merged patches where they set it and keeps its former value
  otherwise, and the patches of the page stay maps (distinct keys).
\<close>

theorem merge_net_patches_last_write:
  assumes "merge_net_patches p tm t = Inr q" and "content p = NetPatches ps"
    and "patches_wf tm" and "patches_wf ps"
  shows "\<exists>ps'. content q = NetPatches ps' \<and> patches_wf ps' \<and>
           (\<forall>oid f. patch_lookup ps' oid f =
              (case patch_lookup tm oid f of Some v \<Rightarrow> Some v | None \<Rightarrow> patch_lookup ps oid f))"
  using assms patch_lookup_merge[OF assms(3)] patches_wf_merge[OF assms(4)]
  by (auto simp: merge_net_patches_def split: if_splits)

theorem merge_net_patches_last_write_witness:
  "\<exists>q ps'. merge_net_patches
       (sample_page\<lparr>content := NetPatches [(''u'', [(''a'', JBool False), (''b'', JNull)])]\<rparr>)
       [(''u'', [(''a'', JBool True)])] 5 = Inr q \<and> content q = NetPatches ps' \<and>
     patch_lookup ps' ''u'' ''a'' = Some (JBool True) \<and> patch_lookup ps' ''u'' ''b'' = Some JNull"
proof -
  let ?ps = "[(''u'', [(''a'', JBool False), (''b'', JNull)])]"
  let ?p = "sample_page\<lparr>content := NetPatches ?ps\<rparr>" and ?tm = "[(''u'', [(''a'', JBool True)])]"
  obtain q where q: "merge_net_patches ?p ?tm 5 = Inr q"
    by (simp add: merge_net_patches_def sample_page_def)
  show ?thesis
    using merge_net_patches_last_write[OF q, of ?ps] q
    by (auto simp: patches_wf_def patch_lookup_def patch_entry_def)
qed

end
