(* ===== verification/Storage.thy ===== *)
theory Storage
  imports Page
begin

text \<open>
  The trait \<open>StorageBackend\<close> of \<open>src/storage/mod.rs\<close>. A trait object is a record of its
  operations over a state type; the code that holds an \<open>Arc<dyn StorageBackend>\<close> takes the
  record as an argument. The locale \<open>storage_laws\<close> is the contract its clients rely on:
  an abstraction of the state to a finite map from (level, id) to pages, and what every
  operation does to it. The operations \<open>backup_journal\<close> and \<open>restore_journal\<close>, which no
  client in the model calls through the trait object, are defined with their backends.
\<close>

section \<open>The trait\<close>

record 's storage_backend =
  store_page :: "'s \<Rightarrow> journal_page \<Rightarrow> (cj_error + unit) \<times> 's"
  load_page :: "'s \<Rightarrow> nat \<Rightarrow> nat \<Rightarrow> cj_error + journal_page option"
  page_exists :: "'s \<Rightarrow> nat \<Rightarrow> nat \<Rightarrow> cj_error + bool"
  delete_page :: "'s \<Rightarrow> nat \<Rightarrow> nat \<Rightarrow> (cj_error + unit) \<times> 's"
  list_finalized_pages_summary :: "'s \<Rightarrow> nat \<Rightarrow> cj_error + page_summary list"
  load_page_by_hash :: "'s \<Rightarrow> hash \<Rightarrow> cj_error + journal_page option"
  load_leaf_by_hash :: "'s \<Rightarrow> hash \<Rightarrow> cj_error + journal_leaf option"

type_synonym page_map = "nat \<times> nat \<Rightarrow> journal_page option"

definition pages_at :: "page_map \<Rightarrow> nat \<Rightarrow> journal_page set" where
  "pages_at m l = {p. \<exists>i. m (l, i) = Some p}"

definition keyed :: "page_map \<Rightarrow> bool" where
  "keyed m \<longleftrightarrow> (\<forall>l i p. m (l, i) = Some p \<longrightarrow> page_level p = l \<and> page_id p = i)"

definition leaves_of :: "journal_page \<Rightarrow> journal_leaf list" where
  "leaves_of p = (case content p of Leaves ls \<Rightarrow> ls | _ \<Rightarrow> [])"

section \<open>The contract\<close>

locale storage_laws =
  fixes B :: "'s storage_backend"
    and pages :: "'s \<Rightarrow> page_map"
    and good :: "'s \<Rightarrow> bool"
  assumes finite_pages: "good s \<Longrightarrow> finite (dom (pages s))"
    and keyed_pages: "good s \<Longrightarrow> keyed (pages s)"
    and store_ok: "good s \<Longrightarrow> store_page B s p = (Inr u, s') \<Longrightarrow>
          good s' \<and> pages s' = (pages s)((page_level p, page_id p) \<mapsto> p)"
    and store_err: "good s \<Longrightarrow> store_page B s p = (Inl e, s') \<Longrightarrow> good s' \<and> pages s' = pages s"
    and load_ok: "good s \<Longrightarrow> load_page B s l i = Inr (pages s (l, i))"
    and exists_ok: "good s \<Longrightarrow> page_exists B s l i = Inr (pages s (l, i) \<noteq> None)"
    and delete_ok: "good s \<Longrightarrow> delete_page B s l i = (Inr u, s') \<Longrightarrow>
          good s' \<and> pages s' = (pages s)((l, i) := None)"
    and delete_err: "good s \<Longrightarrow> delete_page B s l i = (Inl e, s') \<Longrightarrow>
          good s' \<and> pages s' = pages s"
    and list_ok: "good s \<Longrightarrow> \<exists>ss. list_finalized_pages_summary B s l = Inr ss \<and>
          distinct (map sum_page_id ss) \<and> set ss = summary_of ` pages_at (pages s) l"
    and by_hash_ok: "good s \<Longrightarrow> \<exists>r. load_page_by_hash B s h = Inr r \<and>
          (case r of None \<Rightarrow> \<forall>p\<in>ran (pages s). page_hash p \<noteq> h
           | Some p \<Rightarrow> p \<in> ran (pages s) \<and> page_hash p = h)"
    and by_leaf_ok: "good s \<Longrightarrow> \<exists>r. load_leaf_by_hash B s h = Inr r \<and>
          (case r of None \<Rightarrow> \<forall>p\<in>pages_at (pages s) 0. \<forall>x\<in>set (leaves_of p). leaf_hash x \<noteq> h
           | Some x \<Rightarrow> leaf_hash x = h \<and> (\<exists>p\<in>pages_at (pages s) 0. x \<in> set (leaves_of p)))"
begin

lemma load_after_store:
  "good s \<Longrightarrow> store_page B s p = (Inr u, s') \<Longrightarrow>
     load_page B s' (page_level p) (page_id p) = Inr (Some p)"
  by (frule (1) store_ok) (simp add: load_ok)

lemma load_other_after_store:
  "good s \<Longrightarrow> store_page B s p = (Inr u, s') \<Longrightarrow> (l, i) \<noteq> (page_level p, page_id p) \<Longrightarrow>
     load_page B s' l i = load_page B s l i"
  by (frule (1) store_ok) (auto simp: load_ok)

lemma by_hash_after_store:
  assumes "good s" and "store_page B s p = (Inr u, s')"
  obtains q where "load_page_by_hash B s' (page_hash p) = Inr (Some q)"
    and "q \<in> ran (pages s')" and "page_hash q = page_hash p"
proof -
  from store_ok[OF assms] have s': "good s'" and p: "p \<in> ran (pages s')"
    by (auto simp: ran_def)
  obtain r where r: "load_page_by_hash B s' (page_hash p) = Inr r"
    and cases: "case r of None \<Rightarrow> \<forall>x\<in>ran (pages s'). page_hash x \<noteq> page_hash p
           | Some x \<Rightarrow> x \<in> ran (pages s') \<and> page_hash x = page_hash p"
    using by_hash_ok[OF s'] by blast
  show ?thesis using that r cases p by (cases r) auto
qed

lemma list_summaries:
  assumes "good s"
  obtains ss where "list_finalized_pages_summary B s l = Inr ss"
    and "distinct (map sum_page_id ss)"
    and "\<And>x. x \<in> set ss \<longleftrightarrow> (\<exists>p. pages s (l, sum_page_id x) = Some p \<and> x = summary_of p)"
proof -
  obtain ss where ss: "list_finalized_pages_summary B s l = Inr ss"
    "distinct (map sum_page_id ss)" "set ss = summary_of ` pages_at (pages s) l"
    using list_ok[OF assms] by blast
  have "x \<in> set ss \<longleftrightarrow> (\<exists>p. pages s (l, sum_page_id x) = Some p \<and> x = summary_of p)" for x
    using ss(3) keyed_pages[OF assms]
    by (auto simp: pages_at_def keyed_def summary_of_def)
  with ss(1,2) show ?thesis by (rule that)
qed

lemma store_result:
  assumes "good s"
  shows "good (snd (store_page B s p)) \<and>
    pages (snd (store_page B s p)) =
     (case fst (store_page B s p) of
        Inl e \<Rightarrow> pages s
      | Inr u \<Rightarrow> (pages s)((page_level p, page_id p) \<mapsto> p))"
proof (cases "store_page B s p")
  case (Pair r s')
  then show ?thesis
    using store_ok[OF assms, of p _ s'] store_err[OF assms, of p _ s'] by (cases r) simp_all
qed

lemma delete_result:
  assumes "good s"
  shows "good (snd (delete_page B s l i)) \<and>
    pages (snd (delete_page B s l i)) =
     (case fst (delete_page B s l i) of Inl e \<Rightarrow> pages s | Inr u \<Rightarrow> (pages s)((l, i) := None))"
proof (cases "delete_page B s l i")
  case (Pair r s')
  then show ?thesis
    using delete_ok[OF assms, of l i _ s'] delete_err[OF assms, of l i _ s'] by (cases r) simp_all
qed

end

text \<open>A backend on which, while \<open>reliable\<close> holds of its state, writing never fails.\<close>

locale reliable_storage = storage_laws +
  fixes reliable :: "'a \<Rightarrow> bool"
  assumes store_total: "good s \<Longrightarrow> reliable s \<Longrightarrow> \<exists>s'. store_page B s p = (Inr (), s') \<and> reliable s'"
    and delete_total: "good s \<Longrightarrow> reliable s \<Longrightarrow> \<exists>s'. delete_page B s l i = (Inr (), s') \<and> reliable s'"
begin

lemma store_total_pages:
  assumes "good s" and "reliable s"
  obtains s' where "store_page B s p = (Inr (), s')" and "good s'" and "reliable s'"
    and "pages s' = (pages s)((page_level p, page_id p) \<mapsto> p)"
proof -
  obtain s' where s': "store_page B s p = (Inr (), s')" "reliable s'"
    using store_total[OF assms] by blast
  with store_ok[OF assms(1) s'(1)] show ?thesis by (blast intro: that)
qed

lemma delete_total_pages:
  assumes "good s" and "reliable s"
  obtains s' where "delete_page B s l i = (Inr (), s')" and "good s'" and "reliable s'"
    and "pages s' = (pages s)((l, i) := None)"
proof -
  obtain s' where s': "delete_page B s l i = (Inr (), s')" "reliable s'"
    using delete_total[OF assms] by blast
  with delete_ok[OF assms(1) s'(1)] show ?thesis by (blast intro: that)
qed

end

end
