(* ===== verification/Memory_Storage.thy ===== *)
theory Memory_Storage
  imports Storage
begin

text \<open>
  The in-memory backend of \<open>src/storage/memory.rs\<close>. The \<open>DashMap\<close> is an association list
  with distinct keys; its order is the iteration order the scans see.
\<close>

section \<open>Definitions\<close>

record memory_storage =
  mem_pages :: "((nat \<times> nat) \<times> journal_page) list"
  fail_on_store_for :: "(nat \<times> nat option) option"

definition mem_new :: memory_storage where
  "mem_new = \<lparr>mem_pages = [], fail_on_store_for = None\<rparr>"

definition set_fail_on_store :: "memory_storage \<Rightarrow> nat \<Rightarrow> nat option \<Rightarrow> memory_storage" where
  "set_fail_on_store s l pid = s\<lparr>fail_on_store_for := Some (l, pid)\<rparr>"

definition clear_fail_on_store :: "memory_storage \<Rightarrow> memory_storage" where
  "clear_fail_on_store s = s\<lparr>fail_on_store_for := None\<rparr>"

definition mem_is_empty :: "memory_storage \<Rightarrow> bool" where
  "mem_is_empty s \<longleftrightarrow> mem_pages s = []"

definition mem_clear :: "memory_storage \<Rightarrow> memory_storage" where
  "mem_clear s = s\<lparr>mem_pages := []\<rparr>"

definition mem_store_page ::
  "memory_storage \<Rightarrow> journal_page \<Rightarrow> (cj_error + unit) \<times> memory_storage" where
  "mem_store_page s p =
     (let fails = (case fail_on_store_for s of
                     None \<Rightarrow> False
                   | Some (fail_level, maybe_id) \<Rightarrow>
                       page_level p = fail_level \<and>
                       (case maybe_id of None \<Rightarrow> True | Some fail_id \<Rightarrow> page_id p = fail_id))
      in if fails then (Inl StorageError, s)
         else (Inr (), s\<lparr>mem_pages := AList.update (page_level p, page_id p) p (mem_pages s)\<rparr>))"

definition mem_load_page :: "memory_storage \<Rightarrow> nat \<Rightarrow> nat \<Rightarrow> cj_error + journal_page option" where
  "mem_load_page s l i = Inr (map_of (mem_pages s) (l, i))"

definition mem_page_exists :: "memory_storage \<Rightarrow> nat \<Rightarrow> nat \<Rightarrow> cj_error + bool" where
  "mem_page_exists s l i = Inr (map_of (mem_pages s) (l, i) \<noteq> None)"

definition mem_delete_page ::
  "memory_storage \<Rightarrow> nat \<Rightarrow> nat \<Rightarrow> (cj_error + unit) \<times> memory_storage" where
  "mem_delete_page s l i = (Inr (), s\<lparr>mem_pages := AList.delete (l, i) (mem_pages s)\<rparr>)"

definition mem_list_summaries :: "memory_storage \<Rightarrow> nat \<Rightarrow> cj_error + page_summary list" where
  "mem_list_summaries s l =
     Inr (sort_key sum_page_id
       (map (summary_of \<circ> snd) (filter (\<lambda>(k, p). fst k = l) (mem_pages s))))"

fun first_with_hash :: "((nat \<times> nat) \<times> journal_page) list \<Rightarrow> hash \<Rightarrow> journal_page option" where
  "first_with_hash [] h = None"
| "first_with_hash ((k, p) # es) h = (if page_hash p = h then Some p else first_with_hash es h)"

definition mem_load_page_by_hash ::
  "memory_storage \<Rightarrow> hash \<Rightarrow> cj_error + journal_page option" where
  "mem_load_page_by_hash s h = Inr (first_with_hash (mem_pages s) h)"

fun first_leaf :: "((nat \<times> nat) \<times> journal_page) list \<Rightarrow> hash \<Rightarrow> journal_leaf option" where
  "first_leaf [] h = None"
| "first_leaf ((k, p) # es) h =
     (case (if page_level p = 0 then List.find (\<lambda>x. leaf_hash x = h) (leaves_of p) else None) of
        Some x \<Rightarrow> Some x
      | None \<Rightarrow> first_leaf es h)"

definition mem_load_leaf_by_hash ::
  "memory_storage \<Rightarrow> hash \<Rightarrow> cj_error + journal_leaf option" where
  "mem_load_leaf_by_hash s h = Inr (first_leaf (mem_pages s) h)"

text \<open>\<open>backup_journal\<close> is a no-op, \<open>restore_journal\<close> is refused.\<close>

definition mem_backup_journal :: "memory_storage \<Rightarrow> string \<Rightarrow> (cj_error + unit) \<times> memory_storage" where
  "mem_backup_journal s backup_path = (Inr (), s)"

definition mem_restore_journal ::
  "memory_storage \<Rightarrow> string \<Rightarrow> string \<Rightarrow> (cj_error + unit) \<times> memory_storage" where
  "mem_restore_journal s backup_path target_journal_dir = (Inl cj_not_supported, s)"

definition memory_backend :: "memory_storage storage_backend" where
  "memory_backend =
     \<lparr>store_page = mem_store_page,
      load_page = mem_load_page,
      page_exists = mem_page_exists,
      delete_page = mem_delete_page,
      list_finalized_pages_summary = mem_list_summaries,
      load_page_by_hash = mem_load_page_by_hash,
      load_leaf_by_hash = mem_load_leaf_by_hash\<rparr>"

lemma memory_backend_simps [simp]:
  "store_page memory_backend = mem_store_page"
  "load_page memory_backend = mem_load_page"
  "page_exists memory_backend = mem_page_exists"
  "delete_page memory_backend = mem_delete_page"
  "list_finalized_pages_summary memory_backend = mem_list_summaries"
  "load_page_by_hash memory_backend = mem_load_page_by_hash"
  "load_leaf_by_hash memory_backend = mem_load_leaf_by_hash"
  by (simp_all add: memory_backend_def)

section \<open>The backend keeps the contract\<close>

definition mem_view :: "memory_storage \<Rightarrow> page_map" where
  "mem_view s = map_of (mem_pages s)"

definition mem_good :: "memory_storage \<Rightarrow> bool" where
  "mem_good s \<longleftrightarrow> distinct (map fst (mem_pages s)) \<and> keyed (mem_view s)"

lemma mem_good_new: "mem_good mem_new"
  by (simp add: mem_good_def mem_new_def mem_view_def keyed_def)

lemma mem_view_entry:
  "mem_good s \<Longrightarrow> (k, p) \<in> set (mem_pages s) \<longleftrightarrow> mem_view s k = Some p"
  by (simp add: mem_good_def mem_view_def)

lemma mem_store_Inr:
  "mem_store_page s p = (Inr u, s') \<Longrightarrow>
     s' = s\<lparr>mem_pages := AList.update (page_level p, page_id p) p (mem_pages s)\<rparr>"
  by (auto simp: mem_store_page_def Let_def split: if_splits)

lemma mem_store_good:
  assumes "mem_good s" and "mem_store_page s p = (Inr u, s')"
  shows "mem_good s' \<and> mem_view s' = (mem_view s)((page_level p, page_id p) \<mapsto> p)"
  using assms(1) mem_store_Inr[OF assms(2)]
  by (auto simp: mem_good_def mem_view_def keyed_def)

lemma mem_delete_good:
  "mem_good s \<Longrightarrow> mem_delete_page s l i = (Inr u, s') \<Longrightarrow>
     mem_good s' \<and> mem_view s' = (mem_view s)((l, i) := None)"
  by (auto simp: mem_delete_page_def mem_good_def mem_view_def keyed_def split: if_splits)

lemma first_with_hash_spec:
  "case first_with_hash es h of
     None \<Rightarrow> \<forall>p\<in>snd ` set es. page_hash p \<noteq> h
   | Some p \<Rightarrow> p \<in> snd ` set es \<and> page_hash p = h"
  by (induction es h rule: first_with_hash.induct) (auto split: option.splits simp: rev_image_eqI, force)

lemma first_leaf_spec:
  "case first_leaf es h of
     None \<Rightarrow> \<forall>p\<in>snd ` set es. page_level p = 0 \<longrightarrow> (\<forall>x\<in>set (leaves_of p). leaf_hash x \<noteq> h)
   | Some x \<Rightarrow> leaf_hash x = h \<and>
       (\<exists>p\<in>snd ` set es. page_level p = 0 \<and> x \<in> set (leaves_of p))"
proof (induction es h rule: first_leaf.induct)
  case (2 k p es h)
  let ?r = "if page_level p = 0 then List.find (\<lambda>x. leaf_hash x = h) (leaves_of p) else None"
  show ?case
  proof (cases ?r)
    case None
    then have "page_level p = 0 \<longrightarrow> (\<forall>x\<in>set (leaves_of p). leaf_hash x \<noteq> h)"
      by (auto simp: find_None_iff split: if_splits)
    with 2[OF None] None show ?thesis by (auto split: option.splits)
  next
    case (Some y)
    then have "page_level p = 0" "y \<in> set (leaves_of p)" "leaf_hash y = h"
      by (auto simp: find_Some_iff split: if_splits)
    with Some show ?thesis by auto
  qed
qed simp

lemma mem_ran: "mem_good s \<Longrightarrow> ran (mem_view s) = snd ` set (mem_pages s)"
  by (auto simp: mem_good_def mem_view_def ran_distinct)

lemma mem_in_pages_at:
  "mem_good s \<Longrightarrow> p \<in> pages_at (mem_view s) l \<longleftrightarrow> (\<exists>i. ((l, i), p) \<in> set (mem_pages s))"
  by (simp add: pages_at_def mem_view_entry)

lemma mem_entry_key:
  assumes "mem_good s" and "(k, p) \<in> set (mem_pages s)"
  shows "k = (page_level p, page_id p)"
proof -
  have "mem_view s (fst k, snd k) = Some p" and "keyed (mem_view s)"
    using assms by (simp_all add: mem_view_entry mem_good_def)
  then show ?thesis unfolding keyed_def by (cases k) fastforce
qed

lemma mem_in_pages_at_level:
  assumes "mem_good s"
  shows "p \<in> pages_at (mem_view s) l \<longleftrightarrow> p \<in> snd ` set (mem_pages s) \<and> page_level p = l"
proof
  assume "p \<in> pages_at (mem_view s) l"
  then obtain i where "((l, i), p) \<in> set (mem_pages s)" using assms by (auto simp: mem_in_pages_at)
  with mem_entry_key[OF assms this] show "p \<in> snd ` set (mem_pages s) \<and> page_level p = l"
    by (auto intro: rev_image_eqI)
next
  assume r: "p \<in> snd ` set (mem_pages s) \<and> page_level p = l"
  then obtain k where k: "(k, p) \<in> set (mem_pages s)" by auto
  with mem_entry_key[OF assms k] r show "p \<in> pages_at (mem_view s) l"
    using assms by (auto simp: mem_in_pages_at)
qed

lemma mem_list_set:
  assumes "mem_good s"
  shows "(\<lambda>x. summary_of (snd x)) ` {x \<in> set (mem_pages s). fst (fst x) = l} =
     summary_of ` pages_at (mem_view s) l"
  using assms by (force simp: mem_in_pages_at image_iff)

lemma mem_list_distinct:
  assumes "mem_good s"
  shows "distinct (map (page_id \<circ> snd) (filter (\<lambda>(k, p). fst k = l) (mem_pages s)))"
proof -
  let ?es = "filter (\<lambda>(k, p). fst k = l) (mem_pages s)"
  have keys: "distinct (map fst ?es)" and e: "x \<in> set ?es \<Longrightarrow> fst x = (l, page_id (snd x))" for x
    using assms mem_entry_key[OF assms] by (auto simp: mem_good_def distinct_map_filter)
  have "map fst ?es = map (Pair l) (map (page_id \<circ> snd) ?es)"
    using e by (simp del: set_filter)
  with keys show ?thesis by (metis distinct_map)
qed

lemma mem_list_ok:
  assumes "mem_good s"
  shows "\<exists>ss. mem_list_summaries s l = Inr ss \<and> distinct (map sum_page_id ss) \<and>
           set ss = summary_of ` pages_at (mem_view s) l"
proof -
  let ?ss = "map (summary_of \<circ> snd) (filter (\<lambda>(k, p). fst k = l) (mem_pages s))"
  have id: "sum_page_id \<circ> (summary_of \<circ> snd) = page_id \<circ> (snd :: (nat \<times> nat) \<times> _ \<Rightarrow> _)"
    by (simp add: fun_eq_iff summary_of_def)
  have "distinct (map sum_page_id ?ss)"
    unfolding map_map id by (rule mem_list_distinct[OF assms])
  then have "distinct ?ss \<and> inj_on sum_page_id (set ?ss)"
    by (simp only: distinct_map[of sum_page_id])
  then have "distinct (map sum_page_id (sort_key sum_page_id ?ss))"
    by (simp only: distinct_map[of sum_page_id] distinct_sort set_sort)
  moreover have "set ?ss = summary_of ` pages_at (mem_view s) l"
    using mem_list_set[OF assms, of l] by (auto simp: split_def)
  ultimately show ?thesis by (simp add: mem_list_summaries_def)
qed

lemma mem_by_hash_ok:
  assumes "mem_good s"
  shows "\<exists>r. mem_load_page_by_hash s h = Inr r \<and>
           (case r of None \<Rightarrow> \<forall>p\<in>ran (mem_view s). page_hash p \<noteq> h
            | Some p \<Rightarrow> p \<in> ran (mem_view s) \<and> page_hash p = h)"
  using first_with_hash_spec[of "mem_pages s" h]
  unfolding mem_load_page_by_hash_def mem_ran[OF assms] by blast

lemma mem_by_leaf_ok:
  assumes "mem_good s"
  shows "\<exists>r. mem_load_leaf_by_hash s h = Inr r \<and>
           (case r of None \<Rightarrow> \<forall>p\<in>pages_at (mem_view s) 0. \<forall>x\<in>set (leaves_of p). leaf_hash x \<noteq> h
            | Some x \<Rightarrow> leaf_hash x = h \<and> (\<exists>p\<in>pages_at (mem_view s) 0. x \<in> set (leaves_of p)))"
proof -
  have "pages_at (mem_view s) 0 = {p \<in> snd ` set (mem_pages s). page_level p = 0}"
    using mem_in_pages_at_level[OF assms] by blast
  with first_leaf_spec[of "mem_pages s" h] show ?thesis
    by (cases "first_leaf (mem_pages s) h") (auto simp: mem_load_leaf_by_hash_def)
qed

definition mem_reliable :: "memory_storage \<Rightarrow> bool" where
  "mem_reliable s \<longleftrightarrow> fail_on_store_for s = None"

interpretation mem: reliable_storage memory_backend mem_view mem_good mem_reliable
proof (unfold_locales, unfold memory_backend_simps)
  show "mem_good s \<Longrightarrow> finite (dom (mem_view s))" for s by (simp add: mem_view_def finite_dom_map_of)
  show "mem_good s \<Longrightarrow> keyed (mem_view s)" for s by (simp add: mem_good_def)
  show "mem_good s \<Longrightarrow> mem_load_page s l i = Inr (mem_view s (l, i))" for s l i
    by (simp add: mem_load_page_def mem_view_def)
  show "mem_good s \<Longrightarrow> mem_page_exists s l i = Inr (mem_view s (l, i) \<noteq> None)" for s l i
    by (simp add: mem_page_exists_def mem_view_def)
  show "mem_good s \<Longrightarrow> mem_store_page s p = (Inl e, s') \<Longrightarrow>
      mem_good s' \<and> mem_view s' = mem_view s" for s p e s'
    by (simp add: mem_store_page_def Let_def split: if_splits)
  show "mem_delete_page s l i = (Inl e, s') \<Longrightarrow> mem_good s' \<and> mem_view s' = mem_view s"
    for s l i e s'
    by (simp add: mem_delete_page_def)
  show "mem_reliable s \<Longrightarrow> \<exists>s'. mem_store_page s p = (Inr (), s') \<and> mem_reliable s'" for s p
    by (simp add: mem_store_page_def mem_reliable_def)
  show "mem_reliable s \<Longrightarrow> \<exists>s'. mem_delete_page s l i = (Inr (), s') \<and> mem_reliable s'" for s l i
    by (simp add: mem_delete_page_def mem_reliable_def)
qed (rule mem_store_good mem_delete_good mem_list_ok mem_by_hash_ok mem_by_leaf_ok; assumption)+

section \<open>Histories of operations\<close>

text \<open>
  The state-changing operations of the backend as data, and the map the backend promises to
  be after a history of them.
\<close>

datatype mem_op =
    MStore journal_page
  | MDelete nat nat
  | MClear
  | MSetFail nat "nat option"
  | MClearFail

fun mem_step :: "memory_storage \<Rightarrow> mem_op \<Rightarrow> memory_storage" where
  "mem_step s (MStore p) = snd (mem_store_page s p)"
| "mem_step s (MDelete l i) = snd (mem_delete_page s l i)"
| "mem_step s MClear = mem_clear s"
| "mem_step s (MSetFail l pid) = set_fail_on_store s l pid"
| "mem_step s MClearFail = clear_fail_on_store s"

text \<open>The specification: the last successful store of a key not deleted since.\<close>

definition refuses :: "(nat \<times> nat option) option \<Rightarrow> journal_page \<Rightarrow> bool" where
  "refuses f p \<longleftrightarrow> f = Some (page_level p, None) \<or> f = Some (page_level p, Some (page_id p))"

fun spec_step :: "page_map \<times> (nat \<times> nat option) option \<Rightarrow> mem_op \<Rightarrow>
    page_map \<times> (nat \<times> nat option) option" where
  "spec_step (m, f) (MStore p) =
     (if refuses f p then m else m((page_level p, page_id p) \<mapsto> p), f)"
| "spec_step (m, f) (MDelete l i) = (m((l, i) := None), f)"
| "spec_step (m, f) MClear = (Map.empty, f)"
| "spec_step (m, f) (MSetFail l pid) = (m, Some (l, pid))"
| "spec_step (m, f) MClearFail = (m, None)"

lemma mem_store_cases:
  "mem_store_page s p =
     (if refuses (fail_on_store_for s) p then (Inl StorageError, s)
      else (Inr (), s\<lparr>mem_pages := AList.update (page_level p, page_id p) p (mem_pages s)\<rparr>))"
  by (auto simp: mem_store_page_def refuses_def Let_def split: option.splits)

lemma mem_step_spec:
  "(mem_view (mem_step s op'), fail_on_store_for (mem_step s op')) =
     spec_step (mem_view s, fail_on_store_for s) op'"
  by (cases op') (simp_all add: mem_store_cases mem_delete_page_def mem_clear_def mem_view_def
      set_fail_on_store_def clear_fail_on_store_def)

lemma mem_step_good: "mem_good s \<Longrightarrow> mem_good (mem_step s op')"
  using mem.store_result[of s] mem_delete_good[of s]
  by (cases op') (auto simp: mem_delete_page_def mem_clear_def set_fail_on_store_def
      clear_fail_on_store_def mem_good_def mem_view_def keyed_def)

lemma mem_history:
  "mem_good (foldl mem_step mem_new ops)"
  "(mem_view (foldl mem_step mem_new ops), fail_on_store_for (foldl mem_step mem_new ops)) =
     foldl spec_step (Map.empty, None) ops"
  by (induction ops rule: rev_induct)
    (simp_all add: mem_good_new mem_step_good mem_step_spec, simp add: mem_new_def mem_view_def)

section \<open>Properties\<close>

text \<open>
  C19: the memory backend is a map. After any history of stores (with injected failures),
  deletions and clears, \<open>load_page\<close> returns the page the specification holds for the key,
  \<open>page_exists\<close> says whether there is one, and \<open>list_finalized_pages_summary\<close> returns, in
  strictly increasing id order, exactly the summaries of the pages of the level.
\<close>

theorem memory_storage_refines_map:
  "let s = foldl mem_step mem_new ops; m = fst (foldl spec_step (Map.empty, None) ops) in
     mem_load_page s l i = Inr (m (l, i)) \<and>
     mem_page_exists s l i = Inr (m (l, i) \<noteq> None) \<and>
     (\<exists>ss. mem_list_summaries s l = Inr ss \<and> sorted_wrt (<) (map sum_page_id ss) \<and>
        set ss = summary_of ` pages_at m l)"
proof -
  let ?s = "foldl mem_step mem_new ops"
  have m: "fst (foldl spec_step (Map.empty, None) ops) = mem_view ?s"
    by (metis fst_conv mem_history(2))
  obtain ss where ss: "mem_list_summaries ?s l = Inr ss" "distinct (map sum_page_id ss)"
    "set ss = summary_of ` pages_at (mem_view ?s) l"
    using mem_list_ok[OF mem_history(1)] by blast
  moreover have "sorted (map sum_page_id ss)"
    using ss(1) by (auto simp: mem_list_summaries_def)
  ultimately show ?thesis
    using mem.load_ok[OF mem_history(1)] mem.exists_ok[OF mem_history(1)]
    by (simp add: m strict_sorted_iff)
qed

end
