(* ===== verification/File_Storage.thy ===== *)
theory File_Storage
  imports Memory_Storage
begin

text \<open>
  The file backend of \<open>src/storage/file.rs\<close>: page file names, the six-byte header, the
  compression dispatch, the directory scans, backup and restore.

  The file system below \<open>base_path\<close> is an association list of files and a list of
  directories, both by path relative to \<open>base_path\<close>; their order is the order \<open>read_dir\<close>
  yields. \<open>write_denied\<close> is the set of paths the operating system refuses to create, write
  or remove; reads do not fail by themselves, and a write is all or nothing. The
  compression crates and the JSON serialisation of a page are parameters, collected in the
  record \<open>codecs\<close>; \<open>codecs_ok\<close> states that decoding inverts encoding, and that only
  values of the machine types are serialised (\<open>page_id\<close> is a \<open>u64\<close>, \<open>level\<close> a \<open>u8\<close>).
\<close>

section \<open>Definitions\<close>

subsection \<open>Third-party codecs\<close>

record codecs =
  page_to_vec :: "journal_page \<Rightarrow> bytes option"
  page_from_slice :: "bytes \<Rightarrow> journal_page option"
  zstd_encode :: "nat \<Rightarrow> bytes \<Rightarrow> bytes option"
  zstd_decode :: "bytes \<Rightarrow> bytes option"
  lz4_compress :: "bytes \<Rightarrow> bytes"
  lz4_decompress :: "bytes \<Rightarrow> bytes option"
  snappy_compress :: "bytes \<Rightarrow> bytes option"
  snappy_decompress :: "bytes \<Rightarrow> bytes option"

definition codecs_ok :: "codecs \<Rightarrow> bool" where
  "codecs_ok C \<longleftrightarrow>
     (\<forall>p bs. page_to_vec C p = Some bs \<longrightarrow>
        page_from_slice C bs = Some p \<and> page_id p < 2 ^ 64 \<and> page_level p < 256) \<and>
     (\<forall>l x y. zstd_encode C l x = Some y \<longrightarrow> zstd_decode C y = Some x) \<and>
     (\<forall>x. lz4_decompress C (lz4_compress C x) = Some x) \<and>
     (\<forall>x y. snappy_compress C x = Some y \<longrightarrow> snappy_decompress C y = Some x)"

subsection \<open>File names\<close>

type_synonym path = "string list"

definition digit_char :: "nat \<Rightarrow> char" where
  "digit_char d = char_of (48 + d)"

definition char_digit :: "char \<Rightarrow> nat" where
  "char_digit c = of_char c - 48"

definition is_digit :: "char \<Rightarrow> bool" where
  "is_digit c \<longleftrightarrow> 48 \<le> (of_char c :: nat) \<and> (of_char c :: nat) \<le> 57"

fun dec_digits :: "nat \<Rightarrow> string" where
  "dec_digits n =
     (if n < 10 then [digit_char n] else dec_digits (n div 10) @ [digit_char (n mod 10)])"

declare dec_digits.simps [simp del]

definition digits_value :: "string \<Rightarrow> nat" where
  "digits_value s = foldl (\<lambda>v c. v * 10 + char_digit c) 0 s"

text \<open>\<open>str::parse::<u64>\<close>: an optional plus sign, decimal digits, no overflow.\<close>

definition parse_u64 :: "string \<Rightarrow> nat option" where
  "parse_u64 s =
     (let ds = (case s of c # cs \<Rightarrow> if c = CHR ''+'' then cs else s | [] \<Rightarrow> [])
      in if ds \<noteq> [] \<and> (\<forall>c\<in>set ds. is_digit c) \<and> digits_value ds < 2 ^ 64
         then Some (digits_value ds) else None)"

definition page_stem :: "nat \<Rightarrow> string" where
  "page_stem i = ''page_'' @ replicate (8 - length (dec_digits i)) (CHR ''0'') @ dec_digits i"

definition page_file_name :: "nat \<Rightarrow> string" where
  "page_file_name i = page_stem i @ ''.cjt''"

definition level_dir :: "nat \<Rightarrow> path" where
  "level_dir l = [''journal'', ''level_'' @ dec_digits l]"

definition page_path :: "nat \<Rightarrow> nat \<Rightarrow> path" where
  "page_path l i = level_dir l @ [page_file_name i]"

text \<open>\<open>Path::file_stem\<close> and \<open>Path::extension\<close> of a file name.\<close>

definition split_ext :: "string \<Rightarrow> string \<times> string option" where
  "split_ext name =
     (case dropWhile (\<lambda>c. c \<noteq> CHR ''.'') (rev name) of
        [] \<Rightarrow> (name, None)
      | _ # before \<Rightarrow>
          if before = [] then (name, None)
          else (rev before, Some (rev (takeWhile (\<lambda>c. c \<noteq> CHR ''.'') (rev name)))))"

text \<open>\<open>trim_start_matches("page_")\<close>.\<close>

function trim_page :: "string \<Rightarrow> string" where
  "trim_page s = (if take 5 s = ''page_'' then trim_page (drop 5 s) else s)"
  by pat_completeness auto
termination
proof (relation "measure length", goal_cases)
  case (2 s)
  then show ?case by (cases s) auto
qed simp

declare trim_page.simps [simp del]

definition starts_with :: "string \<Rightarrow> string \<Rightarrow> bool" where
  "starts_with s pre \<longleftrightarrow> take (length pre) s = pre"

subsection \<open>The page file format\<close>

definition magic_string :: bytes where
  "magic_string = [0x43, 0x4A, 0x54, 0x50]"

definition format_version :: byte where
  "format_version = 1"

fun compression_algorithm_to_u8 :: "compression_algorithm \<Rightarrow> byte" where
  "compression_algorithm_to_u8 NoCompression = 0"
| "compression_algorithm_to_u8 Zstd = 1"
| "compression_algorithm_to_u8 Lz4 = 2"
| "compression_algorithm_to_u8 Snappy = 3"

definition u8_to_compression_algorithm :: "byte \<Rightarrow> cj_error + compression_algorithm" where
  "u8_to_compression_algorithm v =
     (if v = 0 then Inr NoCompression
      else if v = 1 then Inr Zstd
      else if v = 2 then Inr Lz4
      else if v = 3 then Inr Snappy
      else Inl InvalidFileFormat)"

definition compress_page ::
  "codecs \<Rightarrow> compression_config \<Rightarrow> bytes \<Rightarrow> cj_error + (bytes \<times> compression_algorithm)" where
  "compress_page C cfg ser =
     (if compression_enabled cfg then
        (case algorithm cfg of
           Zstd \<Rightarrow> (case zstd_encode C (compression_level cfg) ser of
                     None \<Rightarrow> Inl CompressionError | Some d \<Rightarrow> Inr (d, Zstd))
         | Lz4 \<Rightarrow> Inr (lz4_compress C ser, Lz4)
         | Snappy \<Rightarrow> (case snappy_compress C ser of
                     None \<Rightarrow> Inl CompressionError | Some d \<Rightarrow> Inr (d, Snappy))
         | NoCompression \<Rightarrow> Inr (ser, NoCompression))
      else Inr (ser, NoCompression))"

definition file_content :: "bytes \<Rightarrow> compression_algorithm \<Rightarrow> bytes" where
  "file_content data algo =
     magic_string @ [format_version] @ [compression_algorithm_to_u8 algo] @ data"

fun decompress :: "codecs \<Rightarrow> compression_algorithm \<Rightarrow> bytes \<Rightarrow> bytes option" where
  "decompress C Zstd data = zstd_decode C data"
| "decompress C Lz4 data = lz4_decompress C data"
| "decompress C Snappy data = snappy_decompress C data"
| "decompress C NoCompression data = Some data"

definition decode_file :: "codecs \<Rightarrow> bytes \<Rightarrow> cj_error + journal_page" where
  "decode_file C file_data =
     (if length file_data < 6 then Inl InvalidFileFormat
      else if take 4 file_data \<noteq> magic_string then Inl InvalidFileFormat
      else if file_data ! 4 \<noteq> format_version then Inl InvalidFileFormat
      else try_pure (u8_to_compression_algorithm (file_data ! 5)) (\<lambda>header_algo.
        case decompress C header_algo (drop 6 file_data) of
          None \<Rightarrow> Inl DecompressionError
        | Some ser \<Rightarrow> (case page_from_slice C ser of None \<Rightarrow> Inl SerdeJson | Some p \<Rightarrow> Inr p)))"

subsection \<open>The file system\<close>

record file_storage =
  fs_files :: "(path \<times> bytes) list"
  fs_dirs :: "path list"
  fs_compression :: compression_config
  write_denied :: "path \<Rightarrow> bool"

definition is_file :: "file_storage \<Rightarrow> path \<Rightarrow> bool" where
  "is_file s q \<longleftrightarrow> map_of (fs_files s) q \<noteq> None"

definition is_dir :: "file_storage \<Rightarrow> path \<Rightarrow> bool" where
  "is_dir s q \<longleftrightarrow> q = [] \<or> q \<in> set (fs_dirs s)"

definition fs_exists :: "file_storage \<Rightarrow> path \<Rightarrow> bool" where
  "fs_exists s q \<longleftrightarrow> is_file s q \<or> is_dir s q"

text \<open>The directories \<open>create_dir_all\<close> creates, outermost first.\<close>

fun make_dirs :: "file_storage \<Rightarrow> path list \<Rightarrow> (cj_error + unit) \<times> file_storage" where
  "make_dirs s [] = (Inr (), s)"
| "make_dirs s (q # qs) =
     (if is_dir s q then make_dirs s qs
      else if is_file s q \<or> write_denied s q then (Inl StorageError, s)
      else make_dirs (s\<lparr>fs_dirs := fs_dirs s @ [q]\<rparr>) qs)"

definition create_dir_all :: "file_storage \<Rightarrow> path \<Rightarrow> (cj_error + unit) \<times> file_storage" where
  "create_dir_all s q = make_dirs s (map (\<lambda>n. take (Suc n) q) [0..<length q])"

definition write_file :: "file_storage \<Rightarrow> path \<Rightarrow> bytes \<Rightarrow> (cj_error + unit) \<times> file_storage" where
  "write_file s q data =
     (if is_dir s q \<or> \<not> is_dir s (butlast q) \<or> write_denied s q then (Inl StorageError, s)
      else (Inr (), s\<lparr>fs_files := AList.update q data (fs_files s)\<rparr>))"

definition remove_file :: "file_storage \<Rightarrow> path \<Rightarrow> (cj_error + unit) \<times> file_storage" where
  "remove_file s q =
     (if \<not> is_file s q \<or> write_denied s q then (Inl StorageError, s)
      else (Inr (), s\<lparr>fs_files := AList.delete q (fs_files s)\<rparr>))"

text \<open>The files directly in a directory: name and content, in \<open>read_dir\<close> order.\<close>

definition dir_files :: "file_storage \<Rightarrow> path \<Rightarrow> (string \<times> bytes) list" where
  "dir_files s d =
     map (\<lambda>(q, data). (last q, data)) (filter (\<lambda>(q, data). q \<noteq> [] \<and> butlast q = d) (fs_files s))"

definition dir_dirs :: "file_storage \<Rightarrow> path \<Rightarrow> path list" where
  "dir_dirs s d = filter (\<lambda>q. q \<noteq> [] \<and> butlast q = d) (fs_dirs s)"

subsection \<open>The operations\<close>

definition marker_path :: path where
  "marker_path = [''.civicjournal-time'']"

definition file_new :: "file_storage \<Rightarrow> (cj_error + unit) \<times> file_storage" where
  "file_new s =
     (if write_denied s [] then (Inl StorageError, s)
      else if fs_exists s marker_path then (Inr (), s)
      else write_file s marker_path [])"

definition file_store_page ::
  "codecs \<Rightarrow> file_storage \<Rightarrow> journal_page \<Rightarrow> (cj_error + unit) \<times> file_storage" where
  "file_store_page C s p =
     (let q = page_path (page_level p) (page_id p) in
      try_then (create_dir_all s (butlast q)) (\<lambda>_ s.
        case page_to_vec C p of
          None \<Rightarrow> (Inl SerdeJson, s)
        | Some serialized_page \<Rightarrow>
            (case compress_page C (fs_compression s) serialized_page of
               Inl e \<Rightarrow> (Inl e, s)
             | Inr (data, algo_used) \<Rightarrow> write_file s q (file_content data algo_used))))"

definition file_load_page ::
  "codecs \<Rightarrow> file_storage \<Rightarrow> nat \<Rightarrow> nat \<Rightarrow> cj_error + journal_page option" where
  "file_load_page C s l i =
     (let q = page_path l i in
      if \<not> fs_exists s q then Inr None
      else case map_of (fs_files s) q of
        None \<Rightarrow> Inl StorageError
      | Some file_data \<Rightarrow> try_pure (decode_file C file_data) (\<lambda>p. Inr (Some p)))"

definition file_page_exists :: "file_storage \<Rightarrow> nat \<Rightarrow> nat \<Rightarrow> cj_error + bool" where
  "file_page_exists s l i = Inr (fs_exists s (page_path l i))"

definition file_delete_page ::
  "file_storage \<Rightarrow> nat \<Rightarrow> nat \<Rightarrow> (cj_error + unit) \<times> file_storage" where
  "file_delete_page s l i =
     (let q = page_path l i in
      if fs_exists s q then remove_file s q else (Inr (), s))"

definition summary_entry :: "codecs \<Rightarrow> file_storage \<Rightarrow> nat \<Rightarrow> string \<Rightarrow> page_summary list" where
  "summary_entry C s l name =
     (case split_ext name of
        (stem, Some ext) \<Rightarrow>
          if ext = ''cjt'' \<and> starts_with stem ''page_'' then
            (case parse_u64 (trim_page stem) of
               Some i \<Rightarrow> (case file_load_page C s l i of
                            Inr (Some p) \<Rightarrow> [summary_of p]
                          | _ \<Rightarrow> [])
             | None \<Rightarrow> [])
          else []
      | _ \<Rightarrow> [])"

definition file_list_summaries ::
  "codecs \<Rightarrow> file_storage \<Rightarrow> nat \<Rightarrow> cj_error + page_summary list" where
  "file_list_summaries C s l =
     (if \<not> fs_exists s (level_dir l) then Inr []
      else if \<not> is_dir s (level_dir l) then Inl StorageError
      else Inr (concat (map (\<lambda>(name, _). summary_entry C s l name) (dir_files s (level_dir l)))))"

definition is_page_file :: "string \<Rightarrow> bool" where
  "is_page_file name \<longleftrightarrow>
     (case snd (split_ext name) of
        Some ext \<Rightarrow> ext \<in> {''cjt'', ''cjtgz'', ''cjtzst'', ''cjtLz4'', ''cjtsnappy''}
      | None \<Rightarrow> False)"

fun scan_hash :: "codecs \<Rightarrow> hash \<Rightarrow> bytes list \<Rightarrow> cj_error + journal_page option" where
  "scan_hash C h [] = Inr None"
| "scan_hash C h (file_data # rest) =
     (if length file_data < 6 \<or> take 4 file_data \<noteq> magic_string then scan_hash C h rest
      else case u8_to_compression_algorithm (file_data ! 5) of
        Inl _ \<Rightarrow> scan_hash C h rest
      | Inr algo \<Rightarrow>
          (case decompress C algo (drop 6 file_data) of
             None \<Rightarrow> Inl CompressionError
           | Some ser \<Rightarrow>
               (case page_from_slice C ser of
                  None \<Rightarrow> scan_hash C h rest
                | Some p \<Rightarrow> if page_hash p = h then Inr (Some p) else scan_hash C h rest)))"

definition level_files :: "file_storage \<Rightarrow> bytes list" where
  "level_files s =
     concat (map (\<lambda>d. map snd (filter (\<lambda>(name, _). is_page_file name) (dir_files s d)))
       (filter (\<lambda>d. starts_with (last d) ''level_'') (dir_dirs s [''journal''])))"

definition file_load_page_by_hash ::
  "codecs \<Rightarrow> file_storage \<Rightarrow> hash \<Rightarrow> cj_error + journal_page option" where
  "file_load_page_by_hash C s h =
     (if \<not> fs_exists s [''journal''] then Inr None
      else if \<not> is_dir s [''journal''] then Inl StorageError
      else scan_hash C h (level_files s))"

definition leaf_candidate :: "codecs \<Rightarrow> file_storage \<Rightarrow> hash \<Rightarrow> string \<Rightarrow> journal_leaf option" where
  "leaf_candidate C s h name =
     (if starts_with name ''page_'' \<and> CHR ''.'' \<in> set name then
        (case parse_u64 (drop 5 (takeWhile (\<lambda>c. c \<noteq> CHR ''.'') name)) of
           Some i \<Rightarrow>
             (case file_load_page C s 0 i of
                Inr (Some p) \<Rightarrow>
                  if page_level p = 0 then List.find (\<lambda>x. leaf_hash x = h) (leaves_of p) else None
              | _ \<Rightarrow> None)
         | None \<Rightarrow> None)
      else None)"

fun scan_leaf :: "codecs \<Rightarrow> file_storage \<Rightarrow> hash \<Rightarrow> string list \<Rightarrow> journal_leaf option" where
  "scan_leaf C s h [] = None"
| "scan_leaf C s h (name # rest) =
     (case leaf_candidate C s h name of Some x \<Rightarrow> Some x | None \<Rightarrow> scan_leaf C s h rest)"

definition file_load_leaf_by_hash ::
  "codecs \<Rightarrow> file_storage \<Rightarrow> hash \<Rightarrow> cj_error + journal_leaf option" where
  "file_load_leaf_by_hash C s h =
     (if \<not> fs_exists s (level_dir 0) then Inr None
      else if \<not> is_dir s (level_dir 0) then Inl StorageError
      else Inr (scan_leaf C s h (map fst (dir_files s (level_dir 0)))))"

definition file_backend :: "codecs \<Rightarrow> file_storage storage_backend" where
  "file_backend C =
     \<lparr>store_page = file_store_page C,
      load_page = file_load_page C,
      page_exists = file_page_exists,
      delete_page = file_delete_page,
      list_finalized_pages_summary = file_list_summaries C,
      load_page_by_hash = file_load_page_by_hash C,
      load_leaf_by_hash = file_load_leaf_by_hash C\<rparr>"

lemma file_backend_simps [simp]:
  "store_page (file_backend C) = file_store_page C"
  "load_page (file_backend C) = file_load_page C"
  "page_exists (file_backend C) = file_page_exists"
  "delete_page (file_backend C) = file_delete_page"
  "list_finalized_pages_summary (file_backend C) = file_list_summaries C"
  "load_page_by_hash (file_backend C) = file_load_page_by_hash C"
  "load_leaf_by_hash (file_backend C) = file_load_leaf_by_hash C"
  by (simp_all add: file_backend_def)

section \<open>File names\<close>

lemma char_digit_char [simp]: "d < 10 \<Longrightarrow> char_digit (digit_char d) = d"
  by (simp add: char_digit_def digit_char_def)

lemma is_digit_char [simp]: "d < 10 \<Longrightarrow> is_digit (digit_char d)"
  by (simp add: is_digit_def digit_char_def)

lemma digits_value_snoc: "digits_value (s @ [c]) = digits_value s * 10 + char_digit c"
  by (simp add: digits_value_def)

lemma digits_value_dec [simp]: "digits_value (dec_digits n) = n"
proof (induction n rule: dec_digits.induct)
  case (1 n)
  show ?case
  proof (cases "n < 10")
    case True
    then show ?thesis by (simp add: dec_digits.simps[of n] digits_value_def)
  next
    case False
    with 1 show ?thesis by (simp add: dec_digits.simps[of n] digits_value_snoc)
  qed
qed

lemma dec_digits_digits: "c \<in> set (dec_digits n) \<Longrightarrow> is_digit c"
proof (induction n rule: dec_digits.induct)
  case (1 n)
  then show ?case by (auto simp: dec_digits.simps[of n] split: if_splits)
qed

lemma dec_digits_inj: "dec_digits m = dec_digits n \<longleftrightarrow> m = n"
  by (metis digits_value_dec)

lemma dec_digits_nonempty [simp]: "dec_digits n \<noteq> []"
  by (subst dec_digits.simps) simp

definition padded :: "nat \<Rightarrow> string" where
  "padded i = replicate (8 - length (dec_digits i)) (CHR ''0'') @ dec_digits i"

lemma page_stem_padded: "page_stem i = ''page_'' @ padded i"
  by (simp add: page_stem_def padded_def)

lemma digits_value_zeros: "digits_value (replicate k (CHR ''0'') @ s) = digits_value s"
proof -
  have "foldl (\<lambda>v c. v * 10 + char_digit c) 0 (replicate k (CHR ''0'')) = 0"
    by (induction k) (simp_all add: char_digit_def)
  then show ?thesis by (simp add: digits_value_def)
qed

lemma padded_facts:
  shows "padded i \<noteq> []" and "c \<in> set (padded i) \<Longrightarrow> is_digit c" and "digits_value (padded i) = i"
    and "8 \<le> length (padded i)"
proof -
  have "is_digit (CHR ''0'')" by (simp add: is_digit_def)
  then show "padded i \<noteq> []" "c \<in> set (padded i) \<Longrightarrow> is_digit c" "digits_value (padded i) = i"
    by (auto simp: padded_def digits_value_zeros dest: dec_digits_digits split: if_splits)
  show "8 \<le> length (padded i)" by (simp add: padded_def)
qed

lemma parse_padded: "i < 2 ^ 64 \<Longrightarrow> parse_u64 (padded i) = Some i"
proof -
  assume i: "i < 2 ^ 64"
  obtain c cs where p: "padded i = c # cs" using padded_facts(1) by (cases "padded i") auto
  then have "is_digit c" using padded_facts(2)[of c i] by simp
  then have "c \<noteq> CHR ''+''" by (auto simp: is_digit_def)
  with i p padded_facts(2)[of _ i] padded_facts(3)[of i] show ?thesis by (auto simp: parse_u64_def)
qed

lemma trim_page_stem: "trim_page (page_stem i) = padded i"
proof -
  obtain c cs where p: "padded i = c # cs" using padded_facts(1) by (cases "padded i") auto
  then have "is_digit c" using padded_facts(2)[of c i] by simp
  then have "c \<noteq> CHR ''p''" by (auto simp: is_digit_def)
  with p have "trim_page (padded i) = padded i" by (subst trim_page.simps) simp
  then show ?thesis by (subst trim_page.simps) (simp add: page_stem_padded)
qed

lemma split_ext_page [simp]: "split_ext (page_file_name i) = (page_stem i, Some ''cjt'')"
  by (simp add: split_ext_def page_file_name_def page_stem_def)

lemma is_page_file_page [simp]: "is_page_file (page_file_name i)"
  by (simp add: is_page_file_def)

lemma takeWhile_page: "takeWhile (\<lambda>c. c \<noteq> CHR ''.'') (page_file_name i) = page_stem i"
proof -
  have "\<forall>c\<in>set (padded i). c \<noteq> CHR ''.''"
    using padded_facts(2) by (fastforce simp: is_digit_def)
  then have "\<forall>c\<in>set (page_stem i). c \<noteq> CHR ''.''" by (auto simp: page_stem_padded)
  then show ?thesis by (simp add: page_file_name_def)
qed

lemma page_stem_inj: "page_stem i = page_stem j \<longleftrightarrow> i = j"
  using padded_facts(3) by (metis page_stem_padded same_append_eq)

lemma page_file_name_inj [simp]: "page_file_name i = page_file_name j \<longleftrightarrow> i = j"
  by (simp add: page_file_name_def page_stem_inj)

lemma level_dir_inj [simp]: "level_dir l = level_dir m \<longleftrightarrow> l = m"
  by (simp add: level_dir_def dec_digits_inj)

lemma page_path_inj [simp]: "page_path l i = page_path m j \<longleftrightarrow> l = m \<and> i = j"
  by (simp add: page_path_def)

lemma page_path_simps [simp]:
  "butlast (page_path l i) = level_dir l"
  "last (page_path l i) = page_file_name i"
  "length (page_path l i) = 3"
  "page_path l i \<noteq> []"
  by (simp_all add: page_path_def level_dir_def)

lemma length_level_dir [simp]: "length (level_dir l) = 2" "level_dir l \<noteq> []"
  by (simp_all add: level_dir_def)

section \<open>The page file format\<close>

lemma algorithm_roundtrip [simp]:
  "u8_to_compression_algorithm (compression_algorithm_to_u8 a) = Inr a"
  by (cases a) (simp_all add: u8_to_compression_algorithm_def)

lemma u8_to_algorithm_Inr:
  "u8_to_compression_algorithm v = Inr a \<longleftrightarrow> v = compression_algorithm_to_u8 a"
  by (cases a) (auto simp: u8_to_compression_algorithm_def split: if_splits)

lemma decompress_compress:
  "codecs_ok C \<Longrightarrow> compress_page C cfg ser = Inr (data, a) \<Longrightarrow> decompress C a data = Some ser"
  by (auto simp: compress_page_def codecs_ok_def
      split: if_splits compression_algorithm.splits option.splits)

lemma file_content_simps [simp]:
  "length (file_content d a) = 6 + length d"
  "take 4 (file_content d a) = magic_string"
  "file_content d a ! 4 = format_version"
  "file_content d a ! 5 = compression_algorithm_to_u8 a"
  "drop 6 (file_content d a) = d"
  by (simp_all add: file_content_def magic_string_def)

lemma decode_file_content:
  "decode_file C (file_content d a) =
     (case decompress C a d of
        None \<Rightarrow> Inl DecompressionError
      | Some ser \<Rightarrow> (case page_from_slice C ser of None \<Rightarrow> Inl SerdeJson | Some p \<Rightarrow> Inr p))"
  by (simp add: decode_file_def)

lemma decode_stored:
  assumes "codecs_ok C" and "page_to_vec C p = Some ser"
    and "compress_page C cfg ser = Inr (data, a)"
  shows "decode_file C (file_content data a) = Inr p"
  using assms(1,2) decompress_compress[OF assms(1,3)]
  by (auto simp: decode_file_content codecs_ok_def)

lemma decode_file_Inr:
  "decode_file C f = Inr p \<longleftrightarrow>
     6 \<le> length f \<and> take 4 f = magic_string \<and> f ! 4 = format_version \<and>
     (\<exists>a ser. f ! 5 = compression_algorithm_to_u8 a \<and> decompress C a (drop 6 f) = Some ser \<and>
        page_from_slice C ser = Some p)"
  by (auto simp: decode_file_def try_pure_def u8_to_algorithm_Inr[symmetric]
      split: sum.splits option.splits)

section \<open>Well-formed journal directories\<close>

text \<open>
  The manifest a restored backup leaves in the journal directory is no page; no scan
  reads it, because it is not in a level directory.
\<close>

definition manifest_path :: path where
  "manifest_path = [''journal'', ''backup_manifest.json'']"

definition in_journal :: "path \<Rightarrow> bool" where
  "in_journal q \<longleftrightarrow> take 1 q = [''journal''] \<and> q \<noteq> manifest_path"

definition page_file :: "codecs \<Rightarrow> path \<Rightarrow> bytes \<Rightarrow> bool" where
  "page_file C q data \<longleftrightarrow>
     (\<exists>p. decode_file C data = Inr p \<and> q = page_path (page_level p) (page_id p) \<and>
          page_id p < 2 ^ 64)"

definition file_good :: "codecs \<Rightarrow> file_storage \<Rightarrow> bool" where
  "file_good C s \<longleftrightarrow> codecs_ok C \<and> distinct (map fst (fs_files s)) \<and>
     (\<forall>(q, data)\<in>set (fs_files s).
        in_journal q \<longrightarrow> page_file C q data \<and> butlast q \<in> set (fs_dirs s)) \<and>
     (\<forall>q\<in>set (fs_dirs s).
        in_journal q \<longrightarrow> [''journal''] \<in> set (fs_dirs s) \<and> (q = [''journal''] \<or> (\<exists>l. q = level_dir l)))"

definition file_view :: "codecs \<Rightarrow> file_storage \<Rightarrow> page_map" where
  "file_view C s = (\<lambda>(l, i).
     case map_of (fs_files s) (page_path l i) of
       None \<Rightarrow> None
     | Some data \<Rightarrow> (case decode_file C data of Inl _ \<Rightarrow> None | Inr p \<Rightarrow> Some p))"

lemma in_journal_simps [simp]:
  "in_journal (page_path l i)" "in_journal (level_dir l)" "in_journal [''journal'']"
  by (simp_all add: in_journal_def manifest_path_def page_path_def level_dir_def)

lemma file_good_files:
  "file_good C s \<Longrightarrow> (q, data) \<in> set (fs_files s) \<Longrightarrow> in_journal q \<Longrightarrow>
     page_file C q data \<and> butlast q \<in> set (fs_dirs s)"
  by (auto simp: file_good_def)

lemma file_goodI:
  assumes "codecs_ok C" and "distinct (map fst (fs_files s))"
    and "\<And>q data. (q, data) \<in> set (fs_files s) \<Longrightarrow> in_journal q \<Longrightarrow>
           page_file C q data \<and> butlast q \<in> set (fs_dirs s)"
    and "\<And>q. q \<in> set (fs_dirs s) \<Longrightarrow> in_journal q \<Longrightarrow>
           [''journal''] \<in> set (fs_dirs s) \<and> (q = [''journal''] \<or> (\<exists>l. q = level_dir l))"
  shows "file_good C s"
  using assms by (auto simp: file_good_def)

lemma file_good_entry:
  assumes "file_good C s" and "(q, data) \<in> set (fs_files s)" and "in_journal q"
  obtains p where "decode_file C data = Inr p" and "q = page_path (page_level p) (page_id p)"
    and "page_id p < 2 ^ 64" and "level_dir (page_level p) \<in> set (fs_dirs s)"
    and "[''journal''] \<in> set (fs_dirs s)"
proof -
  obtain p where p: "decode_file C data = Inr p" "q = page_path (page_level p) (page_id p)"
    "page_id p < 2 ^ 64" and d: "butlast q \<in> set (fs_dirs s)"
    using assms unfolding file_good_def page_file_def by fastforce
  moreover have "level_dir (page_level p) \<in> set (fs_dirs s)" using p(2) d by simp
  moreover from this have "[''journal''] \<in> set (fs_dirs s)"
    using assms(1) unfolding file_good_def by fastforce
  ultimately show ?thesis using that by blast
qed

lemma file_view_Some:
  "file_view C s (l, i) = Some p \<longleftrightarrow>
     (\<exists>data. map_of (fs_files s) (page_path l i) = Some data \<and> decode_file C data = Inr p)"
  by (auto simp: file_view_def split: option.splits sum.splits)

lemma file_view_entry:
  assumes "file_good C s"
  shows "file_view C s (l, i) = Some p \<longleftrightarrow>
     (\<exists>data. (page_path l i, data) \<in> set (fs_files s) \<and> decode_file C data = Inr p)"
  using assms by (simp add: file_view_Some file_good_def)

lemma file_view_key:
  assumes "file_good C s" and "file_view C s (l, i) = Some p"
  shows "page_level p = l \<and> page_id p = i \<and> i < 2 ^ 64 \<and> level_dir l \<in> set (fs_dirs s) \<and>
    [''journal''] \<in> set (fs_dirs s)"
proof -
  obtain data where "(page_path l i, data) \<in> set (fs_files s)" "decode_file C data = Inr p"
    using assms by (auto simp: file_view_entry)
  then show ?thesis
    by (auto elim: file_good_entry[OF assms(1), of "page_path l i" data])
qed

lemma file_view_None:
  assumes "file_good C s"
  shows "file_view C s (l, i) = None \<longleftrightarrow> \<not> is_file s (page_path l i)"
proof -
  have "\<exists>p. decode_file C data = Inr p" if "map_of (fs_files s) (page_path l i) = Some data" for data
    using file_good_entry[OF assms map_of_SomeD[OF that]] by auto
  then show ?thesis by (force simp: file_view_def is_file_def split: option.splits sum.splits)
qed

lemma page_path_not_dir: "file_good C s \<Longrightarrow> \<not> is_dir s (page_path l i)"
proof
  assume g: "file_good C s" and "is_dir s (page_path l i)"
  then have "page_path l i \<in> set (fs_dirs s)" by (simp add: is_dir_def)
  with g have "page_path l i = [''journal''] \<or> (\<exists>m. page_path l i = level_dir m)"
    unfolding file_good_def by fastforce
  then have "length (page_path l i) \<in> {1, 2}" by (metis One_nat_def insert_iff length_level_dir(1) list.size(3,4) add_0)
  then show False by simp
qed

lemma file_load_view:
  assumes "file_good C s"
  shows "file_load_page C s l i = Inr (file_view C s (l, i))"
proof (cases "file_view C s (l, i)")
  case None
  then show ?thesis
    using page_path_not_dir[OF assms] file_view_None[OF assms, of l i]
    by (simp add: file_load_page_def fs_exists_def None)
next
  case (Some p)
  then obtain data where "map_of (fs_files s) (page_path l i) = Some data"
    "decode_file C data = Inr p"
    by (auto simp: file_view_Some)
  with Some show ?thesis by (simp add: file_load_page_def fs_exists_def is_file_def)
qed

lemma file_exists_view:
  "file_good C s \<Longrightarrow> file_page_exists s l i = Inr (file_view C s (l, i) \<noteq> None)"
  by (simp add: file_page_exists_def fs_exists_def page_path_not_dir file_view_None)

subsection \<open>Storing and deleting\<close>

lemma make_dirs_frame:
  "make_dirs s qs = (r, s') \<Longrightarrow>
     fs_files s' = fs_files s \<and> fs_compression s' = fs_compression s \<and>
     write_denied s' = write_denied s \<and> set (fs_dirs s) \<subseteq> set (fs_dirs s') \<and>
     set (fs_dirs s') \<subseteq> set (fs_dirs s) \<union> set qs"
  by (induction s qs arbitrary: r s' rule: make_dirs.induct) (fastforce split: if_splits)+

lemma make_dirs_all:
  "make_dirs s qs = (Inr u, s') \<Longrightarrow> \<forall>q\<in>set qs. is_dir s' q"
proof (induction s qs rule: make_dirs.induct)
  case (2 s q qs)
  have *: "make_dirs t qs = (Inr u, s') \<Longrightarrow> is_dir t q \<Longrightarrow> is_dir s' q" for t
    using make_dirs_frame[of t qs "Inr u" s'] by (auto simp: is_dir_def)
  show ?case
  proof (cases "is_dir s q")
    case True
    with 2 *[of s] show ?thesis by simp
  next
    case False
    with 2 *[of "s\<lparr>fs_dirs := fs_dirs s @ [q]\<rparr>"] show ?thesis
      by (simp add: is_dir_def split: if_splits)
  qed
qed simp

lemma create_level_dir_prefixes:
  "create_dir_all s (level_dir l) = make_dirs s [[''journal''], level_dir l]"
  by (simp add: create_dir_all_def level_dir_def upt_rec)

lemma create_level_dir:
  assumes "file_good C s" and "create_dir_all s (level_dir l) = (r, s')"
  shows "file_good C s' \<and> file_view C s' = file_view C s \<and> fs_files s' = fs_files s \<and>
    fs_compression s' = fs_compression s \<and> write_denied s' = write_denied s \<and>
    (r = Inr () \<longrightarrow> level_dir l \<in> set (fs_dirs s'))"
proof -
  have m: "make_dirs s [[''journal''], level_dir l] = (r, s')"
    using assms(2) by (simp only: create_level_dir_prefixes)
  note f = make_dirs_frame[OF m]
  have ok: "level_dir l \<in> set (fs_dirs s')" if "r = Inr ()"
    using make_dirs_all[of s "[[''journal''], level_dir l]" "()" s'] m that
    by (simp add: is_dir_def)
  have root: "[''journal''] \<in> set (fs_dirs s') \<or> s' = s"
  proof (cases "is_dir s [''journal'']")
    case True
    with f show ?thesis by (auto simp: is_dir_def)
  next
    case False
    with m make_dirs_frame[of "s\<lparr>fs_dirs := fs_dirs s @ [[''journal'']]\<rparr>" "[level_dir l]" r s']
    show ?thesis by (auto simp del: make_dirs.simps(2) simp: make_dirs.simps(2)[of s] split: if_splits)
  qed
  have dirs: "\<forall>q\<in>set (fs_dirs s). in_journal q \<longrightarrow>
      [''journal''] \<in> set (fs_dirs s) \<and> (q = [''journal''] \<or> (\<exists>l. q = level_dir l))"
    using assms(1) by (simp add: file_good_def)
  have j: "[''journal''] \<in> set (fs_dirs s') \<and> (q = [''journal''] \<or> (\<exists>l. q = level_dir l))"
    if "q \<in> set (fs_dirs s')" "in_journal q" for q
  proof (cases "s' = s")
    case True
    with dirs that show ?thesis by blast
  next
    case False
    from f that(1) have "q \<in> set (fs_dirs s) \<or> q = [''journal''] \<or> q = level_dir l" by auto
    with dirs that(2) False root show ?thesis by blast
  qed
  have "file_good C s'"
  proof (rule file_goodI)
    show "codecs_ok C" "distinct (map fst (fs_files s'))"
      using f assms(1) by (simp_all add: file_good_def)
    show "page_file C q data \<and> butlast q \<in> set (fs_dirs s')"
      if "(q, data) \<in> set (fs_files s')" "in_journal q" for q data
      using file_good_files[OF assms(1), of q data] that f by auto
  qed (use j in blast)+
  moreover have "file_view C s' = file_view C s" using f by (simp add: file_view_def)
  ultimately show ?thesis using f ok by blast
qed

lemma write_page_good:
  assumes "file_good C s" and "level_dir (page_level p) \<in> set (fs_dirs s)"
    and "page_id p < 2 ^ 64" and "decode_file C data = Inr p"
  defines "s' \<equiv> s\<lparr>fs_files := AList.update (page_path (page_level p) (page_id p)) data (fs_files s)\<rparr>"
  shows "file_good C s'"
    and "file_view C s' = (file_view C s)((page_level p, page_id p) \<mapsto> p)"
proof -
  let ?q = "page_path (page_level p) (page_id p)"
  have new: "(q, d) \<in> set (fs_files s') \<Longrightarrow> (q, d) = (?q, data) \<or> (q, d) \<in> set (fs_files s)" for q d
    using assms(1) by (auto simp: s'_def file_good_def in_set_AList_update split: if_splits)
  have "page_file C ?q data" using assms(3,4) by (auto simp: page_file_def)
  then have "in_journal q \<Longrightarrow> page_file C q d \<and> butlast q \<in> set (fs_dirs s')"
    if "(q, d) \<in> set (fs_files s')" for q d
    using new[OF that] assms(1,2) by (auto simp: file_good_def s'_def)
  then show "file_good C s'"
    using assms(1) by (auto simp: file_good_def s'_def)
  show "file_view C s' = (file_view C s)((page_level p, page_id p) \<mapsto> p)"
    using assms(4) by (auto simp: file_view_def s'_def fun_eq_iff)
qed

lemma file_store_Inr:
  assumes "file_store_page C s p = (Inr u, s')"
  obtains s1 ser data a where "create_dir_all s (level_dir (page_level p)) = (Inr (), s1)"
    and "page_to_vec C p = Some ser" and "compress_page C (fs_compression s1) ser = Inr (data, a)"
    and "s' = s1\<lparr>fs_files := AList.update (page_path (page_level p) (page_id p))
               (file_content data a) (fs_files s1)\<rparr>"
proof -
  obtain s1 where d: "create_dir_all s (level_dir (page_level p)) = (Inr (), s1)"
    using assms by (auto simp: file_store_page_def elim: try_then_InrE)
  moreover obtain ser where ser: "page_to_vec C p = Some ser"
    using assms d by (auto simp: file_store_page_def split: option.splits)
  moreover obtain data a where c: "compress_page C (fs_compression s1) ser = Inr (data, a)"
    using assms d ser by (auto simp: file_store_page_def split: sum.splits)
  ultimately show ?thesis
    using assms by (intro that) (auto simp: file_store_page_def write_file_def Let_def split: if_splits)
qed

lemma file_store_ok:
  assumes "file_good C s" and "file_store_page C s p = (Inr u, s')"
  shows "file_good C s' \<and> file_view C s' = (file_view C s)((page_level p, page_id p) \<mapsto> p)"
proof -
  obtain s1 ser data a where c: "create_dir_all s (level_dir (page_level p)) = (Inr (), s1)"
    "page_to_vec C p = Some ser" "compress_page C (fs_compression s1) ser = Inr (data, a)"
    "s' = s1\<lparr>fs_files := AList.update (page_path (page_level p) (page_id p))
               (file_content data a) (fs_files s1)\<rparr>"
    using assms(2) by (rule file_store_Inr)
  have s1: "file_good C s1" "file_view C s1 = file_view C s"
    "level_dir (page_level p) \<in> set (fs_dirs s1)"
    using create_level_dir[OF assms(1) c(1)] by auto
  have "codecs_ok C" using assms(1) by (simp add: file_good_def)
  then have "page_id p < 2 ^ 64" and "decode_file C (file_content data a) = Inr p"
    using c(2) decode_stored[OF _ c(2,3)] by (auto simp: codecs_ok_def)
  from write_page_good[OF s1(1,3) this] s1(2) c(4) show ?thesis by simp
qed

lemma file_store_err:
  assumes "file_good C s" and "file_store_page C s p = (Inl e, s')"
  shows "file_good C s' \<and> file_view C s' = file_view C s"
proof -
  obtain r s1 where c: "create_dir_all s (level_dir (page_level p)) = (r, s1)" by force
  have "s' = s1"
    using assms(2) c by (cases r) (auto simp: file_store_page_def write_file_def
        split: option.splits sum.splits if_splits)
  with create_level_dir[OF assms(1) c] show ?thesis by simp
qed

lemma file_delete_cases:
  "file_good C s \<Longrightarrow> file_delete_page s l i =
     (if is_file s (page_path l i) \<and> write_denied s (page_path l i) then (Inl StorageError, s)
      else (Inr (), s\<lparr>fs_files := AList.delete (page_path l i) (fs_files s)\<rparr>))"
  by (auto simp: file_delete_page_def fs_exists_def page_path_not_dir remove_file_def is_file_def
      map_of_eq_None_iff Let_def)

lemma file_delete_ok:
  assumes "file_good C s" and "file_delete_page s l i = (Inr u, s')"
  shows "file_good C s' \<and> file_view C s' = (file_view C s)((l, i) := None)"
proof -
  have s': "s' = s\<lparr>fs_files := AList.delete (page_path l i) (fs_files s)\<rparr>"
    using assms file_delete_cases[OF assms(1), of l i] by (auto split: if_splits)
  have "file_good C s'"
    using assms(1) by (auto simp: file_good_def s' in_set_AList_delete)
  then show ?thesis by (auto simp: file_view_def s' fun_eq_iff)
qed

lemma file_delete_err:
  "file_good C s \<Longrightarrow> file_delete_page s l i = (Inl e, s') \<Longrightarrow>
     file_good C s' \<and> file_view C s' = file_view C s"
  by (auto simp: file_delete_cases split: if_splits)

subsection \<open>Listing a level\<close>

lemma dir_file_entry:
  assumes "file_good C s" and "e \<in> set (fs_files s)" and "fst e \<noteq> []" and "butlast (fst e) = level_dir l"
  shows "\<exists>p. decode_file C (snd e) = Inr p \<and> fst e = page_path l (page_id p) \<and> page_level p = l \<and>
    page_id p < 2 ^ 64"
proof -
  have "in_journal (fst e)"
    using assms(3,4) by (cases "fst e"; cases "tl (fst e)") (auto simp: in_journal_def manifest_path_def level_dir_def)
  moreover have "(fst e, snd e) \<in> set (fs_files s)" using assms(2) by simp
  ultimately obtain p where p: "decode_file C (snd e) = Inr p"
    "fst e = page_path (page_level p) (page_id p)" "page_id p < 2 ^ 64"
    using file_good_entry[OF assms(1)] by metis
  with assms(4) show ?thesis by auto
qed

definition level_entries :: "file_storage \<Rightarrow> nat \<Rightarrow> (path \<times> bytes) list" where
  "level_entries s l = filter (\<lambda>(q, data). q \<noteq> [] \<and> butlast q = level_dir l) (fs_files s)"

definition entry_page :: "codecs \<Rightarrow> path \<times> bytes \<Rightarrow> journal_page" where
  "entry_page C e = projr (decode_file C (snd e))"

lemma level_entry:
  assumes "file_good C s" and "e \<in> set (level_entries s l)"
  shows "fst e = page_path l (page_id (entry_page C e))"
    and "file_view C s (l, page_id (entry_page C e)) = Some (entry_page C e)"
    and "page_id (entry_page C e) < 2 ^ 64"
proof -
  have e: "e \<in> set (fs_files s)" "fst e \<noteq> []" "butlast (fst e) = level_dir l"
    using assms(2) by (auto simp: level_entries_def)
  obtain p where p: "decode_file C (snd e) = Inr p" "fst e = page_path l (page_id p)"
    "page_id p < 2 ^ 64"
    using dir_file_entry[OF assms(1) e] by blast
  then have ep: "entry_page C e = p" by (simp add: entry_page_def)
  show "fst e = page_path l (page_id (entry_page C e))" "page_id (entry_page C e) < 2 ^ 64"
    using p ep by simp_all
  have "(page_path l (page_id p), snd e) \<in> set (fs_files s)" using e(1) p(2) by (metis prod.collapse)
  with p(1) show "file_view C s (l, page_id (entry_page C e)) = Some (entry_page C e)"
    using assms(1) ep by (auto simp: file_view_entry)
qed

lemma summary_entry_page:
  assumes "file_good C s" and "i < 2 ^ 64"
  shows "summary_entry C s l (page_file_name i) =
    (case file_view C s (l, i) of None \<Rightarrow> [] | Some p \<Rightarrow> [summary_of p])"
proof -
  have "starts_with (page_stem i) ''page_''" by (simp add: starts_with_def page_stem_padded)
  with assms show ?thesis
    by (simp add: summary_entry_def trim_page_stem parse_padded file_load_view split: option.splits)
qed

lemma summary_level_entry:
  assumes "file_good C s" and "e \<in> set (level_entries s l)"
  shows "summary_entry C s l (last (fst e)) = [summary_of (entry_page C e)]"
  using level_entry[OF assms] summary_entry_page[OF assms(1)] by simp

lemma dir_files_level: "dir_files s (level_dir l) = map (\<lambda>e. (last (fst e), snd e)) (level_entries s l)"
  by (simp add: dir_files_def level_entries_def split_def)

lemma file_list_entries:
  assumes "file_good C s"
  shows "file_list_summaries C s l = Inr (map (summary_of \<circ> entry_page C) (level_entries s l))"
proof -
  have none: "level_entries s l = []" if "\<not> is_dir s (level_dir l)"
  proof (rule ccontr)
    assume "level_entries s l \<noteq> []"
    then obtain e where "e \<in> set (level_entries s l)" by (cases "level_entries s l") auto
    then have "level_dir l \<in> set (fs_dirs s)"
      using file_view_key[OF assms] level_entry(2)[OF assms] by blast
    with that show False by (simp add: is_dir_def)
  qed
  have "\<not> is_file s (level_dir l)"
  proof
    assume "is_file s (level_dir l)"
    then obtain d where "(level_dir l, d) \<in> set (fs_files s)"
      by (auto simp: is_file_def dest: map_of_SomeD)
    then obtain p :: journal_page where "level_dir l = page_path (page_level p) (page_id p)"
      using file_good_files[OF assms _ in_journal_simps(2)] by (auto simp: page_file_def)
    then have "length (level_dir l) = length (page_path (page_level p) (page_id p))" by simp
    then show False by simp
  qed
  moreover have "concat (map (\<lambda>e. summary_entry C s l (last (fst e))) (level_entries s l)) =
      map (summary_of \<circ> entry_page C) (level_entries s l)"
  proof -
    have eq: "map (\<lambda>e. summary_entry C s l (last (fst e))) (level_entries s l) =
        map (\<lambda>e. [summary_of (entry_page C e)]) (level_entries s l)"
      using summary_level_entry[OF assms] by simp
    show ?thesis by (simp only: eq concat_map_singleton comp_def)
  qed
  ultimately show ?thesis
    using none by (auto simp: file_list_summaries_def fs_exists_def dir_files_level comp_def)
qed

lemma level_entries_pages:
  assumes "file_good C s"
  shows "entry_page C ` set (level_entries s l) = pages_at (file_view C s) l"
proof (intro equalityI subsetI)
  fix p assume "p \<in> entry_page C ` set (level_entries s l)"
  then show "p \<in> pages_at (file_view C s) l"
    using level_entry(2)[OF assms] by (auto simp: pages_at_def)
next
  fix p assume "p \<in> pages_at (file_view C s) l"
  then obtain i d where e: "(page_path l i, d) \<in> set (fs_files s)" "decode_file C d = Inr p"
    using assms by (auto simp: pages_at_def file_view_entry)
  then have "(page_path l i, d) \<in> set (level_entries s l)" "entry_page C (page_path l i, d) = p"
    by (simp_all add: level_entries_def entry_page_def)
  then show "p \<in> entry_page C ` set (level_entries s l)" by (metis imageI)
qed

lemma file_list_ok:
  assumes "file_good C s"
  shows "\<exists>ss. file_list_summaries C s l = Inr ss \<and> distinct (map sum_page_id ss) \<and>
           set ss = summary_of ` pages_at (file_view C s) l"
proof -
  let ?es = "level_entries s l"
  have "distinct (map fst ?es)"
    using assms by (simp add: file_good_def level_entries_def distinct_map_filter)
  moreover have "map fst ?es = map (page_path l) (map (page_id \<circ> entry_page C) ?es)"
    using level_entry(1)[OF assms] by simp
  ultimately have "distinct (map (page_id \<circ> entry_page C) ?es)" by (metis distinct_map)
  moreover have "sum_page_id \<circ> (summary_of \<circ> entry_page C) = page_id \<circ> entry_page C"
    by (simp add: fun_eq_iff summary_of_def)
  ultimately have "distinct (map sum_page_id (map (summary_of \<circ> entry_page C) ?es))"
    by (simp only: map_map)
  moreover have "set (map (summary_of \<circ> entry_page C) ?es) = summary_of ` pages_at (file_view C s) l"
    unfolding level_entries_pages[OF assms, symmetric] by (simp add: image_comp)
  ultimately show ?thesis using file_list_entries[OF assms] by blast
qed

subsection \<open>Searching by hash\<close>

lemma scan_hash_spec:
  assumes "\<And>d. d \<in> set ds \<Longrightarrow> \<exists>p. decode_file C d = Inr p"
  shows "\<exists>r. scan_hash C h ds = Inr r \<and>
    (case r of
       None \<Rightarrow> \<forall>d\<in>set ds. \<forall>p. decode_file C d = Inr p \<longrightarrow> page_hash p \<noteq> h
     | Some p \<Rightarrow> page_hash p = h \<and> (\<exists>d\<in>set ds. decode_file C d = Inr p))"
  using assms
proof (induction ds)
  case (Cons d ds)
  obtain p where p: "decode_file C d = Inr p" using Cons.prems[of d] by auto
  then have step: "scan_hash C h (d # ds) = (if page_hash p = h then Inr (Some p) else scan_hash C h ds)"
    by (auto simp: decode_file_Inr)
  obtain r where r: "scan_hash C h ds = Inr r"
    "case r of
       None \<Rightarrow> \<forall>d\<in>set ds. \<forall>p. decode_file C d = Inr p \<longrightarrow> page_hash p \<noteq> h
     | Some p \<Rightarrow> page_hash p = h \<and> (\<exists>d\<in>set ds. decode_file C d = Inr p)"
    using Cons by auto
  show ?case
  proof (cases "page_hash p = h")
    case True
    with p show ?thesis unfolding step by auto
  next
    case False
    with p r show ?thesis unfolding step by (cases r) auto
  qed
qed simp

lemma level_files_journal:
  assumes "file_good C s"
  shows "set (level_files s) = {d. \<exists>q. (q, d) \<in> set (fs_files s) \<and> in_journal q}"
proof (intro equalityI subsetI)
  fix d assume "d \<in> set (level_files s)"
  then obtain q c where "(q, d) \<in> set (fs_files s)" "q \<noteq> []" "butlast q = c"
    "c \<noteq> []" "butlast c = [''journal'']"
    by (auto simp: level_files_def dir_files_def dir_dirs_def)
  moreover from this have "in_journal q"
    by (cases q; cases "tl q") (auto simp: in_journal_def manifest_path_def split: if_splits)
  ultimately show "d \<in> {d. \<exists>q. (q, d) \<in> set (fs_files s) \<and> in_journal q}" by blast
next
  fix d assume "d \<in> {d. \<exists>q. (q, d) \<in> set (fs_files s) \<and> in_journal q}"
  then obtain q where q: "(q, d) \<in> set (fs_files s)" "in_journal q" by blast
  obtain p :: journal_page where p: "q = page_path (page_level p) (page_id p)"
    "level_dir (page_level p) \<in> set (fs_dirs s)"
    using file_good_files[OF assms q] by (auto simp: page_file_def)
  let ?l = "level_dir (page_level p)"
  have "?l \<in> set (filter (\<lambda>d. starts_with (last d) ''level_'') (dir_dirs s [''journal'']))"
    using p(2) by (simp add: dir_dirs_def level_dir_def starts_with_def)
  moreover have "(page_file_name (page_id p), d) \<in> set (dir_files s ?l)"
    using q(1) p(1) by (force simp: dir_files_def)
  ultimately show "d \<in> set (level_files s)" unfolding level_files_def by force
qed

lemma file_by_hash_ok:
  assumes "file_good C s"
  shows "\<exists>r. file_load_page_by_hash C s h = Inr r \<and>
           (case r of None \<Rightarrow> \<forall>p\<in>ran (file_view C s). page_hash p \<noteq> h
            | Some p \<Rightarrow> p \<in> ran (file_view C s) \<and> page_hash p = h)"
proof -
  have ran: "ran (file_view C s) = {p. \<exists>d\<in>set (level_files s). decode_file C d = Inr p}"
  proof (intro equalityI subsetI)
    fix p assume "p \<in> ran (file_view C s)"
    then obtain l i where "file_view C s (l, i) = Some p" by (auto simp: ran_def)
    then show "p \<in> {p. \<exists>d\<in>set (level_files s). decode_file C d = Inr p}"
      using assms by (auto simp: file_view_entry level_files_journal intro: in_journal_simps)
  next
    fix p assume "p \<in> {p. \<exists>d\<in>set (level_files s). decode_file C d = Inr p}"
    then obtain q d where d: "(q, d) \<in> set (fs_files s)" "in_journal q" "decode_file C d = Inr p"
      by (auto simp: level_files_journal[OF assms])
    then obtain "q = page_path (page_level p) (page_id p)"
      using file_good_entry[OF assms d(1,2)] by (metis sum.inject(2))
    with d have "file_view C s (page_level p, page_id p) = Some p"
      using assms by (auto simp: file_view_entry)
    then show "p \<in> ran (file_view C s)" by (rule ranI)
  qed
  have dec: "\<exists>p. decode_file C d = Inr p" if "d \<in> set (level_files s)" for d
    using that file_good_entry[OF assms] unfolding level_files_journal[OF assms] by blast
  have empty: "level_files s = [] \<and> \<not> fs_exists s [''journal'']" if nd: "\<not> is_dir s [''journal'']"
  proof
    have no: "\<not> ((q, d) \<in> set (fs_files s) \<and> in_journal q)" for q d
      using file_good_entry[OF assms, of q d] nd by (auto simp: is_dir_def)
    then have "set (level_files s) = {}" unfolding level_files_journal[OF assms] by blast
    then show "level_files s = []" by simp
    show "\<not> fs_exists s [''journal'']"
      using no[of "[''journal'']"] nd
      by (cases "map_of (fs_files s) [''journal'']")
        (auto simp: fs_exists_def is_file_def dest: map_of_SomeD)
  qed
  obtain r where r: "scan_hash C h (level_files s) = Inr r"
    "case r of None \<Rightarrow> \<forall>p\<in>ran (file_view C s). page_hash p \<noteq> h
     | Some p \<Rightarrow> p \<in> ran (file_view C s) \<and> page_hash p = h"
    using scan_hash_spec[of "level_files s" C h] dec unfolding ran by (fastforce split: option.splits)
  show ?thesis
  proof (cases "is_dir s [''journal'']")
    case True
    with r show ?thesis by (simp add: file_load_page_by_hash_def fs_exists_def)
  next
    case False
    with r empty show ?thesis by (auto simp: file_load_page_by_hash_def)
  qed
qed

subsection \<open>Searching a leaf\<close>

lemma leaf_candidate_page:
  assumes "file_good C s" and "i < 2 ^ 64"
  shows "leaf_candidate C s h (page_file_name i) =
    (case file_view C s (0, i) of
       None \<Rightarrow> None
     | Some p \<Rightarrow> List.find (\<lambda>x. leaf_hash x = h) (leaves_of p))"
proof -
  have "CHR ''.'' \<in> set (page_file_name i)" "starts_with (page_file_name i) ''page_''"
    "drop 5 (page_stem i) = padded i"
    by (simp_all add: page_file_name_def page_stem_padded starts_with_def)
  with assms show ?thesis
    by (auto simp: leaf_candidate_def takeWhile_page parse_padded file_load_view file_view_key
        split: option.splits)
qed

lemma leaf_candidate_entry:
  assumes "file_good C s" and "e \<in> set (level_entries s 0)"
  shows "leaf_candidate C s h (last (fst e)) =
    List.find (\<lambda>x. leaf_hash x = h) (leaves_of (entry_page C e))"
  using level_entry[OF assms] leaf_candidate_page[OF assms(1)] by simp

lemma scan_leaf_spec:
  assumes "file_good C s" and "set es \<subseteq> set (level_entries s 0)"
  shows "case scan_leaf C s h (map (\<lambda>e. last (fst e)) es) of
    None \<Rightarrow> \<forall>e\<in>set es. \<forall>x\<in>set (leaves_of (entry_page C e)). leaf_hash x \<noteq> h
  | Some x \<Rightarrow> leaf_hash x = h \<and> (\<exists>e\<in>set es. x \<in> set (leaves_of (entry_page C e)))"
  using assms(2)
proof (induction es)
  case (Cons e es)
  then have e: "e \<in> set (level_entries s 0)" and IH: "set es \<subseteq> set (level_entries s 0)" by auto
  show ?case
  proof (cases "List.find (\<lambda>x. leaf_hash x = h) (leaves_of (entry_page C e))")
    case None
    then have "\<forall>x\<in>set (leaves_of (entry_page C e)). leaf_hash x \<noteq> h" by (simp add: find_None_iff)
    with Cons.IH[OF IH] None show ?thesis
      by (cases "scan_leaf C s h (map (\<lambda>e. last (fst e)) es)")
        (simp_all add: leaf_candidate_entry[OF assms(1) e])
  next
    case (Some x)
    then have "leaf_hash x = h" "x \<in> set (leaves_of (entry_page C e))"
      by (auto simp: find_Some_iff)
    with Some show ?thesis by (simp add: leaf_candidate_entry[OF assms(1) e])
  qed
qed simp

lemma file_by_leaf_ok:
  assumes "file_good C s"
  shows "\<exists>r. file_load_leaf_by_hash C s h = Inr r \<and>
           (case r of None \<Rightarrow> \<forall>p\<in>pages_at (file_view C s) 0. \<forall>x\<in>set (leaves_of p). leaf_hash x \<noteq> h
            | Some x \<Rightarrow> leaf_hash x = h \<and> (\<exists>p\<in>pages_at (file_view C s) 0. x \<in> set (leaves_of p)))"
proof -
  have "file_list_summaries C s 0 = Inr (map (summary_of \<circ> entry_page C) (level_entries s 0))"
    by (rule file_list_entries[OF assms])
  then have ex: "is_dir s (level_dir 0) \<or> (\<not> fs_exists s (level_dir 0) \<and> level_entries s 0 = [])"
    by (auto simp: file_list_summaries_def split: if_splits)
  have "file_load_leaf_by_hash C s h =
      Inr (scan_leaf C s h (map (\<lambda>e. last (fst e)) (level_entries s 0)))"
    using ex by (auto simp: file_load_leaf_by_hash_def fs_exists_def dir_files_level comp_def)
  with scan_leaf_spec[OF assms order_refl, of h] show ?thesis
    unfolding level_entries_pages[OF assms, symmetric] by (auto split: option.splits)
qed

interpretation disk: storage_laws "file_backend C" "file_view C" "file_good C" for C
proof (unfold_locales, unfold file_backend_simps)
  show "finite (dom (file_view C s))" if g: "file_good C s" for s
  proof -
    have "inj (\<lambda>(l, i). page_path l i)" by (auto simp: inj_on_def)
    moreover have "(\<lambda>(l, i). page_path l i) ` dom (file_view C s) \<subseteq> fst ` set (fs_files s)"
      using g by (force simp: file_view_entry image_iff)
    ultimately show ?thesis by (meson finite_imageD finite_set finite_subset finite_imageI inj_on_subset subset_UNIV)
  qed
  show "file_good C s \<Longrightarrow> keyed (file_view C s)" for s by (auto simp: keyed_def dest: file_view_key)
qed (rule file_store_ok file_store_err file_load_view file_exists_view file_delete_ok
    file_delete_err file_list_ok file_by_hash_ok file_by_leaf_ok; assumption)+

section \<open>Histories of operations\<close>

datatype file_op = FStore journal_page | FDelete nat nat

text \<open>The backend and, beside it, the map the successful operations describe.\<close>

fun file_step :: "codecs \<Rightarrow> file_storage \<times> page_map \<Rightarrow> file_op \<Rightarrow> file_storage \<times> page_map" where
  "file_step C (s, m) (FStore p) =
     (case file_store_page C s p of
        (Inr _, s') \<Rightarrow> (s', m((page_level p, page_id p) \<mapsto> p))
      | (Inl _, s') \<Rightarrow> (s', m))"
| "file_step C (s, m) (FDelete l i) =
     (case file_delete_page s l i of
        (Inr _, s') \<Rightarrow> (s', m((l, i) := None))
      | (Inl _, s') \<Rightarrow> (s', m))"

lemma file_step_keeps:
  assumes "file_good C s" and "m = file_view C s" and "file_step C (s, m) op' = (s', m')"
  shows "file_good C s' \<and> m' = file_view C s'"
  using assms
  by (cases op') (auto split: prod.splits sum.splits
      dest: file_store_ok file_store_err file_delete_ok file_delete_err)

lemma file_history:
  assumes "file_good C s" and "foldl (file_step C) (s, file_view C s) ops = (s', m)"
  shows "file_good C s' \<and> m = file_view C s'"
  using assms(2)
proof (induction ops arbitrary: s' m rule: rev_induct)
  case Nil
  with assms(1) show ?case by auto
next
  case (snoc op' ops)
  obtain t n where t: "foldl (file_step C) (s, file_view C s) ops = (t, n)" by force
  with snoc.IH[OF t] snoc.prems show ?case using file_step_keeps[of C t n op' s' m] by simp
qed

section \<open>Properties\<close>

text \<open>
  Codecs for closed instances: a page is serialised only when its id and level determine
  it, compression puts a byte in front.
\<close>

definition sample_from_slice :: "bytes \<Rightarrow> journal_page option" where
  "sample_from_slice bs =
     Some (new_with_id sample_hashing default_config (foldl (\<lambda>v b. v * 256 + unat b) 0 (take 8 bs))
       (unat (bs ! 8)) None 0)"

definition sample_to_vec :: "journal_page \<Rightarrow> bytes option" where
  "sample_to_vec p =
     (let bs = be_bytes 8 (page_id p) @ be_bytes 1 (page_level p)
      in if page_id p < 2 ^ 64 \<and> page_level p < 256 \<and> sample_from_slice bs = Some p
         then Some bs else None)"

definition strip_byte :: "bytes \<Rightarrow> bytes option" where
  "strip_byte bs = (case bs of [] \<Rightarrow> None | _ # x \<Rightarrow> Some x)"

definition sample_codecs :: codecs where
  "sample_codecs =
     \<lparr>page_to_vec = sample_to_vec, page_from_slice = sample_from_slice,
      zstd_encode = (\<lambda>l x. Some (40 # x)), zstd_decode = strip_byte,
      lz4_compress = (\<lambda>x. 4 # x), lz4_decompress = strip_byte,
      snappy_compress = (\<lambda>x. Some (255 # x)), snappy_decompress = strip_byte\<rparr>"

lemma sample_codecs_ok: "codecs_ok sample_codecs"
  by (auto simp: codecs_ok_def sample_codecs_def strip_byte_def sample_to_vec_def Let_def
      split: if_splits)

text \<open>Codecs that serialise two given pages.\<close>

definition pair_codecs :: "journal_page \<Rightarrow> journal_page \<Rightarrow> codecs" where
  "pair_codecs a b = sample_codecs
     \<lparr>page_to_vec := \<lambda>p. if p = a then Some [1] else if p = b then Some [2] else None,
      page_from_slice := \<lambda>bs. if bs = [1] then Some a else if bs = [2] then Some b else None\<rparr>"

definition storable :: "journal_page \<Rightarrow> bool" where
  "storable p \<longleftrightarrow> page_id p < 2 ^ 64 \<and> page_level p < 256"

lemma pair_codecs_ok: "storable a \<Longrightarrow> storable b \<Longrightarrow> codecs_ok (pair_codecs a b)"
  using sample_codecs_ok by (auto simp: codecs_ok_def pair_codecs_def storable_def split: if_splits)

definition sample_disk :: file_storage where
  "sample_disk =
     \<lparr>fs_files = [], fs_dirs = [], fs_compression = default_compression_config,
      write_denied = (\<lambda>_. False)\<rparr>"

lemma sample_disk_good: "file_good sample_codecs sample_disk"
  by (simp add: file_good_def sample_codecs_ok sample_disk_def)

definition stored_page :: journal_page where
  "stored_page = new_with_id sample_hashing default_config 7 1 None 0"

text \<open>
  C18: the file backend is a map. Starting from a well-formed journal directory, after any
  history of stores and deletions, each of which may fail, \<open>load_page\<close> returns for every
  key the page of the last successful store that no successful deletion followed, or that
  the directory held before; \<open>page_exists\<close> and \<open>list_finalized_pages_summary\<close> agree with it.
\<close>

theorem file_storage_refines_map:
  assumes "file_good C s" and "foldl (file_step C) (s, file_view C s) ops = (s', m)"
  shows "file_load_page C s' l i = Inr (m (l, i)) \<and>
         file_page_exists s' l i = Inr (m (l, i) \<noteq> None) \<and>
         (\<exists>ss. file_list_summaries C s' l = Inr ss \<and> distinct (map sum_page_id ss) \<and>
            set ss = summary_of ` pages_at m l)"
proof -
  have g: "file_good C s'" and m: "m = file_view C s'"
    using file_history[OF assms] by simp_all
  show ?thesis
    unfolding m using file_load_view[OF g] file_exists_view[OF g] file_list_ok[OF g] by blast
qed

lemma stored_page_bytes:
  "page_to_vec sample_codecs stored_page = Some (be_bytes 8 7 @ be_bytes 1 1)"
  by (simp add: sample_codecs_def sample_to_vec_def sample_from_slice_def stored_page_def
      new_with_id_def be_bytes_def upt_rec Let_def)

lemma stored_page_key [simp]: "page_level stored_page = 1" "page_id stored_page = 7"
  by (simp_all add: stored_page_def new_with_id_def Let_def)

lemma stored_page_written:
  obtains s' where "file_store_page sample_codecs sample_disk stored_page = (Inr (), s')"
proof -
  show ?thesis
    using that stored_page_bytes page_path_not_dir[OF sample_disk_good]
    by (simp add: file_store_page_def create_level_dir_prefixes Let_def)
      (auto simp: sample_disk_def is_dir_def is_file_def write_file_def compress_page_def
        default_compression_config_def sample_codecs_def page_path_def level_dir_def)
qed

theorem file_storage_refines_map_witness:
  "\<exists>s' m. foldl (file_step sample_codecs) (sample_disk, file_view sample_codecs sample_disk)
       [FStore stored_page] = (s', m) \<and>
     file_load_page sample_codecs s' 1 7 = Inr (Some stored_page)"
proof -
  obtain s' where s': "file_store_page sample_codecs sample_disk stored_page = (Inr (), s')"
    by (rule stored_page_written)
  have run: "foldl (file_step sample_codecs) (sample_disk, file_view sample_codecs sample_disk)
      [FStore stored_page] = (s', (file_view sample_codecs sample_disk)((1, 7) \<mapsto> stored_page))"
    by (simp add: s')
  show ?thesis
    using file_storage_refines_map[OF sample_disk_good run, of 1 7] run by auto
qed

text \<open>
  Page files are named injectively and their names are read back. Different pages are
  stored at different paths, and the directory scan parses the id it was written with out
  of the file name, for every id of 64 bits, padded or longer than eight digits.
\<close>

theorem page_names_roundtrip:
  assumes "i < 2 ^ 64"
  shows "(page_path l i = page_path m j \<longleftrightarrow> l = m \<and> i = j) \<and>
         last (page_path l i) = page_file_name i \<and>
         (\<exists>stem. split_ext (page_file_name i) = (stem, Some ''cjt'') \<and>
            starts_with stem ''page_'' \<and> parse_u64 (trim_page stem) = Some i)"
proof -
  have "starts_with (page_stem i) ''page_''" by (simp add: starts_with_def page_stem_padded)
  with assms show ?thesis by (simp add: trim_page_stem parse_padded)
qed

theorem page_names_roundtrip_witness:
  "last (page_path 0 42) = ''page_00000042.cjt'' \<and>
   parse_u64 (trim_page ''page_00000042'') = Some 42"
proof -
  have six: "replicate 6 (CHR ''0'') = ''000000''"
    by (simp add: numeral_eq_Suc)
  have "page_file_name 42 = ''page_00000042.cjt''"
    by (simp add: page_file_name_def page_stem_def dec_digits.simps[of 42] dec_digits.simps[of 4]
        digit_char_def six char_of_def bit_numeral_rec bit_Suc_0_iff)
  moreover have "split_ext ''page_00000042.cjt'' = (''page_00000042'', Some ''cjt'')"
    by (simp add: split_ext_def)
  ultimately show ?thesis using page_names_roundtrip[of 42 0 0 42] by auto
qed

text \<open>
  One page file that does not decompress makes \<open>load_page_by_hash\<close> fail for every hash
  that is not found before it, although files with a bad header or bad JSON are skipped;
  the error is \<open>CompressionError\<close>, while \<open>load_page\<close> reports \<open>DecompressionError\<close> for the
  same file.
\<close>

theorem by_hash_blocked_by_corrupt_page:
  assumes "is_dir s [''journal'']"
    and "level_files s = pre @ file_content data a # post"
    and "\<forall>d\<in>set pre. \<exists>p. decode_file C d = Inr p \<and> page_hash p \<noteq> h"
    and "decompress C a data = None"
  shows "file_load_page_by_hash C s h = Inl CompressionError \<and>
         decode_file C (file_content data a) = Inl DecompressionError"
proof -
  have "scan_hash C h (pre @ file_content data a # post) = Inl CompressionError"
    using assms(3)
  proof (induction pre)
    case (Cons d pre)
    then obtain p where "decode_file C d = Inr p" "page_hash p \<noteq> h" by auto
    with Cons show ?case by (auto simp: decode_file_Inr)
  qed (simp add: assms(4))
  with assms show ?thesis
    by (simp add: file_load_page_by_hash_def fs_exists_def decode_file_content)
qed

theorem by_hash_blocked_by_corrupt_page_witness:
  "file_load_page_by_hash sample_codecs
     (sample_disk\<lparr>fs_files := [(page_path 0 3, file_content [] Zstd)],
        fs_dirs := [[''journal''], level_dir 0]\<rparr>) zero_hash = Inl CompressionError"
proof -
  let ?s = "sample_disk\<lparr>fs_files := [(page_path 0 3, file_content [] Zstd)],
        fs_dirs := [[''journal''], level_dir 0]\<rparr>"
  have "level_files ?s = [] @ file_content [] Zstd # []"
    by (simp add: level_files_def dir_dirs_def dir_files_def level_dir_def[of 0] starts_with_def
        split_def)
  moreover have "decompress sample_codecs Zstd [] = None"
    by (simp add: sample_codecs_def strip_byte_def)
  ultimately show ?thesis
    using by_hash_blocked_by_corrupt_page[of ?s "[]" "[]" Zstd "[]" sample_codecs zero_hash]
    by (simp add: is_dir_def)
qed

end
