(* ===== verification/Time_Window.thy ===== *)
theory Time_Window
  imports File_Storage
begin

text \<open>
  Page windows: \<open>TimeHierarchyManager::get_page_window\<close> (\<open>src/core/time_manager.rs\<close>), which
  the manager uses, and \<open>TimeHierarchy::page_window\<close> (\<open>src/time/hierarchy.rs\<close>), the same
  computation over the named levels. Nanoseconds since the epoch are divided with the
  truncating division of \<open>i64\<close>; a timestamp outside the \<open>i64\<close> range counts as zero.
\<close>

section \<open>Definitions\<close>

definition timestamp_nanos :: "timestamp \<Rightarrow> int" where
  "timestamp_nanos t = (if in_i64 t then t else 0)"

definition window_start :: "int \<Rightarrow> int \<Rightarrow> timestamp" where
  "window_start ts_nanos gran_nanos = trunc_div ts_nanos gran_nanos * gran_nanos"

definition zero_granularity :: "nat \<Rightarrow> cj_error" where
  "zero_granularity l =
     ConfigError (InvalidValue (''time_hierarchy.levels['' @ dec_digits l @ ''].duration_seconds''))"

definition get_page_window ::
  "config \<Rightarrow> nat \<Rightarrow> timestamp \<Rightarrow> cj_error + (timestamp \<times> timestamp)" where
  "get_page_window cfg level_idx ts =
     (case level_at cfg level_idx of
        None \<Rightarrow> Inl (ConfigError ValidationError)
      | Some level_config \<Rightarrow>
          let granularity_duration = nanos (int (duration_seconds level_config)) in
          if granularity_duration = 0 then Inl (zero_granularity level_idx)
          else
            let gran_nanos = as_i64 granularity_duration in
            if gran_nanos = 0 then Inl Panicked
            else
              let start_time = window_start (timestamp_nanos ts) gran_nanos
              in Inr (start_time, start_time + granularity_duration))"

definition page_window ::
  "named_level list \<Rightarrow> nat \<Rightarrow> timestamp \<Rightarrow> cj_error + (timestamp \<times> timestamp)" where
  "page_window ls level_idx ts =
     (if length ls \<le> level_idx then Inl InvalidInput
      else
        let duration = nanos (as_i64 (int (named_duration_seconds (ls ! level_idx))));
            gran_nanos = (if in_i64 duration then duration else 0)
        in if gran_nanos = 0 then Inl InvalidInput
           else
             let start = window_start (timestamp_nanos ts) gran_nanos
             in Inr (start, start + duration))"

section \<open>Well-formed levels\<close>

text \<open>
  A level whose duration is neither zero nor longer than the \<open>i64\<close> nanosecond range (292
  years), and which allows at least one item on a page.
\<close>

definition level_ok :: "time_level \<Rightarrow> bool" where
  "level_ok lc \<longleftrightarrow> 0 < duration_seconds lc \<and> duration_seconds lc \<le> 9223372036"

lemma level_ok_nanos:
  assumes "level_ok lc"
  shows "as_i64 (nanos (int (duration_seconds lc))) = nanos (int (duration_seconds lc))"
    and "0 < nanos (int (duration_seconds lc))"
    and "as_i64 (int (duration_seconds lc)) = int (duration_seconds lc)"
  using assms by (simp_all add: level_ok_def nanos_def as_i64_id in_i64_def)

lemma window_bounds:
  assumes "0 \<le> t" and "0 < g"
  shows "window_start t g \<le> t" and "t < window_start t g + g" and "0 \<le> window_start t g"
proof -
  have w: "window_start t g = t - t mod g"
    using assms by (simp add: window_start_def trunc_div_nonneg minus_mod_eq_div_mult)
  show "window_start t g \<le> t" "t < window_start t g + g"
    using assms by (simp_all add: w)
  show "0 \<le> window_start t g"
    using assms by (simp add: window_start_def trunc_div_nonneg pos_imp_zdiv_nonneg_iff)
qed

lemma window_start_idem:
  assumes "0 \<le> t" and "0 < g" and "window_start t g \<le> u" and "u < window_start t g + g"
  shows "window_start u g = window_start t g"
proof -
  have "0 \<le> u" using window_bounds(3)[OF assms(1,2)] assms(3) by linarith
  moreover have "u div g = t div g"
    using assms(1,2) assms(3,4)[unfolded window_start_def trunc_div_nonneg[OF assms(1,2)]]
    by (intro int_div_pos_eq[where r = "u - t div g * g"]) (auto simp: mult.commute)
  ultimately show ?thesis using assms by (simp add: window_start_def trunc_div_nonneg)
qed

lemma get_page_window_ok:
  assumes "level_at cfg l = Some lc" and "level_ok lc"
  shows "get_page_window cfg l ts =
    (let g = nanos (int (duration_seconds lc));
         start = window_start (timestamp_nanos ts) g in Inr (start, start + g))"
  using assms level_ok_nanos[OF assms(2)] by (simp add: get_page_window_def Let_def)

lemma get_page_window_Inr:
  assumes "get_page_window cfg l ts = Inr (s, e)"
  obtains lc where "level_at cfg l = Some lc" and "e = s + nanos (int (duration_seconds lc))"
  using assms by (auto simp: get_page_window_def Let_def split: option.splits if_splits)

section \<open>Properties\<close>

text \<open>
  Page windows partition the time line from the epoch on. For a configured level of
  sane duration and a timestamp in the representable range, the window is as long as the
  level, aligned to it, contains the timestamp, and is the window of every timestamp in it.
\<close>

theorem page_window_partition:
  assumes "level_at cfg l = Some lc" and "level_ok lc" and "0 \<le> ts" and "in_i64 ts"
  shows "\<exists>s e. get_page_window cfg l ts = Inr (s, e) \<and> s \<le> ts \<and> ts < e \<and>
           e = s + nanos (int (duration_seconds lc)) \<and>
           nanos (int (duration_seconds lc)) dvd s \<and>
           (\<forall>u. s \<le> u \<and> u < e \<and> in_i64 u \<longrightarrow> get_page_window cfg l u = Inr (s, e))"
proof -
  let ?g = "nanos (int (duration_seconds lc))"
  let ?s = "window_start ts ?g"
  have g: "0 < ?g" by (rule level_ok_nanos(2)[OF assms(2)])
  have "get_page_window cfg l u = Inr (?s, ?s + ?g)" if "?s \<le> u" "u < ?s + ?g" "in_i64 u" for u
    using that get_page_window_ok[OF assms(1,2), of u] window_start_idem[OF assms(3) g, of u]
    by (simp add: Let_def timestamp_nanos_def)
  moreover have "?s \<le> ts" "ts < ?s + ?g" using window_bounds[OF assms(3) g] by simp_all
  moreover have "?g dvd ?s" by (simp add: window_start_def)
  ultimately show ?thesis using assms(4) by blast
qed

theorem page_window_partition_witness:
  "\<exists>s e. get_page_window default_config 0 86400000000005 = Inr (s, e) \<and>
     s \<le> 86400000000005 \<and> 86400000000005 < e"
proof -
  have "level_at default_config 0 = Some (levels default_config ! 0)"
    by (simp add: level_at_def default_config_defs)
  moreover have "level_ok (levels default_config ! 0)"
    by (simp add: level_ok_def default_config_defs)
  ultimately show ?thesis
    using page_window_partition[of default_config 0 _ 86400000000005] by (fastforce simp: in_i64_def)
qed

text \<open>
  Before the epoch the window misses the timestamp. The division truncates towards
  zero, so the window computed for a timestamp before 1970 that is not on a boundary
  starts after the timestamp.
\<close>

theorem page_window_before_epoch:
  assumes "level_at cfg l = Some lc" and "level_ok lc" and "ts < 0" and "in_i64 ts"
    and "\<not> nanos (int (duration_seconds lc)) dvd ts"
  shows "\<exists>s e. get_page_window cfg l ts = Inr (s, e) \<and> ts < s"
proof -
  let ?g = "nanos (int (duration_seconds lc))"
  have g: "0 < ?g" by (rule level_ok_nanos(2)[OF assms(2)])
  have "window_start ts ?g = - ((- ts) div ?g * ?g)"
    using assms(3) g by (simp add: window_start_def trunc_div_def)
  also have "\<dots> = ts + (- ts) mod ?g"
    by (simp add: minus_mod_eq_div_mult[symmetric])
  finally have w: "window_start ts ?g = ts + (- ts) mod ?g" .
  have "(- ts) mod ?g \<noteq> 0" using assms(5) by (simp add: mod_eq_0_iff_dvd)
  then have "0 < (- ts) mod ?g" using pos_mod_sign[OF g, of "- ts"] by linarith
  with w have "ts < window_start ts ?g" by simp
  then show ?thesis
    using get_page_window_ok[OF assms(1,2), of ts] assms(4) by (simp add: Let_def timestamp_nanos_def)
qed

theorem page_window_before_epoch_witness:
  "\<exists>s e. get_page_window default_config 0 (- 1) = Inr (s, e) \<and> - 1 < s"
proof -
  have "level_at default_config 0 = Some (levels default_config ! 0)"
    by (simp add: level_at_def default_config_defs)
  moreover have "level_ok (levels default_config ! 0)"
    "nanos (int (duration_seconds (levels default_config ! 0))) = 86400000000000"
    by (simp_all add: level_ok_def default_config_defs nanos_def)
  ultimately show ?thesis
    using page_window_before_epoch[of default_config 0 _ "- 1"] by (simp add: in_i64_def)
qed

text \<open>
  The two window computations agree. Where a configured level is as long as a named
  level, \<open>TimeHierarchy::page_window\<close> and the manager's \<open>get_page_window\<close> return the same
  window for every timestamp.
\<close>

theorem page_window_agrees:
  assumes "i < length ls" and "level_at cfg l = Some lc"
    and "duration_seconds lc = named_duration_seconds (ls ! i)"
  shows "page_window ls i ts = get_page_window cfg l ts"
proof -
  have "duration_seconds lc \<le> 9223372036 \<and> 0 < duration_seconds lc"
    by (cases "ls ! i") (simp_all add: assms(3))
  then have ok: "level_ok lc" by (simp add: level_ok_def)
  then have "in_i64 (nanos (int (duration_seconds lc)))"
    by (simp add: level_ok_def nanos_def in_i64_def)
  with assms(1) level_ok_nanos[OF ok] show ?thesis
    by (simp add: page_window_def get_page_window_ok[OF assms(2) ok] Let_def assms(3)[symmetric])
qed

theorem page_window_agrees_witness:
  "page_window [Minute, Day] 1 12345 = get_page_window default_config 0 12345"
  by (rule page_window_agrees[where lc = "levels default_config ! 0"])
    (simp_all add: level_at_def default_config_defs)

end
