(* ===== verification/Time_Manager.thy ===== *)
theory Time_Manager
  imports Time_Window
begin

text \<open>
  The \<open>TimeHierarchyManager\<close> of \<open>src/core/time_manager.rs\<close>: the active page of every level,
  the tracking of the last finalised page, \<open>add_leaf\<close>, and the rollup cascade from a
  finalised page to its parent level.

  An operation takes the manager's state and returns its result with the state it leaves,
  also when it fails. The configuration, which never changes, and the storage backend are
  arguments. The mutexes are held for the length of each access only and all calls are
  awaited one after the other; the model runs one operation at a time, as the API does,
  which holds a lock across \<open>add_leaf\<close>. \<open>Async_Journal\<close> has the same code cut at its accesses.
\<close>

section \<open>Definitions\<close>

record 's manager =
  storage :: 's
  page_id_gen :: nat
  active_pages :: "nat \<Rightarrow> journal_page option"
  last_finalized_page_ids :: "nat \<Rightarrow> nat option"
  last_finalized_page_hashes :: "nat \<Rightarrow> hash option"

definition manager_new :: "'s \<Rightarrow> 's manager" where
  "manager_new s =
     \<lparr>storage = s, page_id_gen = 0, active_pages = Map.empty,
      last_finalized_page_ids = Map.empty, last_finalized_page_hashes = Map.empty\<rparr>"

subsection \<open>Reading\<close>

definition load_page_from_storage ::
  "'s storage_backend \<Rightarrow> 's manager \<Rightarrow> nat \<Rightarrow> nat \<Rightarrow> cj_error + journal_page option" where
  "load_page_from_storage B m l i = load_page B (storage m) l i"

definition get_active_l0_leaves_up_to :: "'s manager \<Rightarrow> timestamp \<Rightarrow> journal_leaf list" where
  "get_active_l0_leaves_up_to m as_of =
     (case active_pages m 0 of
        Some l0_page \<Rightarrow>
          (case content l0_page of
             Leaves leaves \<Rightarrow> filter (\<lambda>leaf. leaf_timestamp leaf \<le> as_of) leaves
           | _ \<Rightarrow> [])
      | None \<Rightarrow> [])"

definition get_current_active_page_id :: "'s manager \<Rightarrow> nat \<Rightarrow> nat option" where
  "get_current_active_page_id m l = map_option page_id (active_pages m l)"

definition get_active_page_by_id :: "'s manager \<Rightarrow> nat \<Rightarrow> nat \<Rightarrow> journal_page option" where
  "get_active_page_by_id m l i =
     (case active_pages m l of
        Some p \<Rightarrow> if page_id p = i then Some p else None
      | None \<Rightarrow> None)"

definition get_active_page :: "'s manager \<Rightarrow> nat \<Rightarrow> journal_page option" where
  "get_active_page m l = active_pages m l"

subsection \<open>Storing, tracking and creating pages\<close>

definition store_in ::
  "'s storage_backend \<Rightarrow> journal_page \<Rightarrow> 's manager \<Rightarrow> (cj_error + unit) \<times> 's manager" where
  "store_in B p m = (case store_page B (storage m) p of (r, s) \<Rightarrow> (r, m\<lparr>storage := s\<rparr>))"

definition track_finalized :: "nat \<Rightarrow> journal_page \<Rightarrow> 's manager \<Rightarrow> 's manager" where
  "track_finalized l p m =
     m\<lparr>last_finalized_page_ids := (last_finalized_page_ids m)(l \<mapsto> page_id p),
       last_finalized_page_hashes := (last_finalized_page_hashes m)(l \<mapsto> page_hash p)\<rparr>"

definition set_active :: "nat \<Rightarrow> journal_page option \<Rightarrow> 's manager \<Rightarrow> 's manager" where
  "set_active l po m = m\<lparr>active_pages := (active_pages m)(l := po)\<rparr>"

definition create_page ::
  "externals \<Rightarrow> config \<Rightarrow> nat \<Rightarrow> hash option \<Rightarrow> timestamp \<Rightarrow> 's manager \<Rightarrow>
    (cj_error + journal_page) \<times> 's manager" where
  "create_page X cfg l prev start m =
     (let (i, g) = id_next (page_id_gen m)
      in (Inr (new_with_id X cfg i l prev start), m\<lparr>page_id_gen := g\<rparr>))"

text \<open>The hash of the last finalised page of a level, read back from storage.\<close>

definition last_stored_hash ::
  "'s storage_backend \<Rightarrow> nat \<Rightarrow> 's manager \<Rightarrow> cj_error + hash option" where
  "last_stored_hash B l m =
     (case last_finalized_page_ids m l of
        None \<Rightarrow> Inr None
      | Some i \<Rightarrow> try_pure (load_page B (storage m) l i) (\<lambda>po. Inr (map_option page_hash po)))"

subsection \<open>Rollup: the parent page\<close>

text \<open>\<open>get_or_create_active_parent_page\<close>.\<close>

definition get_or_create_active_parent_page ::
  "externals \<Rightarrow> 's storage_backend \<Rightarrow> config \<Rightarrow> nat \<Rightarrow> timestamp \<Rightarrow> 's manager \<Rightarrow>
    (cj_error + journal_page) \<times> 's manager" where
  "get_or_create_active_parent_page X B cfg pl ts m =
     (case get_page_window cfg pl ts of
        Inl e \<Rightarrow> (Inl e, m)
      | Inr (wstart, _) \<Rightarrow>
        (case level_at cfg pl of
           None \<Rightarrow> (Inl (ConfigError ValidationError), m)
         | Some level_config \<Rightarrow>
           let max_items = max_items_per_page (rollup_config level_config);
               prev = last_finalized_page_hashes m pl;
               usable = (case active_pages m pl of
                   None \<Rightarrow> None
                 | Some p \<Rightarrow>
                     if creation_timestamp p \<le> ts \<and> ts < end_time p \<and> content_len p < max_items
                     then Some p else None)
           in case usable of
                Some p \<Rightarrow> (Inr p, m)
              | None \<Rightarrow>
                (case last_finalized_page_ids m pl of
                   None \<Rightarrow> create_page X cfg pl prev wstart m
                 | Some last_page_id \<Rightarrow>
                   (case load_page B (storage m) pl last_page_id of
                      Inl e \<Rightarrow> (Inl e, m)
                    | Inr None \<Rightarrow> create_page X cfg pl prev wstart m
                    | Inr (Some loaded) \<Rightarrow>
                        if creation_timestamp loaded = wstart \<and>
                           end_time loaded = wstart + nanos (int (duration_seconds level_config)) \<and>
                           content_len loaded < max_items
                        then (Inr loaded, m)
                        else create_page X cfg pl (Some (page_hash loaded)) wstart m))))"

text \<open>The net patches of the leaves of an L0 page: last write wins per container and field.\<close>

definition add_leaf_patch :: "journal_leaf \<Rightarrow> net_patches \<Rightarrow> net_patches" where
  "add_leaf_patch leaf ps =
     (case delta_payload leaf of
        JObject fields_map \<Rightarrow>
          AList.update (container_id leaf)
            (merge_fields fields_map (patch_entry ps (container_id leaf))) ps
      | _ \<Rightarrow> ps)"

definition leaf_patches :: "journal_leaf list \<Rightarrow> net_patches" where
  "leaf_patches leaves = fold add_leaf_patch leaves []"

definition merge_child_patches :: "journal_page \<Rightarrow> journal_page \<Rightarrow> cj_error + journal_page" where
  "merge_child_patches parent child =
     (case content child of
        NetPatches ps \<Rightarrow>
          if ps \<noteq> [] then merge_net_patches parent ps (end_time child) else Inr parent
      | Leaves leaves \<Rightarrow>
          let ps = leaf_patches leaves
          in if ps \<noteq> [] then merge_net_patches parent ps (end_time child) else Inr parent
      | ThrallHashesWithNetPatches hs ps \<Rightarrow>
          if ps \<noteq> [] then merge_net_patches parent ps (end_time child) else Inr parent
      | ThrallHashes hs \<Rightarrow> Inr parent
      | Snapshot sp \<Rightarrow> Inr parent)"

definition add_child_content ::
  "rollup_content_type \<Rightarrow> journal_page \<Rightarrow> journal_page \<Rightarrow> cj_error + journal_page" where
  "add_child_content ct parent child =
     (case ct of
        ChildHashes \<Rightarrow> add_thrall_hash parent (page_hash child) (end_time child)
      | NetPatchesType \<Rightarrow> merge_child_patches parent child
      | ChildHashesAndNetPatches \<Rightarrow>
          try_pure (add_thrall_hash parent (page_hash child) (end_time child))
            (\<lambda>p. merge_child_patches p child))"

subsection \<open>Rollup: the two steps between the recursive calls\<close>

text \<open>
  An active parent page that ends at or before the trigger is removed; if it has content it
  is stored, and its hash is returned for a rollup of its own.
\<close>

definition stale_parent_step ::
  "externals \<Rightarrow> 's storage_backend \<Rightarrow> nat \<Rightarrow> timestamp \<Rightarrow> 's manager \<Rightarrow>
    (cj_error + hash option) \<times> 's manager" where
  "stale_parent_step X B pl ts m =
     (case active_pages m pl of
        None \<Rightarrow> (Inr None, m)
      | Some existing \<Rightarrow>
          if end_time existing \<le> ts then
            let m = set_active pl None m in
            if is_content_empty existing then (Inr None, m)
            else
              let page = recalculate X existing in
              try_then (store_in B page m) (\<lambda>_ m.
                (Inr (Some (page_hash page)), track_finalized pl page m))
          else (Inr None, m))"

text \<open>
  The child's content is added to the parent page, which is then discarded, kept active, or
  finalised; the hash of a finalised parent is returned for the next rollup.
\<close>

definition settle_parent ::
  "'s storage_backend \<Rightarrow> nat \<Rightarrow> time_level \<Rightarrow> journal_page \<Rightarrow> timestamp \<Rightarrow> 's manager \<Rightarrow>
    (cj_error + hash option) \<times> 's manager" where
  "settle_parent B pl parent_cfg parent ts m =
     (let age_seconds = trunc_div (ts - creation_timestamp parent) 1000000000;
          is_full = max_items_per_page (rollup_config parent_cfg) \<le> content_len parent;
          is_over_age = as_i64 (int (max_page_age_seconds (rollup_config parent_cfg))) \<le> age_seconds
      in if is_content_empty parent then
           if is_over_age then
             let m = set_active pl None m
             in (Inr None, m\<lparr>page_id_gen := id_revert (page_id parent) (page_id_gen m)\<rparr>)
           else (Inr None, set_active pl (Some parent) m)
         else if is_full \<or> is_over_age then
           try_then (store_in B parent (set_active pl None m)) (\<lambda>_ m.
             (Inr (Some (page_hash parent)), track_finalized pl parent m))
         else (Inr None, set_active pl (Some parent) m))"

definition attach_child_step ::
  "externals \<Rightarrow> 's storage_backend \<Rightarrow> config \<Rightarrow> nat \<Rightarrow> time_level \<Rightarrow> journal_page \<Rightarrow> timestamp \<Rightarrow>
    's manager \<Rightarrow> (cj_error + hash option) \<times> 's manager" where
  "attach_child_step X B cfg pl parent_cfg child ts m =
     try_then (get_or_create_active_parent_page X B cfg pl ts m) (\<lambda>parent m.
       if length (levels cfg) \<le> page_level child then (Inl Panicked, m)
       else case add_child_content (content_type (rollup_config parent_cfg)) parent child of
         Inl e \<Rightarrow> (Inl e, m)
       | Inr parent \<Rightarrow> settle_parent B pl parent_cfg (recalculate X parent) ts m)"

subsection \<open>Rollup: the cascade\<close>

lemma level_at_less: "level_at cfg l = Some lc \<Longrightarrow> l < length (levels cfg)"
  by (simp add: level_at_def split: if_splits)

function perform_rollup ::
  "externals \<Rightarrow> 's storage_backend \<Rightarrow> config \<Rightarrow> nat \<Rightarrow> hash \<Rightarrow> timestamp \<Rightarrow> 's manager \<Rightarrow>
    (cj_error + unit) \<times> 's manager" where
  "perform_rollup X B cfg finalized_level finalized_hash ts m =
     (if 255 \<le> finalized_level then (Inl Panicked, m)
      else case load_page_by_hash B (storage m) finalized_hash of
        Inl e \<Rightarrow> (Inl e, m)
      | Inr None \<Rightarrow> (Inl StorageError, m)
      | Inr (Some child) \<Rightarrow>
        (case level_at cfg (finalized_level + 1) of
           None \<Rightarrow> (Inr (), m)
         | Some parent_cfg \<Rightarrow>
           try_then (stale_parent_step X B (finalized_level + 1) ts m) (\<lambda>stale m.
           try_then (case stale of
                       None \<Rightarrow> (Inr (), m)
                     | Some h \<Rightarrow> perform_rollup X B cfg (finalized_level + 1) h ts m) (\<lambda>_ m.
           try_then (attach_child_step X B cfg (finalized_level + 1) parent_cfg child ts m)
             (\<lambda>finalized m.
           case finalized of
             None \<Rightarrow> (Inr (), m)
           | Some h \<Rightarrow> perform_rollup X B cfg (finalized_level + 1) h ts m)))))"
  by pat_completeness auto
termination
  by (relation "measure (\<lambda>(X, B, cfg, l, h, ts, m). length (levels cfg) - l)")
    (auto dest: level_at_less)

declare perform_rollup.simps [simp del]

subsection \<open>Adding a leaf\<close>

definition finalize_and_rollup_page ::
  "externals \<Rightarrow> 's storage_backend \<Rightarrow> config \<Rightarrow> journal_page \<Rightarrow> timestamp \<Rightarrow> 's manager \<Rightarrow>
    (cj_error + unit) \<times> 's manager" where
  "finalize_and_rollup_page X B cfg p ts m =
     (if is_content_empty p then (Inr (), m\<lparr>page_id_gen := id_revert (page_id p) (page_id_gen m)\<rparr>)
      else
        let p = recalculate X p in
        try_then (store_in B p m) (\<lambda>_ m.
          perform_rollup X B cfg (page_level p) (page_hash p) ts
            (track_finalized (page_level p) p m)))"

text \<open>The page created when no active L0 page can take the leaf.\<close>

definition fresh_leaf_page ::
  "externals \<Rightarrow> 's storage_backend \<Rightarrow> config \<Rightarrow> timestamp \<Rightarrow> 's manager \<Rightarrow>
    (cj_error + journal_page) \<times> 's manager" where
  "fresh_leaf_page X B cfg wstart m =
     (case last_stored_hash B 0 m of
        Inl e \<Rightarrow> (Inl e, m)
      | Inr (Some h) \<Rightarrow> create_page X cfg 0 (Some h) wstart m
      | Inr None \<Rightarrow>
          (case last_stored_hash B 0 m of
             Inl e \<Rightarrow> (Inl e, m)
           | Inr prev \<Rightarrow> create_page X cfg 0 prev wstart m))"

definition get_or_create_active_page_for_leaf ::
  "externals \<Rightarrow> 's storage_backend \<Rightarrow> config \<Rightarrow> journal_leaf \<Rightarrow> 's manager \<Rightarrow>
    (cj_error + journal_page) \<times> 's manager" where
  "get_or_create_active_page_for_leaf X B cfg leaf m =
     (case get_page_window cfg 0 (leaf_timestamp leaf) of
        Inl e \<Rightarrow> (Inl e, m)
      | Inr (wstart, _) \<Rightarrow>
        (case active_pages m 0 of
           None \<Rightarrow> fresh_leaf_page X B cfg wstart m
         | Some p \<Rightarrow>
             if creation_timestamp p \<le> leaf_timestamp leaf \<and> leaf_timestamp leaf < end_time p \<and>
                content_len p < max_items_per_page (rollup_config (levels cfg ! 0))
             then (Inr p, m)
             else
               try_then (finalize_and_rollup_page X B cfg p (leaf_timestamp leaf)
                           (set_active 0 None m))
                 (\<lambda>_ m. fresh_leaf_page X B cfg wstart m)))"

text \<open>Finalisation inside \<open>add_leaf\<close>: store, track, remove from the active pages, roll up.\<close>

definition close_page ::
  "externals \<Rightarrow> 's storage_backend \<Rightarrow> config \<Rightarrow> journal_page \<Rightarrow> timestamp \<Rightarrow> 's manager \<Rightarrow>
    (cj_error + unit) \<times> 's manager" where
  "close_page X B cfg p ts m =
     (let p = recalculate X p in
      try_then (store_in B p m) (\<lambda>_ m.
        perform_rollup X B cfg (page_level p) (page_hash p) ts
          (set_active (page_level p) None (track_finalized (page_level p) p m))))"

definition leaf_max_age :: "time_level \<Rightarrow> int option" where
  "leaf_max_age lc =
     (if 0 < max_page_age_seconds (rollup_config lc)
      then Some (nanos (as_i64 (int (max_page_age_seconds (rollup_config lc))))) else None)"

definition leaf_finalize :: "time_level \<Rightarrow> journal_page \<Rightarrow> timestamp \<Rightarrow> timestamp \<Rightarrow> bool \<times> bool" where
  "leaf_finalize lc p ts operation_time =
     should_finalize p ts operation_time (as_u32 (max_items_per_page (rollup_config lc)))
       (leaf_max_age lc)"

definition insert_leaf ::
  "externals \<Rightarrow> 's storage_backend \<Rightarrow> config \<Rightarrow> time_level \<Rightarrow> journal_leaf \<Rightarrow> timestamp \<Rightarrow> journal_page \<Rightarrow>
    's manager \<Rightarrow> (cj_error + unit) \<times> 's manager" where
  "insert_leaf X B cfg lc leaf operation_time page m =
     (case page_add_leaf page leaf of
        Inl e \<Rightarrow> (Inl e, m)
      | Inr page \<Rightarrow>
          let (full_or_old, outside) = leaf_finalize lc page (leaf_timestamp leaf) operation_time in
          if full_or_old \<or> outside then close_page X B cfg page (leaf_timestamp leaf) m
          else (Inr (), set_active (page_level page) (Some page) m))"

definition add_leaf ::
  "externals \<Rightarrow> 's storage_backend \<Rightarrow> config \<Rightarrow> journal_leaf \<Rightarrow> timestamp \<Rightarrow> 's manager \<Rightarrow>
    (cj_error + nat) \<times> 's manager" where
  "add_leaf X B cfg leaf operation_time m =
     try_then (get_or_create_active_page_for_leaf X B cfg leaf m) (\<lambda>page m.
       case level_at cfg (page_level page) of
         None \<Rightarrow> (Inl Panicked, m)
       | Some lc \<Rightarrow>
         let original_page_id = page_id page in
         try_then
           (if fst (leaf_finalize lc page (leaf_timestamp leaf) operation_time) \<and>
               leaf_timestamp leaf < operation_time \<and> \<not> is_content_empty page
            then try_then (close_page X B cfg page (leaf_timestamp leaf) m)
                   (\<lambda>_ m. get_or_create_active_page_for_leaf X B cfg leaf m)
            else (Inr page, m))
           (\<lambda>page m.
         try_then (insert_leaf X B cfg lc leaf operation_time page m)
           (\<lambda>_ m. (Inr original_page_id, m))))"

section \<open>Well-formed configurations and pages\<close>

definition config_ok :: "config \<Rightarrow> bool" where
  "config_ok cfg \<longleftrightarrow> levels cfg \<noteq> [] \<and> length (levels cfg) \<le> 255 \<and>
     (\<forall>lc\<in>set (levels cfg). level_ok lc \<and>
        0 < max_items_per_page (rollup_config lc) \<and> max_items_per_page (rollup_config lc) < 2 ^ 32)"

definition level_content :: "config \<Rightarrow> nat \<Rightarrow> rollup_content_type" where
  "level_content cfg l =
     (case level_at cfg l of None \<Rightarrow> ChildHashes | Some lc \<Rightarrow> content_type (rollup_config lc))"

text \<open>The shape of content the configuration prescribes for a level.\<close>

fun content_fits :: "config \<Rightarrow> nat \<Rightarrow> page_content \<Rightarrow> bool" where
  "content_fits cfg l (Leaves ls) \<longleftrightarrow> l = 0"
| "content_fits cfg l (ThrallHashes hs) \<longleftrightarrow> 0 < l \<and> level_content cfg l = ChildHashes"
| "content_fits cfg l (NetPatches ps) \<longleftrightarrow> 0 < l \<and> level_content cfg l = NetPatchesType"
| "content_fits cfg l (ThrallHashesWithNetPatches hs ps) \<longleftrightarrow>
     0 < l \<and> level_content cfg l = ChildHashesAndNetPatches"
| "content_fits cfg l (Snapshot sp) \<longleftrightarrow> False"

definition page_fits :: "config \<Rightarrow> nat \<Rightarrow> journal_page \<Rightarrow> bool" where
  "page_fits cfg l p \<longleftrightarrow>
     page_level p = l \<and> l < length (levels cfg) \<and> content_fits cfg l (content p)"

text \<open>\<open>q\<close> is \<open>p\<close> after content was added: same identity and shape, and not emptier.\<close>

fun same_shape :: "page_content \<Rightarrow> page_content \<Rightarrow> bool" where
  "same_shape (Leaves a) (Leaves b) \<longleftrightarrow> True"
| "same_shape (ThrallHashes a) (ThrallHashes b) \<longleftrightarrow> True"
| "same_shape (ThrallHashesWithNetPatches a c) (ThrallHashesWithNetPatches b d) \<longleftrightarrow> True"
| "same_shape (NetPatches a) (NetPatches b) \<longleftrightarrow> True"
| "same_shape (Snapshot a) (Snapshot b) \<longleftrightarrow> True"
| "same_shape _ _ \<longleftrightarrow> False"

definition grows :: "journal_page \<Rightarrow> journal_page \<Rightarrow> bool" where
  "grows p q \<longleftrightarrow>
     page_id q = page_id p \<and> page_level q = page_level p \<and>
     creation_timestamp q = creation_timestamp p \<and> end_time q = end_time p \<and>
     prev_page_hash q = prev_page_hash p \<and> same_shape (content p) (content q) \<and>
     (is_content_empty q \<longrightarrow> is_content_empty p)"

lemma same_shape_refl [simp]: "same_shape c c"
  by (cases c) simp_all

lemma same_shape_trans: "same_shape a b \<Longrightarrow> same_shape b c \<Longrightarrow> same_shape a c"
  by (cases a; cases b; cases c) simp_all

lemma same_shape_fits: "same_shape a b \<Longrightarrow> content_fits cfg l a = content_fits cfg l b"
  by (cases a; cases b) simp_all

lemma grows_refl [simp]: "grows p p"
  by (simp add: grows_def)

lemma grows_trans: "grows p q \<Longrightarrow> grows q r \<Longrightarrow> grows p r"
  by (auto simp: grows_def intro: same_shape_trans)

lemma grows_fits: "grows p q \<Longrightarrow> page_fits cfg l p \<Longrightarrow> page_fits cfg l q"
  using same_shape_fits by (auto simp: grows_def page_fits_def)

lemma grows_recalculate: "grows p (recalculate X p)"
  by (simp add: grows_def is_content_empty_def)

lemma merge_patch_maps_nonempty: "merge_patch_maps tm ps = [] \<Longrightarrow> ps = []"
proof -
  have upd: "AList.update k v al \<noteq> []" for k :: string and v :: field_patches and al
    by (cases al) auto
  have "ps \<noteq> [] \<Longrightarrow>
      fold (\<lambda>(oid, fps) m. AList.update oid (merge_fields fps (patch_entry m oid)) m) tm ps \<noteq> []" for ps
  proof (induction tm arbitrary: ps)
    case (Cons x tm)
    obtain oid fps where x: "x = (oid, fps)" by (cases x)
    show ?case
      using Cons.IH[of "AList.update oid (merge_fields fps (patch_entry ps oid)) ps"] upd
      by (simp add: x)
  qed simp
  then show "merge_patch_maps tm ps = [] \<Longrightarrow> ps = []" by (auto simp: merge_patch_maps_def)
qed

lemma add_thrall_hash_grows: "add_thrall_hash p h t = Inr q \<Longrightarrow> grows p q \<and> \<not> is_content_empty q"
  by (auto simp: add_thrall_hash_def grows_def is_content_empty_def
      split: if_splits page_content.splits)

lemma merge_net_patches_grows: "merge_net_patches p ps t = Inr q \<Longrightarrow> grows p q"
  by (auto simp: merge_net_patches_def grows_def is_content_empty_def
      dest: merge_patch_maps_nonempty split: if_splits page_content.splits)

lemma merge_child_patches_grows: "merge_child_patches p child = Inr q \<Longrightarrow> grows p q"
  by (auto simp: merge_child_patches_def Let_def dest: merge_net_patches_grows
      split: if_splits page_content.splits)

lemma add_child_content_grows: "add_child_content ct p child = Inr q \<Longrightarrow> grows p q"
  by (auto simp: add_child_content_def dest: add_thrall_hash_grows merge_child_patches_grows
      elim!: try_pure_InrE intro: grows_trans split: rollup_content_type.splits)

lemma merge_net_patches_total:
  "page_level p \<noteq> 0 \<Longrightarrow> \<exists>hs ps. content p = NetPatches ps \<or> content p = ThrallHashesWithNetPatches hs ps \<Longrightarrow>
     \<exists>q. merge_net_patches p tm t = Inr q"
  by (auto simp: merge_net_patches_def)

lemma merge_child_patches_total:
  assumes "page_level p \<noteq> 0"
    and "\<exists>hs ps. content p = NetPatches ps \<or> content p = ThrallHashesWithNetPatches hs ps"
  shows "\<exists>q. merge_child_patches p child = Inr q"
  using merge_net_patches_total[OF assms] by (auto simp: merge_child_patches_def Let_def split: page_content.splits)

lemma add_child_content_total:
  assumes "page_fits cfg l p" and "0 < l"
  shows "\<exists>q. add_child_content (level_content cfg l) p child = Inr q"
proof (cases "level_content cfg l")
  case ChildHashes
  with assms show ?thesis
    by (cases "content p") (simp_all add: page_fits_def add_child_content_def add_thrall_hash_def)
next
  case NetPatchesType
  with assms have "\<exists>hs ps. content p = NetPatches ps \<or> content p = ThrallHashesWithNetPatches hs ps"
    by (cases "content p") (simp_all add: page_fits_def)
  with assms NetPatchesType merge_child_patches_total[of p child] show ?thesis
    by (simp add: add_child_content_def page_fits_def)
next
  case ChildHashesAndNetPatches
  with assms obtain hs ps where c: "content p = ThrallHashesWithNetPatches hs ps"
    by (cases "content p") (simp_all add: page_fits_def)
  have l: "page_level p \<noteq> 0" using assms by (simp add: page_fits_def)
  with c obtain q where q: "add_thrall_hash p (page_hash child) (end_time child) = Inr q"
    "content q = ThrallHashesWithNetPatches (hs @ [page_hash child]) ps" "page_level q = page_level p"
    by (simp add: add_thrall_hash_def)
  with l merge_child_patches_total[of q child] ChildHashesAndNetPatches show ?thesis
    by (simp add: add_child_content_def)
qed

lemma new_page_fits: "l < length (levels cfg) \<Longrightarrow> page_fits cfg l (new_with_id X cfg i l prev t)"
  by (auto simp: page_fits_def initial_content_def level_content_def
      split: rollup_content_type.splits option.splits)

end
