(* ===== verification/Rollup_Invariant.thy ===== *)
theory Rollup_Invariant
  imports Time_Manager
begin

text \<open>
  What the rollup cascade keeps. \<open>manager_inv\<close> relates the active pages, the id counter and
  the stored pages (a finite map, through the storage contract): every page sits at its
  level with the content its level prescribes, stored pages are non-empty and consistent,
  and ids are unique. The steps of \<open>perform_rollup\<close> keep it on every path, failing ones
  included, leave the levels below the parent alone, and use a bounded number of ids.
\<close>

section \<open>The invariant\<close>

definition active_ok :: "config \<Rightarrow> 's manager \<Rightarrow> bool" where
  "active_ok cfg m \<longleftrightarrow>
     (\<forall>l p. active_pages m l = Some p \<longrightarrow> page_fits cfg l p \<and> page_id p < page_id_gen m)"

definition stored_page_ok :: "externals \<Rightarrow> config \<Rightarrow> nat \<Rightarrow> nat \<Rightarrow> journal_page \<Rightarrow> bool" where
  "stored_page_ok X cfg l i p \<longleftrightarrow>
     page_fits cfg l p \<and> page_id p = i \<and> \<not> is_content_empty p \<and> page_consistent X p"

definition stored_ok :: "externals \<Rightarrow> config \<Rightarrow> page_map \<Rightarrow> 's manager \<Rightarrow> bool" where
  "stored_ok X cfg V m \<longleftrightarrow>
     (\<forall>l i p. l < length (levels cfg) \<longrightarrow> V (l, i) = Some p \<longrightarrow>
        stored_page_ok X cfg l i p \<and> i < page_id_gen m)"

definition ids_ok :: "config \<Rightarrow> page_map \<Rightarrow> 's manager \<Rightarrow> bool" where
  "ids_ok cfg V m \<longleftrightarrow>
     (\<forall>l k p q. active_pages m l = Some p \<longrightarrow> active_pages m k = Some q \<longrightarrow>
        page_id p = page_id q \<longrightarrow> l = k) \<and>
     (\<forall>l k p q. active_pages m l = Some p \<longrightarrow> k < length (levels cfg) \<longrightarrow>
        V (k, page_id p) = Some q \<longrightarrow> k = l \<and> \<not> is_content_empty p) \<and>
     (\<forall>l k i p q. l < length (levels cfg) \<longrightarrow> k < length (levels cfg) \<longrightarrow>
        V (l, i) = Some p \<longrightarrow> V (k, i) = Some q \<longrightarrow> l = k)"

definition manager_inv :: "externals \<Rightarrow> config \<Rightarrow> page_map \<Rightarrow> 's manager \<Rightarrow> bool" where
  "manager_inv X cfg V m \<longleftrightarrow> active_ok cfg m \<and> stored_ok X cfg V m \<and> ids_ok cfg V m"

text \<open>A page that may become the active page of level \<open>l\<close> or be stored there.\<close>

definition placeable :: "config \<Rightarrow> page_map \<Rightarrow> nat \<Rightarrow> journal_page \<Rightarrow> 's manager \<Rightarrow> bool" where
  "placeable cfg V l q m \<longleftrightarrow>
     page_fits cfg l q \<and> page_id q < page_id_gen m \<and>
     (\<forall>k p. active_pages m k = Some p \<longrightarrow> page_id p = page_id q \<longrightarrow> k = l) \<and>
     (\<forall>k x. k < length (levels cfg) \<longrightarrow> V (k, page_id q) = Some x \<longrightarrow>
        k = l \<and> \<not> is_content_empty q)"

text \<open>The levels below \<open>l\<close> are untouched.\<close>

definition same_below :: "nat \<Rightarrow> page_map \<Rightarrow> 's manager \<Rightarrow> page_map \<Rightarrow> 's manager \<Rightarrow> bool" where
  "same_below l V m V' m' \<longleftrightarrow>
     (\<forall>k<l. active_pages m' k = active_pages m k \<and>
        last_finalized_page_ids m' k = last_finalized_page_ids m k \<and>
        last_finalized_page_hashes m' k = last_finalized_page_hashes m k \<and>
        (\<forall>i. V' (k, i) = V (k, i)))"

lemma inv_active:
  "manager_inv X cfg V m \<Longrightarrow> active_pages m l = Some p \<Longrightarrow> page_fits cfg l p \<and> page_id p < page_id_gen m"
  by (simp add: manager_inv_def active_ok_def)

lemma inv_stored:
  "manager_inv X cfg V m \<Longrightarrow> l < length (levels cfg) \<Longrightarrow> V (l, i) = Some p \<Longrightarrow>
     stored_page_ok X cfg l i p \<and> i < page_id_gen m"
  by (simp add: manager_inv_def stored_ok_def)

lemma inv_unique:
  "manager_inv X cfg V m \<Longrightarrow> active_pages m l = Some p \<Longrightarrow> active_pages m k = Some q \<Longrightarrow>
     page_id p = page_id q \<Longrightarrow> l = k"
  by (simp add: manager_inv_def ids_ok_def)

lemma inv_owner:
  "manager_inv X cfg V m \<Longrightarrow> active_pages m l = Some p \<Longrightarrow> k < length (levels cfg) \<Longrightarrow>
     V (k, page_id p) = Some q \<Longrightarrow> k = l \<and> \<not> is_content_empty p"
  by (simp add: manager_inv_def ids_ok_def)

lemma inv_stored_unique:
  "manager_inv X cfg V m \<Longrightarrow> l < length (levels cfg) \<Longrightarrow> k < length (levels cfg) \<Longrightarrow>
     V (l, i) = Some p \<Longrightarrow> V (k, i) = Some q \<Longrightarrow> l = k"
  unfolding manager_inv_def ids_ok_def by blast

lemma manager_invI:
  assumes "\<And>l p. active_pages m l = Some p \<Longrightarrow> page_fits cfg l p \<and> page_id p < page_id_gen m"
    and "\<And>l i p. l < length (levels cfg) \<Longrightarrow> V (l, i) = Some p \<Longrightarrow>
           stored_page_ok X cfg l i p \<and> i < page_id_gen m"
    and "\<And>l k p q. active_pages m l = Some p \<Longrightarrow> active_pages m k = Some q \<Longrightarrow>
           page_id p = page_id q \<Longrightarrow> l = k"
    and "\<And>l k p q. active_pages m l = Some p \<Longrightarrow> k < length (levels cfg) \<Longrightarrow>
           V (k, page_id p) = Some q \<Longrightarrow> k = l \<and> \<not> is_content_empty p"
    and "\<And>l k i p q. l < length (levels cfg) \<Longrightarrow> k < length (levels cfg) \<Longrightarrow>
           V (l, i) = Some p \<Longrightarrow> V (k, i) = Some q \<Longrightarrow> l = k"
  shows "manager_inv X cfg V m"
  using assms unfolding manager_inv_def active_ok_def stored_ok_def ids_ok_def by blast

lemma placeD:
  assumes "placeable cfg V l q m"
  shows "page_fits cfg l q" and "page_id q < page_id_gen m"
    and "active_pages m k = Some p \<Longrightarrow> page_id p = page_id q \<Longrightarrow> k = l"
    and "k < length (levels cfg) \<Longrightarrow> V (k, page_id q) = Some x \<Longrightarrow> k = l \<and> \<not> is_content_empty q"
  using assms unfolding placeable_def by blast+

lemma manager_state_simps [simp]:
  "active_pages (set_active l po m) = (active_pages m)(l := po)"
  "page_id_gen (set_active l po m) = page_id_gen m"
  "storage (set_active l po m) = storage m"
  "last_finalized_page_ids (set_active l po m) = last_finalized_page_ids m"
  "last_finalized_page_hashes (set_active l po m) = last_finalized_page_hashes m"
  "active_pages (track_finalized l p m) = active_pages m"
  "page_id_gen (track_finalized l p m) = page_id_gen m"
  "storage (track_finalized l p m) = storage m"
  "last_finalized_page_ids (track_finalized l p m) = (last_finalized_page_ids m)(l \<mapsto> page_id p)"
  "last_finalized_page_hashes (track_finalized l p m) =
     (last_finalized_page_hashes m)(l \<mapsto> page_hash p)"
  by (simp_all add: set_active_def track_finalized_def)

lemma same_below_refl [simp]: "same_below l V m V m"
  by (simp add: same_below_def)

lemma same_below_trans:
  "same_below l V m V' m' \<Longrightarrow> same_below l V' m' V'' m'' \<Longrightarrow> same_below l V m V'' m''"
  by (simp add: same_below_def)

lemma same_below_mono: "same_below l V m V' m' \<Longrightarrow> k \<le> l \<Longrightarrow> same_below k V m V' m'"
  by (simp add: same_below_def)

lemma manager_inv_track [simp]:
  "manager_inv X cfg V (track_finalized l p m) = manager_inv X cfg V m"
  "manager_inv X cfg V (m\<lparr>storage := s\<rparr>) = manager_inv X cfg V m"
  by (simp_all add: manager_inv_def active_ok_def stored_ok_def ids_ok_def)

lemma placeable_storage [simp]: "placeable cfg V l q (m\<lparr>storage := s\<rparr>) = placeable cfg V l q m"
  by (simp add: placeable_def)

lemma inv_remove:
  assumes "manager_inv X cfg V m"
  shows "manager_inv X cfg V (set_active l None m)"
proof (rule manager_invI)
  show "k = n" if "active_pages (set_active l None m) k = Some p"
    "active_pages (set_active l None m) n = Some q" "page_id p = page_id q" for k n p q
    using that inv_unique[OF assms, of k p n q] by (simp split: if_splits)
  show "n = k \<and> \<not> is_content_empty p" if "active_pages (set_active l None m) k = Some p"
    "n < length (levels cfg)" "V (n, page_id p) = Some q" for k n p q
    using that inv_owner[OF assms, of k p n q] by (simp split: if_splits)
  show "page_fits cfg k p \<and> page_id p < page_id_gen (set_active l None m)"
    if "active_pages (set_active l None m) k = Some p" for k p
    using that inv_active[OF assms, of k p] by (simp split: if_splits)
  show "stored_page_ok X cfg k i p \<and> i < page_id_gen (set_active l None m)"
    if "k < length (levels cfg)" "V (k, i) = Some p" for k i p
    using inv_stored[OF assms that] by simp
qed (rule inv_stored_unique[OF assms])

lemma inv_place_active:
  assumes "manager_inv X cfg V m" and "placeable cfg V l q m"
  shows "manager_inv X cfg V (set_active l (Some q) m)"
proof (rule manager_invI)
  note P = placeD[OF assms(2)]
  show "page_fits cfg k p \<and> page_id p < page_id_gen (set_active l (Some q) m)"
    if "active_pages (set_active l (Some q) m) k = Some p" for k p
    using that P(1,2) inv_active[OF assms(1), of k p] by (auto split: if_splits)
  show "k = n" if "active_pages (set_active l (Some q) m) k = Some p"
    "active_pages (set_active l (Some q) m) n = Some r" "page_id p = page_id r" for k n p r
    using that inv_unique[OF assms(1)] P(3)
    by (metis fun_upd_apply manager_state_simps(1) option.inject)
  show "n = k \<and> \<not> is_content_empty p" if "active_pages (set_active l (Some q) m) k = Some p"
    "n < length (levels cfg)" "V (n, page_id p) = Some r" for k n p r
    using that inv_owner[OF assms(1), of k p n r] P(4)[of n r] by (cases "k = l") simp_all
  show "stored_page_ok X cfg k i p \<and> i < page_id_gen (set_active l (Some q) m)"
    if "k < length (levels cfg)" "V (k, i) = Some p" for k i p
    using inv_stored[OF assms(1) that] by simp
qed (rule inv_stored_unique[OF assms(1)])

lemma inv_place_stored:
  assumes "manager_inv X cfg V m" and "placeable cfg V l q m"
    and "\<not> is_content_empty q" and "page_consistent X q"
  shows "manager_inv X cfg (V((l, page_id q) \<mapsto> q)) (set_active l None m)"
proof (rule manager_invI)
  note P = placeD[OF assms(2)]
  show "stored_page_ok X cfg k i p \<and> i < page_id_gen (set_active l None m)"
    if "k < length (levels cfg)" "(V((l, page_id q) \<mapsto> q)) (k, i) = Some p" for k i p
    using that P(1,2) assms(3,4) inv_stored[OF assms(1), of k i p]
    by (auto simp: stored_page_ok_def split: if_splits)
  show "k = n" if "active_pages (set_active l None m) k = Some p"
    "active_pages (set_active l None m) n = Some r" "page_id p = page_id r" for k n p r
    using that inv_unique[OF assms(1), of k p n r] by (simp split: if_splits)
  show "n = k \<and> \<not> is_content_empty p" if "active_pages (set_active l None m) k = Some p"
    "n < length (levels cfg)" "(V((l, page_id q) \<mapsto> q)) (n, page_id p) = Some r" for k n p r
    using that inv_owner[OF assms(1)] P(3)
    by (metis fun_upd_apply manager_state_simps(1) option.distinct(1) prod.inject)
  show "page_fits cfg k p \<and> page_id p < page_id_gen (set_active l None m)"
    if "active_pages (set_active l None m) k = Some p" for k p
    using that inv_active[OF assms(1), of k p] by (simp split: if_splits)
  show "k = n" if "k < length (levels cfg)" "n < length (levels cfg)"
    "(V((l, page_id q) \<mapsto> q)) (k, i) = Some p" "(V((l, page_id q) \<mapsto> q)) (n, i) = Some r" for k n i p r
    using that inv_stored_unique[OF assms(1)] P(4)
    by (metis fun_upd_apply prod.inject)
qed

lemma id_revert_eq:
  assumes "i < g" and "g < 2 ^ 64"
  shows "id_revert i g = (if i + 1 = g then i else g)"
proof -
  have "(g + 2 ^ 64 - 1) mod 2 ^ 64 = g - 1"
  proof -
    have "g + 2 ^ 64 - 1 = (g - 1) + 2 ^ 64" using assms(1) by simp
    then show ?thesis using assms(2) by (metis less_imp_diff_less mod_add_self2 mod_less)
  qed
  with assms show ?thesis by (auto simp: id_revert_def)
qed

lemma inv_discard:
  assumes "manager_inv X cfg V m" and "placeable cfg V l q m" and "is_content_empty q"
    and "page_id_gen m < 2 ^ 64"
  defines "m' \<equiv> (set_active l None m)\<lparr>page_id_gen := id_revert (page_id q) (page_id_gen m)\<rparr>"
  shows "manager_inv X cfg V m'" and "page_id_gen m' \<le> page_id_gen m"
proof -
  note P = placeD[OF assms(2)]
  let ?m = "set_active l None m"
  have inv: "manager_inv X cfg V ?m" by (rule inv_remove[OF assms(1)])
  have r: "page_id_gen m' = (if page_id q + 1 = page_id_gen m then page_id q else page_id_gen m)"
    using id_revert_eq[OF P(2) assms(4)] by (simp add: m'_def)
  then show "page_id_gen m' \<le> page_id_gen m" using P(2) by simp
  have lt: "i < page_id_gen m'" if "i < page_id_gen m" "i \<noteq> page_id q" for i
    using that r by auto
  have act: "active_pages m' = active_pages ?m" by (simp add: m'_def)
  show "manager_inv X cfg V m'"
  proof (rule manager_invI)
    show "page_fits cfg k p \<and> page_id p < page_id_gen m'" if "active_pages m' k = Some p" for k p
    proof -
      have p: "active_pages m k = Some p" "k \<noteq> l" using that act by (auto split: if_splits)
      then have "page_id p \<noteq> page_id q" using P(3) by blast
      with inv_active[OF assms(1) p(1)] show ?thesis by (simp add: lt)
    qed
    show "stored_page_ok X cfg k i p \<and> i < page_id_gen m'"
      if "k < length (levels cfg)" "V (k, i) = Some p" for k i p
    proof -
      have "i \<noteq> page_id q" using P(4) assms(3) that by blast
      with inv_stored[OF assms(1) that] show ?thesis by (simp add: lt)
    qed
  qed (use inv_unique[OF inv] inv_owner[OF inv] inv_stored_unique[OF inv] act in metis)+
qed

lemma create_page_eq:
  "page_id_gen m + 1 < 2 ^ 64 \<Longrightarrow> create_page X cfg l prev t m =
     (Inr (new_with_id X cfg (page_id_gen m) l prev t), m\<lparr>page_id_gen := page_id_gen m + 1\<rparr>)"
  by (simp add: create_page_def id_next_def fetch_add64_def)

lemma inv_create:
  assumes "manager_inv X cfg V m" and "page_id_gen m + 1 < 2 ^ 64" and "l < length (levels cfg)"
    and "create_page X cfg l prev t m = (r, m')"
  shows "r = Inr (new_with_id X cfg (page_id_gen m) l prev t)"
    and "m' = m\<lparr>page_id_gen := page_id_gen m + 1\<rparr>"
    and "manager_inv X cfg V m'"
    and "placeable cfg V l (new_with_id X cfg (page_id_gen m) l prev t) m'"
proof -
  show r: "r = Inr (new_with_id X cfg (page_id_gen m) l prev t)"
    and m': "m' = m\<lparr>page_id_gen := page_id_gen m + 1\<rparr>"
    using assms(4) create_page_eq[OF assms(2)] by simp_all
  show "manager_inv X cfg V m'"
  proof (rule manager_invI)
    show "page_fits cfg k p \<and> page_id p < page_id_gen m'" if "active_pages m' k = Some p" for k p
      using that inv_active[OF assms(1), of k p] by (simp add: m')
    show "stored_page_ok X cfg k i p \<and> i < page_id_gen m'"
      if "k < length (levels cfg)" "V (k, i) = Some p" for k i p
      using inv_stored[OF assms(1) that] by (simp add: m')
  next
    show "k = n" if "active_pages m' k = Some p" "active_pages m' n = Some q"
      "page_id p = page_id q" for k n p q
      using that inv_unique[OF assms(1), of k p n q] by (simp add: m')
    show "n = k \<and> \<not> is_content_empty p" if "active_pages m' k = Some p"
      "n < length (levels cfg)" "V (n, page_id p) = Some q" for k n p q
      using that inv_owner[OF assms(1), of k p n q] by (simp add: m')
  qed (rule inv_stored_unique[OF assms(1)])
  show "placeable cfg V l (new_with_id X cfg (page_id_gen m) l prev t) m'"
    unfolding placeable_def
  proof (intro conjI allI impI)
    fix k p assume "active_pages m' k = Some p"
      and e: "page_id p = page_id (new_with_id X cfg (page_id_gen m) l prev t)"
    then have "page_id p < page_id_gen m" using inv_active[OF assms(1), of k p] by (simp add: m')
    with e show "k = l" by simp
  next
    fix k x assume "k < length (levels cfg)"
      and "V (k, page_id (new_with_id X cfg (page_id_gen m) l prev t)) = Some x"
    then have "page_id_gen m < page_id_gen m"
      using inv_stored[OF assms(1), of k "page_id_gen m" x] by simp
    then show "k = l" "\<not> is_content_empty (new_with_id X cfg (page_id_gen m) l prev t)"
      by simp_all
  qed (use new_page_fits[OF assms(3)] in \<open>simp_all add: m'\<close>)
qed

lemma placeable_grows:
  assumes "placeable cfg V l p m" and "grows p q"
  shows "placeable cfg V l q m"
proof -
  have "page_id q = page_id p" and "is_content_empty q \<Longrightarrow> is_content_empty p"
    using assms(2) by (simp_all add: grows_def)
  then show ?thesis
    using assms grows_fits[OF assms(2)] by (auto simp: placeable_def)
qed

section \<open>The steps of a rollup\<close>

text \<open>
  What a step that only works at level \<open>l\<close> and above promises: a good storage, the
  invariant, nothing changed below \<open>l\<close> nor on levels that are not configured (the snapshot
  level), and at most \<open>k\<close> new ids.
\<close>

definition step_ok :: "externals \<Rightarrow> config \<Rightarrow> ('s \<Rightarrow> bool) \<Rightarrow> ('s \<Rightarrow> page_map) \<Rightarrow> nat \<Rightarrow> nat \<Rightarrow>
    's manager \<Rightarrow> 's manager \<Rightarrow> bool" where
  "step_ok X cfg G V l k m m' \<longleftrightarrow>
     G (storage m') \<and> manager_inv X cfg (V (storage m')) m' \<and>
     same_below l (V (storage m)) m (V (storage m')) m' \<and>
     (\<forall>j i. length (levels cfg) \<le> j \<longrightarrow> V (storage m') (j, i) = V (storage m) (j, i)) \<and>
     page_id_gen m' \<le> page_id_gen m + k"

lemma step_ok_refl:
  "G (storage m) \<Longrightarrow> manager_inv X cfg (V (storage m)) m \<Longrightarrow> step_ok X cfg G V l k m m"
  by (simp add: step_ok_def)

lemma step_ok_trans:
  assumes "step_ok X cfg G V l k m m'" and "step_ok X cfg G V l' k' m' m''" and "l \<le> l'"
    and "k + k' \<le> n"
  shows "step_ok X cfg G V l n m m''"
proof -
  have "same_below l (V (storage m')) m' (V (storage m'')) m''"
    using assms(2,3) by (auto simp: step_ok_def intro: same_below_mono)
  then have "same_below l (V (storage m)) m (V (storage m'')) m''"
    using assms(1) by (auto simp: step_ok_def intro: same_below_trans)
  with assms show ?thesis by (simp add: step_ok_def)
qed

lemma step_okD:
  assumes "step_ok X cfg G V l k m m'"
  shows "G (storage m')" and "manager_inv X cfg (V (storage m')) m'"
    and "page_id_gen m' \<le> page_id_gen m + k"
  using assms by (simp_all add: step_ok_def)

lemma step_ok_weaken: "step_ok X cfg G V l k m m' \<Longrightarrow> j \<le> l \<Longrightarrow> k \<le> n \<Longrightarrow> step_ok X cfg G V j n m m'"
  by (auto simp: step_ok_def intro: same_below_mono)

text \<open>
  The two parts of one level of the cascade, and where the cascade stops.
\<close>

definition stale_cascade ::
  "externals \<Rightarrow> 's storage_backend \<Rightarrow> config \<Rightarrow> nat \<Rightarrow> timestamp \<Rightarrow> 's manager \<Rightarrow>
    (cj_error + unit) \<times> 's manager" where
  "stale_cascade X B cfg pl ts m =
     try_then (stale_parent_step X B pl ts m) (\<lambda>stale m.
       case stale of None \<Rightarrow> (Inr (), m) | Some h \<Rightarrow> perform_rollup X B cfg pl h ts m)"

definition attach_cascade ::
  "externals \<Rightarrow> 's storage_backend \<Rightarrow> config \<Rightarrow> nat \<Rightarrow> time_level \<Rightarrow> journal_page \<Rightarrow> timestamp \<Rightarrow>
    's manager \<Rightarrow> (cj_error + unit) \<times> 's manager" where
  "attach_cascade X B cfg pl pc child ts m =
     try_then (attach_child_step X B cfg pl pc child ts m) (\<lambda>finalized m.
       case finalized of None \<Rightarrow> (Inr (), m) | Some h \<Rightarrow> perform_rollup X B cfg pl h ts m)"

lemma perform_rollup_level:
  assumes "l < 255" and "load_page_by_hash B (storage m) h = Inr (Some child)"
    and "level_at cfg (l + 1) = Some pc"
  shows "perform_rollup X B cfg l h ts m =
    try_then (stale_cascade X B cfg (l + 1) ts m) (\<lambda>_. attach_cascade X B cfg (l + 1) pc child ts)"
  using assms
  by (simp add: perform_rollup.simps[of X B cfg l h] stale_cascade_def
      attach_cascade_def[abs_def] try_then_assoc del: One_nat_def)

lemma perform_rollup_stops:
  assumes "perform_rollup X B cfg l h ts m = (r, m')"
    and "\<nexists>child pc. l < 255 \<and> load_page_by_hash B (storage m) h = Inr (Some child) \<and>
      level_at cfg (l + 1) = Some pc"
  shows "m' = m"
  using assms unfolding perform_rollup.simps[of X B cfg l h]
  by (auto split: if_splits sum.splits option.splits)

lemma rollup_ids:
  "level_at cfg (l + 1) = Some pc \<Longrightarrow>
     (2::nat) ^ (length (levels cfg) - l) = 2 * 2 ^ (length (levels cfg) - Suc l)"
  using level_at_less[of cfg "l + 1" pc] by (simp add: Suc_diff_Suc flip: power_Suc)

context storage_laws
begin

lemma store_in_result:
  assumes "good (storage m)" and "store_in B p m = (r, m')"
  shows "m' = m\<lparr>storage := storage m'\<rparr> \<and> good (storage m') \<and>
    pages (storage m') = (case r of Inl e \<Rightarrow> pages (storage m)
      | Inr u \<Rightarrow> (pages (storage m))((page_level p, page_id p) \<mapsto> p))"
  using assms(2) store_result[OF assms(1), of p] by (auto simp: store_in_def split: prod.splits)

text \<open>Storing a page that is not active: after it was removed, or before its tracking.\<close>

lemma store_step:
  assumes "good (storage m)" and "manager_inv X cfg (pages (storage m)) m"
    and "placeable cfg (pages (storage m)) l q m" and "\<not> is_content_empty q"
    and "page_consistent X q" and "store_in B q (set_active l None m) = (r, m')"
  shows "step_ok X cfg good pages l 0 m m'"
    and "step_ok X cfg good pages l 0 m (track_finalized l q m')"
proof -
  have fits: "page_level q = l" "l < length (levels cfg)"
    using placeD(1)[OF assms(3)] by (simp_all add: page_fits_def)
  obtain s' where m': "m' = (set_active l None m)\<lparr>storage := s'\<rparr>" and s': "good s'"
    and V: "pages s' = (case r of Inl e \<Rightarrow> pages (storage m)
      | Inr u \<Rightarrow> (pages (storage m))((page_level q, page_id q) \<mapsto> q))"
    using store_in_result[OF _ assms(6), unfolded manager_state_simps, OF assms(1)] by blast
  have "manager_inv X cfg (pages s') (set_active l None m)"
    using inv_remove[OF assms(2)] inv_place_stored[OF assms(2-5)] V fits by (cases r) simp_all
  then show "step_ok X cfg good pages l 0 m m'"
    using s' V fits by (cases r) (auto simp: step_ok_def same_below_def m')
  then show "step_ok X cfg good pages l 0 m (track_finalized l q m')"
    by (auto simp: step_ok_def same_below_def)
qed

lemma active_placeable:
  assumes "manager_inv X cfg V m" and "active_pages m l = Some p"
  shows "placeable cfg V l p m"
  unfolding placeable_def
  using inv_active[OF assms] inv_unique[OF assms(1) _ assms(2)] inv_owner[OF assms(1,2)] by blast

lemma stored_placeable:
  assumes "manager_inv X cfg V m" and "l < length (levels cfg)" and "V (l, i) = Some p"
  shows "placeable cfg V l p m"
proof -
  have p: "page_fits cfg l p" "page_id p = i" "\<not> is_content_empty p" "i < page_id_gen m"
    using inv_stored[OF assms] by (simp_all add: stored_page_ok_def)
  moreover have "j = l" if "active_pages m j = Some q" "page_id q = page_id p" for j q
    using inv_owner[OF assms(1) that(1) assms(2), of p] that(2) p(2) assms(3) by simp
  moreover have "j = l" if "j < length (levels cfg)" "V (j, i) = Some x" for j x
    using inv_stored_unique[OF assms(1) that(1) assms(2) that(2) assms(3)] .
  ultimately show ?thesis unfolding placeable_def by blast
qed

lemma remove_step:
  "good (storage m) \<Longrightarrow> manager_inv X cfg (pages (storage m)) m \<Longrightarrow>
     step_ok X cfg good pages l 0 m (set_active l None m)"
  by (simp add: step_ok_def same_below_def inv_remove)

lemma keep_step:
  "good (storage m) \<Longrightarrow> manager_inv X cfg (pages (storage m)) m \<Longrightarrow>
     placeable cfg (pages (storage m)) l q m \<Longrightarrow>
     step_ok X cfg good pages l 0 m (set_active l (Some q) m)"
  by (simp add: step_ok_def same_below_def inv_place_active)

lemma stale_step:
  assumes "good (storage m)" and "manager_inv X cfg (pages (storage m)) m"
    and "stale_parent_step X B pl ts m = (r, m')"
  shows "step_ok X cfg good pages pl 0 m m'"
proof (cases "active_pages m pl")
  case None
  with assms show ?thesis by (simp add: stale_parent_step_def step_ok_refl)
next
  case (Some ex)
  let ?q = "recalculate X ex"
  consider "\<not> end_time ex \<le> ts" | "end_time ex \<le> ts" "is_content_empty ex"
    | "end_time ex \<le> ts" "\<not> is_content_empty ex" by blast
  then show ?thesis
  proof cases
    case 1
    with assms Some show ?thesis by (simp add: stale_parent_step_def step_ok_refl)
  next
    case 2
    with assms(3) Some have "m' = set_active pl None m" by (simp add: stale_parent_step_def)
    with remove_step[OF assms(1,2)] show ?thesis by simp
  next
    case 3
    have P: "placeable cfg (pages (storage m)) pl ?q m"
      using placeable_grows[OF active_placeable[OF assms(2) Some] grows_recalculate] .
    obtain sr m1 where store: "store_in B ?q (set_active pl None m) = (sr, m1)" by force
    have "\<not> is_content_empty ?q" using 3 by (simp add: is_content_empty_def)
    note S = store_step[OF assms(1,2) P this recalculate_consistent store]
    from 3 assms(3) Some store have "m' = m1 \<or> m' = track_finalized pl ?q m1"
      by (cases sr) (auto simp: stale_parent_step_def Let_def)
    with S show ?thesis by blast
  qed
qed

lemma parent_page_step:
  assumes "good (storage m)" and "manager_inv X cfg (pages (storage m)) m"
    and "page_id_gen m + 1 < 2 ^ 64"
    and "get_or_create_active_parent_page X B cfg pl ts m = (r, m')"
  shows "(m' = m \<or> m' = m\<lparr>page_id_gen := page_id_gen m + 1\<rparr>) \<and>
    manager_inv X cfg (pages (storage m)) m' \<and>
    (\<forall>p. r = Inr p \<longrightarrow> placeable cfg (pages (storage m)) pl p m')"
proof (cases "get_page_window cfg pl ts")
  case (Inl e)
  with assms(4) have "r = Inl e" "m' = m" by (simp_all add: get_or_create_active_parent_page_def)
  with assms(2) show ?thesis by simp
next
  case (Inr w)
  obtain ws we where w: "w = (ws, we)" by (cases w)
  obtain lc where lc: "level_at cfg pl = Some lc"
    using get_page_window_Inr[of cfg pl ts ws we] Inr w by metis
  have pl: "pl < length (levels cfg)" using level_at_less[OF lc] .
  let ?pages = "pages (storage m)"
  have new: ?thesis if "create_page X cfg pl prev ws m = (r, m')" for prev
    using inv_create[OF assms(2,3) pl that] by simp
  show ?thesis
  proof (cases "\<exists>p. active_pages m pl = Some p \<and> creation_timestamp p \<le> ts \<and> ts < end_time p \<and>
      content_len p < max_items_per_page (rollup_config lc)")
    case True
    then obtain p where p: "active_pages m pl = Some p" "creation_timestamp p \<le> ts"
      "ts < end_time p" "content_len p < max_items_per_page (rollup_config lc)" by blast
    with assms(4) Inr w lc have "r = Inr p" "m' = m"
      by (simp_all add: get_or_create_active_parent_page_def Let_def)
    with active_placeable[OF assms(2) p(1)] assms(2) show ?thesis by simp
  next
    case False
    then have none: "(case active_pages m pl of
                   None \<Rightarrow> None
                 | Some p \<Rightarrow>
                     if creation_timestamp p \<le> ts \<and> ts < end_time p \<and>
                        content_len p < max_items_per_page (rollup_config lc)
                     then Some p else None) = None"
      by (auto split: option.splits)
    note eq = assms(4)[unfolded get_or_create_active_parent_page_def Inr w lc sum.case prod.case
      option.case Let_def none]
    show ?thesis
    proof (cases "last_finalized_page_ids m pl")
      case None
      with eq show ?thesis by (intro new) simp
    next
      case (Some i)
      have load: "load_page B (storage m) pl i = Inr (?pages (pl, i))" by (rule load_ok[OF assms(1)])
      show ?thesis
      proof (cases "?pages (pl, i)")
        case None
        with eq Some load show ?thesis by (intro new) simp
      next
        case (Some loaded)
        show ?thesis
        proof (cases "r = Inr loaded \<and> m' = m")
          case True
          with stored_placeable[OF assms(2) pl Some] assms(2) show ?thesis by simp
        next
          case False
          with eq Some load \<open>last_finalized_page_ids m pl = Some i\<close> show ?thesis
            by (intro new) (auto split: if_splits)
        qed
      qed
    qed
  qed
qed

lemma settle_step:
  assumes "good (storage m)" and "manager_inv X cfg (pages (storage m)) m"
    and "placeable cfg (pages (storage m)) pl q m" and "page_consistent X q"
    and "page_id_gen m < 2 ^ 64" and "settle_parent B pl pc q ts m = (r, m')"
  shows "step_ok X cfg good pages pl 0 m m'"
proof (cases "is_content_empty q")
  case True
  note D = inv_discard[OF assms(2,3) True assms(5)]
  have "step_ok X cfg good pages pl 0 m
      ((set_active pl None m)\<lparr>page_id_gen := id_revert (page_id q) (page_id_gen m)\<rparr>)"
    using D assms(1) by (simp add: step_ok_def same_below_def)
  with True assms(6) keep_step[OF assms(1-3)] show ?thesis
    by (auto simp: settle_parent_def Let_def split: if_splits)
next
  case False
  obtain sr m1 where store: "store_in B q (set_active pl None m) = (sr, m1)" by force
  note S = store_step[OF assms(1-3) False assms(4) store]
  from False assms(6) store
  have "m' = m1 \<or> m' = track_finalized pl q m1 \<or> m' = set_active pl (Some q) m"
    by (cases sr) (auto simp: settle_parent_def Let_def split: if_splits)
  with S keep_step[OF assms(1-3)] show ?thesis by blast
qed

lemma attach_step:
  assumes "good (storage m)" and "manager_inv X cfg (pages (storage m)) m"
    and "page_id_gen m + 1 < 2 ^ 64"
    and "attach_child_step X B cfg pl pc child ts m = (r, m')"
  shows "step_ok X cfg good pages pl 1 m m'"
proof -
  obtain gr m1 where g: "get_or_create_active_parent_page X B cfg pl ts m = (gr, m1)" by force
  note G = parent_page_step[OF assms(1-3) g]
  have m1: "storage m1 = storage m" "page_id_gen m1 \<le> page_id_gen m + 1"
    using G by auto
  have first: "step_ok X cfg good pages pl 1 m m1"
    using G assms(1) by (auto simp: step_ok_def same_below_def)
  show ?thesis
  proof (cases "\<exists>p q. gr = Inr p \<and>
      add_child_content (content_type (rollup_config pc)) p child = Inr q \<and>
      settle_parent B pl pc (recalculate X q) ts m1 = (r, m')")
    case True
    then obtain p q where p: "gr = Inr p"
      "add_child_content (content_type (rollup_config pc)) p child = Inr q"
      "settle_parent B pl pc (recalculate X q) ts m1 = (r, m')" by blast
    have "grows p (recalculate X q)"
      using grows_trans[OF add_child_content_grows[OF p(2)] grows_recalculate] .
    then have "placeable cfg (pages (storage m1)) pl (recalculate X q) m1"
      using G p(1) m1(1) placeable_grows by fastforce
    then have "step_ok X cfg good pages pl 0 m1 m'"
      using settle_step[OF _ _ _ recalculate_consistent _ p(3)] assms(1,3) G m1 by simp
    with first show ?thesis by (rule step_ok_trans) simp_all
  next
    case False
    with assms(4) g have "m' = m1"
      by (cases gr) (auto simp: attach_child_step_def split: if_splits sum.splits)
    with first show ?thesis by simp
  qed
qed

subsection \<open>The cascade\<close>

text \<open>
  One level of the cascade: the stale parent is closed and cascades, then the page joins its
  parent, which cascades when that finishes it. In the lemmas of the two parts, a cascade of
  the parent level uses less than \<open>K\<close> ids.
\<close>

lemma stale_cascade_step:
  assumes "good (storage m)" and "manager_inv X cfg (pages (storage m)) m"
    and "page_id_gen m + K \<le> 2 ^ 64" and "stale_cascade X B cfg pl ts m = (r, m')"
    and "\<And>n n' g q. good (storage n) \<Longrightarrow> manager_inv X cfg (pages (storage n)) n \<Longrightarrow>
      page_id_gen n + K \<le> 2 ^ 64 \<Longrightarrow> perform_rollup X B cfg pl g ts n = (q, n') \<Longrightarrow>
      step_ok X cfg good pages pl (K - 1) n n'"
  shows "step_ok X cfg good pages pl (K - 1) m m'"
proof -
  obtain sr m1 where s: "stale_parent_step X B pl ts m = (sr, m1)" by force
  have S: "step_ok X cfg good pages pl 0 m m1" by (rule stale_step[OF assms(1,2) s])
  note D = step_okD[OF S]
  have "step_ok X cfg good pages pl (K - 1) m1 m'"
  proof (cases "\<exists>g. sr = Inr (Some g)")
    case True
    with assms(4) s obtain g where "perform_rollup X B cfg pl g ts m1 = (r, m')"
      by (auto simp: stale_cascade_def)
    with D assms(3) show ?thesis by (intro assms(5)) auto
  next
    case False
    with assms(4) s have "m' = m1"
      by (cases sr) (auto simp: stale_cascade_def split: option.splits)
    with D show ?thesis by (simp add: step_ok_refl)
  qed
  with S show ?thesis by (rule step_ok_trans) simp_all
qed

lemma attach_cascade_step:
  assumes "good (storage m)" and "manager_inv X cfg (pages (storage m)) m"
    and "page_id_gen m + 1 + K \<le> 2 ^ 64" and "0 < K"
    and "attach_cascade X B cfg pl pc child ts m = (r, m')"
    and "\<And>n n' g q. good (storage n) \<Longrightarrow> manager_inv X cfg (pages (storage n)) n \<Longrightarrow>
      page_id_gen n + K \<le> 2 ^ 64 \<Longrightarrow> perform_rollup X B cfg pl g ts n = (q, n') \<Longrightarrow>
      step_ok X cfg good pages pl (K - 1) n n'"
  shows "step_ok X cfg good pages pl K m m'"
proof -
  obtain ar m1 where s: "attach_child_step X B cfg pl pc child ts m = (ar, m1)" by force
  have "page_id_gen m + 1 < 2 ^ 64" using assms(3,4) by linarith
  from attach_step[OF assms(1,2) this s] have S: "step_ok X cfg good pages pl 1 m m1" .
  note D = step_okD[OF S]
  have "step_ok X cfg good pages pl (K - 1) m1 m'"
  proof (cases "\<exists>g. ar = Inr (Some g)")
    case True
    with assms(5) s obtain g where "perform_rollup X B cfg pl g ts m1 = (r, m')"
      by (auto simp: attach_cascade_def)
    with D assms(3) show ?thesis by (intro assms(6)) auto
  next
    case False
    with assms(5) s have "m' = m1"
      by (cases ar) (auto simp: attach_cascade_def split: option.splits)
    with D show ?thesis by (simp add: step_ok_refl)
  qed
  with S show ?thesis by (rule step_ok_trans) (use assms(4) in simp_all)
qed

theorem rollup_step:
  assumes "good (storage m)" and "manager_inv X cfg (pages (storage m)) m"
    and "page_id_gen m + 2 ^ (length (levels cfg) - l) \<le> 2 ^ 64"
    and "perform_rollup X B cfg l h ts m = (r, m')"
  shows "step_ok X cfg good pages (Suc l) (2 ^ (length (levels cfg) - l) - 1) m m'"
  using assms
proof (induction "length (levels cfg) - l" arbitrary: l h m r m' rule: less_induct)
  case less
  let ?N = "length (levels cfg)"
  let ?K = "2 ^ (?N - Suc l) :: nat"
  show ?case
  proof (cases "\<exists>child pc. l < 255 \<and> load_page_by_hash B (storage m) h = Inr (Some child) \<and>
      level_at cfg (l + 1) = Some pc")
    case False
    then have "m' = m" using perform_rollup_stops[OF less.prems(4)] by blast
    with less.prems(1,2) show ?thesis by (simp add: step_ok_refl)
  next
    case True
    then obtain child pc where C: "l < 255" "load_page_by_hash B (storage m) h = Inr (Some child)"
      "level_at cfg (l + 1) = Some pc" by blast
    have l: "?N - Suc l < ?N - l" using level_at_less[OF C(3)] by simp
    note K = rollup_ids[OF C(3)]
    have rec: "step_ok X cfg good pages (l + 1) (?K - 1) n n'"
      if "good (storage n)" "manager_inv X cfg (pages (storage n)) n" "page_id_gen n + ?K \<le> 2 ^ 64"
        "perform_rollup X B cfg (l + 1) g ts n = (q, n')" for n n' g q
    proof -
      from less.hyps[OF l that(1,2)] that(3,4) have "step_ok X cfg good pages (l + 2) (?K - 1) n n'"
        by simp
      then show ?thesis by (rule step_ok_weaken) simp_all
    qed
    obtain sr m1 where s1: "stale_cascade X B cfg (l + 1) ts m = (sr, m1)" by force
    have S1: "step_ok X cfg good pages (l + 1) (?K - 1) m m1"
      using stale_cascade_step[OF less.prems(1,2) _ s1 rec] less.prems(3) K by simp
    note D = step_okD[OF S1]
    have "step_ok X cfg good pages (l + 1) ?K m1 m'"
    proof (cases sr)
      case (Inl e)
      with less.prems(4) perform_rollup_level[OF C] s1 have "m' = m1" by simp
      with D show ?thesis by (simp add: step_ok_refl)
    next
      case (Inr u)
      with less.prems(4) perform_rollup_level[OF C] s1
      have s2: "attach_cascade X B cfg (l + 1) pc child ts m1 = (r, m')" by simp
      have "0 < ?K" by simp
      with D(3) less.prems(3) K have "page_id_gen m1 + 1 + ?K \<le> 2 ^ 64" by linarith
      from attach_cascade_step[OF D(1,2) this _ s2 rec] show ?thesis by simp
    qed
    with S1 have "step_ok X cfg good pages (l + 1) (2 * ?K - 1) m m'"
      by (rule step_ok_trans) (use K in simp_all)
    with K show ?thesis by simp
  qed
qed

lemma cascade_steps:
  assumes "good (storage m)" and "manager_inv X cfg (pages (storage m)) m"
    and "level_at cfg (l + 1) = Some pc" and "page_id_gen m + 2 ^ (length (levels cfg) - l) \<le> 2 ^ 64"
    and "stale_cascade X B cfg (l + 1) ts m = (r, m')"
  shows "step_ok X cfg good pages (l + 1) (2 ^ (length (levels cfg) - Suc l) - 1) m m'"
proof (rule stale_cascade_step[OF assms(1,2) _ assms(5)])
  show "page_id_gen m + 2 ^ (length (levels cfg) - Suc l) \<le> 2 ^ 64"
    using assms(4) rollup_ids[OF assms(3)] by linarith
  show "step_ok X cfg good pages (l + 1) (2 ^ (length (levels cfg) - Suc l) - 1) n n'"
    if "good (storage n)" "manager_inv X cfg (pages (storage n)) n"
      "page_id_gen n + 2 ^ (length (levels cfg) - Suc l) \<le> 2 ^ 64"
      "perform_rollup X B cfg (l + 1) g ts n = (q, n')" for n n' g q
    using rollup_step[OF that(1,2) _ that(4)] that(3) by (auto intro: step_ok_weaken)
qed

end

section \<open>The cascade succeeds on a reliable storage\<close>

text \<open>No page is stored at a level that is not configured (no snapshots in this storage).\<close>

definition only_configured :: "config \<Rightarrow> page_map \<Rightarrow> bool" where
  "only_configured cfg V \<longleftrightarrow> (\<forall>l i. V (l, i) \<noteq> None \<longrightarrow> l < length (levels cfg))"

lemma only_configured_step:
  "step_ok X cfg G V l k m m' \<Longrightarrow> only_configured cfg (V (storage m)) \<Longrightarrow>
     only_configured cfg (V (storage m'))"
  unfolding step_ok_def only_configured_def by (metis not_less)

lemma get_page_window_total:
  "config_ok cfg \<Longrightarrow> l < length (levels cfg) \<Longrightarrow> \<exists>w. get_page_window cfg l ts = Inr w"
  by (rule exI, rule trans[OF get_page_window_ok[of cfg l "levels cfg ! l"]])
    (auto simp: level_at_def config_ok_def Let_def)

definition has_hash :: "page_map \<Rightarrow> hash \<Rightarrow> bool" where
  "has_hash V h \<longleftrightarrow> (\<exists>p\<in>ran V. page_hash p = h)"

context reliable_storage
begin

lemma store_in_total:
  assumes "good (storage m)" and "reliable (storage m)"
  obtains s' where "store_in B p m = (Inr (), m\<lparr>storage := s'\<rparr>)" and "good s'" and "reliable s'"
    and "pages s' = (pages (storage m))((page_level p, page_id p) \<mapsto> p)"
proof -
  obtain s' where "store_page B (storage m) p = (Inr (), s')" "good s'" "reliable s'"
    "pages s' = (pages (storage m))((page_level p, page_id p) \<mapsto> p)"
    by (rule store_total_pages[OF assms])
  then show ?thesis by (intro that) (simp_all add: store_in_def)
qed

lemma has_hash_stored: "has_hash (V((l, i) \<mapsto> p)) (page_hash p)"
  unfolding has_hash_def ran_def by auto

lemma stale_total:
  assumes "good (storage m)" and "reliable (storage m)"
  obtains st m' where "stale_parent_step X B pl ts m = (Inr st, m')" and "reliable (storage m')"
    and "\<And>g. st = Some g \<Longrightarrow> has_hash (pages (storage m')) g"
proof (cases "\<exists>ex. active_pages m pl = Some ex \<and> end_time ex \<le> ts \<and> \<not> is_content_empty ex")
  case True
  then obtain ex where ex: "active_pages m pl = Some ex" "end_time ex \<le> ts" "\<not> is_content_empty ex"
    by blast
  let ?q = "recalculate X ex" and ?m = "set_active pl None m"
  have G: "good (storage ?m)" "reliable (storage ?m)" using assms by simp_all
  obtain s' where s': "store_in B ?q ?m = (Inr (), ?m\<lparr>storage := s'\<rparr>)" "reliable s'"
    "pages s' = (pages (storage ?m))((page_level ?q, page_id ?q) \<mapsto> ?q)"
    using store_in_total[OF G, of ?q] by metis
  then show ?thesis
    using ex has_hash_stored
    by (intro that[of "Some (page_hash ?q)" "track_finalized pl ?q (?m\<lparr>storage := s'\<rparr>)"])
      (auto simp: stale_parent_step_def Let_def)
next
  case False
  have "\<exists>m'. stale_parent_step X B pl ts m = (Inr None, m') \<and> storage m' = storage m"
    using False by (auto simp: stale_parent_step_def Let_def split: option.splits)
  then show ?thesis using that assms(2) by (metis option.distinct(1))
qed

lemma parent_page_total:
  assumes "good (storage m)" and "config_ok cfg" and "pl < length (levels cfg)"
  obtains p m' where "get_or_create_active_parent_page X B cfg pl ts m = (Inr p, m')"
    and "storage m' = storage m"
proof -
  obtain w where w: "get_page_window cfg pl ts = Inr w"
    using get_page_window_total[OF assms(2,3)] by blast
  obtain lc where lc: "level_at cfg pl = Some lc" using assms(3) by (simp add: level_at_def)
  have new: "\<exists>p m'. create_page X cfg pl prev t m = (Inr p, m') \<and> storage m' = storage m" for prev t
    by (simp add: create_page_def split: prod.split)
  have "\<exists>p m'. get_or_create_active_parent_page X B cfg pl ts m = (Inr p, m') \<and> storage m' = storage m"
    using w lc new load_ok[OF assms(1)]
    by (cases w) (auto simp: get_or_create_active_parent_page_def Let_def split: option.splits)
  then show ?thesis using that by blast
qed

lemma settle_total:
  assumes "good (storage m)" and "reliable (storage m)"
  obtains st m' where "settle_parent B pl pc q ts m = (Inr st, m')" and "reliable (storage m')"
    and "\<And>g. st = Some g \<Longrightarrow> has_hash (pages (storage m')) g"
proof -
  let ?m = "set_active pl None m"
  have G: "good (storage ?m)" "reliable (storage ?m)" using assms by simp_all
  obtain s' where s': "store_in B q ?m = (Inr (), ?m\<lparr>storage := s'\<rparr>)" "reliable s'"
    "pages s' = (pages (storage ?m))((page_level q, page_id q) \<mapsto> q)"
    using store_in_total[OF G, of q] by metis
  have "\<exists>st m'. settle_parent B pl pc q ts m = (Inr st, m') \<and> reliable (storage m') \<and>
      (\<forall>g. st = Some g \<longrightarrow> has_hash (pages (storage m')) g)"
    using s' assms(2) has_hash_stored by (auto simp: settle_parent_def Let_def)
  then show ?thesis using that by blast
qed

lemma attach_total:
  assumes "good (storage m)" and "reliable (storage m)"
    and "manager_inv X cfg (pages (storage m)) m" and "page_id_gen m + 1 < 2 ^ 64"
    and "config_ok cfg" and "level_at cfg pl = Some pc" and "0 < pl"
    and "page_level child < length (levels cfg)"
  obtains st m' where "attach_child_step X B cfg pl pc child ts m = (Inr st, m')"
    and "reliable (storage m')" and "\<And>g. st = Some g \<Longrightarrow> has_hash (pages (storage m')) g"
proof -
  have pl: "pl < length (levels cfg)" using level_at_less[OF assms(6)] .
  obtain p m1 where p: "get_or_create_active_parent_page X B cfg pl ts m = (Inr p, m1)"
    and m1: "storage m1 = storage m"
    using parent_page_total[OF assms(1,5) pl] by metis
  have "placeable cfg (pages (storage m)) pl p m1"
    using parent_page_step[OF assms(1,3,4) p] by simp
  then have "page_fits cfg pl p" by (rule placeD)
  then obtain q where q: "add_child_content (content_type (rollup_config pc)) p child = Inr q"
    using add_child_content_total[of cfg pl p child] assms(6,7) by (auto simp: level_content_def)
  have G: "good (storage m1)" "reliable (storage m1)" using assms(1,2) m1 by simp_all
  obtain st m' where "settle_parent B pl pc (recalculate X q) ts m1 = (Inr st, m')"
    "reliable (storage m')" "\<And>g. st = Some g \<Longrightarrow> has_hash (pages (storage m')) g"
    using settle_total[OF G] by metis
  with p q assms(8) show ?thesis by (intro that[of st m']) (simp_all add: attach_child_step_def)
qed

definition sound :: "externals \<Rightarrow> config \<Rightarrow> 'a manager \<Rightarrow> bool" where
  "sound X cfg m \<longleftrightarrow> good (storage m) \<and> reliable (storage m) \<and>
     manager_inv X cfg (pages (storage m)) m \<and> only_configured cfg (pages (storage m))"

lemma sound_step:
  "step_ok X cfg good pages l k m m' \<Longrightarrow> sound X cfg m \<Longrightarrow> reliable (storage m') \<Longrightarrow> sound X cfg m'"
  using step_okD[of X cfg good pages l k m m'] only_configured_step[of X cfg good pages l k m m']
  by (simp add: sound_def)

lemma stale_cascade_total:
  assumes "sound X cfg m" and "page_id_gen m + K \<le> 2 ^ 64"
    and "\<And>n g. sound X cfg n \<Longrightarrow> page_id_gen n + K \<le> 2 ^ 64 \<Longrightarrow>
      has_hash (pages (storage n)) g \<Longrightarrow>
      \<exists>n'. perform_rollup X B cfg pl g ts n = (Inr (), n') \<and> reliable (storage n')"
  shows "\<exists>m'. stale_cascade X B cfg pl ts m = (Inr (), m') \<and> reliable (storage m')"
proof -
  have P: "good (storage m)" "reliable (storage m)" "manager_inv X cfg (pages (storage m)) m"
    using assms(1) by (simp_all add: sound_def)
  obtain st m1 where s: "stale_parent_step X B pl ts m = (Inr st, m1)" "reliable (storage m1)"
    "\<And>g. st = Some g \<Longrightarrow> has_hash (pages (storage m1)) g"
    using stale_total[OF P(1,2)] by metis
  have S: "step_ok X cfg good pages pl 0 m m1" by (rule stale_step[OF P(1,3) s(1)])
  have "sound X cfg m1" by (rule sound_step[OF S assms(1) s(2)])
  moreover have "page_id_gen m1 + K \<le> 2 ^ 64" using step_okD(3)[OF S] assms(2) by simp
  ultimately show ?thesis
    using s(2) assms(3)[of m1] s(3) by (cases st) (simp_all add: stale_cascade_def s(1))
qed

lemma attach_cascade_total:
  assumes "sound X cfg m" and "page_id_gen m + 1 + K \<le> 2 ^ 64" and "0 < K"
    and "config_ok cfg" and "level_at cfg pl = Some pc" and "0 < pl"
    and "page_level child < length (levels cfg)"
    and "\<And>n g. sound X cfg n \<Longrightarrow> page_id_gen n + K \<le> 2 ^ 64 \<Longrightarrow>
      has_hash (pages (storage n)) g \<Longrightarrow>
      \<exists>n'. perform_rollup X B cfg pl g ts n = (Inr (), n') \<and> reliable (storage n')"
  shows "\<exists>m'. attach_cascade X B cfg pl pc child ts m = (Inr (), m') \<and> reliable (storage m')"
proof -
  have P: "good (storage m)" "reliable (storage m)" "manager_inv X cfg (pages (storage m)) m"
    using assms(1) by (simp_all add: sound_def)
  have g: "page_id_gen m + 1 < 2 ^ 64" using assms(2,3) by linarith
  obtain st m1 where s: "attach_child_step X B cfg pl pc child ts m = (Inr st, m1)" "reliable (storage m1)"
    "\<And>g. st = Some g \<Longrightarrow> has_hash (pages (storage m1)) g"
    using attach_total[OF P g assms(4-7)] by metis
  have S: "step_ok X cfg good pages pl 1 m m1" by (rule attach_step[OF P(1,3) g s(1)])
  have "sound X cfg m1" by (rule sound_step[OF S assms(1) s(2)])
  moreover have "page_id_gen m1 + K \<le> 2 ^ 64" using step_okD(3)[OF S] assms(2) by simp
  ultimately show ?thesis
    using s(2) assms(8)[of m1] s(3) by (cases st) (simp_all add: attach_cascade_def s(1))
qed

lemma stored_child:
  assumes "sound X cfg m" and "has_hash (pages (storage m)) h"
  obtains child where "load_page_by_hash B (storage m) h = Inr (Some child)"
    and "page_level child < length (levels cfg)"
proof -
  have G: "good (storage m)" "only_configured cfg (pages (storage m))"
    using assms(1) by (simp_all add: sound_def)
  obtain ro where ro: "load_page_by_hash B (storage m) h = Inr ro"
    "case ro of None \<Rightarrow> \<forall>p\<in>ran (pages (storage m)). page_hash p \<noteq> h
           | Some p \<Rightarrow> p \<in> ran (pages (storage m)) \<and> page_hash p = h"
    using by_hash_ok[OF G(1)] by blast
  then obtain child where child: "ro = Some child" "child \<in> ran (pages (storage m))"
    using assms(2) by (auto simp: has_hash_def split: option.splits)
  then obtain cl ci where "pages (storage m) (cl, ci) = Some child" by (auto simp: ran_def)
  then have "page_level child < length (levels cfg)"
    using G(2) keyed_pages[OF G(1)] by (fastforce simp: only_configured_def keyed_def)
  with that ro(1) child(1) show ?thesis by simp
qed

theorem rollup_total:
  assumes "sound X cfg m" and "page_id_gen m + 2 ^ (length (levels cfg) - l) \<le> 2 ^ 64"
    and "config_ok cfg" and "l < length (levels cfg)" and "has_hash (pages (storage m)) h"
  shows "\<exists>m'. perform_rollup X B cfg l h ts m = (Inr (), m') \<and> reliable (storage m')"
  using assms
proof (induction "length (levels cfg) - l" arbitrary: l h m rule: less_induct)
  case less
  note P = less.prems
  let ?N = "length (levels cfg)"
  let ?K = "2 ^ (?N - Suc l) :: nat"
  have l255: "l < 255" using P(3,4) by (auto simp: config_ok_def)
  obtain child where child: "load_page_by_hash B (storage m) h = Inr (Some child)"
    and clevel: "page_level child < ?N"
    by (rule stored_child[OF P(1,5)])
  show ?case
  proof (cases "level_at cfg (l + 1)")
    case None
    with l255 child P(1) show ?thesis by (simp add: perform_rollup.simps[of X B cfg l] sound_def)
  next
    case (Some pc)
    have l: "l + 1 < ?N" "?N - (l + 1) < ?N - l" using level_at_less[OF Some] by simp_all
    note K = rollup_ids[OF Some]
    have rec: "\<exists>n'. perform_rollup X B cfg (l + 1) g ts n = (Inr (), n') \<and> reliable (storage n')"
      if "sound X cfg n" "page_id_gen n + ?K \<le> 2 ^ 64" "has_hash (pages (storage n)) g" for n g
      using less.hyps[OF l(2) that(1) _ P(3) l(1) that(3)] that(2) by simp
    have I: "good (storage m)" "manager_inv X cfg (pages (storage m)) m"
      using P(1) by (simp_all add: sound_def)
    have "page_id_gen m + ?K \<le> 2 ^ 64" using P(2) K by linarith
    from stale_cascade_total[OF P(1) this rec] obtain m1
      where s1: "stale_cascade X B cfg (l + 1) ts m = (Inr (), m1)" "reliable (storage m1)" by blast
    note S1 = cascade_steps[OF I Some P(2) s1(1)]
    have "0 < ?K" by simp
    with step_okD(3)[OF S1] P(2) K have b: "page_id_gen m1 + 1 + ?K \<le> 2 ^ 64" by linarith
    have "\<exists>m'. attach_cascade X B cfg (l + 1) pc child ts m1 = (Inr (), m') \<and> reliable (storage m')"
      by (rule attach_cascade_total[OF sound_step[OF S1 P(1) s1(2)] b _ P(3) Some _ clevel rec]) simp_all
    with s1(1) show ?thesis by (simp add: perform_rollup_level[OF l255 child Some])
  qed
qed

end

end
