(* ===== verification/Journal_Log.thy ===== *)
theory Journal_Log
  imports Rollup_Invariant
begin

text \<open>
  The base level as an append-only log. \<open>l0_inv\<close> describes the stored L0 pages as a list in
  finalisation order: ids increase, each page links to the hash of the one before, every
  leaf lies in the window of its page, no page is larger than configured, and the active
  page continues the chain. \<open>add_leaf\<close> keeps it and appends exactly the leaf; on a storage
  that does not fail it always succeeds.
\<close>

section \<open>Reading the log\<close>

text \<open>What a client reads: the leaves of the stored L0 pages by id, then the active page's.\<close>

definition stored_leaves :: "'s storage_backend \<Rightarrow> 's \<Rightarrow> nat \<Rightarrow> journal_leaf list" where
  "stored_leaves B s i =
     (case load_page B s 0 i of Inr (Some p) \<Rightarrow> leaves_of p | _ \<Rightarrow> [])"

definition active_leaves :: "'s manager \<Rightarrow> journal_leaf list" where
  "active_leaves m = (case active_pages m 0 of Some p \<Rightarrow> leaves_of p | None \<Rightarrow> [])"

definition l0_log :: "'s storage_backend \<Rightarrow> 's manager \<Rightarrow> journal_leaf list" where
  "l0_log B m =
     (case list_finalized_pages_summary B (storage m) 0 of
        Inl e \<Rightarrow> []
      | Inr ss \<Rightarrow> concat (map (stored_leaves B (storage m)) (sort (map sum_page_id ss)))) @
     active_leaves m"

fun add_leaves ::
  "externals \<Rightarrow> 's storage_backend \<Rightarrow> config \<Rightarrow> (journal_leaf \<times> timestamp) list \<Rightarrow> 's manager \<Rightarrow>
    (cj_error + nat list) \<times> 's manager" where
  "add_leaves X B cfg [] m = (Inr [], m)"
| "add_leaves X B cfg ((leaf, t) # xs) m =
     try_then (add_leaf X B cfg leaf t m) (\<lambda>i m.
       try_then (add_leaves X B cfg xs m) (\<lambda>is m. (Inr (i # is), m)))"

section \<open>The invariant of the base level\<close>

fun chain_from :: "hash option \<Rightarrow> journal_page list \<Rightarrow> bool" where
  "chain_from h [] \<longleftrightarrow> True"
| "chain_from h (p # ps) \<longleftrightarrow> prev_page_hash p = h \<and> chain_from (Some (page_hash p)) ps"

definition last_hash :: "journal_page list \<Rightarrow> hash option" where
  "last_hash ps = (if ps = [] then None else Some (page_hash (last ps)))"

definition leaf_limit :: "config \<Rightarrow> nat" where
  "leaf_limit cfg = max_items_per_page (rollup_config (levels cfg ! 0))"

definition in_window :: "journal_page \<Rightarrow> timestamp \<Rightarrow> bool" where
  "in_window p t \<longleftrightarrow> creation_timestamp p \<le> t \<and> t < end_time p"

text \<open>The page covers one of the windows of level 0.\<close>

definition aligned :: "config \<Rightarrow> journal_page \<Rightarrow> bool" where
  "aligned cfg p \<longleftrightarrow>
     (let g = nanos (int (duration_seconds (levels cfg ! 0)))
      in g dvd creation_timestamp p \<and> end_time p = creation_timestamp p + g)"

definition leaf_page_ok :: "config \<Rightarrow> journal_page \<Rightarrow> bool" where
  "leaf_page_ok cfg p \<longleftrightarrow> leaves_of p \<noteq> [] \<and> length (leaves_of p) \<le> leaf_limit cfg \<and>
     (\<forall>x\<in>set (leaves_of p). in_window p (leaf_timestamp x)) \<and> aligned cfg p"

text \<open>A page that continues the stored pages \<open>ps\<close> of level 0.\<close>

definition continues :: "journal_page list \<Rightarrow> journal_page \<Rightarrow> bool" where
  "continues ps p \<longleftrightarrow>
     (\<forall>q\<in>set ps. page_id q < page_id p) \<and> prev_page_hash p = last_hash ps"

definition l0_inv :: "config \<Rightarrow> page_map \<Rightarrow> 's manager \<Rightarrow> journal_page list \<Rightarrow> bool" where
  "l0_inv cfg V m ps \<longleftrightarrow>
     (\<forall>i p. V (0, i) = Some p \<longleftrightarrow> p \<in> set ps \<and> page_id p = i) \<and>
     sorted_wrt (<) (map page_id ps) \<and>
     last_finalized_page_ids m 0 = (if ps = [] then None else Some (page_id (last ps))) \<and>
     chain_from None ps \<and> (\<forall>p\<in>set ps. leaf_page_ok cfg p) \<and>
     (\<forall>p. active_pages m 0 = Some p \<longrightarrow>
        continues ps p \<and> leaf_page_ok cfg p \<and> length (leaves_of p) < leaf_limit cfg)"

definition log_inv :: "externals \<Rightarrow> config \<Rightarrow> ('s \<Rightarrow> bool) \<Rightarrow> ('s \<Rightarrow> page_map) \<Rightarrow> 's manager \<Rightarrow>
    journal_page list \<Rightarrow> bool" where
  "log_inv X cfg G V m ps \<longleftrightarrow>
     G (storage m) \<and> manager_inv X cfg (V (storage m)) m \<and> l0_inv cfg (V (storage m)) m ps"

lemma log_invD:
  assumes "log_inv X cfg G V m ps"
  shows "G (storage m)" and "manager_inv X cfg (V (storage m)) m" and "l0_inv cfg (V (storage m)) m ps"
  using assms by (simp_all add: log_inv_def)

definition pages_log :: "journal_page list \<Rightarrow> journal_leaf list" where
  "pages_log ps = concat (map leaves_of ps)"

lemma pages_log_simps [simp]:
  "pages_log [] = []"
  "pages_log (ps @ [p]) = pages_log ps @ leaves_of p"
  by (simp_all add: pages_log_def)

lemma leaves_of_recalculate [simp]: "leaves_of (recalculate X p) = leaves_of p"
  by (simp add: leaves_of_def)

lemma in_window_recalculate [simp]: "in_window (recalculate X p) t = in_window p t"
  by (simp add: in_window_def)

lemma aligned_recalculate [simp]: "aligned cfg (recalculate X p) = aligned cfg p"
  by (simp add: aligned_def)

lemma leaf_page_ok_recalculate [simp]: "leaf_page_ok cfg (recalculate X p) = leaf_page_ok cfg p"
  by (simp add: leaf_page_ok_def)

lemma continues_recalculate [simp]: "continues ps (recalculate X p) = continues ps p"
  by (simp add: continues_def)

lemma chain_from_snoc:
  "chain_from h (ps @ [p]) \<longleftrightarrow>
     chain_from h ps \<and> prev_page_hash p = (if ps = [] then h else last_hash ps)"
  by (induction h ps rule: chain_from.induct) (auto simp: last_hash_def)

lemma leaves_of_empty: "page_fits cfg 0 p \<Longrightarrow> is_content_empty p \<longleftrightarrow> leaves_of p = []"
  by (cases "content p") (simp_all add: page_fits_def is_content_empty_def leaves_of_def)

lemma content_len_leaves: "page_fits cfg 0 p \<Longrightarrow> content_len p = length (leaves_of p)"
  by (cases "content p") (simp_all add: page_fits_def content_len_def leaves_of_def)

lemma l0_inv_step:
  assumes "step_ok X cfg G V (Suc l) k m m'" and "l0_inv cfg (V (storage m)) m ps"
  shows "l0_inv cfg (V (storage m')) m' ps" and "active_pages m' 0 = active_pages m 0"
proof -
  have same: "active_pages m' 0 = active_pages m 0"
    "last_finalized_page_ids m' 0 = last_finalized_page_ids m 0"
    "\<And>i. V (storage m') (0, i) = V (storage m) (0, i)"
    using assms(1) by (simp_all add: step_ok_def same_below_def)
  then show "active_pages m' 0 = active_pages m 0" by simp
  show "l0_inv cfg (V (storage m')) m' ps"
    using assms(2) unfolding l0_inv_def same by simp
qed

lemma log_inv_step:
  assumes "step_ok X cfg G V (Suc l) k m m'" and "log_inv X cfg G V m ps"
  shows "log_inv X cfg G V m' ps"
  using step_okD[OF assms(1)] l0_inv_step[OF assms(1)] assms(2) by (simp add: log_inv_def)

text \<open>Appending a page to the stored ones.\<close>

lemma l0_inv_append:
  assumes "l0_inv cfg V m ps" and "continues ps q" and "leaf_page_ok cfg q"
    and "last_finalized_page_ids m' 0 = Some (page_id q)" and "active_pages m' 0 = None"
  shows "l0_inv cfg (V((0, page_id q) \<mapsto> q)) m' (ps @ [q])"
proof -
  have lt: "\<forall>p\<in>set ps. page_id p < page_id q" using assms(2) by (simp add: continues_def)
  have "(V((0, page_id q) \<mapsto> q)) (0, i) = Some p \<longleftrightarrow> p \<in> set (ps @ [q]) \<and> page_id p = i" for i p
    using assms(1) lt by (auto simp: l0_inv_def)
  moreover have "sorted_wrt (<) (map page_id (ps @ [q]))"
    using assms(1) lt by (auto simp: l0_inv_def sorted_wrt_append)
  moreover have "chain_from None (ps @ [q])"
    using assms(1,2) by (auto simp: l0_inv_def chain_from_snoc continues_def last_hash_def)
  ultimately show ?thesis
    using assms(1,3-5) by (simp add: l0_inv_def)
qed

lemma storage_new [simp]: "storage (manager_new s) = s" "page_id_gen (manager_new s) = 0"
    "active_leaves (manager_new s) = []"
  by (simp_all add: manager_new_def active_leaves_def)

lemma l0_inv_initial: "V = Map.empty \<Longrightarrow> l0_inv cfg V (manager_new s) []"
  by (simp add: l0_inv_def manager_new_def)

lemma manager_inv_initial: "V = Map.empty \<Longrightarrow> manager_inv X cfg V (manager_new s)"
  by (rule manager_invI) (simp_all add: manager_new_def)

text \<open>Leaves whose timestamps are not before the epoch and fit in 64 bits of nanoseconds.\<close>

definition leaves_valid :: "(journal_leaf \<times> timestamp) list \<Rightarrow> bool" where
  "leaves_valid xs \<longleftrightarrow> (\<forall>(leaf, t)\<in>set xs. 0 \<le> leaf_timestamp leaf \<and> in_i64 (leaf_timestamp leaf))"

section \<open>The steps of adding a leaf\<close>

definition current :: "config \<Rightarrow> page_map \<Rightarrow> 's manager \<Rightarrow> journal_page list \<Rightarrow> journal_page \<Rightarrow> bool" where
  "current cfg V m ps p \<longleftrightarrow>
     placeable cfg V 0 p m \<and> continues ps p \<and>
     (\<forall>x\<in>set (leaves_of p). in_window p (leaf_timestamp x)) \<and>
     length (leaves_of p) < leaf_limit cfg \<and> aligned cfg p \<and>
     (active_pages m 0 = None \<and> leaves_of p = [] \<or> active_pages m 0 = Some p)"

lemma close_page_finalize:
  assumes "\<not> is_content_empty p" and "page_level p = l"
  shows "close_page X B cfg p ts m = (Inr u, m') \<longleftrightarrow>
    finalize_and_rollup_page X B cfg p ts (set_active l None m) = (Inr u, m')"
proof -
  obtain r s where s: "store_page B (storage m) (recalculate X p) = (r, s)" by force
  have eq: "set_active l None (track_finalized l q (m\<lparr>storage := s\<rparr>)) =
      track_finalized l q ((set_active l None m)\<lparr>storage := s\<rparr>)" for q
    by (simp add: set_active_def track_finalized_def)
  show ?thesis
    using assms s by (cases r) (simp_all add: close_page_def finalize_and_rollup_page_def store_in_def
        Let_def eq)
qed

text \<open>
  A leaf is added in two stages: the page it goes to, which a page closed by its age makes
  room for, then the insertion.
\<close>

definition page_to_insert ::
  "externals \<Rightarrow> 's storage_backend \<Rightarrow> config \<Rightarrow> time_level \<Rightarrow> journal_leaf \<Rightarrow> timestamp \<Rightarrow>
    journal_page \<Rightarrow> 's manager \<Rightarrow> (cj_error + journal_page) \<times> 's manager" where
  "page_to_insert X B cfg lc leaf t p m =
     (if fst (leaf_finalize lc p (leaf_timestamp leaf) t) \<and> leaf_timestamp leaf < t \<and>
         \<not> is_content_empty p
      then try_then (close_page X B cfg p (leaf_timestamp leaf) m)
        (\<lambda>_ m. get_or_create_active_page_for_leaf X B cfg leaf m)
      else (Inr p, m))"

lemma add_leaf_stages:
  assumes "get_or_create_active_page_for_leaf X B cfg leaf m = (Inr p, m1)"
    and "page_level p = 0" and "level_at cfg 0 = Some lc"
  shows "add_leaf X B cfg leaf t m =
    try_then (page_to_insert X B cfg lc leaf t p m1) (\<lambda>q n.
      try_then (insert_leaf X B cfg lc leaf t q n) (\<lambda>_ n. (Inr (page_id p), n)))"
  using assms by (simp add: add_leaf_def page_to_insert_def Let_def)

lemma level0_exists: "config_ok cfg \<Longrightarrow> \<exists>lc. level_at cfg 0 = Some lc"
  by (auto simp: level_at_def config_ok_def)

lemma current_page_ok:
  "current cfg V m ps p \<Longrightarrow> \<not> is_content_empty p \<Longrightarrow> leaf_page_ok cfg p"
  using leaves_of_empty[of cfg p] by (auto simp: current_def leaf_page_ok_def dest: placeD(1))

lemma current_level: "current cfg V m ps p \<Longrightarrow> page_level p = 0"
  by (auto simp: current_def page_fits_def dest: placeD(1))

context storage_laws
begin

abbreviation log_ok where "log_ok X cfg \<equiv> log_inv X cfg good pages"

lemma finalize_current:
  assumes "log_ok X cfg m ps" and "placeable cfg (pages (storage m)) 0 p m" and "continues ps p"
    and "leaf_page_ok cfg p" and "page_id_gen m + 2 ^ length (levels cfg) \<le> 2 ^ 64"
    and "finalize_and_rollup_page X B cfg p ts (set_active 0 None m) = (Inr u, m')"
  shows "log_ok X cfg m' (ps @ [recalculate X p]) \<and> active_pages m' 0 = None \<and>
    page_id_gen m' < page_id_gen m + 2 ^ length (levels cfg)"
proof -
  let ?q = "recalculate X p"
  note I = log_invD[OF assms(1)]
  have fits: "page_fits cfg 0 p" by (rule placeD(1)[OF assms(2)])
  have ne: "\<not> is_content_empty p" using assms(4) leaves_of_empty[OF fits] by (simp add: leaf_page_ok_def)
  then have neq: "\<not> is_content_empty ?q" by (simp add: is_content_empty_def)
  have P: "placeable cfg (pages (storage m)) 0 ?q m"
    by (rule placeable_grows[OF assms(2) grows_recalculate])
  have lvl: "page_level p = 0" using fits by (simp add: page_fits_def)
  obtain m1 where store: "store_in B ?q (set_active 0 None m) = (Inr (), m1)"
    and roll: "perform_rollup X B cfg 0 (page_hash ?q) ts (track_finalized 0 ?q m1) = (Inr u, m')"
    using assms(6) ne lvl by (auto simp: finalize_and_rollup_page_def Let_def elim!: try_then_InrE)
  let ?m1 = "track_finalized 0 ?q m1"
  note S = store_step(2)[OF I(1,2) P neq recalculate_consistent store]
  obtain s' where m1eq: "m1 = (set_active 0 None m)\<lparr>storage := s'\<rparr>"
    and s': "pages s' = (pages (storage m))((page_level ?q, page_id ?q) \<mapsto> ?q)"
    using store_in_result[OF _ store, unfolded manager_state_simps sum.case, OF I(1)] by blast
  then have V: "pages (storage m1) = (pages (storage m))((0, page_id ?q) \<mapsto> ?q)"
    and m1: "active_pages m1 0 = None" "page_id_gen m1 = page_id_gen m"
    using lvl by simp_all
  have "l0_inv cfg (pages (storage ?m1)) ?m1 (ps @ [?q])"
    using l0_inv_append[OF I(3), of ?q ?m1] assms(3,4) m1 V by simp
  with step_okD[OF S] have L: "log_ok X cfg ?m1 (ps @ [?q])" by (simp add: log_inv_def)
  have b: "page_id_gen ?m1 + 2 ^ (length (levels cfg) - 0) \<le> 2 ^ 64" using assms(5) m1 by simp
  note R = rollup_step[OF log_invD(1,2)[OF L] b roll]
  have one: "(1::nat) \<le> 2 ^ length (levels cfg)" by simp
  have "page_id_gen m' \<le> page_id_gen m + (2 ^ length (levels cfg) - 1)"
    using step_okD(3)[OF R] m1 by simp
  then have "page_id_gen m' < page_id_gen m + 2 ^ length (levels cfg)" using one by linarith
  with log_inv_step[OF R L] l0_inv_step(2)[OF R log_invD(3)[OF L]] m1 show ?thesis by simp
qed

lemma last_stored_hash_log:
  assumes "log_ok X cfg m ps"
  shows "last_stored_hash B 0 m = Inr (last_hash ps)"
proof (cases "ps = []")
  case True
  with log_invD(3)[OF assms] show ?thesis by (simp add: last_stored_hash_def l0_inv_def last_hash_def)
next
  case False
  with log_invD(3)[OF assms] have "last_finalized_page_ids m 0 = Some (page_id (last ps))"
    "pages (storage m) (0, page_id (last ps)) = Some (last ps)"
    by (simp_all add: l0_inv_def)
  with False load_ok[OF log_invD(1)[OF assms]] show ?thesis
    by (simp add: last_stored_hash_def last_hash_def)
qed

lemma page_end_ok:
  assumes "config_ok cfg"
  shows "page_end_time cfg 0 ws = ws + nanos (int (duration_seconds (levels cfg ! 0)))"
proof -
  have lc: "level_at cfg 0 = Some (levels cfg ! 0)" "level_ok (levels cfg ! 0)"
    using assms by (auto simp: level_at_def config_ok_def)
  then show ?thesis using level_ok_nanos(3)[OF lc(2)] by (simp add: page_end_time_def)
qed

lemma fresh_current:
  assumes "log_ok X cfg m ps" and "active_pages m 0 = None" and "page_id_gen m + 1 < 2 ^ 64"
    and "config_ok cfg" and "fresh_leaf_page X B cfg ws m = (r, m')"
    and "nanos (int (duration_seconds (levels cfg ! 0))) dvd ws"
  shows "\<exists>p. r = Inr p \<and> creation_timestamp p = ws \<and> end_time p = page_end_time cfg 0 ws \<and>
    leaves_of p = [] \<and> current cfg (pages (storage m')) m' ps p \<and> log_ok X cfg m' ps \<and>
    page_id_gen m' = page_id_gen m + 1 \<and> storage m' = storage m"
proof -
  have c: "create_page X cfg 0 (last_hash ps) ws m = (r, m')"
    using assms(5) last_stored_hash_log[OF assms(1)]
    by (cases "last_hash ps") (simp_all add: fresh_leaf_page_def)
  let ?p = "new_with_id X cfg (page_id_gen m) 0 (last_hash ps) ws"
  note I = log_invD[OF assms(1)]
  have N: "0 < length (levels cfg)" using assms(4) by (simp add: config_ok_def)
  note C = inv_create[OF I(2) assms(3) N c]
  have L: "log_ok X cfg m' ps"
    using I C(2,3) by (simp add: log_inv_def l0_inv_def)
  have "\<forall>q\<in>set ps. page_id q < page_id_gen m"
  proof
    fix q assume "q \<in> set ps"
    then have "pages (storage m) (0, page_id q) = Some q" using I(3) by (simp add: l0_inv_def)
    then show "page_id q < page_id_gen m" using inv_stored[OF I(2) N] by blast
  qed
  then have "continues ps ?p" by (simp add: continues_def)
  moreover have "leaves_of ?p = []" by (simp add: leaves_of_def initial_content_def)
  moreover have "0 < leaf_limit cfg" using assms(4) N by (simp add: leaf_limit_def config_ok_def)
  moreover have "aligned cfg ?p"
    using assms(4,6) page_end_ok[of cfg ws] by (simp add: aligned_def)
  ultimately have "current cfg (pages (storage m')) m' ps ?p"
    using C(2,4) assms(2) by (simp add: current_def)
  with L C(1,2) \<open>leaves_of ?p = []\<close> show ?thesis by simp
qed

lemma level0_window:
  assumes "config_ok cfg" and "0 \<le> ts" and "in_i64 ts"
  obtains ws where "get_page_window cfg 0 ts = Inr (ws, page_end_time cfg 0 ws)"
    and "ws \<le> ts" and "ts < page_end_time cfg 0 ws"
    and "nanos (int (duration_seconds (levels cfg ! 0))) dvd ws"
proof -
  let ?lc = "levels cfg ! 0"
  have lc: "level_at cfg 0 = Some ?lc" "level_ok ?lc"
    using assms(1) by (auto simp: level_at_def config_ok_def)
  let ?g = "nanos (int (duration_seconds ?lc))" and ?ws = "window_start ts (nanos (int (duration_seconds ?lc)))"
  have "page_end_time cfg 0 ?ws = ?ws + ?g" by (rule page_end_ok[OF assms(1)])
  moreover have "?g dvd ?ws" by (simp add: window_start_def)
  ultimately show ?thesis
    using get_page_window_ok[OF lc, of ts] window_bounds[OF assms(2) level_ok_nanos(2)[OF lc(2)]] assms(3)
    by (intro that[of ?ws]) (simp_all add: Let_def timestamp_nanos_def)
qed

lemma get_page_for_leaf:
  assumes "log_ok X cfg m ps" and "config_ok cfg"
    and "0 \<le> leaf_timestamp leaf" and "in_i64 (leaf_timestamp leaf)"
    and "page_id_gen m + 2 * 2 ^ length (levels cfg) < 2 ^ 64"
    and "get_or_create_active_page_for_leaf X B cfg leaf m = (Inr p, m')"
  shows "\<exists>ps'. log_ok X cfg m' ps' \<and> current cfg (pages (storage m')) m' ps' p \<and>
    in_window p (leaf_timestamp leaf) \<and>
    pages_log ps' @ leaves_of p = pages_log ps @ active_leaves m \<and>
    page_id_gen m' \<le> page_id_gen m + 2 ^ length (levels cfg)"
proof -
  obtain ws where w: "get_page_window cfg 0 (leaf_timestamp leaf) = Inr (ws, page_end_time cfg 0 ws)"
    "ws \<le> leaf_timestamp leaf" "leaf_timestamp leaf < page_end_time cfg 0 ws"
    "nanos (int (duration_seconds (levels cfg ! 0))) dvd ws"
    by (rule level0_window[OF assms(2-4)])
  have one: "(1::nat) \<le> 2 ^ length (levels cfg)" by simp
  note I = log_invD[OF assms(1)]
  have fresh: ?thesis if n: "log_ok X cfg n qs" "active_pages n 0 = None"
    "page_id_gen n < page_id_gen m + 2 ^ length (levels cfg)"
    "fresh_leaf_page X B cfg ws n = (Inr p, m')" "pages_log qs = pages_log ps @ active_leaves m"
    for n qs
  proof -
    have "page_id_gen n + 1 < 2 ^ 64" using n(3) assms(5) by linarith
    from fresh_current[OF n(1,2) this assms(2) n(4) w(4)] w(2,3) n(3,5) show ?thesis
      by (intro exI[of _ qs]) (auto simp: in_window_def)
  qed
  show ?thesis
  proof (cases "active_pages m 0")
    case None
    with assms(6) w(1) have "fresh_leaf_page X B cfg ws m = (Inr p, m')"
      by (simp add: get_or_create_active_page_for_leaf_def)
    with assms(1) None one show ?thesis by (intro fresh[of m ps]) (simp_all add: active_leaves_def)
  next
    case (Some a)
    have A: "continues ps a" "leaf_page_ok cfg a" "length (leaves_of a) < leaf_limit cfg"
      using I(3) Some by (simp_all add: l0_inv_def)
    note P = active_placeable[OF I(2) Some]
    have len: "content_len a = length (leaves_of a)" by (rule content_len_leaves[OF placeD(1)[OF P]])
    show ?thesis
    proof (cases "in_window a (leaf_timestamp leaf)")
      case True
      with assms(6) w(1) Some A(3) len have "p = a" "m' = m"
        by (simp_all add: get_or_create_active_page_for_leaf_def in_window_def leaf_limit_def)
      with True Some A P assms(1) show ?thesis
        by (intro exI[of _ ps]) (simp add: current_def leaf_page_ok_def active_leaves_def)
    next
      case False
      with assms(6) w(1) Some
      have "try_then (finalize_and_rollup_page X B cfg a (leaf_timestamp leaf) (set_active 0 None m))
          (\<lambda>_ m. fresh_leaf_page X B cfg ws m) = (Inr p, m')"
        by (auto simp: get_or_create_active_page_for_leaf_def in_window_def)
      then obtain u n where f: "finalize_and_rollup_page X B cfg a (leaf_timestamp leaf) (set_active 0 None m) =
          (Inr u, n)" and n: "fresh_leaf_page X B cfg ws n = (Inr p, m')"
        by (rule try_then_InrE)
      have b: "page_id_gen m + 2 ^ length (levels cfg) \<le> 2 ^ 64" using assms(5) by simp
      from finalize_current[OF assms(1) P A(1,2) b f] n show ?thesis
        by (intro fresh[of n "ps @ [recalculate X a]"]) (simp_all add: active_leaves_def Some)
    qed
  qed
qed

lemma inserted_page:
  assumes "current cfg V m ps p" and "in_window p (leaf_timestamp leaf)"
    and "page_add_leaf p leaf = Inr q"
  shows "leaves_of q = leaves_of p @ [leaf]" and "placeable cfg V 0 q m" and "continues ps q"
    and "leaf_page_ok cfg q" and "page_fits cfg 0 q" and "\<not> is_content_empty q" and "page_level q = 0"
proof -
  have P: "placeable cfg V 0 p m" "continues ps p"
    "\<forall>x\<in>set (leaves_of p). in_window p (leaf_timestamp x)" "length (leaves_of p) < leaf_limit cfg"
    "aligned cfg p"
    using assms(1) by (auto simp: current_def)
  show l: "leaves_of q = leaves_of p @ [leaf]"
    using assms(3) by (auto simp: page_add_leaf_Inr leaves_of_def)
  have same: "page_id q = page_id p" "prev_page_hash q = prev_page_hash p"
    "\<And>t. in_window q t = in_window p t" "aligned cfg q = aligned cfg p"
    using assms(3) by (auto simp: page_add_leaf_Inr in_window_def aligned_def)
  have g: "grows p q" using assms(3) by (auto simp: page_add_leaf_Inr grows_def is_content_empty_def)
  show Q: "placeable cfg V 0 q m" by (rule placeable_grows[OF P(1) g])
  show fits: "page_fits cfg 0 q" by (rule placeD(1)[OF Q])
  show "\<not> is_content_empty q" using leaves_of_empty[OF fits] l by simp
  show "continues ps q" using P(2) same by (simp add: continues_def)
  show "leaf_page_ok cfg q" using P(3-5) assms(2) l same by (auto simp: leaf_page_ok_def)
  show "page_level q = 0" using fits by (simp add: page_fits_def)
qed

lemma insert_leaf_step:
  assumes "log_ok X cfg m ps" and "current cfg (pages (storage m)) m ps p"
    and "in_window p (leaf_timestamp leaf)" and "config_ok cfg" and "level_at cfg 0 = Some lc"
    and "page_id_gen m + 2 ^ length (levels cfg) \<le> 2 ^ 64"
    and "insert_leaf X B cfg lc leaf t p m = (Inr u, m')"
  shows "\<exists>ps'. log_ok X cfg m' ps' \<and>
    pages_log ps' @ active_leaves m' = pages_log ps @ leaves_of p @ [leaf] \<and>
    page_id_gen m' \<le> page_id_gen m + 2 ^ length (levels cfg)"
proof -
  note I = log_invD[OF assms(1)]
  obtain q where q: "page_add_leaf p leaf = Inr q"
    using assms(7) by (auto simp: insert_leaf_def split: sum.splits)
  note l = inserted_page(1)[OF assms(2,3) q] and Q = inserted_page(2)[OF assms(2,3) q]
    and cont = inserted_page(3)[OF assms(2,3) q] and ok = inserted_page(4)[OF assms(2,3) q]
    and fits = inserted_page(5)[OF assms(2,3) q] and ne = inserted_page(6)[OF assms(2,3) q]
    and lvl = inserted_page(7)[OF assms(2,3) q]
  let ?fin = "leaf_finalize lc q (leaf_timestamp leaf) t"
  show ?thesis
  proof (cases "fst ?fin \<or> snd ?fin")
    case True
    with assms(7) q have "close_page X B cfg q (leaf_timestamp leaf) m = (Inr u, m')"
      by (simp add: insert_leaf_def split_def)
    then have f: "finalize_and_rollup_page X B cfg q (leaf_timestamp leaf) (set_active 0 None m) = (Inr u, m')"
      by (simp only: close_page_finalize[OF ne lvl])
    from finalize_current[OF assms(1) Q cont ok assms(6) f] show ?thesis
      by (intro exI[of _ "ps @ [recalculate X q]"]) (simp add: active_leaves_def l)
  next
    case False
    with assms(7) q lvl have m': "m' = set_active 0 (Some q) m"
      by (simp add: insert_leaf_def split_def)
    have "leaf_limit cfg < 2 ^ 32" "lc = levels cfg ! 0"
      using assms(4,5) by (auto simp: leaf_limit_def config_ok_def level_at_def)
    then have "\<not> leaf_limit cfg \<le> content_len q"
      using False by (simp add: leaf_finalize_def should_finalize_def Let_def leaf_limit_def as_u32_id)
    then have "length (leaves_of q) < leaf_limit cfg" by (simp add: content_len_leaves[OF fits])
    then have "l0_inv cfg (pages (storage m')) m' ps"
      using I(3) cont ok by (simp add: m' l0_inv_def)
    moreover have "manager_inv X cfg (pages (storage m')) m'"
      using inv_place_active[OF I(2) Q] by (simp add: m')
    ultimately have "log_ok X cfg m' ps" using I(1) by (simp add: log_inv_def m')
    then show ?thesis by (intro exI[of _ ps]) (simp add: m' active_leaves_def l)
  qed
qed

lemma page_to_insert_step:
  assumes "log_ok X cfg m ps" and "current cfg (pages (storage m)) m ps p"
    and "in_window p (leaf_timestamp leaf)" and "config_ok cfg"
    and "0 \<le> leaf_timestamp leaf" and "in_i64 (leaf_timestamp leaf)"
    and "page_id_gen m + 3 * 2 ^ length (levels cfg) \<le> 2 ^ 64"
    and "page_to_insert X B cfg lc leaf t p m = (Inr q, m')"
  shows "\<exists>ps'. log_ok X cfg m' ps' \<and> current cfg (pages (storage m')) m' ps' q \<and>
    in_window q (leaf_timestamp leaf) \<and> pages_log ps' @ leaves_of q = pages_log ps @ leaves_of p \<and>
    page_id_gen m' \<le> page_id_gen m + 2 * 2 ^ length (levels cfg)"
proof (cases "q = p \<and> m' = m")
  case True
  with assms(1-3) show ?thesis by auto
next
  case False
  let ?K = "2 ^ length (levels cfg) :: nat"
  obtain v n where ne: "\<not> is_content_empty p" and cl: "close_page X B cfg p (leaf_timestamp leaf) m = (Inr v, n)"
    and get: "get_or_create_active_page_for_leaf X B cfg leaf n = (Inr q, m')"
    using assms(8) False by (auto simp: page_to_insert_def elim!: try_then_InrE split: if_splits)
  have P: "placeable cfg (pages (storage m)) 0 p m" "continues ps p" "leaf_page_ok cfg p"
    using assms(2) current_page_ok[OF assms(2) ne] by (simp_all add: current_def)
  have b: "page_id_gen m + ?K \<le> 2 ^ 64" using assms(7) by linarith
  have "finalize_and_rollup_page X B cfg p (leaf_timestamp leaf) (set_active 0 None m) = (Inr v, n)"
    using cl by (simp only: close_page_finalize[OF ne current_level[OF assms(2)]])
  then have N: "log_ok X cfg n (ps @ [recalculate X p])" "active_pages n 0 = None"
    "page_id_gen n < page_id_gen m + ?K"
    using finalize_current[OF assms(1) P b] by blast+
  have b2: "page_id_gen n + 2 * ?K < 2 ^ 64" using N(3) assms(7) by linarith
  obtain ps' where G: "log_ok X cfg m' ps'" "current cfg (pages (storage m')) m' ps' q"
    "in_window q (leaf_timestamp leaf)"
    "pages_log ps' @ leaves_of q = pages_log (ps @ [recalculate X p]) @ active_leaves n"
    "page_id_gen m' \<le> page_id_gen n + ?K"
    using get_page_for_leaf[OF N(1) assms(4-6) b2 get] by blast
  moreover have "page_id_gen m' \<le> page_id_gen m + 2 * ?K" using G(5) N(3) by linarith
  ultimately show ?thesis using N(2) by (auto simp: active_leaves_def)
qed

theorem add_leaf_appends:
  assumes "log_ok X cfg m ps" and "config_ok cfg"
    and "0 \<le> leaf_timestamp leaf" and "in_i64 (leaf_timestamp leaf)"
    and "page_id_gen m + 6 * 2 ^ length (levels cfg) \<le> 2 ^ 64"
    and "add_leaf X B cfg leaf t m = (Inr i, m')"
  shows "\<exists>ps'. log_ok X cfg m' ps' \<and>
    pages_log ps' @ active_leaves m' = pages_log ps @ active_leaves m @ [leaf] \<and>
    page_id_gen m' \<le> page_id_gen m + 4 * 2 ^ length (levels cfg)"
proof -
  let ?K = "2 ^ length (levels cfg) :: nat"
  have K: "0 < ?K" by simp
  obtain p m1 where p: "get_or_create_active_page_for_leaf X B cfg leaf m = (Inr p, m1)"
    using assms(6) by (auto simp: add_leaf_def elim!: try_then_InrE)
  have b0: "page_id_gen m + 2 * ?K < 2 ^ 64" using assms(5) K by linarith
  obtain ps1 where S1: "log_ok X cfg m1 ps1" "current cfg (pages (storage m1)) m1 ps1 p"
      "in_window p (leaf_timestamp leaf)"
    and log1: "pages_log ps1 @ leaves_of p = pages_log ps @ active_leaves m"
    and g1: "page_id_gen m1 \<le> page_id_gen m + ?K"
    using get_page_for_leaf[OF assms(1-4) b0 p] by blast
  obtain lc where lc: "level_at cfg 0 = Some lc" using level0_exists[OF assms(2)] by blast
  obtain q m2 u where q: "page_to_insert X B cfg lc leaf t p m1 = (Inr q, m2)"
    and ins: "insert_leaf X B cfg lc leaf t q m2 = (Inr u, m')"
    using assms(6) unfolding add_leaf_stages[OF p current_level[OF S1(2)] lc]
    by (auto elim!: try_then_InrE)
  have b1: "page_id_gen m1 + 3 * ?K \<le> 2 ^ 64" using g1 assms(5) by linarith
  obtain ps2 where S2: "log_ok X cfg m2 ps2" "current cfg (pages (storage m2)) m2 ps2 q"
      "in_window q (leaf_timestamp leaf)"
    and log2: "pages_log ps2 @ leaves_of q = pages_log ps1 @ leaves_of p"
    and g2: "page_id_gen m2 \<le> page_id_gen m1 + 2 * ?K"
    using page_to_insert_step[OF S1 assms(2-4) b1 q] by blast
  have b2: "page_id_gen m2 + ?K \<le> 2 ^ 64" using g1 g2 assms(5) by linarith
  obtain ps3 where S3: "log_ok X cfg m' ps3"
    and log3: "pages_log ps3 @ active_leaves m' = pages_log ps2 @ leaves_of q @ [leaf]"
    and g3: "page_id_gen m' \<le> page_id_gen m2 + ?K"
    using insert_leaf_step[OF S2 assms(2) lc b2 ins] by blast
  have "pages_log ps3 @ active_leaves m' = pages_log ps @ active_leaves m @ [leaf]"
    using log3 log2 log1 by (metis append.assoc)
  moreover have "page_id_gen m' \<le> page_id_gen m + 4 * ?K" using g1 g2 g3 by linarith
  ultimately show ?thesis using S3 by blast
qed

section \<open>Sequences of leaves and the log they leave\<close>

lemma l0_log_pages:
  assumes "log_ok X cfg m ps"
  shows "l0_log B m = pages_log ps @ active_leaves m"
proof -
  note I = log_invD[OF assms]
  obtain ss where ss: "list_finalized_pages_summary B (storage m) 0 = Inr ss"
    "distinct (map sum_page_id ss)" "set ss = summary_of ` pages_at (pages (storage m)) 0"
    using list_ok[OF I(1)] by blast
  have "pages_at (pages (storage m)) 0 = set ps" using I(3) by (auto simp: pages_at_def l0_inv_def)
  then have "set (map sum_page_id ss) = set (map page_id ps)"
    using ss(3) by (auto simp: summary_of_def image_iff)
  moreover have "sorted_wrt (<) (map page_id ps)" using I(3) by (simp add: l0_inv_def)
  ultimately have "sort (map sum_page_id ss) = map page_id ps"
    using ss(2) by (intro sorted_distinct_set_unique) (auto simp: strict_sorted_iff)
  moreover have "stored_leaves B (storage m) (page_id p) = leaves_of p" if "p \<in> set ps" for p
  proof -
    have "pages (storage m) (0, page_id p) = Some p" using that I(3) by (simp add: l0_inv_def)
    then show ?thesis by (simp add: stored_leaves_def load_ok[OF I(1)])
  qed
  ultimately show ?thesis by (simp add: l0_log_def ss(1) pages_log_def cong: map_cong)
qed

theorem add_leaves_append:
  assumes "log_ok X cfg m ps" and "config_ok cfg" and "leaves_valid xs"
    and "page_id_gen m + (4 * length xs + 6) * 2 ^ length (levels cfg) \<le> 2 ^ 64"
    and "add_leaves X B cfg xs m = (Inr is, m')"
  shows "\<exists>ps'. log_ok X cfg m' ps' \<and>
    pages_log ps' @ active_leaves m' = pages_log ps @ active_leaves m @ map fst xs"
  using assms
proof (induction xs arbitrary: m ps "is")
  case (Cons x xs)
  let ?K = "2 ^ length (levels cfg) :: nat"
  obtain leaf t where x: "x = (leaf, t)" by (cases x)
  have v: "0 \<le> leaf_timestamp leaf" "in_i64 (leaf_timestamp leaf)" "leaves_valid xs"
    using Cons.prems(3) by (auto simp: leaves_valid_def x)
  obtain i m1 js where a: "add_leaf X B cfg leaf t m = (Inr i, m1)"
    and r: "add_leaves X B cfg xs m1 = (Inr js, m')"
    using Cons.prems(5) by (auto simp: x elim!: try_then_InrE)
  have K: "(4 * length (x # xs) + 6) * ?K = (4 * length xs + 6) * ?K + 4 * ?K"
    by (simp add: algebra_simps)
  have "6 * ?K \<le> (4 * length xs + 6) * ?K" by simp
  with K Cons.prems(4) have b: "page_id_gen m + 6 * ?K \<le> 2 ^ 64" by linarith
  obtain ps1 where L: "log_ok X cfg m1 ps1"
    and log: "pages_log ps1 @ active_leaves m1 = pages_log ps @ active_leaves m @ [leaf]"
    and g: "page_id_gen m1 \<le> page_id_gen m + 4 * ?K"
    using add_leaf_appends[OF Cons.prems(1,2) v(1,2) b a] by blast
  have b1: "page_id_gen m1 + (4 * length xs + 6) * ?K \<le> 2 ^ 64" using g K Cons.prems(4) by linarith
  obtain ps2 where "log_ok X cfg m' ps2"
    "pages_log ps2 @ active_leaves m' = pages_log ps1 @ active_leaves m1 @ map fst xs"
    using Cons.IH[OF L Cons.prems(2) v(3) b1 r] by blast
  moreover have "(pages_log ps1 @ active_leaves m1) @ map fst xs =
      (pages_log ps @ active_leaves m @ [leaf]) @ map fst xs"
    by (simp only: log)
  ultimately show ?case by (intro exI[of _ ps2]) (simp add: x)
qed auto

lemma log_ok_initial: "good s \<Longrightarrow> pages s = Map.empty \<Longrightarrow> log_ok X cfg (manager_new s) []"
  using l0_inv_initial[of "pages s" cfg s] manager_inv_initial[of "pages s" X cfg s]
  by (simp add: log_inv_def)

end

section \<open>Adding a leaf succeeds on a reliable storage\<close>

context reliable_storage
begin

definition ready :: "externals \<Rightarrow> config \<Rightarrow> 'a manager \<Rightarrow> journal_page list \<Rightarrow> bool" where
  "ready X cfg m ps \<longleftrightarrow> log_ok X cfg m ps \<and> reliable (storage m) \<and>
     only_configured cfg (pages (storage m))"

lemma finalize_total:
  assumes "ready X cfg m ps" and "placeable cfg (pages (storage m)) 0 p m" and "continues ps p"
    and "leaf_page_ok cfg p" and "page_id_gen m + 2 ^ length (levels cfg) \<le> 2 ^ 64"
    and "config_ok cfg"
  obtains m' where "finalize_and_rollup_page X B cfg p ts (set_active 0 None m) = (Inr (), m')"
    and "ready X cfg m' (ps @ [recalculate X p])"
proof -
  let ?q = "recalculate X p" and ?m = "set_active 0 None m"
  have L: "log_ok X cfg m ps" and R: "reliable (storage m)" "only_configured cfg (pages (storage m))"
    using assms(1) by (simp_all add: ready_def)
  note I = log_invD[OF L]
  have fits: "page_fits cfg 0 p" by (rule placeD(1)[OF assms(2)])
  have ne: "\<not> is_content_empty p" using assms(4) leaves_of_empty[OF fits] by (simp add: leaf_page_ok_def)
  then have neq: "\<not> is_content_empty ?q" by (simp add: is_content_empty_def)
  have P: "placeable cfg (pages (storage m)) 0 ?q m"
    by (rule placeable_grows[OF assms(2) grows_recalculate])
  have lvl: "page_level p = 0" using fits by (simp add: page_fits_def)
  have G: "good (storage ?m)" "reliable (storage ?m)" using I(1) R(1) by simp_all
  obtain s' where store: "store_in B ?q ?m = (Inr (), ?m\<lparr>storage := s'\<rparr>)" and s': "reliable s'"
    and V: "pages s' = (pages (storage ?m))((page_level ?q, page_id ?q) \<mapsto> ?q)"
    using store_in_total[OF G, of ?q] by metis
  let ?n = "track_finalized 0 ?q (?m\<lparr>storage := s'\<rparr>)"
  note S = store_step(2)[OF I(1,2) P neq recalculate_consistent store]
  note D = step_okD[OF S]
  have b: "page_id_gen ?n + 2 ^ (length (levels cfg) - 0) \<le> 2 ^ 64" using assms(5) by simp
  have h: "has_hash (pages (storage ?n)) (page_hash ?q)" using V has_hash_stored by simp
  have N: "0 < length (levels cfg)" using assms(6) by (simp add: config_ok_def)
  have "sound X cfg ?n" using D(1,2) only_configured_step[OF S R(2)] s' by (simp add: sound_def)
  from rollup_total[OF this b assms(6) N h] obtain m'
    where r: "perform_rollup X B cfg 0 (page_hash ?q) ts ?n = (Inr (), m')" "reliable (storage m')"
    by blast
  then have f: "finalize_and_rollup_page X B cfg p ts ?m = (Inr (), m')"
    using ne lvl store by (simp add: finalize_and_rollup_page_def Let_def)
  have "log_ok X cfg m' (ps @ [?q])"
    using finalize_current[OF L assms(2-5) f] by simp
  moreover have "only_configured cfg (pages (storage m'))"
    using only_configured_step[OF rollup_step[OF D(1,2) b r(1)]] only_configured_step[OF S R(2)] by simp
  ultimately show ?thesis using that f r(2) by (simp add: ready_def)
qed

lemma get_page_total:
  assumes "ready X cfg m ps" and "config_ok cfg"
    and "0 \<le> leaf_timestamp leaf" and "in_i64 (leaf_timestamp leaf)"
    and "page_id_gen m + 2 * 2 ^ length (levels cfg) < 2 ^ 64"
  obtains p m' where "get_or_create_active_page_for_leaf X B cfg leaf m = (Inr p, m')"
    and "reliable (storage m')" and "only_configured cfg (pages (storage m'))"
proof -
  have L: "log_ok X cfg m ps" using assms(1) by (simp add: ready_def)
  note I = log_invD[OF L]
  have one: "(1::nat) \<le> 2 ^ length (levels cfg)" by simp
  obtain ws where w: "get_page_window cfg 0 (leaf_timestamp leaf) = Inr (ws, page_end_time cfg 0 ws)"
    "nanos (int (duration_seconds (levels cfg ! 0))) dvd ws"
    by (rule level0_window[OF assms(2-4)])
  have fresh: "\<exists>p m'. fresh_leaf_page X B cfg ws n = (Inr p, m') \<and> reliable (storage m') \<and>
      only_configured cfg (pages (storage m'))"
    if "ready X cfg n qs" "active_pages n 0 = None" "page_id_gen n + 1 < 2 ^ 64" for n qs
  proof -
    obtain r m' where c: "fresh_leaf_page X B cfg ws n = (r, m')" by force
    with fresh_current[OF _ that(2,3) assms(2) c w(2), of qs] that(1) show ?thesis by (auto simp: ready_def)
  qed
  have "\<exists>p m'. get_or_create_active_page_for_leaf X B cfg leaf m = (Inr p, m') \<and>
      reliable (storage m') \<and> only_configured cfg (pages (storage m'))"
  proof (cases "active_pages m 0")
    case None
    have "page_id_gen m + 1 < 2 ^ 64" using assms(5) one by linarith
    from fresh[OF assms(1) None this] w(1) None show ?thesis
      by (simp add: get_or_create_active_page_for_leaf_def)
  next
    case (Some a)
    have A: "continues ps a" "leaf_page_ok cfg a" using I(3) Some by (simp_all add: l0_inv_def)
    note P = active_placeable[OF I(2) Some]
    have b: "page_id_gen m + 2 ^ length (levels cfg) \<le> 2 ^ 64" using assms(5) by simp
    obtain n where f: "finalize_and_rollup_page X B cfg a (leaf_timestamp leaf) (set_active 0 None m) = (Inr (), n)"
      and n: "ready X cfg n (ps @ [recalculate X a])"
      using finalize_total[OF assms(1) P A b assms(2)] by metis
    have F: "active_pages n 0 = None" "page_id_gen n + 1 < 2 ^ 64"
      using finalize_current[OF L P A b f] assms(5) one by auto
    from fresh[OF n F] f w(1) Some assms(1) show ?thesis
      by (auto simp: get_or_create_active_page_for_leaf_def ready_def)
  qed
  then show ?thesis using that by blast
qed

lemma close_total:
  assumes "ready X cfg m ps" and "placeable cfg (pages (storage m)) 0 p m" and "continues ps p"
    and "leaf_page_ok cfg p" and "page_id_gen m + 2 ^ length (levels cfg) \<le> 2 ^ 64"
    and "config_ok cfg"
  obtains m' where "close_page X B cfg p ts m = (Inr (), m')"
    and "ready X cfg m' (ps @ [recalculate X p])" and "active_pages m' 0 = None"
    and "page_id_gen m' < page_id_gen m + 2 ^ length (levels cfg)"
proof -
  have fits: "page_fits cfg 0 p" by (rule placeD(1)[OF assms(2)])
  then have lvl: "page_level p = 0" by (simp add: page_fits_def)
  have ne: "\<not> is_content_empty p" using assms(4) leaves_of_empty[OF fits] by (simp add: leaf_page_ok_def)
  have L: "log_ok X cfg m ps" using assms(1) by (simp add: ready_def)
  obtain m' where f: "finalize_and_rollup_page X B cfg p ts (set_active 0 None m) = (Inr (), m')"
    and "ready X cfg m' (ps @ [recalculate X p])"
    using finalize_total[OF assms] by metis
  moreover have "close_page X B cfg p ts m = (Inr (), m')"
    using f by (simp only: close_page_finalize[OF ne lvl])
  ultimately show ?thesis using finalize_current[OF L assms(2-5) f] that by blast
qed

lemma insert_total:
  assumes "ready X cfg m ps" and "current cfg (pages (storage m)) m ps p"
    and "in_window p (leaf_timestamp leaf)" and "config_ok cfg"
    and "page_id_gen m + 2 ^ length (levels cfg) \<le> 2 ^ 64"
  obtains m' where "insert_leaf X B cfg lc leaf t p m = (Inr (), m')"
    and "reliable (storage m')" and "only_configured cfg (pages (storage m'))"
proof -
  have "placeable cfg (pages (storage m)) 0 p m" using assms(2) by (simp add: current_def)
  then have "page_fits cfg 0 p" by (rule placeD(1))
  then obtain q where q: "page_add_leaf p leaf = Inr q"
    by (cases "content p") (simp_all add: page_add_leaf_def page_fits_def)
  note Q = inserted_page[OF assms(2,3) q]
  obtain m' where m': "close_page X B cfg q (leaf_timestamp leaf) m = (Inr (), m')"
    "ready X cfg m' (ps @ [recalculate X q])"
    using close_total[OF assms(1) Q(2-4) assms(5,4)] by metis
  show ?thesis
  proof (cases "fst (leaf_finalize lc q (leaf_timestamp leaf) t) \<or>
      snd (leaf_finalize lc q (leaf_timestamp leaf) t)")
    case True
    with m' q show ?thesis by (intro that[of m']) (simp_all add: insert_leaf_def split_def ready_def)
  next
    case False
    with q assms(1) show ?thesis
      by (intro that[of "set_active (page_level q) (Some q) m"])
        (simp_all add: insert_leaf_def split_def ready_def)
  qed
qed

lemma page_to_insert_total:
  assumes "ready X cfg m ps" and "current cfg (pages (storage m)) m ps p"
    and "config_ok cfg" and "0 \<le> leaf_timestamp leaf" and "in_i64 (leaf_timestamp leaf)"
    and "page_id_gen m + 3 * 2 ^ length (levels cfg) \<le> 2 ^ 64"
  obtains q m' where "page_to_insert X B cfg lc leaf t p m = (Inr q, m')"
    and "reliable (storage m')" and "only_configured cfg (pages (storage m'))"
proof (cases "fst (leaf_finalize lc p (leaf_timestamp leaf) t) \<and> leaf_timestamp leaf < t \<and>
    \<not> is_content_empty p")
  case False
  with that[of p m] assms(1) show ?thesis by (auto simp: page_to_insert_def ready_def)
next
  case True
  let ?K = "2 ^ length (levels cfg) :: nat"
  have P: "placeable cfg (pages (storage m)) 0 p m" "continues ps p" "leaf_page_ok cfg p"
    using assms(2) current_page_ok[OF assms(2)] True by (simp_all add: current_def)
  have b: "page_id_gen m + ?K \<le> 2 ^ 64" using assms(6) by linarith
  obtain n where cl: "close_page X B cfg p (leaf_timestamp leaf) m = (Inr (), n)"
    and n: "ready X cfg n (ps @ [recalculate X p])" "page_id_gen n < page_id_gen m + ?K"
    using close_total[OF assms(1) P b assms(3)] by metis
  have b2: "page_id_gen n + 2 * ?K < 2 ^ 64" using n(2) assms(6) by linarith
  obtain q m' where q: "get_or_create_active_page_for_leaf X B cfg leaf n = (Inr q, m')"
    "reliable (storage m')" "only_configured cfg (pages (storage m'))"
    using get_page_total[OF n(1) assms(3-5) b2] by metis
  with True cl show ?thesis by (intro that[of q m']) (simp_all add: page_to_insert_def)
qed

theorem add_leaf_total:
  assumes "ready X cfg m ps" and "config_ok cfg"
    and "0 \<le> leaf_timestamp leaf" and "in_i64 (leaf_timestamp leaf)"
    and "page_id_gen m + 6 * 2 ^ length (levels cfg) \<le> 2 ^ 64"
  shows "\<exists>i m' ps'. add_leaf X B cfg leaf t m = (Inr i, m') \<and> ready X cfg m' ps' \<and>
    page_id_gen m' \<le> page_id_gen m + 4 * 2 ^ length (levels cfg)"
proof -
  let ?K = "2 ^ length (levels cfg) :: nat"
  have K: "0 < ?K" by simp
  have L: "log_ok X cfg m ps" using assms(1) by (simp add: ready_def)
  have b0: "page_id_gen m + 2 * ?K < 2 ^ 64" using assms(5) K by linarith
  obtain p m1 where p: "get_or_create_active_page_for_leaf X B cfg leaf m = (Inr p, m1)"
    and R1: "reliable (storage m1)" "only_configured cfg (pages (storage m1))"
    using get_page_total[OF assms(1-4) b0] by metis
  obtain ps1 where S1: "log_ok X cfg m1 ps1" "current cfg (pages (storage m1)) m1 ps1 p"
      "in_window p (leaf_timestamp leaf)" and g1: "page_id_gen m1 \<le> page_id_gen m + ?K"
    using get_page_for_leaf[OF L assms(2-4) b0 p] by blast
  have r1: "ready X cfg m1 ps1" using S1(1) R1 by (simp add: ready_def)
  obtain lc where lc: "level_at cfg 0 = Some lc" using level0_exists[OF assms(2)] by blast
  have b1: "page_id_gen m1 + 3 * ?K \<le> 2 ^ 64" using g1 assms(5) by linarith
  obtain q m2 where q: "page_to_insert X B cfg lc leaf t p m1 = (Inr q, m2)"
    and R2: "reliable (storage m2)" "only_configured cfg (pages (storage m2))"
    using page_to_insert_total[OF r1 S1(2) assms(2-4) b1] by metis
  obtain ps2 where S2: "log_ok X cfg m2 ps2" "current cfg (pages (storage m2)) m2 ps2 q"
      "in_window q (leaf_timestamp leaf)" and g2: "page_id_gen m2 \<le> page_id_gen m1 + 2 * ?K"
    using page_to_insert_step[OF S1 assms(2-4) b1 q] by blast
  have r2: "ready X cfg m2 ps2" using S2(1) R2 by (simp add: ready_def)
  have b2: "page_id_gen m2 + ?K \<le> 2 ^ 64" using g1 g2 assms(5) by linarith
  obtain m' where ins: "insert_leaf X B cfg lc leaf t q m2 = (Inr (), m')"
    and R': "reliable (storage m')" "only_configured cfg (pages (storage m'))"
    using insert_total[OF r2 S2(2,3) assms(2) b2] by metis
  have add: "add_leaf X B cfg leaf t m = (Inr (page_id p), m')"
    by (simp add: add_leaf_stages[OF p current_level[OF S1(2)] lc] q ins)
  from add_leaf_appends[OF L assms(2-5) add] obtain ps' where "log_ok X cfg m' ps'"
    "page_id_gen m' \<le> page_id_gen m + 4 * ?K" by blast
  with add R' show ?thesis by (auto simp: ready_def)
qed

theorem add_leaves_ready:
  assumes "ready X cfg m ps" and "config_ok cfg" and "leaves_valid xs"
    and "page_id_gen m + (4 * length xs + 6) * 2 ^ length (levels cfg) \<le> 2 ^ 64"
  shows "\<exists>is m' ps'. add_leaves X B cfg xs m = (Inr is, m') \<and> length is = length xs \<and> ready X cfg m' ps'"
  using assms
proof (induction xs arbitrary: m ps)
  case (Cons x xs)
  let ?K = "2 ^ length (levels cfg) :: nat"
  obtain leaf t where x: "x = (leaf, t)" by (cases x)
  have v: "0 \<le> leaf_timestamp leaf" "in_i64 (leaf_timestamp leaf)" "leaves_valid xs"
    using Cons.prems(3) by (auto simp: leaves_valid_def x)
  have K: "(4 * length (x # xs) + 6) * ?K = (4 * length xs + 6) * ?K + 4 * ?K"
    by (simp add: algebra_simps)
  have "6 * ?K \<le> (4 * length xs + 6) * ?K" by simp
  with K Cons.prems(4) have b: "page_id_gen m + 6 * ?K \<le> 2 ^ 64" by linarith
  obtain i m1 ps1 where a: "add_leaf X B cfg leaf t m = (Inr i, m1)" and r: "ready X cfg m1 ps1"
    and g: "page_id_gen m1 \<le> page_id_gen m + 4 * ?K"
    using add_leaf_total[OF Cons.prems(1,2) v(1,2) b] by blast
  have b1: "page_id_gen m1 + (4 * length xs + 6) * ?K \<le> 2 ^ 64" using g K Cons.prems(4) by linarith
  from Cons.IH[OF r Cons.prems(2) v(3) b1] a show ?case by (auto simp: x)
qed auto

corollary add_leaves_total:
  assumes "ready X cfg m ps" and "config_ok cfg" and "leaves_valid xs"
    and "page_id_gen m + (4 * length xs + 6) * 2 ^ length (levels cfg) \<le> 2 ^ 64"
  shows "\<exists>is m'. add_leaves X B cfg xs m = (Inr is, m') \<and> length is = length xs"
  using add_leaves_ready[OF assms] by blast

lemma ready_initial:
  "good s \<Longrightarrow> reliable s \<Longrightarrow> pages s = Map.empty \<Longrightarrow> ready X cfg (manager_new s) []"
  using log_ok_initial by (simp add: ready_def only_configured_def)

end

end
