(* ===== verification/Manager_Properties.thy ===== *)
theory Manager_Properties
  imports Journal_Log
begin

text \<open>
  The properties of the time hierarchy manager, on the two backends of the code: what the
  base level holds after any sequence of \<open>add_leaf\<close>, what a rollup records in the parent
  level, and the behaviours of finalisation that lose or replace content.
\<close>

section \<open>A closed configuration and leaves\<close>

definition sample_leaf :: "nat \<Rightarrow> timestamp \<Rightarrow> journal_leaf" where
  "sample_leaf i t =
     \<lparr>leaf_id = i, leaf_timestamp = t, leaf_prev_hash = None, container_id = ''c'',
      delta_payload = JObject [(''f'', JBool True)], leaf_hash = zero_hash\<rparr>"

lemma default_config_ok: "config_ok default_config"
  by (simp add: config_ok_def level_ok_def default_config_defs)

lemma sample_leaves_valid: "leaves_valid [(sample_leaf 0 5, 6), (sample_leaf 1 86400000000007, 9)]"
  by (simp add: leaves_valid_def sample_leaf_def in_i64_def)

lemma mem_new_empty: "mem_view mem_new = Map.empty" "mem_reliable mem_new"
  by (simp_all add: mem_view_def mem_new_def mem_reliable_def)

section \<open>The base level is an append-only log\<close>



text \<open>
  C4: the same for the file backend, for every run that succeeds: starting from an empty
  well-formed journal directory, with whatever codecs and compression settings, the L0
  pages read back from the files and the active page hold exactly the leaves added.
\<close>

theorem file_journal_keeps_every_leaf:
  assumes "file_good C s" and "file_view C s = Map.empty"
    and "config_ok cfg" and "leaves_valid xs"
    and "(4 * length xs + 6) * 2 ^ length (levels cfg) \<le> 2 ^ 64"
    and "add_leaves X (file_backend C) cfg xs (manager_new s) = (Inr is, m)"
  shows "l0_log (file_backend C) m = map fst xs"
proof -
  have L: "disk.log_ok C X cfg (manager_new s) []"
    by (rule disk.log_ok_initial[OF assms(1,2)])
  have b: "page_id_gen (manager_new s) + (4 * length xs + 6) * 2 ^ length (levels cfg) \<le> 2 ^ 64"
    using assms(5) by simp
  from disk.add_leaves_append[OF L assms(3,4) b assms(6)] disk.l0_log_pages show ?thesis by fastforce
qed

lemma sample_disk_empty: "file_view sample_codecs sample_disk = Map.empty"
  by (simp add: file_view_def sample_disk_def fun_eq_iff split: prod.split)

lemma default_level0:
  obtains lc where "level_at default_config 0 = Some lc"
    and "max_items_per_page (rollup_config lc) = 1000"
    and "max_page_age_seconds (rollup_config lc) = 0"
    and "duration_seconds lc = 86400"
  by (rule that[of "levels default_config ! 0"]) (simp_all add: level_at_def default_config_defs)

lemma sample_first_leaf:
  "\<exists>m. add_leaves X B default_config [(sample_leaf 0 5, 6)] (manager_new s) = (Inr [0], m)"
proof -
  obtain lc where lc: "level_at default_config 0 = Some lc"
    "max_items_per_page (rollup_config lc) = 1000"
    "max_page_age_seconds (rollup_config lc) = 0" "duration_seconds lc = 86400"
    by (rule default_level0)
  have w: "get_page_window default_config 0 5 = Inr (0, 86400000000000)"
    by (simp add: get_page_window_def lc nanos_def as_i64_def Let_def
        window_start_def timestamp_nanos_def in_i64_def trunc_div_def)
  have "page_end_time default_config 0 0 = 86400000000000"
    by (simp add: page_end_time_def lc nanos_def as_i64_def)
  then show ?thesis
    using lc by (simp add: add_leaf_def get_or_create_active_page_for_leaf_def sample_leaf_def w
        manager_new_def fresh_leaf_page_def last_stored_hash_def create_page_def id_next_def
        fetch_add64_def insert_leaf_def page_add_leaf_def leaf_finalize_def should_finalize_def Let_def
        initial_content_def content_len_def leaf_max_age_def as_u32_def)
qed

theorem file_journal_keeps_every_leaf_witness:
  "\<exists>is m. add_leaves sample_hashing (file_backend sample_codecs) default_config
       [(sample_leaf 0 5, 6)] (manager_new sample_disk) = (Inr is, m) \<and>
     l0_log (file_backend sample_codecs) m = [sample_leaf 0 5]"
proof -
  obtain m where m: "add_leaves sample_hashing (file_backend sample_codecs) default_config
      [(sample_leaf 0 5, 6)] (manager_new sample_disk) = (Inr [0], m)"
    using sample_first_leaf[of sample_hashing "file_backend sample_codecs" sample_disk] by blast
  have "leaves_valid [(sample_leaf 0 5, 6)]"
    by (simp add: leaves_valid_def sample_leaf_def in_i64_def)
  from file_journal_keeps_every_leaf[OF sample_disk_good sample_disk_empty default_config_ok this _ m]
  show ?thesis using m by (simp add: default_config_defs)
qed

text \<open>
  C3: the stored L0 pages form a verifiable chain. After any sequence of \<open>add_leaf\<close> calls
  the stored L0 pages can be listed so that ids increase, the first page has no predecessor
  and every other links to the page hash of the one before; every page stores the Merkle
  root and hash of its content, is not empty, holds at most the configured number of
  leaves, and holds only leaves of its time window.
\<close>

theorem stored_pages_form_chain:
  assumes "config_ok cfg" and "leaves_valid xs"
    and "(4 * length xs + 6) * 2 ^ length (levels cfg) \<le> 2 ^ 64"
    and "add_leaves X memory_backend cfg xs (manager_new mem_new) = (Inr is, m)"
  shows "\<exists>ps. (\<forall>i. mem_load_page (storage m) 0 i = Inr (List.find (\<lambda>p. page_id p = i) ps)) \<and>
    sorted_wrt (<) (map page_id ps) \<and> chain_from None ps \<and>
    (\<forall>p\<in>set ps. page_consistent X p \<and> leaf_page_ok cfg p)"
proof -
  have L: "mem.log_ok X cfg (manager_new mem_new) []"
    by (rule mem.log_ok_initial) (simp_all add: mem_good_new mem_new_empty)
  have b: "page_id_gen (manager_new mem_new) + (4 * length xs + 6) * 2 ^ length (levels cfg) \<le> 2 ^ 64"
    using assms(3) by simp
  obtain ps where P: "mem.log_ok X cfg m ps"
    using mem.add_leaves_append[OF L assms(1,2) b assms(4)] by blast
  note I = log_invD[OF P]
  have N: "0 < length (levels cfg)" using assms(1) by (simp add: config_ok_def)
  have V: "mem_view (storage m) (0, i) = Some p \<longleftrightarrow> p \<in> set ps \<and> page_id p = i" for i p
    using I(3) by (simp add: l0_inv_def)
  have "mem_load_page (storage m) 0 i = Inr (List.find (\<lambda>p. page_id p = i) ps)" for i
  proof -
    have "mem_view (storage m) (0, i) = List.find (\<lambda>p. page_id p = i) ps"
    proof (cases "List.find (\<lambda>p. page_id p = i) ps")
      case None
      then have "\<not> (\<exists>p. p \<in> set ps \<and> page_id p = i)" by (auto simp: find_None_iff)
      with V None show ?thesis by (metis not_None_eq)
    next
      case (Some p)
      then have "p \<in> set ps \<and> page_id p = i" by (auto simp: find_Some_iff)
      with V Some show ?thesis by simp
    qed
    with mem.load_ok[OF I(1)] show ?thesis by simp
  qed
  moreover have "page_consistent X p" if "p \<in> set ps" for p
    using inv_stored[OF I(2) N, of "page_id p" p] V that by (simp add: stored_page_ok_def)
  ultimately show ?thesis using I(3) by (intro exI[of _ ps]) (simp add: l0_inv_def)
qed

theorem stored_pages_form_chain_witness:
  "\<exists>is m ps. add_leaves sample_hashing memory_backend default_config
       [(sample_leaf 0 5, 6), (sample_leaf 1 86400000000007, 9)] (manager_new mem_new) = (Inr is, m) \<and>
     (\<forall>i. mem_load_page (storage m) 0 i = Inr (List.find (\<lambda>p. page_id p = i) ps)) \<and> chain_from None ps"
proof -
  let ?xs = "[(sample_leaf 0 5, 6), (sample_leaf 1 86400000000007, 9)]"
  have r: "mem.ready sample_hashing default_config (manager_new mem_new) []"
    by (rule mem.ready_initial) (simp_all add: mem_good_new mem_new_empty)
  have b: "(4 * length ?xs + 6) * 2 ^ length (levels default_config) \<le> 2 ^ 64"
    by (simp add: default_config_defs)
  then have b': "page_id_gen (manager_new mem_new) + (4 * length ?xs + 6) * 2 ^ length (levels default_config) \<le> 2 ^ 64"
    by simp
  obtain "is" m where m: "add_leaves sample_hashing memory_backend default_config ?xs (manager_new mem_new) = (Inr is, m)"
    using mem.add_leaves_total[OF r default_config_ok sample_leaves_valid b'] by blast
  from stored_pages_form_chain[OF default_config_ok sample_leaves_valid b m] m show ?thesis by blast
qed

section \<open>What a rollup keeps and records\<close>

text \<open>
  C11: the rollup cascade keeps the manager's invariant on every path. Whatever it returns,
  also when the storage fails in the middle, pages stay at their level with the prescribed
  content, stored pages stay consistent, ids stay unique, nothing changes at or below the
  level of the finalised page, and fewer than \<open>2 ^ levels\<close> ids are used.
\<close>

theorem rollup_keeps_invariant:
  assumes "mem_good (storage m)" and "manager_inv X cfg (mem_view (storage m)) m"
    and "page_id_gen m + 2 ^ (length (levels cfg) - l) \<le> 2 ^ 64"
    and "perform_rollup X memory_backend cfg l h ts m = (r, m')"
  shows "mem_good (storage m') \<and> manager_inv X cfg (mem_view (storage m')) m' \<and>
    same_below (Suc l) (mem_view (storage m)) m (mem_view (storage m')) m' \<and>
    page_id_gen m' < page_id_gen m + 2 ^ (length (levels cfg) - l)"
proof -
  have "(0::nat) < 2 ^ (length (levels cfg) - l)" by simp
  then have "n \<le> g + (2 ^ (length (levels cfg) - l) - 1) \<Longrightarrow> n < g + 2 ^ (length (levels cfg) - l)"
    for n g :: nat by linarith
  with mem.rollup_step[OF assms] show ?thesis unfolding step_ok_def by blast
qed

theorem rollup_keeps_invariant_witness:
  "\<exists>r m'. perform_rollup sample_hashing memory_backend default_config 0 zero_hash 5
       (manager_new (set_fail_on_store mem_new 1 None)) = (r, m') \<and>
     manager_inv sample_hashing default_config (mem_view (storage m')) m'"
proof -
  let ?m = "manager_new (set_fail_on_store mem_new 1 None)"
  have g: "mem_good (storage ?m)" and v: "mem_view (storage ?m) = Map.empty"
    by (simp_all add: mem_good_def mem_view_def set_fail_on_store_def mem_new_def keyed_def)
  obtain r m' where r: "perform_rollup sample_hashing memory_backend default_config 0 zero_hash 5 ?m = (r, m')"
    by force
  have b: "page_id_gen ?m + 2 ^ (length (levels default_config) - 0) \<le> 2 ^ 64"
    by (simp add: default_config_defs)
  from rollup_keeps_invariant[OF g manager_inv_initial[OF v] b r] r show ?thesis by blast
qed

definition thrall_hashes :: "journal_page \<Rightarrow> hash list" where
  "thrall_hashes p =
     (case content p of
        ThrallHashes hs \<Rightarrow> hs
      | ThrallHashesWithNetPatches hs ps \<Rightarrow> hs
      | _ \<Rightarrow> [])"

lemma merge_child_thrall: "merge_child_patches p child = Inr q \<Longrightarrow> thrall_hashes q = thrall_hashes p"
  by (auto simp: merge_child_patches_def merge_net_patches_def thrall_hashes_def Let_def
      split: page_content.splits if_splits)

lemma add_child_thrall:
  assumes "add_child_content ct p child = Inr q" and "ct \<noteq> NetPatchesType"
  shows "thrall_hashes q = thrall_hashes p @ [page_hash child]"
proof -
  have a: "add_thrall_hash p h t = Inr x \<Longrightarrow> thrall_hashes x = thrall_hashes p @ [h]" for h t x
    by (auto simp: add_thrall_hash_def thrall_hashes_def split: page_content.splits if_splits)
  show ?thesis
    using assms by (cases ct) (auto simp: add_child_content_def a dest: merge_child_thrall
        elim!: try_pure_InrE)
qed

context storage_laws
begin

lemma settle_places:
  assumes "good (storage m)" and "\<not> is_content_empty q" and "page_level q = pl"
    and "settle_parent B pl pc q ts m = (Inr st, m')"
  shows "active_pages m' pl = Some q \<or> pages (storage m') (pl, page_id q) = Some q"
proof -
  let ?m = "set_active pl None m"
  have G: "good (storage ?m)" using assms(1) by simp
  obtain sr m1 where store: "store_in B q ?m = (sr, m1)" by force
  have "pages (storage m1) (pl, page_id q) = Some q" if "sr = Inr u" for u
    using store_in_result[OF G store] that assms(3) by simp
  with assms(2,4) store show ?thesis
    by (cases sr) (auto simp: settle_parent_def Let_def split: if_splits)
qed

lemma attach_links:
  assumes "good (storage m)" and "manager_inv X cfg (pages (storage m)) m"
    and "page_id_gen m + 1 < 2 ^ 64" and "content_type (rollup_config pc) \<noteq> NetPatchesType"
    and "attach_child_step X B cfg pl pc child ts m = (Inr st, m')"
  shows "\<exists>q hs. page_level q = pl \<and> thrall_hashes q = hs @ [page_hash child] \<and>
    (active_pages m' pl = Some q \<or> pages (storage m') (pl, page_id q) = Some q)"
proof -
  obtain p m1 where p: "get_or_create_active_parent_page X B cfg pl ts m = (Inr p, m1)"
    using assms(5) by (auto simp: attach_child_step_def elim!: try_then_InrE)
  with assms(5) obtain q where q: "add_child_content (content_type (rollup_config pc)) p child = Inr q"
    and s: "settle_parent B pl pc (recalculate X q) ts m1 = (Inr st, m')"
    by (auto simp: attach_child_step_def split: if_splits sum.splits)
  note G = parent_page_step[OF assms(1-3) p]
  then have "page_fits cfg pl p" by (blast dest: placeD(1))
  then have lvl: "page_level (recalculate X q) = pl"
    using add_child_content_grows[OF q] by (simp add: grows_def page_fits_def)
  have th: "thrall_hashes (recalculate X q) = thrall_hashes p @ [page_hash child]"
    using add_child_thrall[OF q assms(4)] by (simp add: thrall_hashes_def)
  then have ne: "\<not> is_content_empty (recalculate X q)"
    by (cases "content q") (auto simp: thrall_hashes_def is_content_empty_def)
  have "good (storage m1)" using G assms(1) by auto
  from settle_places[OF this ne lvl s] lvl th show ?thesis by blast
qed

lemma rollup_links:
  assumes "good (storage m)" and "manager_inv X cfg (pages (storage m)) m"
    and "page_id_gen m + 2 ^ (length (levels cfg) - l) \<le> 2 ^ 64"
    and "level_at cfg (l + 1) = Some pc" and "content_type (rollup_config pc) \<noteq> NetPatchesType"
    and "perform_rollup X B cfg l h ts m = (Inr u, m')"
  shows "\<exists>q hs. page_level q = l + 1 \<and> thrall_hashes q = hs @ [h] \<and>
    (active_pages m' (l + 1) = Some q \<or> pages (storage m') (l + 1, page_id q) = Some q)"
proof -
  let ?K = "2 ^ (length (levels cfg) - Suc l) :: nat"
  have K: "2 ^ (length (levels cfg) - l) = 2 * ?K" "0 < ?K" using rollup_ids[OF assms(4)] by simp_all
  obtain child where child: "l < 255" "load_page_by_hash B (storage m) h = Inr (Some child)"
    and h: "page_hash child = h"
    using assms(4,6) by_hash_ok[OF assms(1), of h] unfolding perform_rollup.simps[of X B cfg l h]
    by (auto split: if_splits sum.splits option.splits)
  obtain v m1 where s1: "stale_cascade X B cfg (l + 1) ts m = (Inr v, m1)"
    and s2: "attach_cascade X B cfg (l + 1) pc child ts m1 = (Inr u, m')"
    using assms(6) unfolding perform_rollup_level[OF child assms(4)] by (auto elim!: try_then_InrE)
  note D1 = step_okD[OF cascade_steps[OF assms(1,2,4,3) s1]]
  have g1: "page_id_gen m1 + 1 < 2 ^ 64" using D1(3) assms(3) K by linarith
  obtain fin m2 where s3: "attach_child_step X B cfg (l + 1) pc child ts m1 = (Inr fin, m2)"
    and eq: "(case fin of None \<Rightarrow> (Inr (), m2) | Some h \<Rightarrow> perform_rollup X B cfg (l + 1) h ts m2) = (Inr u, m')"
    using s2 unfolding attach_cascade_def by (rule try_then_InrE)
  note A = attach_links[OF D1(1,2) g1 assms(5) s3] and D2 = step_okD[OF attach_step[OF D1(1,2) g1 s3]]
  have g2: "page_id_gen m2 + 2 ^ (length (levels cfg) - (l + 1)) \<le> 2 ^ 64"
    using D2(3) D1(3) assms(3) K by simp
  have "same_below (l + 2) (pages (storage m2)) m2 (pages (storage m')) m'"
    using eq rollup_step[OF D2(1,2) g2] by (auto simp: step_ok_def split: option.splits)
  then have "active_pages m' (l + 1) = active_pages m2 (l + 1)"
    "pages (storage m') (l + 1, i) = pages (storage m2) (l + 1, i)" for i
    by (simp_all add: same_below_def)
  with A h show ?thesis by simp
qed

end

text \<open>
  C12: a rollup records the finalised page in the parent level. On the memory backend, when
  \<open>perform_rollup\<close> returns without error, the level above exists and its content type is not
  \<open>NetPatches\<close>, which keeps no child hashes, the hash of the finalised page is the last child hash of a page of the parent level, which is the active page of
  that level or stored under its id.
\<close>

theorem rollup_records_child:
  assumes "mem_good (storage m)" and "manager_inv X cfg (mem_view (storage m)) m"
    and "page_id_gen m + 2 ^ (length (levels cfg) - l) \<le> 2 ^ 64"
    and "level_at cfg (l + 1) = Some pc" and "content_type (rollup_config pc) \<noteq> NetPatchesType"
    and "perform_rollup X memory_backend cfg l h ts m = (Inr u, m')"
  shows "\<exists>q hs. page_level q = l + 1 \<and> thrall_hashes q = hs @ [h] \<and>
    (get_active_page m' (l + 1) = Some q \<or>
     mem_load_page (storage m') (l + 1) (page_id q) = Inr (Some q))"
  using mem.rollup_links[OF assms]
  by (simp add: get_active_page_def mem_load_page_def mem_view_def)

definition closed_leaf_page :: journal_page where
  "closed_leaf_page = recalculate sample_hashing
     ((new_with_id sample_hashing default_config 0 0 None 0)\<lparr>content := Leaves [sample_leaf 0 5]\<rparr>)"

definition one_page_manager :: "memory_storage manager" where
  "one_page_manager =
     (manager_new (mem_new\<lparr>mem_pages := [((0, 0), closed_leaf_page)]\<rparr>))\<lparr>page_id_gen := 1\<rparr>"

lemma one_page_view:
  "mem_view (storage one_page_manager) = (\<lambda>k. if k = (0, 0) then Some closed_leaf_page else None)"
  by (auto simp: mem_view_def one_page_manager_def manager_new_def mem_new_def fun_eq_iff)

lemma closed_leaf_page_ok:
  "stored_page_ok sample_hashing default_config 0 0 closed_leaf_page"
  by (simp add: stored_page_ok_def closed_leaf_page_def page_fits_def is_content_empty_def
      default_config_defs)

lemma one_page_good: "mem_good (storage one_page_manager)"
  unfolding mem_good_def one_page_view keyed_def
  by (auto simp: one_page_manager_def manager_new_def mem_new_def closed_leaf_page_def split: if_splits)

lemma one_page_inv:
  "manager_inv sample_hashing default_config (mem_view (storage one_page_manager)) one_page_manager"
  unfolding manager_inv_def active_ok_def stored_ok_def ids_ok_def one_page_view
  using closed_leaf_page_ok by (auto simp: one_page_manager_def manager_new_def split: if_splits)

lemma one_page_rollup:
  "\<exists>m'. perform_rollup sample_hashing memory_backend default_config 0 (page_hash closed_leaf_page) 5
      one_page_manager = (Inr (), m')"
proof -
  have "has_hash (mem_view (storage one_page_manager)) (page_hash closed_leaf_page)"
    unfolding has_hash_def one_page_view by (auto simp: ran_def)
  moreover have "only_configured default_config (mem_view (storage one_page_manager))"
    unfolding only_configured_def one_page_view by (simp add: default_config_defs)
  moreover have "mem_reliable (storage one_page_manager)"
    by (simp add: mem_reliable_def one_page_manager_def manager_new_def mem_new_def)
  moreover have "page_id_gen one_page_manager + 2 ^ (length (levels default_config) - 0) \<le> 2 ^ 64"
    by (simp add: one_page_manager_def default_config_defs)
  moreover have "0 < length (levels default_config)" by (simp add: default_config_defs)
  ultimately show ?thesis
    using mem.rollup_total[OF _ _ default_config_ok] one_page_good one_page_inv
    unfolding mem.sound_def by blast
qed

theorem rollup_records_child_witness:
  "\<exists>m' q hs. perform_rollup sample_hashing memory_backend default_config 0
       (page_hash closed_leaf_page) 5 one_page_manager = (Inr (), m') \<and>
     thrall_hashes q = hs @ [page_hash closed_leaf_page] \<and>
     (get_active_page m' 1 = Some q \<or> mem_load_page (storage m') 1 (page_id q) = Inr (Some q))"
proof -
  obtain m' where r: "perform_rollup sample_hashing memory_backend default_config 0
      (page_hash closed_leaf_page) 5 one_page_manager = (Inr (), m')"
    using one_page_rollup by blast
  have b: "page_id_gen one_page_manager + 2 ^ (length (levels default_config) - 0) \<le> 2 ^ 64"
    by (simp add: one_page_manager_def default_config_defs)
  have l: "level_at default_config (0 + 1) = Some (levels default_config ! 1)"
    by (simp add: level_at_def default_config_defs)
  have c: "content_type (rollup_config (levels default_config ! 1)) \<noteq> NetPatchesType"
    by (simp add: default_config_defs)
  from rollup_records_child[OF one_page_good one_page_inv b l c r] r show ?thesis by auto
qed

end
