(* ===== verification/Rollup_Content.thy ===== *)
theory Rollup_Content
  imports Manager_Properties
begin

text \<open>
  What the rollup writes into a parent page: the net patches computed from the leaves of an
  L0 page, and the four behaviours of finalisation by which content is lost or replaced (a
  failed store, the age limit zero, a finalised parent page taken up again, a trigger that
  lies before the active parent page).
\<close>

section \<open>Net patches of a page of leaves\<close>

text \<open>The value a leaf writes to field \<open>f\<close> of container \<open>c\<close>, and the last one written.\<close>

definition written :: "string \<Rightarrow> string \<Rightarrow> journal_leaf \<Rightarrow> json option" where
  "written c f leaf =
     (if container_id leaf = c
      then (case delta_payload leaf of JObject fs \<Rightarrow> map_of fs f | _ \<Rightarrow> None) else None)"

fun last_write :: "string \<Rightarrow> string \<Rightarrow> journal_leaf list \<Rightarrow> json option" where
  "last_write c f [] = None"
| "last_write c f (leaf # ls) =
     (case last_write c f ls of None \<Rightarrow> written c f leaf | Some v \<Rightarrow> Some v)"

definition payload_ok :: "journal_leaf \<Rightarrow> bool" where
  "payload_ok leaf \<longleftrightarrow>
     (case delta_payload leaf of JObject fs \<Rightarrow> distinct (map fst fs) | _ \<Rightarrow> True)"

lemma patches_wf_Nil [simp]: "patches_wf []"
  by (simp add: patches_wf_def)

lemma patch_lookup_Nil [simp]: "patch_lookup [] c f = None"
  by (simp add: patch_lookup_def patch_entry_def)

lemma add_leaf_patch_wf: "patches_wf ps \<Longrightarrow> patches_wf (add_leaf_patch leaf ps)"
  by (auto simp: add_leaf_patch_def split: json.split
      intro: patches_wf_update distinct_merge_fields patches_wf_entry)

lemma add_leaf_patch_lookup:
  assumes "payload_ok leaf"
  shows "patch_lookup (add_leaf_patch leaf ps) c f =
    (case written c f leaf of None \<Rightarrow> patch_lookup ps c f | Some v \<Rightarrow> Some v)"
proof (cases "delta_payload leaf")
  case (JObject fs)
  with assms have "distinct (map fst fs)" by (simp add: payload_ok_def)
  with JObject show ?thesis
    by (auto simp: add_leaf_patch_def patch_lookup_def patch_entry_update written_def
        map_of_merge_fields map_add_def split: option.split)
qed (simp_all add: add_leaf_patch_def written_def)

lemma fold_leaf_patches:
  assumes "\<forall>leaf\<in>set ls. payload_ok leaf" and "patches_wf ps"
  shows "patches_wf (fold add_leaf_patch ls ps)"
    and "patch_lookup (fold add_leaf_patch ls ps) c f =
      (case last_write c f ls of None \<Rightarrow> patch_lookup ps c f | Some v \<Rightarrow> Some v)"
  using assms
  by (induction ls arbitrary: ps) (auto simp: add_leaf_patch_wf add_leaf_patch_lookup split: option.split)

definition patches_of :: "journal_page \<Rightarrow> net_patches" where
  "patches_of p =
     (case content p of
        NetPatches ps \<Rightarrow> ps
      | ThrallHashesWithNetPatches hs ps \<Rightarrow> ps
      | _ \<Rightarrow> [])"

definition patch_page :: "journal_page \<Rightarrow> bool" where
  "patch_page p \<longleftrightarrow>
     page_level p \<noteq> 0 \<and>
     (case content p of
        NetPatches ps \<Rightarrow> True | ThrallHashesWithNetPatches hs ps \<Rightarrow> True | _ \<Rightarrow> False)"

lemma merge_net_patches_page:
  "patch_page p \<Longrightarrow>
     \<exists>q. merge_net_patches p tm t = Inr q \<and> patches_of q = merge_patch_maps tm (patches_of p)"
  by (auto simp: patch_page_def merge_net_patches_def patches_of_def split: page_content.splits)

text \<open>
  C26: the parent's net patches are the last writes of the leaves. When a page of leaves is
  merged into a parent page that keeps net patches, a field of a container gets the value
  the last leaf (in page order) wrote to it, keeps its value where no leaf wrote it, and the
  patches stay maps with distinct keys.
\<close>

theorem leaf_rollup_is_last_write:
  assumes "content child = Leaves ls" and "\<forall>leaf\<in>set ls. payload_ok leaf"
    and "patch_page p" and "patches_wf (patches_of p)"
  shows "\<exists>q. merge_child_patches p child = Inr q \<and> patches_wf (patches_of q) \<and>
    (\<forall>c f. patch_lookup (patches_of q) c f =
      (case last_write c f ls of None \<Rightarrow> patch_lookup (patches_of p) c f | Some v \<Rightarrow> Some v))"
proof -
  note F = fold_leaf_patches[OF assms(2) patches_wf_Nil, folded leaf_patches_def]
  show ?thesis
  proof (cases "leaf_patches ls = []")
    case True
    then have "last_write c f ls = None" for c f
      using F(2)[of c f] by (cases "last_write c f ls") simp_all
    with True assms show ?thesis by (simp add: merge_child_patches_def)
  next
    case False
    obtain q where q: "merge_net_patches p (leaf_patches ls) (end_time child) = Inr q"
      "patches_of q = merge_patch_maps (leaf_patches ls) (patches_of p)"
      using merge_net_patches_page[OF assms(3)] by blast
    have "patch_lookup (patches_of q) c f =
      (case last_write c f ls of None \<Rightarrow> patch_lookup (patches_of p) c f | Some v \<Rightarrow> Some v)" for c f
      using F(2)[of c f] by (simp add: q(2) patch_lookup_merge[OF F(1)] split: option.split)
    with q False assms show ?thesis
      by (simp add: merge_child_patches_def patches_wf_merge)
  qed
qed

definition sample_parent :: journal_page where
  "sample_parent = new_with_id sample_hashing default_config 1 1 None 0"

theorem leaf_rollup_is_last_write_witness:
  "\<exists>q. merge_child_patches sample_parent closed_leaf_page = Inr q \<and>
     patch_lookup (patches_of q) ''c'' ''f'' = Some (JBool True)"
proof -
  have c: "content closed_leaf_page = Leaves [sample_leaf 0 5]" by (simp add: closed_leaf_page_def)
  have l: "\<forall>leaf\<in>set [sample_leaf 0 5]. payload_ok leaf" by (simp add: payload_ok_def sample_leaf_def)
  have p: "patch_page sample_parent" "patches_of sample_parent = []"
    by (simp_all add: patch_page_def patches_of_def sample_parent_def initial_content_def
        level_at_def default_config_defs)
  then have w: "patches_wf (patches_of sample_parent)" by simp
  have "last_write ''c'' ''f'' [sample_leaf 0 5] = Some (JBool True)"
    by (simp add: written_def sample_leaf_def)
  with leaf_rollup_is_last_write[OF c l p(1) w] show ?thesis by (metis option.case(2))
qed

section \<open>Where content is lost or replaced\<close>

lemma mem_store_denied:
  "fail_on_store_for s = Some (page_level p, None) \<Longrightarrow> mem_store_page s p = (Inl StorageError, s)"
  by (simp add: mem_store_page_def Let_def)

lemma mem_store_allowed:
  "fail_on_store_for s = None \<Longrightarrow>
     mem_store_page s p = (Inr (), s\<lparr>mem_pages := AList.update (page_level p, page_id p) p (mem_pages s)\<rparr>)"
  by (simp add: mem_store_page_def)

text \<open>
  A failed store loses the active page. When the active L0 page has leaves and cannot
  take the next leaf, it is removed from the active pages before it is stored; if the store
  fails, \<open>add_leaf\<close> reports the storage error, and the page is neither active nor stored.
\<close>

theorem failed_store_drops_active_page:
  assumes "active_pages m 0 = Some p" and "page_level p = 0" and "\<not> is_content_empty p"
    and "get_page_window cfg 0 (leaf_timestamp leaf) = Inr w"
    and "end_time p \<le> leaf_timestamp leaf"
    and "fail_on_store_for (storage m) = Some (0, None)"
  shows "add_leaf X memory_backend cfg leaf now m =
    (Inl StorageError, m\<lparr>active_pages := (active_pages m)(0 := None)\<rparr>)"
proof -
  have s: "mem_store_page (storage m) (recalculate X p) = (Inl StorageError, storage m)"
    by (rule mem_store_denied) (simp add: assms(2,6))
  have "finalize_and_rollup_page X memory_backend cfg p (leaf_timestamp leaf) (set_active 0 None m) =
      (Inl StorageError, set_active 0 None m)"
    using assms(3) by (simp add: finalize_and_rollup_page_def store_in_def set_active_def s Let_def)
  then have "get_or_create_active_page_for_leaf X memory_backend cfg leaf m =
      (Inl StorageError, set_active 0 None m)"
    using assms by (cases w) (simp add: get_or_create_active_page_for_leaf_def)
  then show ?thesis by (simp add: add_leaf_def set_active_def)
qed

lemma sample_window:
  "get_page_window default_config 0 86400000000007 = Inr (86400000000000, 172800000000000)"
  by (simp add: get_page_window_def level_at_def default_config_defs nanos_def as_i64_def Let_def
      window_start_def timestamp_nanos_def in_i64_def trunc_div_def)

theorem failed_store_drops_active_page_witness:
  "add_leaf sample_hashing memory_backend default_config (sample_leaf 1 86400000000007) 9
     ((manager_new (set_fail_on_store mem_new 0 None))\<lparr>active_pages := [0 \<mapsto> closed_leaf_page]\<rparr>) =
   (Inl StorageError, manager_new (set_fail_on_store mem_new 0 None))"
proof -
  let ?m = "(manager_new (set_fail_on_store mem_new 0 None))\<lparr>active_pages := [0 \<mapsto> closed_leaf_page]\<rparr>"
  have w: "get_page_window default_config 0 (leaf_timestamp (sample_leaf 1 86400000000007)) =
      Inr (86400000000000, 172800000000000)"
    using sample_window by (simp add: sample_leaf_def)
  have e: "end_time closed_leaf_page \<le> leaf_timestamp (sample_leaf 1 86400000000007)"
    by (simp add: closed_leaf_page_def sample_leaf_def page_end_time_def level_at_def
        default_config_defs nanos_def as_i64_def)
  have "add_leaf sample_hashing memory_backend default_config (sample_leaf 1 86400000000007) 9 ?m =
      (Inl StorageError, ?m\<lparr>active_pages := (active_pages ?m)(0 := None)\<rparr>)"
    by (rule failed_store_drops_active_page[OF _ _ _ w e])
      (simp_all add: closed_leaf_page_def is_content_empty_def set_fail_on_store_def manager_new_def)
  then show ?thesis by (simp add: manager_new_def)
qed

lemma store_in_active: "store_in B p m = (r, m') \<Longrightarrow> active_pages m' = active_pages m"
  by (auto simp: store_in_def split: prod.splits)

text \<open>
  The age limit zero closes a parent page at once. On level 0 \<open>max_page_age_seconds = 0\<close>
  switches the age limit off; on a parent level the same setting makes every rollup into a
  page that has content finalise that page in the same step, so the level never keeps an
  active page, whether the store succeeds or not.
\<close>

theorem age_zero_closes_parent:
  assumes "max_page_age_seconds (rollup_config pc) = 0"
    and "creation_timestamp parent \<le> ts" and "\<not> is_content_empty parent"
    and "settle_parent B pl pc parent ts m = (r, m')"
  shows "leaf_max_age pc = None \<and> get_active_page m' pl = None \<and>
    (\<forall>h. r = Inr h \<longrightarrow> h = Some (page_hash parent))"
proof -
  have old: "as_i64 (int 0) \<le> trunc_div (ts - creation_timestamp parent) 1000000000"
    using assms(2) by (simp add: as_i64_def trunc_div_nonneg)
  obtain r1 m1 where store: "store_in B parent (set_active pl None m) = (r1, m1)" by force
  have "active_pages m1 pl = None"
    using store_in_active[OF store] by (simp add: set_active_def)
  with store assms(4) show ?thesis
    using assms(1,3) old
    by (cases r1) (auto simp: settle_parent_def Let_def leaf_max_age_def get_active_page_def track_finalized_def)
qed

theorem age_zero_closes_parent_witness:
  "\<exists>p m'. add_thrall_hash sample_parent (page_hash closed_leaf_page) 7 = Inr p \<and>
     settle_parent memory_backend 1 (default_levels ! 1) p 5 (manager_new mem_new) =
       (Inr (Some (page_hash p)), m') \<and> get_active_page m' 1 = None"
proof -
  obtain p where p: "add_thrall_hash sample_parent (page_hash closed_leaf_page) 7 = Inr p"
    by (auto simp: add_thrall_hash_def sample_parent_def initial_content_def level_at_def default_config_defs)
  have g: "grows sample_parent p" "\<not> is_content_empty p" using add_thrall_hash_grows[OF p] by simp_all
  then have c: "creation_timestamp p \<le> 5" by (simp add: grows_def sample_parent_def)
  have a: "max_page_age_seconds (rollup_config (default_levels ! 1)) = 0" by (simp add: default_config_defs)
  obtain r m' where s: "settle_parent memory_backend 1 (default_levels ! 1) p 5 (manager_new mem_new) = (r, m')"
    by force
  from age_zero_closes_parent[OF a c g(2) s] p s show ?thesis
    by (cases r) (auto simp: settle_parent_def Let_def store_in_def mem_store_allowed manager_new_def
        mem_new_def set_active_def as_i64_def trunc_div_def split: if_splits)
qed

lemma add_thrall_to_hashes:
  "page_level p \<noteq> 0 \<Longrightarrow> content p = ThrallHashes hs \<Longrightarrow>
     \<exists>q. add_thrall_hash p h t = Inr q \<and> content q = ThrallHashes (hs @ [h]) \<and>
       page_level q = page_level p \<and> page_id q = page_id p \<and>
       creation_timestamp q = creation_timestamp p"
  by (auto simp: add_thrall_hash_def)

lemma settle_age_zero:
  assumes "max_page_age_seconds (rollup_config pc) = 0" and "creation_timestamp q \<le> ts"
    and "\<not> is_content_empty q" and "page_level q = pl" and "fail_on_store_for (storage m) = None"
  shows "settle_parent memory_backend pl pc q ts m =
    (Inr (Some (page_hash q)),
     track_finalized pl q (m\<lparr>active_pages := (active_pages m)(pl := None),
       storage := (storage m)\<lparr>mem_pages := AList.update (pl, page_id q) q (mem_pages (storage m))\<rparr>\<rparr>))"
proof -
  have "as_i64 (int 0) \<le> trunc_div (ts - creation_timestamp q) 1000000000"
    using assms(2) by (simp add: as_i64_def trunc_div_nonneg)
  with assms show ?thesis
    by (simp add: settle_parent_def Let_def store_in_def mem_store_allowed set_active_def)
qed

text \<open>
  A finalised parent page is taken up again and overwritten. When the last finalised
  page of a parent level covers the window of the trigger and has room, the next rollup
  appends to that stored page and stores the result under the same id, so the page whose
  hash the level above may already hold is no longer stored under its id.
\<close>

theorem finalized_parent_is_overwritten:
  assumes "active_pages m pl = None" and "last_finalized_page_ids m pl = Some (page_id old)"
    and "mem_load_page (storage m) pl (page_id old) = Inr (Some old)"
    and "page_level old = pl" and "0 < pl" and "content old = ThrallHashes hs"
    and "level_at cfg pl = Some pc" and "content_type (rollup_config pc) = ChildHashes"
    and "max_page_age_seconds (rollup_config pc) = 0"
    and "get_page_window cfg pl ts = Inr (creation_timestamp old, w)"
    and "creation_timestamp old \<le> ts"
    and "end_time old = creation_timestamp old + nanos (int (duration_seconds pc))"
    and "content_len old < max_items_per_page (rollup_config pc)"
    and "page_level child < length (levels cfg)" and "fail_on_store_for (storage m) = None"
  shows "\<exists>q m'. attach_child_step X memory_backend cfg pl pc child ts m = (Inr (Some (page_hash q)), m') \<and>
    mem_load_page (storage m') pl (page_id old) = Inr (Some q) \<and>
    thrall_hashes q = hs @ [page_hash child] \<and> q \<noteq> old"
proof -
  have parent: "get_or_create_active_parent_page X memory_backend cfg pl ts m = (Inr old, m)"
    using assms by (simp add: get_or_create_active_parent_page_def Let_def)
  obtain q where q: "add_thrall_hash old (page_hash child) (end_time child) = Inr q"
    and Q: "content q = ThrallHashes (hs @ [page_hash child])" "page_level q = pl" "page_id q = page_id old"
      "creation_timestamp q = creation_timestamp old"
    using add_thrall_to_hashes[of old hs "page_hash child" "end_time child"] assms(4-6) by auto
  let ?q = "recalculate X q"
  have "\<not> is_content_empty ?q" by (simp add: is_content_empty_def Q)
  then have s: "settle_parent memory_backend pl pc ?q ts m =
      (Inr (Some (page_hash ?q)),
       track_finalized pl ?q (m\<lparr>active_pages := (active_pages m)(pl := None),
         storage := (storage m)\<lparr>mem_pages := AList.update (pl, page_id ?q) ?q (mem_pages (storage m))\<rparr>\<rparr>))"
    by (intro settle_age_zero) (simp_all add: Q assms(9,11,15))
  have "attach_child_step X memory_backend cfg pl pc child ts m = settle_parent memory_backend pl pc ?q ts m"
    using assms(14) by (simp add: attach_child_step_def parent add_child_content_def assms(8) q)
  moreover have "?q \<noteq> old"
  proof
    assume "?q = old"
    then have "content ?q = content old" by simp
    with assms(6) Q(1) show False by simp
  qed
  moreover have "thrall_hashes ?q = hs @ [page_hash child]" by (simp add: thrall_hashes_def Q)
  ultimately show ?thesis
    using s Q(3) by (intro exI[of _ ?q]) (simp add: mem_load_page_def track_finalized_def)
qed

definition hash_config :: config where
  "hash_config = default_config
     \<lparr>levels := [default_levels ! 0,
        (default_levels ! 1)\<lparr>rollup_config := default_rollup_config\<lparr>content_type := ChildHashes\<rparr>\<rparr>]\<rparr>"

definition finalized_parent :: journal_page where
  "finalized_parent = recalculate sample_hashing
     ((new_with_id sample_hashing hash_config 3 1 None 0)\<lparr>content := ThrallHashes [zero_hash]\<rparr>)"

definition parent_manager :: "memory_storage manager" where
  "parent_manager = (manager_new (mem_new\<lparr>mem_pages := [((1, 3), finalized_parent)]\<rparr>))
     \<lparr>page_id_gen := 4, last_finalized_page_ids := [1 \<mapsto> 3]\<rparr>"

lemma hash_level1:
  "level_at hash_config 1 =
     Some ((default_levels ! 1)\<lparr>rollup_config := default_rollup_config\<lparr>content_type := ChildHashes\<rparr>\<rparr>)"
  by (simp add: level_at_def hash_config_def)

lemma hash_window: "get_page_window hash_config 1 5 = Inr (0, 604800000000000)"
  by (simp add: get_page_window_def hash_level1[simplified] default_config_defs nanos_def as_i64_def Let_def
      window_start_def timestamp_nanos_def in_i64_def trunc_div_def)

theorem finalized_parent_is_overwritten_witness:
  "\<exists>q m'. attach_child_step sample_hashing memory_backend hash_config 1
       (levels hash_config ! 1) closed_leaf_page 5 parent_manager = (Inr (Some (page_hash q)), m') \<and>
     mem_load_page (storage m') 1 3 = Inr (Some q) \<and>
     thrall_hashes q = [zero_hash, page_hash closed_leaf_page]"
proof -
  have l: "level_at hash_config 1 = Some (levels hash_config ! 1)"
    by (simp add: level_at_def hash_config_def)
  have w: "get_page_window hash_config 1 5 = Inr (creation_timestamp finalized_parent, 604800000000000)"
    by (simp add: hash_window[simplified] finalized_parent_def)
  have i: "page_id finalized_parent = 3" by (simp add: finalized_parent_def)
  have "\<exists>q m'. attach_child_step sample_hashing memory_backend hash_config 1
       (levels hash_config ! 1) closed_leaf_page 5 parent_manager = (Inr (Some (page_hash q)), m') \<and>
     mem_load_page (storage m') 1 (page_id finalized_parent) = Inr (Some q) \<and>
     thrall_hashes q = [zero_hash] @ [page_hash closed_leaf_page] \<and> q \<noteq> finalized_parent"
    by (rule finalized_parent_is_overwritten[OF _ _ _ _ _ _ l _ _ w])
      (simp_all add: parent_manager_def manager_new_def mem_new_def mem_load_page_def
        finalized_parent_def page_end_time_def hash_level1[simplified] nanos_def as_i64_def
        content_len_def closed_leaf_page_def,
       simp_all add: hash_config_def default_config_defs)
  then show ?thesis unfolding i by auto
qed

lemma settle_effect:
  assumes "settle_parent memory_backend pl pc q ts m = (r, m')"
    and "\<not> is_content_empty q" and "page_level q = pl"
  shows "(get_active_page m' pl = None \<or> get_active_page m' pl = Some q) \<and>
    (\<forall>i. i \<noteq> page_id q \<longrightarrow> mem_load_page (storage m') pl i = mem_load_page (storage m) pl i)"
proof -
  obtain r1 s1 where store: "mem_store_page (storage m) q = (r1, s1)" by force
  have "i \<noteq> page_id q \<Longrightarrow> mem_load_page s1 pl i = mem_load_page (storage m) pl i" for i
    using store by (auto simp: mem_store_page_def Let_def mem_load_page_def split: if_splits)
  with assms store show ?thesis
    by (cases r1) (auto simp: settle_parent_def Let_def store_in_def set_active_def track_finalized_def
        get_active_page_def split: if_splits)
qed

text \<open>
  A trigger that lies before the active parent page replaces that page. When a page is
  rolled up with a trigger time before the creation time of the active parent page and the
  level has no finalised page yet, a new parent page takes its place: the former active page
  is neither active afterwards nor stored, and the child hashes it held are gone.
\<close>

theorem early_trigger_replaces_parent:
  assumes "active_pages m pl = Some p" and "ts < creation_timestamp p" and "0 < pl"
    and "page_id p < page_id_gen m" and "last_finalized_page_ids m pl = None"
    and "level_at cfg pl = Some pc" and "content_type (rollup_config pc) = ChildHashes"
    and "get_page_window cfg pl ts = Inr w" and "page_level child < length (levels cfg)"
    and "attach_child_step X memory_backend cfg pl pc child ts m = (r, m')"
  shows "get_active_page m' pl \<noteq> Some p \<and>
    mem_load_page (storage m') pl (page_id p) = mem_load_page (storage m) pl (page_id p)"
proof -
  let ?n = "new_with_id X cfg (page_id_gen m) pl (last_finalized_page_hashes m pl) (fst w)"
  obtain m1 where parent: "get_or_create_active_parent_page X memory_backend cfg pl ts m = (Inr ?n, m1)"
    and s1: "storage m1 = storage m"
    using assms by (cases w) (simp add: get_or_create_active_parent_page_def Let_def create_page_def
        id_next_def fetch_add64_def)
  have "content ?n = ThrallHashes []" using assms(3,6,7) by (simp add: initial_content_def)
  then obtain q where q: "add_thrall_hash ?n (page_hash child) (end_time child) = Inr q"
    and Q: "content q = ThrallHashes [page_hash child]" "page_level q = pl" "page_id q = page_id_gen m"
    using add_thrall_to_hashes[of ?n "[]" "page_hash child" "end_time child"] assms(3) by auto
  have "settle_parent memory_backend pl pc (recalculate X q) ts m1 = (r, m')"
    using assms(9,10) by (simp add: attach_child_step_def parent add_child_content_def assms(7) q)
  from settle_effect[OF this] assms(4) Q s1 show ?thesis
    by (auto simp: is_content_empty_def)
qed

definition ahead_manager :: "memory_storage manager" where
  "ahead_manager = (manager_new mem_new)\<lparr>page_id_gen := 4,
     active_pages := [1 \<mapsto> finalized_parent\<lparr>creation_timestamp := 604800000000000\<rparr>]\<rparr>"

theorem early_trigger_replaces_parent_witness:
  "\<exists>r m'. attach_child_step sample_hashing memory_backend hash_config 1
       (levels hash_config ! 1) closed_leaf_page 5 ahead_manager = (r, m') \<and>
     get_active_page m' 1 \<noteq> Some (finalized_parent\<lparr>creation_timestamp := 604800000000000\<rparr>) \<and>
     mem_load_page (storage m') 1 3 = Inr None"
proof -
  let ?p = "finalized_parent\<lparr>creation_timestamp := 604800000000000\<rparr>"
  obtain r m' where a: "attach_child_step sample_hashing memory_backend hash_config 1
      (levels hash_config ! 1) closed_leaf_page 5 ahead_manager = (r, m')" by force
  have l: "level_at hash_config 1 = Some (levels hash_config ! 1)"
    by (simp add: level_at_def hash_config_def)
  have i: "page_id ?p = 3" by (simp add: finalized_parent_def)
  have "get_active_page m' 1 \<noteq> Some ?p \<and>
      mem_load_page (storage m') 1 (page_id ?p) = mem_load_page (storage ahead_manager) 1 (page_id ?p)"
    by (rule early_trigger_replaces_parent[OF _ _ _ _ _ l _ hash_window _ a])
      (simp_all add: ahead_manager_def manager_new_def i closed_leaf_page_def,
       simp_all add: hash_config_def default_config_defs)
  with a i show ?thesis
    by (simp add: ahead_manager_def manager_new_def mem_new_def mem_load_page_def)
qed

end
