(* ===== verification/Retention.thy ===== *)
theory Retention
  imports Time_Manager "HOL-Library.Multiset"
begin

text \<open>
  \<open>apply_retention_policies\<close> of \<open>src/core/time_manager.rs\<close>: the effective policy of a level
  (its own or the global one), deletion by age and by count. A page that cannot be deleted
  and a level that cannot be listed are skipped.

  \<open>slice::sort_unstable_by_key\<close> promises a permutation sorted by the key and nothing about
  equal keys; it is the parameter \<open>U\<close>, with that promise as the hypothesis \<open>unstable_ok\<close>.
  The clock reading is the argument \<open>now\<close>.
\<close>

section \<open>Definitions\<close>

definition effective_policy :: "config \<Rightarrow> time_level \<Rightarrow> rollup_retention_policy" where
  "effective_policy cfg lc =
     (let default_global_policy =
        (if retention_enabled (retention_cfg cfg)
         then DeleteAfterSecs (period_seconds (retention_cfg cfg)) else KeepIndefinitely)
      in case retention_policy lc of Some p \<Rightarrow> p | None \<Rightarrow> default_global_policy)"

text \<open>Deletion of a list of pages; an error is logged and the loop goes on.\<close>

definition delete_pages :: "'s storage_backend \<Rightarrow> nat \<Rightarrow> page_summary list \<Rightarrow> 's \<Rightarrow> 's" where
  "delete_pages B l xs s = fold (\<lambda>x s. snd (delete_page B s l (sum_page_id x))) xs s"

definition too_old :: "timestamp \<Rightarrow> nat \<Rightarrow> timestamp \<Rightarrow> bool" where
  "too_old now secs en \<longleftrightarrow> \<not> now < en \<and> nanos (as_i64 (int secs)) < now - en"

definition apply_level_policy ::
  "(page_summary list \<Rightarrow> page_summary list) \<Rightarrow> 's storage_backend \<Rightarrow> timestamp \<Rightarrow> nat \<Rightarrow>
    rollup_retention_policy \<Rightarrow> 's \<Rightarrow> 's" where
  "apply_level_policy U B now l policy s =
     (case policy of
        DeleteAfterSecs secs \<Rightarrow>
          if secs = 0 then s
          else (case list_finalized_pages_summary B s l of
                  Inl e \<Rightarrow> s
                | Inr sums \<Rightarrow> delete_pages B l (filter (\<lambda>x. too_old now secs (sum_end_time x)) sums) s)
      | KeepNPages n \<Rightarrow>
          if n = 0 then
            (case list_finalized_pages_summary B s l of
               Inl e \<Rightarrow> s
             | Inr sums \<Rightarrow> delete_pages B l sums s)
          else
            (case list_finalized_pages_summary B s l of
               Inl e \<Rightarrow> s
             | Inr sums \<Rightarrow>
                 if length sums \<le> n then s
                 else delete_pages B l (take (length sums - n) (U sums)) s)
      | KeepIndefinitely \<Rightarrow> s)"

definition apply_retention_policies ::
  "(page_summary list \<Rightarrow> page_summary list) \<Rightarrow> 's storage_backend \<Rightarrow> config \<Rightarrow> timestamp \<Rightarrow>
    's manager \<Rightarrow> (cj_error + unit) \<times> 's manager" where
  "apply_retention_policies U B cfg now m =
     (Inr (), m\<lparr>storage :=
        fold (\<lambda>(l, lc). apply_level_policy U B now (l mod 256) (effective_policy cfg lc))
          (List.enumerate 0 (levels cfg)) (storage m)\<rparr>)"

section \<open>The policies as relations on the page map\<close>

definition unstable_ok :: "(page_summary list \<Rightarrow> page_summary list) \<Rightarrow> bool" where
  "unstable_ok U \<longleftrightarrow> (\<forall>xs. mset (U xs) = mset xs \<and> sorted (map sum_end_time (U xs)))"

text \<open>\<open>kept V V' l P\<close>: at level \<open>l\<close> exactly the pages that satisfy \<open>P\<close> remain.\<close>

definition kept :: "page_map \<Rightarrow> page_map \<Rightarrow> nat \<Rightarrow> (journal_page \<Rightarrow> bool) \<Rightarrow> bool" where
  "kept V V' l P \<longleftrightarrow> (\<forall>i. V' (l, i) = (case V (l, i) of None \<Rightarrow> None | Some p \<Rightarrow> if P p then Some p else None))"

fun policy_result :: "timestamp \<Rightarrow> rollup_retention_policy \<Rightarrow> page_map \<Rightarrow> page_map \<Rightarrow> nat \<Rightarrow> bool" where
  "policy_result now KeepIndefinitely V V' l = (\<forall>i. V' (l, i) = V (l, i))"
| "policy_result now (DeleteAfterSecs secs) V V' l =
     kept V V' l (\<lambda>p. secs = 0 \<or> \<not> too_old now secs (end_time p))"
| "policy_result now (KeepNPages n) V V' l =
     (\<exists>P. kept V V' l P \<and> card (pages_at V' l) = min n (card (pages_at V l)) \<and>
        (\<forall>p\<in>pages_at V l. \<forall>q\<in>pages_at V l. P p \<longrightarrow> \<not> P q \<longrightarrow> end_time q \<le> end_time p))"

lemma summary_of_simps [simp]:
  "sum_page_id (summary_of p) = page_id p"
  "sum_end_time (summary_of p) = end_time p"
  by (simp_all add: summary_of_def)

lemma pages_at_kept: "kept V V' l P \<Longrightarrow> pages_at V' l = {p \<in> pages_at V l. P p}"
  by (auto simp: kept_def pages_at_def split: option.splits if_splits)

lemma keyed_inj: "keyed V \<Longrightarrow> inj_on page_id (pages_at V l)"
  by (auto simp: keyed_def pages_at_def inj_on_def)

lemma policy_result_cong:
  assumes "\<forall>i. V (l, i) = W (l, i)" and "\<forall>i. V' (l, i) = W' (l, i)"
  shows "policy_result now P V V' l = policy_result now P W W' l"
  using assms by (cases P) (simp_all add: kept_def pages_at_def)

lemma sorted_take_drop_le:
  assumes "sorted (map f xs)" and "x \<in> set (take k xs)" and "y \<in> set (drop k xs)"
  shows "f x \<le> f y"
proof -
  have "sorted (map f (take k xs) @ map f (drop k xs))"
    using assms(1) by (simp flip: map_append)
  with assms(2,3) show ?thesis by (auto simp: sorted_append)
qed

context reliable_storage
begin

lemma delete_pages_result:
  assumes "good s" and "reliable s"
  shows "good (delete_pages B l xs s) \<and> reliable (delete_pages B l xs s) \<and>
    pages (delete_pages B l xs s) =
      (\<lambda>(k, i). if k = l \<and> i \<in> sum_page_id ` set xs then None else pages s (k, i))"
  using assms
proof (induction xs arbitrary: s)
  case Nil
  then show ?case by (auto simp: delete_pages_def)
next
  case (Cons x xs)
  obtain s' where s': "delete_page B s l (sum_page_id x) = (Inr (), s')" "good s'" "reliable s'"
    "pages s' = (pages s)((l, sum_page_id x) := None)"
    by (rule delete_total_pages[OF Cons.prems])
  then have "delete_pages B l (x # xs) s = delete_pages B l xs s'" by (simp add: delete_pages_def)
  with Cons.IH[OF s'(2,3)] s'(4) show ?case by (auto simp: fun_eq_iff)
qed

lemma delete_selected:
  assumes "good s" and "reliable s" and "list_finalized_pages_summary B s l = Inr ss"
    and "set xs = summary_of ` {p \<in> pages_at (pages s) l. \<not> P p}"
  shows "kept (pages s) (pages (delete_pages B l xs s)) l P"
proof -
  have k: "keyed (pages s)" by (rule keyed_pages[OF assms(1)])
  have "i \<in> sum_page_id ` set xs \<longleftrightarrow> \<not> P p" if p: "pages s (l, i) = Some p" for i p
  proof
    assume "i \<in> sum_page_id ` set xs"
    then obtain q where q: "q \<in> pages_at (pages s) l" "\<not> P q" "page_id q = i"
      using assms(4) by auto
    with k p have "q = p" by (auto simp: keyed_def pages_at_def)
    with q show "\<not> P p" by simp
  next
    assume n: "\<not> P p"
    have "page_id p = i" using k p by (auto simp: keyed_def)
    with p n show "i \<in> sum_page_id ` set xs" unfolding assms(4) pages_at_def by force
  qed
  with delete_pages_result[OF assms(1,2), of l xs] show ?thesis
    by (auto simp: kept_def split: option.split)
qed

lemma summary_inj: "good s \<Longrightarrow> inj_on summary_of (pages_at (pages s) l)"
proof (rule inj_onI)
  fix p q assume g: "good s"
    and pq: "p \<in> pages_at (pages s) l" "q \<in> pages_at (pages s) l" "summary_of p = summary_of q"
  from arg_cong[OF pq(3), of sum_page_id] have "page_id p = page_id q" by simp
  with pq keyed_inj[OF keyed_pages[OF g]] show "p = q" by (auto dest: inj_onD)
qed

lemma list_spec:
  assumes "good s"
  obtains ss where "list_finalized_pages_summary B s l = Inr ss" and "distinct (map sum_page_id ss)"
    and "set ss = summary_of ` pages_at (pages s) l" and "length ss = card (pages_at (pages s) l)"
proof -
  obtain ss where ss: "list_finalized_pages_summary B s l = Inr ss"
    "distinct (map sum_page_id ss)" "set ss = summary_of ` pages_at (pages s) l"
    using list_ok[OF assms] by blast
  from summary_inj[OF assms] have "length ss = card (pages_at (pages s) l)"
    using ss(2,3) distinct_card[of ss] by (simp add: card_image distinct_map)
  with ss show ?thesis by (rule that)
qed

lemma keep_newest:
  assumes "good s" and "reliable s" and "unstable_ok U" and "0 < n"
    and "list_finalized_pages_summary B s l = Inr ss" and "distinct (map sum_page_id ss)"
    and "set ss = summary_of ` pages_at (pages s) l" and "n < length ss"
  shows "policy_result now (KeepNPages n) (pages s)
    (pages (delete_pages B l (take (length ss - n) (U ss)) s)) l"
proof -
  let ?k = "length ss - n" and ?A = "pages_at (pages s) l"
  let ?xs = "take ?k (U ss)"
  let ?P = "\<lambda>p. summary_of p \<notin> set ?xs"
  have m: "mset (U ss) = mset ss" and srt: "sorted (map sum_end_time (U ss))"
    using assms(3) by (auto simp: unstable_ok_def)
  have U: "set (U ss) = set ss" "length (U ss) = length ss" "distinct (U ss)"
    using m assms(6) by (auto dest: mset_eq_setD mset_eq_length simp: distinct_map)
      (metis distinct_map mset_eq_imp_distinct_iff)
  have sub: "set ?xs \<subseteq> summary_of ` ?A" using set_take_subset[of ?k "U ss"] U(1) assms(7) by simp
  have inj: "inj_on summary_of ?A" by (rule summary_inj[OF assms(1)])
  have sel: "set ?xs = summary_of ` {p \<in> ?A. \<not> ?P p}" using sub by auto
  have K: "kept (pages s) (pages (delete_pages B l ?xs s)) l ?P"
    by (rule delete_selected[OF assms(1,2,5) sel])
  have fin: "finite ?A" using assms(7) inj by (metis List.finite_set finite_image_iff)
  have "card (summary_of ` {p \<in> ?A. \<not> ?P p}) = card {p \<in> ?A. \<not> ?P p}"
    by (rule card_image, rule inj_on_subset[OF inj]) auto
  then have "card {p \<in> ?A. \<not> ?P p} = card (set ?xs)" by (simp only: sel[symmetric])
  also have "\<dots> = ?k" using U distinct_card[of ?xs] by (simp add: distinct_take)
  finally have c1: "card {p \<in> ?A. \<not> ?P p} = ?k" .
  have c2: "card ?A = length ss"
    using card_image[OF inj] assms(6,7) distinct_card[of ss] by (simp add: distinct_map)
  have "?A = {p \<in> ?A. ?P p} \<union> {p \<in> ?A. \<not> ?P p}" by auto
  then have "card ?A = card {p \<in> ?A. ?P p} + card {p \<in> ?A. \<not> ?P p}"
    using fin by (subst card_Un_disjoint[symmetric]) auto
  then have c: "card {p \<in> ?A. ?P p} = min n (card ?A)" using c1 c2 assms(8) by simp
  have "end_time q \<le> end_time p" if "p \<in> ?A" "?P p" "\<not> ?P q" for p q
  proof -
    have "summary_of p \<in> set (U ss)" using that(1) U(1) assms(7) by auto
    with that(2) have "summary_of p \<in> set (drop ?k (U ss))"
      by (metis Un_iff append_take_drop_id set_append)
    with sorted_take_drop_le[OF srt, of "summary_of q" ?k "summary_of p"] that(3) show ?thesis by simp
  qed
  with K c show ?thesis
    by (auto simp: pages_at_kept[OF K] intro!: exI[of _ ?P])
qed

lemma level_policy_result:
  assumes "good s" and "reliable s" and "unstable_ok U"
  shows "good (apply_level_policy U B now l policy s) \<and> reliable (apply_level_policy U B now l policy s) \<and>
    policy_result now policy (pages s) (pages (apply_level_policy U B now l policy s)) l \<and>
    (\<forall>k i. k \<noteq> l \<longrightarrow> pages (apply_level_policy U B now l policy s) (k, i) = pages s (k, i))"
proof -
  obtain ss where ss: "list_finalized_pages_summary B s l = Inr ss" "distinct (map sum_page_id ss)"
    "set ss = summary_of ` pages_at (pages s) l" "length ss = card (pages_at (pages s) l)"
    by (rule list_spec[OF assms(1)])
  have all: "kept (pages s) (pages s) l (\<lambda>p. True)" by (auto simp: kept_def split: option.split)
  note D = delete_pages_result[OF assms(1,2), of l]
  show ?thesis
  proof (cases policy)
    case KeepIndefinitely
    then show ?thesis using assms by (simp add: apply_level_policy_def)
  next
    case (DeleteAfterSecs secs)
    let ?xs = "filter (\<lambda>x. too_old now secs (sum_end_time x)) ss"
    have "set ?xs = summary_of ` {p \<in> pages_at (pages s) l. \<not> \<not> too_old now secs (end_time p)}"
      by (auto simp: ss(3))
    from delete_selected[OF assms(1,2) ss(1) this] DeleteAfterSecs all D[of ?xs] assms ss(1)
    show ?thesis by (simp add: apply_level_policy_def)
  next
    case (KeepNPages n)
    consider "n = 0" | "0 < n" "length ss \<le> n" | "0 < n" "n < length ss" by linarith
    then show ?thesis
    proof cases
      case 1
      have "set ss = summary_of ` {p \<in> pages_at (pages s) l. \<not> False}" using ss(3) by simp
      from delete_selected[OF assms(1,2) ss(1) this] have
        K: "kept (pages s) (pages (delete_pages B l ss s)) l (\<lambda>p. False)" .
      then have "policy_result now (KeepNPages 0) (pages s) (pages (delete_pages B l ss s)) l"
        by (auto simp: pages_at_kept[OF K] intro!: exI[of _ "\<lambda>p. False"])
      with 1 KeepNPages D[of ss] ss(1) show ?thesis by (simp add: apply_level_policy_def)
    next
      case 2
      then have "policy_result now (KeepNPages n) (pages s) (pages s) l"
        using all ss(4) by (auto intro!: exI[of _ "\<lambda>p. True"])
      with 2 KeepNPages assms ss(1) show ?thesis by (simp add: apply_level_policy_def)
    next
      case 3
      from keep_newest[OF assms 3(1) ss(1-3) 3(2)] 3 KeepNPages D ss(1)
      show ?thesis by (simp add: apply_level_policy_def)
    qed
  qed
qed

lemma levels_result:
  assumes "good s" and "reliable s" and "unstable_ok U" and "n + length lcs \<le> 256"
    and "s' = fold (\<lambda>(l, lc). apply_level_policy U B now (l mod 256) (pol lc)) (List.enumerate n lcs) s"
  shows "good s' \<and> reliable s' \<and>
    (\<forall>j<length lcs. policy_result now (pol (lcs ! j)) (pages s) (pages s') (n + j)) \<and>
    (\<forall>k i. k < n \<or> n + length lcs \<le> k \<longrightarrow> pages s' (k, i) = pages s (k, i))"
  using assms
proof (induction lcs arbitrary: n s)
  case (Cons lc lcs)
  let ?s = "apply_level_policy U B now n (pol lc) s"
  have n: "n mod 256 = n" using Cons.prems(4) by simp
  note L = level_policy_result[OF Cons.prems(1-3), of now n "pol lc"]
  have rest: "s' = fold (\<lambda>(l, lc). apply_level_policy U B now (l mod 256) (pol lc))
      (List.enumerate (Suc n) lcs) ?s"
    using Cons.prems(5) by (simp add: n)
  have IH: "good s' \<and> reliable s' \<and>
    (\<forall>j<length lcs. policy_result now (pol (lcs ! j)) (pages ?s) (pages s') (Suc n + j)) \<and>
    (\<forall>k i. k < Suc n \<or> Suc n + length lcs \<le> k \<longrightarrow> pages s' (k, i) = pages ?s (k, i))"
    by (rule Cons.IH[OF _ _ Cons.prems(3) _ rest]) (use L Cons.prems(4) in auto)
  have "policy_result now (pol ((lc # lcs) ! j)) (pages s) (pages s') (n + j)" if "j < Suc (length lcs)" for j
  proof (cases j)
    case 0
    have "policy_result now (pol lc) (pages s) (pages ?s) n" using L by simp
    moreover have "\<forall>x. pages ?s (n, x) = pages s' (n, x)" using IH by simp
    ultimately show ?thesis
      using 0 policy_result_cong[of "pages s" n "pages s" "pages ?s" "pages s'" now "pol lc"] by simp
  next
    case (Suc i)
    with that IH have "policy_result now (pol (lcs ! i)) (pages ?s) (pages s') (Suc n + i)" by simp
    moreover have "\<forall>x. pages ?s (Suc n + i, x) = pages s (Suc n + i, x)" using L by simp
    ultimately show ?thesis using Suc policy_result_cong[of "pages ?s" "Suc n + i" "pages s" "pages s'" "pages s'"]
      by simp
  qed
  with IH L show ?case by auto
qed (simp)

lemma retention_result:
  assumes "good (storage m)" and "reliable (storage m)" and "unstable_ok U"
    and "length (levels cfg) \<le> 256"
    and "apply_retention_policies U B cfg now m = (r, m')"
  shows "r = Inr () \<and> m' = m\<lparr>storage := storage m'\<rparr> \<and> good (storage m') \<and> reliable (storage m') \<and>
    (\<forall>l<length (levels cfg). policy_result now (effective_policy cfg (levels cfg ! l))
       (pages (storage m)) (pages (storage m')) l) \<and>
    (\<forall>l i. length (levels cfg) \<le> l \<longrightarrow> pages (storage m') (l, i) = pages (storage m) (l, i))"
proof -
  have m': "m' = m\<lparr>storage := storage m'\<rparr>" and r: "r = Inr ()"
    using assms(5) by (auto simp: apply_retention_policies_def)
  have s': "storage m' = fold (\<lambda>(l, lc). apply_level_policy U B now (l mod 256) (effective_policy cfg lc))
      (List.enumerate 0 (levels cfg)) (storage m)"
    using assms(5) by (auto simp: apply_retention_policies_def)
  from levels_result[OF assms(1-3) _ s'] assms(4) m' r show ?thesis by simp
qed

end

text \<open>
  C24: retention does what the policies say. On the memory backend every call succeeds and
  changes nothing but the storage; on every configured level the pages left are those the
  effective policy keeps (all; those not older than the limit; the \<open>n\<close> pages with the latest
  end times), and pages of levels that are not configured stay.
\<close>

theorem retention_keeps_what_policies_say:
  assumes "mem_good (storage m)" and "mem_reliable (storage m)" and "unstable_ok U"
    and "length (levels cfg) \<le> 256"
    and "apply_retention_policies U memory_backend cfg now m = (r, m')"
  shows "r = Inr () \<and> m' = m\<lparr>storage := storage m'\<rparr> \<and>
    (\<forall>l<length (levels cfg). policy_result now (effective_policy cfg (levels cfg ! l))
       (mem_view (storage m)) (mem_view (storage m')) l) \<and>
    (\<forall>l i. length (levels cfg) \<le> l \<longrightarrow>
       mem_load_page (storage m') l i = mem_load_page (storage m) l i)"
  using mem.retention_result[OF assms] by (simp add: mem_load_page_def mem_view_def)

definition keep_one_config :: config where
  "keep_one_config = default_config\<lparr>levels := [(default_levels ! 0)\<lparr>retention_policy := Some (KeepNPages 1)\<rparr>]\<rparr>"

definition two_pages_manager :: "memory_storage manager" where
  "two_pages_manager = manager_new (mem_new\<lparr>mem_pages :=
     [((0, 0), new_with_id sample_hashing default_config 0 0 None 0),
      ((0, 1), new_with_id sample_hashing default_config 1 0 None 86400000000000)]\<rparr>)"

lemma sort_key_unstable_ok: "unstable_ok (sort_key sum_end_time)"
  by (simp add: unstable_ok_def)

lemma two_pages_good: "mem_good (storage two_pages_manager)" "mem_reliable (storage two_pages_manager)"
  by (auto simp: two_pages_manager_def manager_new_def mem_new_def mem_good_def mem_reliable_def
      mem_view_def keyed_def)

theorem retention_keeps_what_policies_say_witness:
  "\<exists>m'. apply_retention_policies (sort_key sum_end_time) memory_backend keep_one_config 0
       two_pages_manager = (Inr (), m') \<and>
     policy_result 0 (KeepNPages 1) (mem_view (storage two_pages_manager)) (mem_view (storage m')) 0"
proof -
  obtain r m' where r: "apply_retention_policies (sort_key sum_end_time) memory_backend
      keep_one_config 0 two_pages_manager = (r, m')" by force
  have n: "length (levels keep_one_config) \<le> 256" "0 < length (levels keep_one_config)"
    "effective_policy keep_one_config (levels keep_one_config ! 0) = KeepNPages 1"
    by (simp_all add: keep_one_config_def effective_policy_def)
  from retention_keeps_what_policies_say[OF two_pages_good sort_key_unstable_ok n(1) r] n r
  show ?thesis by auto
qed

lemma policy_result_again:
  assumes "policy_result now P V V' l" and "policy_result now P V' V'' l" and "finite (pages_at V' l)"
    and "keyed V'"
  shows "V'' (l, i) = V' (l, i)"
proof (cases P)
  case KeepIndefinitely
  with assms(2) show ?thesis by simp
next
  case (DeleteAfterSecs secs)
  with assms(1,2) show ?thesis by (auto simp: kept_def split: option.splits if_splits)
next
  case (KeepNPages n)
  with assms(1) have c: "card (pages_at V' l) = min n (card (pages_at V l))" by auto
  from KeepNPages assms(2) obtain Q where Q: "kept V' V'' l Q"
    "card (pages_at V'' l) = min n (card (pages_at V' l))" by auto
  with c have "card {p \<in> pages_at V' l. Q p} = card (pages_at V' l)"
    by (simp add: pages_at_kept[OF Q(1)])
  then have "{p \<in> pages_at V' l. Q p} = pages_at V' l"
    using assms(3) by (intro card_subset_eq) auto
  then have "V' (l, i) = Some p \<Longrightarrow> Q p" for p by (auto simp: pages_at_def)
  with Q(1) show ?thesis by (auto simp: kept_def split: option.splits)
qed

text \<open>
  Retention is idempotent. Applying the policies a second time at the same clock
  reading deletes nothing more, whatever the order in which equal end times are sorted.
\<close>

theorem retention_idempotent:
  assumes "mem_good (storage m)" and "mem_reliable (storage m)" and "unstable_ok U"
    and "length (levels cfg) \<le> 256"
    and "apply_retention_policies U memory_backend cfg now m = (r, m')"
    and "apply_retention_policies U memory_backend cfg now m' = (r', m'')"
  shows "mem_load_page (storage m'') l i = mem_load_page (storage m') l i"
proof -
  note R = mem.retention_result[OF assms(1-5)]
  then have g: "mem_good (storage m')" "mem_reliable (storage m')" by auto
  note R' = mem.retention_result[OF g assms(3,4,6)]
  have "pages_at (mem_view (storage m')) l \<subseteq> ran (mem_view (storage m'))"
    by (auto simp: pages_at_def ran_def)
  then have "finite (pages_at (mem_view (storage m')) l)"
    using mem.finite_pages[OF g(1)] finite_ran finite_subset by blast
  moreover have "keyed (mem_view (storage m'))" by (rule mem.keyed_pages[OF g(1)])
  ultimately have "mem_view (storage m'') (l, i) = mem_view (storage m') (l, i)"
    using R R' policy_result_again by (cases "l < length (levels cfg)") auto
  then show ?thesis by (simp add: mem_load_page_def mem_view_def)
qed

theorem retention_idempotent_witness:
  "\<exists>m' m''. apply_retention_policies (sort_key sum_end_time) memory_backend keep_one_config 0
       two_pages_manager = (Inr (), m') \<and>
     apply_retention_policies (sort_key sum_end_time) memory_backend keep_one_config 0 m' = (Inr (), m'') \<and>
     mem_load_page (storage m'') 0 1 = mem_load_page (storage m') 0 1"
proof -
  obtain m' where a: "apply_retention_policies (sort_key sum_end_time) memory_backend keep_one_config 0
      two_pages_manager = (Inr (), m')" by (simp add: apply_retention_policies_def)
  obtain m'' where b: "apply_retention_policies (sort_key sum_end_time) memory_backend keep_one_config 0 m' =
      (Inr (), m'')" by (simp add: apply_retention_policies_def)
  have n: "length (levels keep_one_config) \<le> 256" by (simp add: keep_one_config_def)
  from retention_idempotent[OF two_pages_good sort_key_unstable_ok n a b] a b show ?thesis by blast
qed

end
