(* ===== verification/Query.thy ===== *)
theory Query
  imports Journal_Log
begin

text \<open>
  The query engine (\<open>src/query/engine.rs\<close>, \<open>src/query/types.rs\<close>): inclusion proofs,
  state reconstruction, delta reports with and without pagination, and the integrity
  report over a chain of pages.

  The engine holds a storage backend and a time hierarchy manager. \<open>Journal::new\<close> gives
  both the same storage, so the engine's operations take the backend \<open>B\<close> and the manager
  \<open>m\<close> and read \<open>storage m\<close>. Queries change no state.
\<close>

section \<open>Types\<close>

datatype query_error =
    CoreError cj_error
  | QueryPageNotFound nat nat
  | LeafNotFound hash
  | ContainerNotFound string
  | IntegrityError
  | InvalidParameters
  | NotImplemented
  | LeafDataNotFound hash

datatype query_point =
    AtTimestamp timestamp
  | AtPage nat nat
  | AtLeafHash hash

record leaf_inclusion_proof =
  ip_leaf :: journal_leaf
  ip_page_id :: nat
  ip_level :: nat
  ip_proof :: merkle_proof
  ip_page_merkle_root :: hash

record page_integrity_report =
  pr_page_id :: nat
  pr_level :: nat
  pr_is_valid :: bool
  pr_issues :: "string list"

record reconstructed_state =
  rs_container_id :: string
  rs_at_point :: query_point
  rs_state_data :: json

record delta_report =
  dr_container_id :: string
  dr_from_point :: query_point
  dr_to_point :: query_point
  dr_deltas :: "journal_leaf list"

text \<open>The question mark on a \<open>CJError\<close>, which \<open>From\<close> wraps.\<close>

definition core :: "(cj_error + 'a) \<Rightarrow> query_error + 'a" where
  "core r = (case r of Inl e \<Rightarrow> Inl (CoreError e) | Inr x \<Rightarrow> Inr x)"

lemma core_simps [simp]: "core (Inl e) = Inl (CoreError e)" "core (Inr x) = Inr x"
  by (simp_all add: core_def)

section \<open>Inclusion proofs\<close>

text \<open>\<open>Iterator::position\<close>.\<close>

fun position :: "('a \<Rightarrow> bool) \<Rightarrow> 'a list \<Rightarrow> nat option" where
  "position P [] = None"
| "position P (x # xs) = (if P x then Some 0 else map_option Suc (position P xs))"

text \<open>The page of the hint: \<open>None\<close> means that the search goes on.\<close>

definition hint_proof ::
  "externals \<Rightarrow> 's storage_backend \<Rightarrow> 's manager \<Rightarrow> hash \<Rightarrow> (nat \<times> nat) option \<Rightarrow>
    query_error + leaf_inclusion_proof option" where
  "hint_proof X B m h page_id_hint =
     (case page_id_hint of
        None \<Rightarrow> Inr None
      | Some (hint_level, hint_page) \<Rightarrow>
          (case load_page B (storage m) hint_level hint_page of
             Inr (Some page) \<Rightarrow>
               (case content page of
                  Leaves leaves \<Rightarrow>
                    (case position (\<lambda>l. leaf_hash l = h) leaves of
                       Some idx \<Rightarrow>
                         try_pure (core (merkle_new (sha256 X) (map leaf_hash leaves))) (\<lambda>tree.
                           case get_proof tree idx of
                             Some p \<Rightarrow> Inr (Some
                               \<lparr>ip_leaf = leaves ! idx, ip_page_id = page_id page,
                                ip_level = page_level page, ip_proof = p,
                                ip_page_merkle_root = page_merkle_root page\<rparr>)
                           | None \<Rightarrow> Inr None)
                     | None \<Rightarrow> Inr None)
                | _ \<Rightarrow> Inr None)
           | _ \<Rightarrow> Inr None))"

text \<open>The hashes of a page's items, and whether the leaf is one of its leaves.\<close>

fun page_item_hashes :: "page_content \<Rightarrow> hash list" where
  "page_item_hashes (Leaves leaves) = map leaf_hash leaves"
| "page_item_hashes (ThrallHashes hs) = hs"
| "page_item_hashes (ThrallHashesWithNetPatches hs ps) = hs"
| "page_item_hashes (NetPatches ps) = []"
| "page_item_hashes (Snapshot sp) = []"

fun found_leaf :: "hash \<Rightarrow> page_content \<Rightarrow> bool" where
  "found_leaf h (Leaves leaves) \<longleftrightarrow> (\<exists>l\<in>set leaves. leaf_hash l = h)"
| "found_leaf h _ \<longleftrightarrow> False"

fun scan_for_leaf ::
  "externals \<Rightarrow> 's storage_backend \<Rightarrow> 's manager \<Rightarrow> hash \<Rightarrow> nat list \<Rightarrow>
    query_error + leaf_inclusion_proof" where
  "scan_for_leaf X B m h [] = Inl (LeafNotFound h)"
| "scan_for_leaf X B m h (i # is) =
     (case load_page B (storage m) 0 i of
        Inr (Some page) \<Rightarrow>
          if found_leaf h (content page) then
            (case position (\<lambda>x. x = h) (page_item_hashes (content page)) of
               None \<Rightarrow> Inl (CoreError Panicked)
             | Some leaf_idx \<Rightarrow>
                 try_pure (core (merkle_new (sha256 X) (page_item_hashes (content page)))) (\<lambda>tree.
                   case get_proof tree leaf_idx of
                     Some p \<Rightarrow>
                       try_pure (core (load_leaf_by_hash B (storage m) h)) (\<lambda>actual_leaf.
                         case actual_leaf of
                           None \<Rightarrow> Inl (LeafDataNotFound h)
                         | Some journal_leaf \<Rightarrow> Inr
                             \<lparr>ip_leaf = journal_leaf, ip_page_id = page_id page,
                              ip_level = page_level page, ip_proof = p,
                              ip_page_merkle_root = page_merkle_root page\<rparr>)
                   | None \<Rightarrow> scan_for_leaf X B m h is))
          else scan_for_leaf X B m h is
      | _ \<Rightarrow> scan_for_leaf X B m h is)"

definition get_leaf_inclusion_proof_with_hint ::
  "externals \<Rightarrow> 's storage_backend \<Rightarrow> 's manager \<Rightarrow> hash \<Rightarrow> (nat \<times> nat) option \<Rightarrow>
    query_error + leaf_inclusion_proof" where
  "get_leaf_inclusion_proof_with_hint X B m h page_id_hint =
     try_pure (hint_proof X B m h page_id_hint) (\<lambda>hinted.
       case hinted of
         Some r \<Rightarrow> Inr r
       | None \<Rightarrow>
           let active = (case get_current_active_page_id m 0 of None \<Rightarrow> [] | Some i \<Rightarrow> [i])
           in try_pure (core (list_finalized_pages_summary B (storage m) 0)) (\<lambda>finalized.
                scan_for_leaf X B m h (remdups_adj (sort (active @ map sum_page_id finalized)))))"

definition get_leaf_inclusion_proof ::
  "externals \<Rightarrow> 's storage_backend \<Rightarrow> 's manager \<Rightarrow> hash \<Rightarrow> query_error + leaf_inclusion_proof" where
  "get_leaf_inclusion_proof X B m h = get_leaf_inclusion_proof_with_hint X B m h None"

section \<open>State reconstruction\<close>

function apply_delta :: "json \<Rightarrow> json \<Rightarrow> json"
  and apply_fields :: "(string \<times> json) list \<Rightarrow> (string \<times> json) list \<Rightarrow> (string \<times> json) list" where
  "apply_delta state delta =
     (case (state, delta) of
        (JObject b, JObject p) \<Rightarrow> JObject (apply_fields b p)
      | _ \<Rightarrow> delta)"
| "apply_fields b [] = b"
| "apply_fields b ((k, v) # p) =
     apply_fields
       (case map_of b k of
          Some existing \<Rightarrow> btree_insert k (apply_delta existing v) b
        | None \<Rightarrow> btree_insert k v b) p"
  by pat_completeness auto
termination
  by (relation "measure (\<lambda>x. case x of Inl (s, d) \<Rightarrow> 2 * size d
      | Inr (b, p) \<Rightarrow> 2 * size_list (size_prod (\<lambda>_. 0) size) p + 1)") simp_all

declare apply_delta.simps [simp del]

text \<open>The leaves of a page the loop reaches before the first later one.\<close>

definition up_to :: "timestamp \<Rightarrow> journal_leaf list \<Rightarrow> journal_leaf list" where
  "up_to t leaves = takeWhile (\<lambda>l. \<not> t < leaf_timestamp l) leaves"

definition summaries_with_stored_active ::
  "'s storage_backend \<Rightarrow> 's manager \<Rightarrow> cj_error + page_summary list" where
  "summaries_with_stored_active B m =
     try_pure (list_finalized_pages_summary B (storage m) 0) (\<lambda>pages.
       Inr (pages @
         (case get_current_active_page_id m 0 of
            None \<Rightarrow> []
          | Some i \<Rightarrow> (case load_page B (storage m) 0 i of Inr (Some p) \<Rightarrow> [summary_of p] | _ \<Rightarrow> []))))"

definition state_deltas :: "'s storage_backend \<Rightarrow> 's manager \<Rightarrow> string \<Rightarrow> timestamp \<Rightarrow>
    page_summary \<Rightarrow> json list" where
  "state_deltas B m c at summary =
     (case load_page B (storage m) (sum_level summary) (sum_page_id summary) of
        Inr (Some page) \<Rightarrow>
          (case content page of
             Leaves leaves \<Rightarrow> map delta_payload (filter (\<lambda>l. container_id l = c) (up_to at leaves))
           | _ \<Rightarrow> [])
      | _ \<Rightarrow> [])"

definition reconstruct_container_state ::
  "'s storage_backend \<Rightarrow> 's manager \<Rightarrow> string \<Rightarrow> timestamp \<Rightarrow> query_error + reconstructed_state" where
  "reconstruct_container_state B m c at_timestamp =
     try_pure (core (summaries_with_stored_active B m)) (\<lambda>pages.
       let pages = takeWhile (\<lambda>x. \<not> at_timestamp < sum_creation_timestamp x)
                     (sort_key sum_creation_timestamp pages);
           deltas = concat (map (state_deltas B m c at_timestamp) pages)
       in if deltas = [] then Inl (ContainerNotFound c)
          else Inr \<lparr>rs_container_id = c, rs_at_point = AtTimestamp at_timestamp,
                    rs_state_data = foldl apply_delta JNull deltas\<rparr>)"

section \<open>Delta reports\<close>

definition summaries_with_active ::
  "'s storage_backend \<Rightarrow> 's manager \<Rightarrow> nat \<Rightarrow> cj_error + page_summary list" where
  "summaries_with_active B m l =
     try_pure (list_finalized_pages_summary B (storage m) l) (\<lambda>pages.
       Inr (pages @ (case get_active_page m l of None \<Rightarrow> [] | Some a \<Rightarrow> [summary_of a])))"

definition page_or_active ::
  "'s storage_backend \<Rightarrow> 's manager \<Rightarrow> page_summary \<Rightarrow> journal_page option" where
  "page_or_active B m summary =
     (case load_page B (storage m) (sum_level summary) (sum_page_id summary) of
        Inr (Some page) \<Rightarrow> Some page
      | Inr None \<Rightarrow>
          (case get_active_page m 0 of
             Some active \<Rightarrow>
               if page_id active = sum_page_id summary \<and> page_level active = sum_level summary
               then Some active else None
           | None \<Rightarrow> None)
      | Inl e \<Rightarrow> None)"

definition outside_range :: "timestamp \<Rightarrow> timestamp \<Rightarrow> page_summary \<Rightarrow> bool" where
  "outside_range from to summary \<longleftrightarrow>
     sum_end_time summary < from \<or> to < sum_creation_timestamp summary"

text \<open>The matching leaves of one page: \<open>continue\<close> before \<open>from\<close>, \<open>break\<close> after \<open>to\<close>.\<close>

fun matching_leaves :: "string \<Rightarrow> timestamp \<Rightarrow> timestamp \<Rightarrow> journal_leaf list \<Rightarrow> journal_leaf list" where
  "matching_leaves c from to [] = []"
| "matching_leaves c from to (l # ls) =
     (if leaf_timestamp l < from then matching_leaves c from to ls
      else if to < leaf_timestamp l then []
      else if container_id l = c then l # matching_leaves c from to ls
      else matching_leaves c from to ls)"

fun collect_deltas ::
  "'s storage_backend \<Rightarrow> 's manager \<Rightarrow> string \<Rightarrow> timestamp \<Rightarrow> timestamp \<Rightarrow> page_summary list \<Rightarrow>
    journal_leaf list" where
  "collect_deltas B m c from to [] = []"
| "collect_deltas B m c from to (summary # rest) =
     (if outside_range from to summary then collect_deltas B m c from to rest
      else (case page_or_active B m summary of
              None \<Rightarrow> []
            | Some page \<Rightarrow> matching_leaves c from to (leaves_of page)) @
           collect_deltas B m c from to rest)"

definition report :: "string \<Rightarrow> timestamp \<Rightarrow> timestamp \<Rightarrow> journal_leaf list \<Rightarrow> delta_report" where
  "report c from to deltas =
     \<lparr>dr_container_id = c, dr_from_point = AtTimestamp from, dr_to_point = AtTimestamp to,
      dr_deltas = deltas\<rparr>"

definition get_delta_report ::
  "'s storage_backend \<Rightarrow> 's manager \<Rightarrow> string \<Rightarrow> timestamp \<Rightarrow> timestamp \<Rightarrow> query_error + delta_report" where
  "get_delta_report B m c from to =
     (if to < from then Inl InvalidParameters
      else try_pure (core (summaries_with_active B m 0)) (\<lambda>pages.
        let deltas = collect_deltas B m c from to (sort_key sum_creation_timestamp pages)
        in if deltas = [] then Inl (ContainerNotFound c)
           else Inr (report c from to (sort_key leaf_timestamp deltas))))"

text \<open>
  The paginated loops, with the local variables \<open>(deltas, seen_any, skipped)\<close> as the state.
\<close>

type_synonym page_state = "journal_leaf list \<times> bool \<times> nat"

fun paginate_leaves ::
  "string \<Rightarrow> timestamp \<Rightarrow> timestamp \<Rightarrow> nat \<Rightarrow> nat \<Rightarrow> journal_leaf list \<Rightarrow> page_state \<Rightarrow> page_state" where
  "paginate_leaves c from to offset limit [] st = st"
| "paginate_leaves c from to offset limit (l # ls) (deltas, seen_any, skipped) =
     (if leaf_timestamp l < from then paginate_leaves c from to offset limit ls (deltas, seen_any, skipped)
      else if to < leaf_timestamp l then (deltas, seen_any, skipped)
      else if container_id l = c then
        (if skipped < offset then
           paginate_leaves c from to offset limit ls (deltas, True, skipped + 1)
         else if length deltas < limit then
           (let deltas = deltas @ [l]
            in if length deltas = limit then (deltas, True, skipped)
               else paginate_leaves c from to offset limit ls (deltas, True, skipped))
         else paginate_leaves c from to offset limit ls (deltas, True, skipped))
      else paginate_leaves c from to offset limit ls (deltas, seen_any, skipped))"

fun paginate_pages ::
  "'s storage_backend \<Rightarrow> 's manager \<Rightarrow> string \<Rightarrow> timestamp \<Rightarrow> timestamp \<Rightarrow> nat \<Rightarrow> nat \<Rightarrow>
    page_summary list \<Rightarrow> page_state \<Rightarrow> page_state" where
  "paginate_pages B m c from to offset limit [] st = st"
| "paginate_pages B m c from to offset limit (summary # rest) st =
     (if outside_range from to summary then paginate_pages B m c from to offset limit rest st
      else
        let st = (case page_or_active B m summary of
                    None \<Rightarrow> st
                  | Some page \<Rightarrow> paginate_leaves c from to offset limit (leaves_of page) st)
        in if length (fst st) = limit then st
           else paginate_pages B m c from to offset limit rest st)"

definition get_delta_report_paginated ::
  "'s storage_backend \<Rightarrow> 's manager \<Rightarrow> string \<Rightarrow> timestamp \<Rightarrow> timestamp \<Rightarrow> nat \<Rightarrow> nat \<Rightarrow>
    query_error + delta_report" where
  "get_delta_report_paginated B m c from to offset limit =
     (if to < from then Inl InvalidParameters
      else if limit = 0 then Inr (report c from to [])
      else try_pure (core (summaries_with_active B m 0)) (\<lambda>pages.
        case paginate_pages B m c from to offset limit (sort_key sum_creation_timestamp pages)
               ([], False, 0) of
          (deltas, seen_any, _) \<Rightarrow>
            if \<not> seen_any then Inl (ContainerNotFound c)
            else Inr (report c from to (sort_key leaf_timestamp deltas))))"

section \<open>Chain integrity\<close>

definition in_id_range :: "nat option \<Rightarrow> nat option \<Rightarrow> nat \<Rightarrow> bool" where
  "in_id_range from to i \<longleftrightarrow>
     (case from of None \<Rightarrow> True | Some f \<Rightarrow> \<not> i < f) \<and> (case to of None \<Rightarrow> True | Some t \<Rightarrow> \<not> t < i)"

definition page_issues :: "externals \<Rightarrow> hash option \<Rightarrow> journal_page \<Rightarrow> string list" where
  "page_issues X prev_hash page =
     (let page' = recalculate X page in
      (if page_merkle_root page' \<noteq> page_merkle_root page then [''merkle_root mismatch''] else []) @
      (if page_hash page' \<noteq> page_hash page then [''page_hash mismatch''] else []) @
      (case prev_hash of
         None \<Rightarrow> []
       | Some prev \<Rightarrow> if prev_page_hash page \<noteq> Some prev then [''prev_page_hash mismatch''] else []))"

fun integrity_loop ::
  "externals \<Rightarrow> 's storage_backend \<Rightarrow> 's manager \<Rightarrow> nat \<Rightarrow> hash option \<Rightarrow> nat list \<Rightarrow>
    query_error + page_integrity_report list" where
  "integrity_loop X B m l prev_hash [] = Inr []"
| "integrity_loop X B m l prev_hash (i # is) =
     (case load_page B (storage m) l i of
        Inl e \<Rightarrow> Inl (CoreError e)
      | Inr (Some page) \<Rightarrow>
          let issues = page_issues X prev_hash page
          in try_pure (integrity_loop X B m l (Some (page_hash page)) is) (\<lambda>rs.
               Inr (\<lparr>pr_page_id = i, pr_level = l, pr_is_valid = (issues = []), pr_issues = issues\<rparr> # rs))
      | Inr None \<Rightarrow>
          (case get_active_page_by_id m l i of
             Some page \<Rightarrow>
               try_pure (integrity_loop X B m l (Some (page_hash page)) is) (\<lambda>rs.
                 Inr (\<lparr>pr_page_id = i, pr_level = l, pr_is_valid = True, pr_issues = []\<rparr> # rs))
           | None \<Rightarrow>
               try_pure (integrity_loop X B m l None is) (\<lambda>rs.
                 Inr (\<lparr>pr_page_id = i, pr_level = l, pr_is_valid = False,
                       pr_issues = [''page missing'']\<rparr> # rs))))"

definition get_page_chain_integrity ::
  "externals \<Rightarrow> 's storage_backend \<Rightarrow> 's manager \<Rightarrow> nat \<Rightarrow> nat option \<Rightarrow> nat option \<Rightarrow>
    query_error + page_integrity_report list" where
  "get_page_chain_integrity X B m l from to =
     (if (case (from, to) of (Some f, Some t) \<Rightarrow> t < f | _ \<Rightarrow> False) then Inl InvalidParameters
      else try_pure (core (summaries_with_active B m l)) (\<lambda>pages.
        integrity_loop X B m l None
          (filter (in_id_range from to) (map sum_page_id (sort_key sum_page_id pages)))))"

end
