(* ===== verification/Query_Properties.thy ===== *)
theory Query_Properties
  imports Query Manager_Properties
begin

text \<open>
  The properties of the query engine on journals that \<open>add_leaves\<close> builds: which leaves
  inclusion proofs, delta reports and reconstructed states cover, and what the integrity
  report accepts and detects.
\<close>

section \<open>The pages a query visits\<close>

text \<open>The pages of the base level in log order: the stored ones, then the active one.\<close>

definition log_pages :: "'s manager \<Rightarrow> journal_page list \<Rightarrow> journal_page list" where
  "log_pages m ps = ps @ (case active_pages m 0 of None \<Rightarrow> [] | Some a \<Rightarrow> [a])"

lemma pages_log_pages: "pages_log (log_pages m ps) = pages_log ps @ active_leaves m"
  by (simp add: log_pages_def active_leaves_def pages_log_def split: option.split)

lemma aligned_order:
  assumes "aligned cfg p" and "aligned cfg q" and "in_window p t" and "in_window q u" and "t \<le> u"
  shows "creation_timestamp p \<le> creation_timestamp q"
proof (rule ccontr)
  let ?g = "nanos (int (duration_seconds (levels cfg ! 0)))"
  assume "\<not> creation_timestamp p \<le> creation_timestamp q"
  then have less: "creation_timestamp q < creation_timestamp p" by simp
  obtain a b where ab: "creation_timestamp p = ?g * a" "creation_timestamp q = ?g * b"
    using assms(1,2) unfolding aligned_def Let_def dvd_def by blast
  have e: "end_time q = ?g * b + ?g" using assms(2) ab by (simp add: aligned_def Let_def)
  then have g: "0 < ?g" using assms(4) ab by (simp add: in_window_def)
  with less ab have "b + 1 \<le> a" by simp
  with g have "?g * (b + 1) \<le> ?g * a" by (simp add: mult_left_mono)
  then have "end_time q \<le> creation_timestamp p" using e ab by (simp add: algebra_simps)
  with assms(3-5) show False by (simp add: in_window_def)
qed

lemma creation_sorted:
  assumes "\<forall>p\<in>set qs. leaf_page_ok cfg p" and "sorted (map leaf_timestamp (pages_log qs))"
  shows "sorted (map creation_timestamp qs)"
  using assms
proof (induction qs)
  case (Cons p qs)
  have srt: "sorted (map leaf_timestamp (leaves_of p @ pages_log qs))"
    using Cons.prems(2) by (simp add: pages_log_def)
  have "creation_timestamp p \<le> creation_timestamp q" if q: "q \<in> set qs" for q
  proof -
    obtain x y where xy: "x \<in> set (leaves_of p)" "y \<in> set (leaves_of q)"
      using Cons.prems(1) q by (fastforce simp: leaf_page_ok_def neq_Nil_conv)
    then have "y \<in> set (pages_log qs)" using q by (auto simp: pages_log_def)
    with srt xy have "leaf_timestamp x \<le> leaf_timestamp y" by (auto simp: sorted_append)
    with xy q Cons.prems(1) show ?thesis
      by (intro aligned_order[of cfg p q "leaf_timestamp x" "leaf_timestamp y"])
        (simp_all add: leaf_page_ok_def)
  qed
  with Cons srt show ?case by (simp add: sorted_append)
qed simp

section \<open>Delta reports\<close>

definition in_report :: "string \<Rightarrow> timestamp \<Rightarrow> timestamp \<Rightarrow> journal_leaf \<Rightarrow> bool" where
  "in_report c from to l \<longleftrightarrow> container_id l = c \<and> from \<le> leaf_timestamp l \<and> leaf_timestamp l \<le> to"

lemma matching_sorted:
  "sorted (map leaf_timestamp ls) \<Longrightarrow> matching_leaves c from to ls = filter (in_report c from to) ls"
proof (induction ls)
  case (Cons l ls)
  have "filter (in_report c from to) ls = []" if "to < leaf_timestamp l"
    using Cons.prems that by (fastforce simp: filter_empty_conv in_report_def)
  moreover have "in_report c from to l \<longleftrightarrow>
      container_id l = c \<and> \<not> leaf_timestamp l < from \<and> \<not> to < leaf_timestamp l"
    by (auto simp: in_report_def)
  ultimately show ?case using Cons by simp
qed simp

lemma outside_no_match:
  assumes "outside_range from to (summary_of p)" and "\<forall>x\<in>set (leaves_of p). in_window p (leaf_timestamp x)"
  shows "filter (in_report c from to) (leaves_of p) = []"
  using assms by (auto simp: filter_empty_conv in_report_def outside_range_def in_window_def summary_of_def)

lemma summary_fields [simp]:
  "sum_creation_timestamp (summary_of p) = creation_timestamp p"
  "sum_page_id (summary_of p) = page_id p"
  "sum_level (summary_of p) = page_level p"
  "sum_end_time (summary_of p) = end_time p"
  by (simp_all add: summary_of_def)

lemma collect_pages:
  assumes "\<forall>p\<in>set qs. leaf_page_ok cfg p \<and> page_or_active B m (summary_of p) = Some p"
    and "sorted (map leaf_timestamp (pages_log qs))"
  shows "collect_deltas B m c from to (map summary_of qs) = filter (in_report c from to) (pages_log qs)"
  using assms
proof (induction qs)
  case (Cons p qs)
  have srt: "sorted (map leaf_timestamp (leaves_of p))" "sorted (map leaf_timestamp (pages_log qs))"
    using Cons.prems(2) by (auto simp: pages_log_def sorted_append)
  have "outside_range from to (summary_of p) \<Longrightarrow> filter (in_report c from to) (leaves_of p) = []"
    using Cons.prems(1) by (intro outside_no_match) (auto simp: leaf_page_ok_def)
  with Cons srt show ?case by (auto simp: pages_log_def matching_sorted)
qed (simp add: pages_log_def)

context storage_laws
begin

lemma log_pages_ok:
  assumes "log_ok X cfg m ps" and "config_ok cfg"
  shows "\<forall>p\<in>set (log_pages m ps). leaf_page_ok cfg p \<and> page_or_active B m (summary_of p) = Some p"
proof -
  note I = log_invD[OF assms(1)]
  have stored: "page_or_active B m (summary_of p) = Some p" if "p \<in> set ps" for p
  proof -
    have v: "pages (storage m) (0, page_id p) = Some p" using that I(3) by (simp add: l0_inv_def)
    then have "page_level p = 0" using keyed_pages[OF I(1)] by (simp add: keyed_def)
    with v load_ok[OF I(1)] show ?thesis by (simp add: page_or_active_def)
  qed
  have act: "page_or_active B m (summary_of a) = Some a" if a: "active_pages m 0 = Some a" for a
  proof -
    have l: "page_level a = 0" using inv_active[OF I(2) a] by (simp add: page_fits_def)
    have "continues ps a" using I(3) a by (simp add: l0_inv_def)
    then have "pages (storage m) (0, page_id a) = None"
      using I(3) unfolding l0_inv_def continues_def by (metis less_irrefl not_None_eq)
    with l a load_ok[OF I(1)] show ?thesis by (simp add: page_or_active_def get_active_page_def)
  qed
  have "\<forall>p\<in>set ps. leaf_page_ok cfg p" "\<And>a. active_pages m 0 = Some a \<Longrightarrow> leaf_page_ok cfg a"
    using I(3) by (simp_all add: l0_inv_def)
  with stored act show ?thesis by (auto simp: log_pages_def split: option.splits)
qed

lemma report_pages:
  assumes "log_ok X cfg m ps" and "config_ok cfg"
    and "list_finalized_pages_summary B (storage m) 0 = Inr (map summary_of ps)"
    and "sorted (map leaf_timestamp (pages_log ps @ active_leaves m))"
  shows "\<exists>ss. summaries_with_active B m 0 = Inr ss \<and>
    collect_deltas B m c from to (sort_key sum_creation_timestamp ss) =
      filter (in_report c from to) (pages_log ps @ active_leaves m)"
proof -
  let ?qs = "log_pages m ps"
  note Q = log_pages_ok[OF assms(1,2)]
  have srt: "sorted (map leaf_timestamp (pages_log ?qs))" using assms(4) by (simp add: pages_log_pages)
  have "summaries_with_active B m 0 = Inr (map summary_of ?qs)"
    by (simp add: summaries_with_active_def assms(3) get_active_page_def log_pages_def split: option.split)
  moreover have "sorted (map sum_creation_timestamp (map summary_of ?qs))"
    using creation_sorted[of ?qs cfg] Q srt by (simp add: comp_def)
  then have "sort_key sum_creation_timestamp (map summary_of ?qs) = map summary_of ?qs"
    by (rule sort_key_id_if_sorted)
  ultimately show ?thesis
    using collect_pages[OF Q srt] by (simp add: pages_log_pages)
qed

end

text \<open>The memory backend lists the stored pages of the log in log order.\<close>

lemma mem_list_log:
  assumes "mem.log_ok X cfg m ps"
  shows "mem_list_summaries (storage m) 0 = Inr (map summary_of ps)"
proof -
  note I = log_invD[OF assms]
  obtain ss where ss: "mem_list_summaries (storage m) 0 = Inr ss" "distinct (map sum_page_id ss)"
    "set ss = summary_of ` pages_at (mem_view (storage m)) 0"
    using mem.list_ok[OF I(1), unfolded memory_backend_simps] by blast
  have "sorted (map sum_page_id ss)" using ss(1) by (auto simp: mem_list_summaries_def)
  moreover have "pages_at (mem_view (storage m)) 0 = set ps"
    using I(3) by (auto simp: pages_at_def l0_inv_def)
  then have set: "set ss = set (map summary_of ps)" using ss(3) by simp
  moreover have "sorted_wrt (<) (map page_id ps)" using I(3) by (simp add: l0_inv_def)
  then have "sorted (map sum_page_id (map summary_of ps))" "distinct (map sum_page_id (map summary_of ps))"
    by (simp_all add: comp_def strict_sorted_iff)
  moreover have "inj_on sum_page_id (set ss \<union> set (map summary_of ps))"
    using ss(2) set by (simp add: distinct_map)
  ultimately have "ss = map summary_of ps"
    using ss(2) by (intro map_sorted_distinct_set_unique[of sum_page_id])
  with ss(1) show ?thesis by simp
qed

lemma journal_log:
  assumes "config_ok cfg" and "leaves_valid xs"
    and "(4 * length xs + 6) * 2 ^ length (levels cfg) \<le> 2 ^ 64"
    and "add_leaves X memory_backend cfg xs (manager_new mem_new) = (Inr is, m)"
  obtains ps where "mem.log_ok X cfg m ps" and "pages_log ps @ active_leaves m = map fst xs"
proof -
  have L: "mem.log_ok X cfg (manager_new mem_new) []"
    by (rule mem.log_ok_initial) (simp_all add: mem_good_new mem_new_empty)
  have b: "page_id_gen (manager_new mem_new) + (4 * length xs + 6) * 2 ^ length (levels cfg) \<le> 2 ^ 64"
    using assms(3) by simp
  from mem.add_leaves_append[OF L assms(1,2) b assms(4)] that show ?thesis by fastforce
qed

lemma journal_report:
  assumes "config_ok cfg" and "leaves_valid xs"
    and "(4 * length xs + 6) * 2 ^ length (levels cfg) \<le> 2 ^ 64"
    and "add_leaves X memory_backend cfg xs (manager_new mem_new) = (Inr is, m)"
    and "sorted (map (leaf_timestamp \<circ> fst) xs)"
  shows "\<exists>ss. summaries_with_active memory_backend m 0 = Inr ss \<and>
    collect_deltas memory_backend m c from to (sort_key sum_creation_timestamp ss) =
      filter (in_report c from to) (map fst xs)"
proof -
  obtain ps where L: "mem.log_ok X cfg m ps" and log: "pages_log ps @ active_leaves m = map fst xs"
    by (rule journal_log[OF assms(1-4)])
  from mem.report_pages[OF L assms(1), of c "from" to] mem_list_log[OF L] assms(5)
  show ?thesis unfolding log by (simp add: comp_def)
qed

lemma sorted_filter_key: "sorted (map f xs) \<Longrightarrow> sort_key f (filter P xs) = filter P xs"
  by (rule sort_key_id_if_sorted) (rule sorted_filter)

text \<open>
  C13: a delta report is the range of the log it asks for. On the memory backend, after any
  sequence of \<open>add_leaf\<close> calls whose timestamps do not decrease, \<open>get_delta_report\<close> returns exactly the
  leaves added for the container with timestamps in the closed range, in the order they
  were added, whether their page is stored or still active; with none it reports
  \<open>ContainerNotFound\<close>.
\<close>

theorem delta_report_is_log_range:
  assumes "config_ok cfg" and "leaves_valid xs"
    and "(4 * length xs + 6) * 2 ^ length (levels cfg) \<le> 2 ^ 64"
    and "add_leaves X memory_backend cfg xs (manager_new mem_new) = (Inr is, m)"
    and "sorted (map (leaf_timestamp \<circ> fst) xs)" and "from \<le> to"
  shows "get_delta_report memory_backend m c from to =
    (let ds = filter (in_report c from to) (map fst xs)
     in if ds = [] then Inl (ContainerNotFound c) else Inr (report c from to ds))"
  using journal_report[OF assms(1-5), of c "from" to] assms(5,6)
    sorted_filter_key[of leaf_timestamp "map fst xs" "in_report c from to"]
  by (auto simp: get_delta_report_def Let_def)

definition two_leaves :: "(journal_leaf \<times> timestamp) list" where
  "two_leaves = [(sample_leaf 0 5, 6), (sample_leaf 1 86400000000007, 9)]"

lemma two_leaves_run:
  obtains "is" m where "add_leaves sample_hashing memory_backend default_config two_leaves
    (manager_new mem_new) = (Inr is, m)"
proof -
  have r: "mem.ready sample_hashing default_config (manager_new mem_new) []"
    by (rule mem.ready_initial) (simp_all add: mem_good_new mem_new_empty)
  have b: "page_id_gen (manager_new mem_new) + (4 * length two_leaves + 6) * 2 ^ length (levels default_config) \<le> 2 ^ 64"
    by (simp add: default_config_defs two_leaves_def)
  show ?thesis
    using mem.add_leaves_total[OF r default_config_ok _ b] sample_leaves_valid that
    unfolding two_leaves_def by blast
qed

lemma two_leaves_facts:
  "leaves_valid two_leaves" "(4 * length two_leaves + 6) * 2 ^ length (levels default_config) \<le> 2 ^ 64"
  "sorted (map (leaf_timestamp \<circ> fst) two_leaves)"
  "map fst two_leaves = [sample_leaf 0 5, sample_leaf 1 86400000000007]"
  using sample_leaves_valid by (simp_all add: two_leaves_def default_config_defs sample_leaf_def)

theorem delta_report_is_log_range_witness:
  "\<exists>is m. add_leaves sample_hashing memory_backend default_config two_leaves (manager_new mem_new) = (Inr is, m) \<and>
     get_delta_report memory_backend m ''c'' 0 100 = Inr (report ''c'' 0 100 [sample_leaf 0 5])"
proof -
  obtain "is" m where r: "add_leaves sample_hashing memory_backend default_config two_leaves
      (manager_new mem_new) = (Inr is, m)" by (rule two_leaves_run)
  have le: "(0::int) \<le> 100" by simp
  have "filter (in_report ''c'' 0 100) (map fst two_leaves) = [sample_leaf 0 5]"
    by (simp add: two_leaves_facts in_report_def sample_leaf_def)
  with delta_report_is_log_range[OF default_config_ok two_leaves_facts(1,2) r two_leaves_facts(3) le, of "''c''"] r
  show ?thesis by (simp add: Let_def)
qed

section \<open>Pagination\<close>

text \<open>The state of the paginated loops as a function of the matching leaves met so far.\<close>

definition page_state_of :: "nat \<Rightarrow> nat \<Rightarrow> journal_leaf list \<Rightarrow> page_state" where
  "page_state_of offset limit ms = (take limit (drop offset ms), ms \<noteq> [], min offset (length ms))"

definition page_full :: "nat \<Rightarrow> nat \<Rightarrow> journal_leaf list \<Rightarrow> bool" where
  "page_full offset limit ms \<longleftrightarrow> limit \<le> length ms - offset"

lemma page_st_simps:
  "page_state_of offset limit [] = ([], False, 0)"
  "length (fst (page_state_of offset limit ms)) = limit \<longleftrightarrow> page_full offset limit ms"
  by (auto simp: page_state_of_def page_full_def)

text \<open>
  A state \<open>st\<close> that a loop reaches from the matching leaves \<open>ms\<close> by meeting \<open>xs\<close>: it met a prefix
  of them, all of them unless the page filled.
\<close>

definition met :: "nat \<Rightarrow> nat \<Rightarrow> journal_leaf list \<Rightarrow> journal_leaf list \<Rightarrow> page_state \<Rightarrow> bool" where
  "met offset limit ms xs st \<longleftrightarrow>
     (\<exists>k\<le>length xs. st = page_state_of offset limit (ms @ take k xs) \<and>
        (k < length xs \<longrightarrow> page_full offset limit (ms @ take k xs)))"

lemma met_none: "met offset limit ms [] st \<longleftrightarrow> st = page_state_of offset limit ms"
  by (simp add: met_def)

lemma met_append:
  assumes "met offset limit ms xs st"
    and "\<And>k. st = page_state_of offset limit (ms @ take k xs) \<Longrightarrow>
      page_full offset limit (ms @ take k xs) \<Longrightarrow> st' = st"
    and "\<not> page_full offset limit (ms @ xs) \<Longrightarrow> st = page_state_of offset limit (ms @ xs) \<Longrightarrow>
      met offset limit (ms @ xs) ys st'"
  shows "met offset limit ms (xs @ ys) st'"
proof -
  obtain k where k: "k \<le> length xs" "st = page_state_of offset limit (ms @ take k xs)"
    "k < length xs \<longrightarrow> page_full offset limit (ms @ take k xs)"
    using assms(1) by (auto simp: met_def)
  show ?thesis
  proof (cases "page_full offset limit (ms @ take k xs)")
    case True
    with assms(2)[OF k(2)] k(1,2) show ?thesis unfolding met_def by (intro exI[of _ k]) simp
  next
    case False
    with k have "\<not> page_full offset limit (ms @ xs)" "st = page_state_of offset limit (ms @ xs)" by auto
    from assms(3)[OF this] obtain j where "j \<le> length ys"
      "st' = page_state_of offset limit ((ms @ xs) @ take j ys)"
      "j < length ys \<longrightarrow> page_full offset limit ((ms @ xs) @ take j ys)"
      by (auto simp: met_def)
    then show ?thesis unfolding met_def by (intro exI[of _ "length xs + j"]) simp
  qed
qed

lemma paginate_match:
  assumes "\<not> leaf_timestamp l < from" and "\<not> to < leaf_timestamp l" and "container_id l = c"
    and "\<not> page_full offset limit ms"
  shows "paginate_leaves c from to offset limit (l # ls) (page_state_of offset limit ms) =
    (if page_full offset limit (ms @ [l]) then page_state_of offset limit (ms @ [l])
     else paginate_leaves c from to offset limit ls (page_state_of offset limit (ms @ [l])))"
proof (cases "length ms < offset")
  case True
  with assms show ?thesis
    by (cases "offset = Suc (length ms)") (simp_all add: page_state_of_def page_full_def min_def)
next
  case False
  then have d: "drop offset (ms @ [l]) = drop offset ms @ [l]" by simp
  have "length (drop offset ms) < limit" using assms(4) by (simp add: page_full_def)
  moreover from this have "take limit (drop offset ms @ [l]) = drop offset ms @ [l]" by simp
  ultimately show ?thesis using assms(1-3) False
    by (simp add: page_state_of_def page_full_def d min_def Let_def) (auto simp: Suc_diff_le)
qed

lemma paginate_leaves_matching:
  assumes "\<not> page_full offset limit ms"
  shows "met offset limit ms (matching_leaves c from to ls)
    (paginate_leaves c from to offset limit ls (page_state_of offset limit ms))"
  using assms
proof (induction ls arbitrary: ms)
  case (Cons l ls)
  show ?case
  proof (cases "from \<le> leaf_timestamp l \<and> leaf_timestamp l \<le> to \<and> container_id l = c")
    case False
    with Cons show ?thesis by (auto simp: page_state_of_def met_none)
  next
    case True
    then have l: "\<not> leaf_timestamp l < from" "\<not> to < leaf_timestamp l" "container_id l = c" by auto
    have one: "met offset limit ms [l] (page_state_of offset limit (ms @ [l]))"
      unfolding met_def by (rule exI[of _ 1]) simp
    have full: "page_full offset limit (ms @ [l])"
      if "page_state_of offset limit (ms @ [l]) = page_state_of offset limit (ms @ take k [l])"
        "page_full offset limit (ms @ take k [l])" for k
      using that page_st_simps(2) by metis
    have "met offset limit ms ([l] @ matching_leaves c from to ls)
        (paginate_leaves c from to offset limit (l # ls) (page_state_of offset limit ms))"
      by (rule met_append[OF one]) (use paginate_match[OF l Cons.prems] Cons in \<open>auto dest: full\<close>)
    with l show ?thesis by simp
  qed
qed (simp add: met_none)

lemma paginate_pages_collect:
  assumes "\<not> page_full offset limit ms"
  shows "met offset limit ms (collect_deltas B m c from to ss)
    (paginate_pages B m c from to offset limit ss (page_state_of offset limit ms))"
  using assms
proof (induction ss arbitrary: ms)
  case (Cons x ss)
  show ?case
  proof (cases "outside_range from to x")
    case True
    with Cons show ?thesis by simp
  next
    case False
    let ?M = "case page_or_active B m x of None \<Rightarrow> [] | Some p \<Rightarrow> matching_leaves c from to (leaves_of p)"
    let ?st = "case page_or_active B m x of None \<Rightarrow> page_state_of offset limit ms
      | Some p \<Rightarrow> paginate_leaves c from to offset limit (leaves_of p) (page_state_of offset limit ms)"
    have "met offset limit ms ?M ?st"
      using paginate_leaves_matching[OF Cons.prems] by (simp add: met_none split: option.split)
    then have "met offset limit ms (?M @ collect_deltas B m c from to ss)
        (if length (fst ?st) = limit then ?st else paginate_pages B m c from to offset limit ss ?st)"
      by (rule met_append) (simp_all only: page_st_simps(2) if_True if_False Cons.IH simp_thms)
    with False show ?thesis by (simp add: Let_def)
  qed
qed (simp add: met_none)

lemma take_full_prefix:
  assumes "page_full j n (take k xs)"
  shows "take n (drop j (take k xs)) = take n (drop j xs)"
proof -
  have "take n (drop j (take k xs)) = take (min n (k - j)) (drop j xs)" by (simp add: drop_take)
  moreover have "n \<le> k - j" using assms by (simp add: page_full_def)
  ultimately show ?thesis by (simp add: min_def)
qed

lemma paginated_slice:
  assumes "0 < limit"
  shows "\<exists>n. paginate_pages B m c from to offset limit ss ([], False, 0) =
    (take limit (drop offset (collect_deltas B m c from to ss)), collect_deltas B m c from to ss \<noteq> [], n)"
proof -
  let ?D = "collect_deltas B m c from to ss"
  have "\<not> page_full offset limit []" using assms by (simp add: page_full_def)
  from paginate_pages_collect[OF this, of B m c "from" to ss]
  obtain k where k: "k \<le> length ?D"
    "paginate_pages B m c from to offset limit ss ([], False, 0) = page_state_of offset limit (take k ?D)"
    "k < length ?D \<longrightarrow> page_full offset limit (take k ?D)"
    by (auto simp: page_st_simps(1) met_def)
  have "take limit (drop offset (take k ?D)) = take limit (drop offset ?D)"
    using k(1,3) take_full_prefix[of offset limit k ?D] by (cases "k < length ?D") simp_all
  moreover have "take k ?D \<noteq> [] \<longleftrightarrow> ?D \<noteq> []"
    using k(1,3) assms by (cases "k < length ?D") (auto simp: page_full_def)
  ultimately show ?thesis using k(2) by (simp add: page_state_of_def)
qed

text \<open>
  C27: a page of a delta report is the slice of the report. On the memory backend, after any
  sequence of \<open>add_leaf\<close> calls whose timestamps do not decrease, and for a positive limit,
  \<open>get_delta_report_paginated\<close> returns the leaves \<open>offset\<close> to \<open>offset + limit\<close> of what
  \<open>get_delta_report\<close> returns on the same journal, and reports \<open>ContainerNotFound\<close> exactly
  when the full report does, although its loops stop early.
\<close>

theorem paginated_report_is_slice:
  assumes "config_ok cfg" and "leaves_valid xs"
    and "(4 * length xs + 6) * 2 ^ length (levels cfg) \<le> 2 ^ 64"
    and "add_leaves X memory_backend cfg xs (manager_new mem_new) = (Inr is, m)"
    and "sorted (map (leaf_timestamp \<circ> fst) xs)" and "0 < limit"
  shows "get_delta_report_paginated memory_backend m c from to offset limit =
    (case get_delta_report memory_backend m c from to of
       Inl e \<Rightarrow> Inl e
     | Inr r \<Rightarrow> Inr (r\<lparr>dr_deltas := take limit (drop offset (dr_deltas r))\<rparr>))"
proof -
  obtain ss where ss: "summaries_with_active memory_backend m 0 = Inr ss"
    and D: "collect_deltas memory_backend m c from to (sort_key sum_creation_timestamp ss) =
      filter (in_report c from to) (map fst xs)"
    using journal_report[OF assms(1-5)] by blast
  let ?F = "filter (in_report c from to) (map fst xs)"
  obtain n where n: "paginate_pages memory_backend m c from to offset limit
      (sort_key sum_creation_timestamp ss) ([], False, 0) = (take limit (drop offset ?F), ?F \<noteq> [], n)"
    using paginated_slice[OF assms(6), of memory_backend m c "from" to offset "sort_key sum_creation_timestamp ss"]
    by (auto simp: D)
  have srt: "sorted (map leaf_timestamp ?F)" using assms(5) by (simp add: sorted_filter)
  have s1: "sort_key leaf_timestamp ?F = ?F" by (rule sort_key_id_if_sorted[OF srt])
  have s2: "sort_key leaf_timestamp (take limit (drop offset ?F)) = take limit (drop offset ?F)"
    by (rule sort_key_id_if_sorted) (simp only: take_map[symmetric] drop_map[symmetric] sorted_wrt_take sorted_wrt_drop srt)
  show ?thesis
    using assms(6) by (simp add: get_delta_report_paginated_def get_delta_report_def ss D n s1 s2
        Let_def report_def)
qed

theorem paginated_report_is_slice_witness:
  "\<exists>is m. add_leaves sample_hashing memory_backend default_config two_leaves (manager_new mem_new) = (Inr is, m) \<and>
     get_delta_report_paginated memory_backend m ''c'' 0 86400000000007 1 1 =
       Inr (report ''c'' 0 86400000000007 [sample_leaf 1 86400000000007])"
proof -
  obtain "is" m where r: "add_leaves sample_hashing memory_backend default_config two_leaves
      (manager_new mem_new) = (Inr is, m)" by (rule two_leaves_run)
  have le: "(0::nat) < 1" by simp
  have f: "filter (in_report ''c'' 0 86400000000007) (map fst two_leaves) =
      [sample_leaf 0 5, sample_leaf 1 86400000000007]"
    by (simp add: two_leaves_facts in_report_def sample_leaf_def)
  obtain ss where "summaries_with_active memory_backend m 0 = Inr ss"
    "collect_deltas memory_backend m ''c'' 0 86400000000007 (sort_key sum_creation_timestamp ss) =
      [sample_leaf 0 5, sample_leaf 1 86400000000007]"
    using journal_report[OF default_config_ok two_leaves_facts(1,2) r two_leaves_facts(3)] f by metis
  then have "get_delta_report memory_backend m ''c'' 0 86400000000007 =
      Inr (report ''c'' 0 86400000000007 [sample_leaf 0 5, sample_leaf 1 86400000000007])"
    by (simp add: get_delta_report_def sample_leaf_def)
  with paginated_report_is_slice[OF default_config_ok two_leaves_facts(1,2) r two_leaves_facts(3) le,
      of "''c''" 0 86400000000007 1] r
  show ?thesis by (simp add: report_def)
qed

section \<open>Reconstructed states\<close>

definition delta_before :: "string \<Rightarrow> timestamp \<Rightarrow> journal_leaf \<Rightarrow> bool" where
  "delta_before c at l \<longleftrightarrow> container_id l = c \<and> leaf_timestamp l \<le> at"

lemma up_to_sorted:
  "sorted (map leaf_timestamp ls) \<Longrightarrow>
     filter (\<lambda>l. container_id l = c) (up_to at ls) = filter (delta_before c at) ls"
proof (induction ls)
  case (Cons l ls)
  have "filter (delta_before c at) ls = []" if "at < leaf_timestamp l"
    using Cons.prems that by (fastforce simp: filter_empty_conv delta_before_def)
  moreover have "delta_before c at l \<longleftrightarrow> container_id l = c \<and> \<not> at < leaf_timestamp l"
    by (auto simp: delta_before_def)
  ultimately show ?case using Cons by (simp add: up_to_def)
qed (simp add: up_to_def)

lemma state_deltas_page:
  "load_page B (storage m) (page_level p) (page_id p) = Inr (Some p) \<Longrightarrow>
     sorted (map leaf_timestamp (leaves_of p)) \<Longrightarrow>
     state_deltas B m c at (summary_of p) = map delta_payload (filter (delta_before c at) (leaves_of p))"
  by (cases "content p") (simp_all add: state_deltas_def leaves_of_def up_to_sorted)

lemma reconstruct_pages:
  assumes "\<forall>p\<in>set ps. leaf_page_ok cfg p \<and> load_page B (storage m) (page_level p) (page_id p) = Inr (Some p)"
    and "sorted (map leaf_timestamp (pages_log ps))"
  shows "concat (map (state_deltas B m c at)
      (takeWhile (\<lambda>x. \<not> at < sum_creation_timestamp x) (map summary_of ps))) =
    map delta_payload (filter (delta_before c at) (pages_log ps))"
  using assms
proof (induction ps)
  case (Cons p ps)
  have srt: "sorted (map leaf_timestamp (leaves_of p))" "sorted (map leaf_timestamp (pages_log ps))"
    using Cons.prems(2) by (auto simp: pages_log_def sorted_append)
  show ?case
  proof (cases "at < creation_timestamp p")
    case True
    have "sorted (map creation_timestamp (p # ps))"
      by (rule creation_sorted[of _ cfg]) (use Cons.prems in simp_all)
    with True have late: "at < creation_timestamp q" if "q \<in> set (p # ps)" for q using that by auto
    have "\<not> delta_before c at l" if l: "l \<in> set (pages_log (p # ps))" for l
    proof -
      obtain q where q: "q \<in> set (p # ps)" "l \<in> set (leaves_of q)" using l by (auto simp: pages_log_def)
      then have "in_window q (leaf_timestamp l)" using Cons.prems(1) by (auto simp: leaf_page_ok_def)
      with late[OF q(1)] show ?thesis by (auto simp: delta_before_def in_window_def)
    qed
    then have "filter (delta_before c at) (pages_log (p # ps)) = []" by (simp add: filter_empty_conv)
    with True show ?thesis by simp
  next
    case False
    with Cons srt show ?thesis by (simp add: state_deltas_page pages_log_def)
  qed
qed (simp add: pages_log_def)

context storage_laws
begin

lemma active_not_stored:
  assumes "log_ok X cfg m ps" and "active_pages m 0 = Some a"
  shows "load_page B (storage m) 0 (page_id a) = Inr None"
proof -
  note I = log_invD[OF assms(1)]
  have "continues ps a" using I(3) assms(2) by (simp add: l0_inv_def)
  then have "pages (storage m) (0, page_id a) = None"
    using I(3) unfolding l0_inv_def continues_def by (metis less_irrefl not_None_eq)
  with load_ok[OF I(1)] show ?thesis by simp
qed

lemma stored_loads:
  assumes "log_ok X cfg m ps" and "p \<in> set ps"
  shows "load_page B (storage m) (page_level p) (page_id p) = Inr (Some p)" and "page_level p = 0"
proof -
  note I = log_invD[OF assms(1)]
  have v: "pages (storage m) (0, page_id p) = Some p" using assms(2) I(3) by (simp add: l0_inv_def)
  then show "page_level p = 0" using keyed_pages[OF I(1)] by (simp add: keyed_def)
  with v load_ok[OF I(1)] show "load_page B (storage m) (page_level p) (page_id p) = Inr (Some p)" by simp
qed

lemma reconstruct_log:
  assumes "log_ok X cfg m ps"
    and "list_finalized_pages_summary B (storage m) 0 = Inr (map summary_of ps)"
    and "sorted (map leaf_timestamp (pages_log ps))"
  shows "reconstruct_container_state B m c at =
    (let ds = map delta_payload (filter (delta_before c at) (pages_log ps))
     in if ds = [] then Inl (ContainerNotFound c)
        else Inr \<lparr>rs_container_id = c, rs_at_point = AtTimestamp at,
                  rs_state_data = foldl apply_delta JNull ds\<rparr>)"
proof -
  have ok: "\<forall>p\<in>set ps. leaf_page_ok cfg p" using log_invD(3)[OF assms(1)] by (simp add: l0_inv_def)
  have pages: "summaries_with_stored_active B m = Inr (map summary_of ps)"
    using active_not_stored[OF assms(1)]
    by (simp add: summaries_with_stored_active_def assms(2) get_current_active_page_id_def split: option.split)
  have "sorted (map sum_creation_timestamp (map summary_of ps))"
    using creation_sorted[OF ok assms(3)] by (simp add: comp_def)
  then have srt: "sort_key sum_creation_timestamp (map summary_of ps) = map summary_of ps"
    by (rule sort_key_id_if_sorted)
  have "concat (map (state_deltas B m c at)
      (takeWhile (\<lambda>x. \<not> at < sum_creation_timestamp x) (map summary_of ps))) =
    map delta_payload (filter (delta_before c at) (pages_log ps))"
    by (rule reconstruct_pages) (use ok assms(3) stored_loads(1)[OF assms(1)] in auto)
  then show ?thesis
    by (simp only: reconstruct_container_state_def pages core_simps try_pure_simps srt Let_def)
qed

end

text \<open>
  C31: a reconstructed state is the fold of the stored deltas. On the memory backend, after
  any sequence of \<open>add_leaf\<close> calls whose timestamps do not decrease, \<open>reconstruct_container_state\<close> applies,
  in the order they were added, the deltas of the container up to the given time, but only
  of the leaves whose page is stored: the leaves of the active page are left out, also where
  their timestamp is in range.
\<close>

theorem reconstruction_folds_stored_deltas:
  assumes "config_ok cfg" and "leaves_valid xs"
    and "(4 * length xs + 6) * 2 ^ length (levels cfg) \<le> 2 ^ 64"
    and "add_leaves X memory_backend cfg xs (manager_new mem_new) = (Inr is, m)"
    and "sorted (map (leaf_timestamp \<circ> fst) xs)"
  shows "\<exists>stored. map fst xs = stored @ active_leaves m \<and>
    reconstruct_container_state memory_backend m c at =
      (let ds = map delta_payload (filter (delta_before c at) stored)
       in if ds = [] then Inl (ContainerNotFound c)
          else Inr \<lparr>rs_container_id = c, rs_at_point = AtTimestamp at,
                    rs_state_data = foldl apply_delta JNull ds\<rparr>)"
proof -
  obtain ps where L: "mem.log_ok X cfg m ps" and log: "pages_log ps @ active_leaves m = map fst xs"
    by (rule journal_log[OF assms(1-4)])
  have "sorted (map leaf_timestamp (map fst xs))" using assms(5) by (simp add: comp_def)
  then have "sorted (map leaf_timestamp (pages_log ps))"
    unfolding log[symmetric] by (simp add: sorted_append)
  from mem.reconstruct_log[OF L _ this] mem_list_log[OF L] log show ?thesis
    by (intro exI[of _ "pages_log ps"]) simp
qed

text \<open>
  The second of the two leaves lies in a later window, so the page of the first is stored:
  the state at a time between them is the first leaf's delta.
\<close>

lemma two_leaves_active:
  assumes "add_leaves X memory_backend default_config two_leaves (manager_new mem_new) = (Inr is, m)"
  shows "sample_leaf 0 5 \<notin> set (active_leaves m) \<or> sample_leaf 1 86400000000007 \<notin> set (active_leaves m)"
proof -
  obtain ps where L: "mem.log_ok X default_config m ps"
    by (rule journal_log[OF default_config_ok two_leaves_facts(1,2) assms])
  show ?thesis
  proof (cases "active_pages m 0")
    case (Some p)
    then have "leaf_page_ok default_config p" using log_invD(3)[OF L] by (simp add: l0_inv_def)
    moreover have "aligned default_config p \<Longrightarrow> end_time p = creation_timestamp p + 86400000000000"
      by (simp add: aligned_def page_end_time_def default_config_defs level_at_def nanos_def as_i64_def)
    ultimately have "\<forall>x\<in>set (leaves_of p). creation_timestamp p \<le> leaf_timestamp x \<and>
        leaf_timestamp x < creation_timestamp p + 86400000000000"
      by (simp add: leaf_page_ok_def in_window_def)
    from this[THEN bspec, of "sample_leaf 0 5"] this[THEN bspec, of "sample_leaf 1 86400000000007"] Some
    show ?thesis by (auto simp: active_leaves_def sample_leaf_def)
  qed (simp add: active_leaves_def)
qed

theorem reconstruction_folds_stored_deltas_witness:
  "\<exists>is m. add_leaves sample_hashing memory_backend default_config two_leaves (manager_new mem_new) = (Inr is, m) \<and>
     reconstruct_container_state memory_backend m ''c'' 9 =
       Inr \<lparr>rs_container_id = ''c'', rs_at_point = AtTimestamp 9,
            rs_state_data = JObject [(''f'', JBool True)]\<rparr>"
proof -
  obtain "is" m where r: "add_leaves sample_hashing memory_backend default_config two_leaves
      (manager_new mem_new) = (Inr is, m)" by (rule two_leaves_run)
  obtain stored where s: "stored @ active_leaves m = [sample_leaf 0 5, sample_leaf 1 86400000000007]"
    "reconstruct_container_state memory_backend m ''c'' 9 =
      (let ds = map delta_payload (filter (delta_before ''c'' 9) stored)
       in if ds = [] then Inl (ContainerNotFound ''c'')
          else Inr \<lparr>rs_container_id = ''c'', rs_at_point = AtTimestamp 9,
                    rs_state_data = foldl apply_delta JNull ds\<rparr>)"
    using reconstruction_folds_stored_deltas[OF default_config_ok two_leaves_facts(1,2) r two_leaves_facts(3)]
      two_leaves_facts(4) by metis
  have "stored \<noteq> []" using s(1) two_leaves_active[OF r] by auto
  then have "stored = [sample_leaf 0 5] \<or> stored = [sample_leaf 0 5, sample_leaf 1 86400000000007]"
    using s(1) by (auto simp: Cons_eq_append_conv append_eq_Cons_conv)
  then have "map delta_payload (filter (delta_before ''c'' 9) stored) = [JObject [(''f'', JBool True)]]"
    by (auto simp: delta_before_def sample_leaf_def)
  with s(2) r show ?thesis by (simp add: apply_delta.simps)
qed

end
