(* ===== verification/Query_Integrity.thy ===== *)
theory Query_Integrity
  imports Query_Properties
begin

text \<open>
  What the cryptographic queries establish: the integrity report accepts the journals
  \<open>add_leaves\<close> builds and, when it accepts, the stored pages form a chain of consistent
  pages; an inclusion proof verifies against the Merkle root of a stored page, and is found
  for exactly the leaves of the stored L0 pages.
\<close>

section \<open>The integrity report\<close>

lemma page_issues_consistent:
  "page_consistent X p \<Longrightarrow> page_issues X h p =
     (case h of None \<Rightarrow> [] | Some prev \<Rightarrow>
        if prev_page_hash p \<noteq> Some prev then [''prev_page_hash mismatch''] else [])"
  by (simp add: page_issues_def page_consistent_def Let_def split: option.split)

lemma recalculate_same:
  assumes "page_merkle_root (recalculate X p) = page_merkle_root p"
    and "page_hash (recalculate X p) = page_hash p"
  shows "page_consistent X p"
proof -
  have "recalculate X p =
      p\<lparr>page_merkle_root := page_merkle_root (recalculate X p), page_hash := page_hash (recalculate X p)\<rparr>"
    by (simp add: recalculate_def Let_def)
  also have "\<dots> = p" unfolding assms by simp
  finally show ?thesis by (simp add: page_consistent_def)
qed

lemma page_issues_none:
  assumes "page_issues X h p = []"
  shows "page_consistent X p" and "h = None \<or> prev_page_hash p = h"
  using assms recalculate_same[of X p]
  by (auto simp: page_issues_def Let_def split: if_splits option.splits)

definition valid_report :: "nat \<Rightarrow> nat \<Rightarrow> page_integrity_report" where
  "valid_report l i = \<lparr>pr_page_id = i, pr_level = l, pr_is_valid = True, pr_issues = []\<rparr>"

lemma integrity_loop_chain:
  assumes "\<forall>p\<in>set ps. load_page B (storage m) l (page_id p) = Inr (Some p) \<and> page_consistent X p"
    and "chain_from h ps" and "prev = None \<or> prev = h"
    and "\<And>k. integrity_loop X B m l k rest = Inr (map (valid_report l) rest)"
  shows "integrity_loop X B m l prev (map page_id ps @ rest) = Inr (map (valid_report l) (map page_id ps @ rest))"
  using assms(1-3)
proof (induction ps arbitrary: h prev)
  case Nil
  then show ?case by (simp add: assms(4))
next
  case (Cons p ps)
  have c: "page_consistent X p" "load_page B (storage m) l (page_id p) = Inr (Some p)"
    using Cons.prems(1) by simp_all
  then have "page_issues X prev p = []"
    using Cons.prems(2,3) by (cases prev) (auto simp: page_issues_consistent)
  moreover have "integrity_loop X B m l (Some (page_hash p)) (map page_id ps @ rest) =
      Inr (map (valid_report l) (map page_id ps @ rest))"
    using Cons.IH[of "Some (page_hash p)"] Cons.prems(1,2) by simp
  ultimately show ?case using c by (simp add: valid_report_def Let_def)
qed

lemma integrity_loop_valid:
  assumes "\<forall>p\<in>set ps. load_page B (storage m) l (page_id p) = Inr (Some p)"
    and "integrity_loop X B m l prev (map page_id ps @ rest) = Inr rs" and "\<forall>r\<in>set rs. pr_is_valid r"
  shows "(\<forall>p\<in>set ps. page_consistent X p) \<and>
    (\<exists>h. chain_from h ps \<and> (prev = None \<or> h = prev))"
  using assms
proof (induction ps arbitrary: prev rs)
  case (Cons p ps)
  obtain rs' where rs': "integrity_loop X B m l (Some (page_hash p)) (map page_id ps @ rest) = Inr rs'"
    and v: "page_issues X prev p = []" "\<forall>r\<in>set rs'. pr_is_valid r"
    using Cons.prems by (auto simp: Let_def elim!: try_pure_InrE)
  obtain h where "\<forall>q\<in>set ps. page_consistent X q" "chain_from h ps" "h = Some (page_hash p)"
    using Cons.IH[OF _ rs' v(2)] Cons.prems(1) by auto
  with page_issues_none[OF v(1)] show ?case by (intro conjI exI[of _ "prev_page_hash p"]) auto
qed auto

lemma map_insort_key: "map f (insort_key f x xs) = insort (f x) (map f xs)"
  by (induction xs) simp_all

lemma map_sort_key: "map f (sort_key f xs) = sort (map f xs)"
  by (induction xs) (simp_all add: map_insort_key)

context storage_laws
begin

lemma integrity_log:
  assumes "log_ok X cfg m ps" and "0 < length (levels cfg)"
    and "list_finalized_pages_summary B (storage m) 0 = Inr (map summary_of ps)"
  shows "get_page_chain_integrity X B m 0 None None =
    Inr (map (valid_report 0) (map page_id (log_pages m ps)))"
proof -
  note I = log_invD[OF assms(1)]
  let ?qs = "log_pages m ps"
  have pages: "summaries_with_active B m 0 = Inr (map summary_of ?qs)"
    by (simp add: summaries_with_active_def assms(3) get_active_page_def log_pages_def split: option.split)
  have "sorted_wrt (<) (map page_id ps)" using I(3) by (simp add: l0_inv_def)
  then have ids0: "sorted (map page_id ps)" by (simp add: strict_sorted_iff)
  have "sorted (map page_id ?qs)"
  proof (cases "active_pages m 0")
    case None
    with ids0 show ?thesis by (simp add: log_pages_def)
  next
    case (Some a)
    then have "\<forall>q\<in>set ps. page_id q < page_id a" using I(3) by (simp add: l0_inv_def continues_def)
    with Some ids0 show ?thesis by (simp add: log_pages_def sorted_append less_imp_le)
  qed
  then have srt: "sort_key sum_page_id (map summary_of ?qs) = map summary_of ?qs"
    by (intro sort_key_id_if_sorted) (simp add: comp_def)
  have c: "\<forall>p\<in>set ps. load_page B (storage m) 0 (page_id p) = Inr (Some p) \<and> page_consistent X p"
  proof
    fix p assume p: "p \<in> set ps"
    then have v: "pages (storage m) (0, page_id p) = Some p" using I(3) by (simp add: l0_inv_def)
    then have "page_consistent X p"
      using inv_stored[OF I(2) assms(2) v] by (simp add: stored_page_ok_def)
    with v load_ok[OF I(1)]
    show "load_page B (storage m) 0 (page_id p) = Inr (Some p) \<and> page_consistent X p" by simp
  qed
  let ?act = "case active_pages m 0 of None \<Rightarrow> [] | Some a \<Rightarrow> [page_id a]"
  have act: "integrity_loop X B m 0 k ?act = Inr (map (valid_report 0) ?act)" for k
  proof (cases "active_pages m 0")
    case (Some a)
    with active_not_stored[OF assms(1) Some] show ?thesis
      by (simp add: get_active_page_by_id_def valid_report_def)
  qed simp
  have ids: "map page_id ?qs = map page_id ps @ ?act" by (simp add: log_pages_def split: option.split)
  have "chain_from None ps" using I(3) by (simp add: l0_inv_def)
  from integrity_loop_chain[OF c this _ act, of None]
  have "integrity_loop X B m 0 None (map page_id ?qs) = Inr (map (valid_report 0) (map page_id ?qs))"
    unfolding ids by simp
  moreover have "in_id_range None None = (\<lambda>i. True)" by (simp add: in_id_range_def fun_eq_iff)
  ultimately show ?thesis
    by (simp add: get_page_chain_integrity_def pages srt comp_def)
qed

lemma stored_in_id_order:
  assumes "good (storage m)"
  obtains ps ss where "list_finalized_pages_summary B (storage m) l = Inr ss"
    and "sort (map sum_page_id ss) = map page_id ps"
    and "set ps = pages_at (pages (storage m)) l" and "sorted (map page_id ps)" and "distinct (map page_id ps)"
proof -
  obtain ss where ss: "list_finalized_pages_summary B (storage m) l = Inr ss"
    "distinct (map sum_page_id ss)" "set ss = summary_of ` pages_at (pages (storage m)) l"
    using list_ok[OF assms] by blast
  define page where "page = (\<lambda>i. the (pages (storage m) (l, i)))"
  have k: "keyed (pages (storage m))" by (rule keyed_pages[OF assms])
  have ids: "set (map sum_page_id ss) = page_id ` pages_at (pages (storage m)) l"
    using ss(3) by (simp add: image_image)
  have P: "page (page_id p) = p" if "p \<in> pages_at (pages (storage m)) l" for p
    using that k by (auto simp: pages_at_def keyed_def page_def)
  let ?ps = "map page (sort (map sum_page_id ss))"
  have "map page_id ?ps = map id (sort (map sum_page_id ss))"
    unfolding map_map by (rule map_cong) (use ids P in auto)
  then have i: "map page_id ?ps = sort (map sum_page_id ss)" by simp
  have "set ?ps = page ` page_id ` pages_at (pages (storage m)) l" using ids by simp
  also have "\<dots> = pages_at (pages (storage m)) l" using P by (force simp: image_image)
  finally show ?thesis using that[OF ss(1) i[symmetric]] ss(2) i by simp
qed

lemma integrity_sound:
  assumes "good (storage m)"
    and "\<forall>a. get_active_page m l = Some a \<longrightarrow> (\<forall>p\<in>pages_at (pages (storage m)) l. page_id p < page_id a)"
    and "get_page_chain_integrity X B m l from to = Inr rs" and "\<forall>r\<in>set rs. pr_is_valid r"
  shows "\<exists>ps h. set ps = pages_at (pages (storage m)) l \<and> sorted (map page_id ps) \<and>
    distinct (map page_id ps) \<and> (\<forall>p\<in>set ps. in_id_range from to (page_id p) \<longrightarrow> page_consistent X p) \<and>
    chain_from h (filter (\<lambda>p. in_id_range from to (page_id p)) ps)"
proof -
  obtain ps ss where ss: "list_finalized_pages_summary B (storage m) l = Inr ss"
    and ids: "sort (map sum_page_id ss) = map page_id ps"
    and ps: "set ps = pages_at (pages (storage m)) l" "sorted (map page_id ps)" "distinct (map page_id ps)"
    by (rule stored_in_id_order[OF assms(1)])
  let ?in = "\<lambda>p. in_id_range from to (page_id p)"
  have "load_page B (storage m) l (page_id p) = Inr (Some p)" if "p \<in> set ps" for p
    using that ps(1) keyed_pages[OF assms(1)] load_ok[OF assms(1)] by (auto simp: pages_at_def keyed_def)
  then have loads: "\<forall>p\<in>set (filter ?in ps). load_page B (storage m) l (page_id p) = Inr (Some p)" by simp
  define active where "active = (case get_active_page m l of None \<Rightarrow> [] | Some a \<Rightarrow> [page_id a])"
  obtain ss' where ss': "summaries_with_active B m l = Inr ss'" "map sum_page_id ss' = map sum_page_id ss @ active"
    using ss by (simp add: summaries_with_active_def active_def split: option.split)
  have "sorted (map page_id ps @ active)"
    using ps(1,2) assms(2) by (auto simp: active_def sorted_append less_imp_le split: option.split)
  moreover have "distinct (map page_id ps @ active)"
    using ps(1,3) assms(2) by (auto simp: active_def split: option.split)
  moreover have "set (map page_id ps @ active) = set (map sum_page_id ss')"
    unfolding ss'(2) ids[symmetric] by simp
  moreover have "distinct (map sum_page_id ss')"
    using calculation(2,3) ids unfolding ss'(2) by (metis distinct_append distinct_sort set_sort)
  ultimately have "map sum_page_id (sort_key sum_page_id ss') = map page_id ps @ active"
    unfolding map_sort_key by (intro sorted_distinct_set_unique) simp_all
  then have "integrity_loop X B m l None (map page_id (filter ?in ps) @ filter (in_id_range from to) active) = Inr rs"
    using assms(3) ss'(1)
    by (simp add: get_page_chain_integrity_def filter_map[symmetric, unfolded comp_def] del: filter_map split: if_splits)
  from integrity_loop_valid[OF loads this assms(4)] ps show ?thesis by auto
qed

end

lemma find_by_page_id:
  assumes "set ps = pages_at V l" and "distinct (map page_id ps)" and "keyed V"
  shows "V (l, i) = List.find (\<lambda>p. page_id p = i) ps"
proof (cases "V (l, i)")
  case None
  then have "\<forall>p\<in>set ps. page_id p \<noteq> i" using assms(1,3) by (auto simp: pages_at_def keyed_def)
  then have "List.find (\<lambda>p. page_id p = i) ps = None" by (simp add: find_None_iff)
  with None show ?thesis by simp
next
  case (Some p)
  then have p: "p \<in> set ps" "page_id p = i" using assms(1,3) by (auto simp: pages_at_def keyed_def)
  then obtain q where q: "List.find (\<lambda>p. page_id p = i) ps = Some q"
    by (cases "List.find (\<lambda>p. page_id p = i) ps") (auto simp: find_None_iff)
  then have "q \<in> set ps" "page_id q = i" by (auto simp: find_Some_iff)
  with p assms(2) have "q = p" by (auto simp: distinct_map inj_on_def)
  with Some q show ?thesis by simp
qed

text \<open>
  C29: the integrity check accepts what the journal wrote. After any sequence of
  \<open>add_leaf\<close> calls \<open>get_page_chain_integrity\<close> over the base level reports no issue: one
  valid report per page, in increasing id order, whose leaves are all the leaves added.
\<close>

theorem integrity_accepts_journal:
  assumes "config_ok cfg" and "leaves_valid xs"
    and "(4 * length xs + 6) * 2 ^ length (levels cfg) \<le> 2 ^ 64"
    and "add_leaves X memory_backend cfg xs (manager_new mem_new) = (Inr is, m)"
  shows "\<exists>qs. get_page_chain_integrity X memory_backend m 0 None None =
      Inr (map (valid_report 0) (map page_id qs)) \<and>
    concat (map leaves_of qs) = map fst xs \<and>
    (\<forall>q\<in>set qs. mem_load_page (storage m) 0 (page_id q) = Inr (Some q) \<or> get_active_page m 0 = Some q)"
proof -
  obtain ps where L: "mem.log_ok X cfg m ps" and log: "pages_log ps @ active_leaves m = map fst xs"
    by (rule journal_log[OF assms])
  have n: "0 < length (levels cfg)" using assms(1) by (simp add: config_ok_def)
  have "\<forall>q\<in>set (log_pages m ps). mem_load_page (storage m) 0 (page_id q) = Inr (Some q) \<or>
      get_active_page m 0 = Some q"
    using mem.stored_loads[OF L] by (auto simp: log_pages_def get_active_page_def split: option.splits)
  with mem.integrity_log[OF L n] mem_list_log[OF L] pages_log_pages[of m ps] log show ?thesis
    by (intro exI[of _ "log_pages m ps"]) (simp add: pages_log_def)
qed

theorem integrity_accepts_journal_witness:
  "\<exists>is m qs. add_leaves sample_hashing memory_backend default_config two_leaves (manager_new mem_new) = (Inr is, m) \<and>
     get_page_chain_integrity sample_hashing memory_backend m 0 None None =
       Inr (map (valid_report 0) (map page_id qs)) \<and>
     concat (map leaves_of qs) = [sample_leaf 0 5, sample_leaf 1 86400000000007]"
proof -
  obtain "is" m where r: "add_leaves sample_hashing memory_backend default_config two_leaves
      (manager_new mem_new) = (Inr is, m)" by (rule two_leaves_run)
  from integrity_accepts_journal[OF default_config_ok two_leaves_facts(1,2) r] r two_leaves_facts(4)
  show ?thesis by metis
qed

text \<open>
  C30: an accepted range of a level is a verified chain. On the memory backend, when the
  integrity report of a level over any range of page ids is free of issues, the stored pages
  of that level whose ids are in the range all carry the Merkle root and hash of their
  content, and in id order each links to the hash of the one before. The level may have an
  active page, whose id is then above those of the stored ones, as the journal gives them
  out; the stored pages may come from anywhere.
\<close>

theorem integrity_report_sound:
  assumes "mem_good (storage m)"
    and "\<forall>a i p. get_active_page m l = Some a \<longrightarrow> mem_load_page (storage m) l i = Inr (Some p) \<longrightarrow> i < page_id a"
    and "get_page_chain_integrity X memory_backend m l from to = Inr rs"
    and "\<forall>r\<in>set rs. pr_is_valid r"
  shows "\<exists>ps h. (\<forall>i. mem_load_page (storage m) l i = Inr (List.find (\<lambda>p. page_id p = i) ps)) \<and>
    sorted (map page_id ps) \<and> (\<forall>p\<in>set ps. in_id_range from to (page_id p) \<longrightarrow> page_consistent X p) \<and>
    chain_from h (filter (\<lambda>p. in_id_range from to (page_id p)) ps)"
proof -
  have k: "keyed (mem_view (storage m))" by (rule mem.keyed_pages[OF assms(1)])
  have "\<forall>a. get_active_page m l = Some a \<longrightarrow> (\<forall>p\<in>pages_at (mem_view (storage m)) l. page_id p < page_id a)"
    using assms(2) k by (fastforce simp: pages_at_def keyed_def mem_load_page_def mem_view_def)
  from mem.integrity_sound[OF assms(1) this assms(3,4)] obtain ps h where
    P: "set ps = pages_at (mem_view (storage m)) l" "sorted (map page_id ps)" "distinct (map page_id ps)"
    "\<forall>p\<in>set ps. in_id_range from to (page_id p) \<longrightarrow> page_consistent X p"
    "chain_from h (filter (\<lambda>p. in_id_range from to (page_id p)) ps)" by blast
  have "mem_view (storage m) (l, i) = List.find (\<lambda>p. page_id p = i) ps" for i
    by (rule find_by_page_id[OF P(1,3) k])
  with P show ?thesis by (intro exI[of _ ps] exI[of _ h]) (simp add: mem_load_page_def mem_view_def)
qed

theorem integrity_report_sound_witness:
  "\<exists>is m rs ps. add_leaves sample_hashing memory_backend default_config two_leaves (manager_new mem_new) = (Inr is, m) \<and>
     get_page_chain_integrity sample_hashing memory_backend m 0 None None = Inr rs \<and>
     (\<forall>i. mem_load_page (storage m) 0 i = Inr (List.find (\<lambda>p. page_id p = i) ps)) \<and>
     (\<forall>p\<in>set ps. page_consistent sample_hashing p)"
proof -
  obtain "is" m where r: "add_leaves sample_hashing memory_backend default_config two_leaves
      (manager_new mem_new) = (Inr is, m)" by (rule two_leaves_run)
  obtain ps where L: "mem.log_ok sample_hashing default_config m ps"
    by (rule journal_log[OF default_config_ok two_leaves_facts(1,2) r])
  note I = log_invD[OF L]
  have n: "0 < length (levels default_config)" by (simp add: default_config_defs)
  have a: "\<forall>a i p. get_active_page m 0 = Some a \<longrightarrow> mem_load_page (storage m) 0 i = Inr (Some p) \<longrightarrow> i < page_id a"
    using I(3) by (auto simp: mem_load_page_def mem_view_def get_active_page_def l0_inv_def continues_def)
  have v: "\<forall>r\<in>set (map (valid_report 0) is). pr_is_valid r" for "is" by (simp add: valid_report_def)
  have rs: "get_page_chain_integrity sample_hashing memory_backend m 0 None None =
      Inr (map (valid_report 0) (map page_id (log_pages m ps)))"
    using mem.integrity_log[OF L n] mem_list_log[OF L] by simp
  from integrity_report_sound[OF I(1) a rs v] r rs show ?thesis by (auto simp: in_id_range_def)
qed

section \<open>Inclusion proofs\<close>

lemma position_spec:
  "case position P xs of
     None \<Rightarrow> \<forall>x\<in>set xs. \<not> P x
   | Some i \<Rightarrow> i < length xs \<and> P (xs ! i)"
  by (induction xs) (auto split: option.splits)

lemma position_Some: "position P xs = Some i \<Longrightarrow> i < length xs \<and> P (xs ! i)"
  using position_spec[of xs P] by simp

lemma position_None: "position P xs = None \<Longrightarrow> x \<in> set xs \<Longrightarrow> \<not> P x"
  using position_spec[of xs P] by simp

text \<open>The proof built for position \<open>i\<close> of a consistent page verifies against its Merkle root.\<close>

lemma consistent_page_proof:
  assumes "page_consistent X p" and "content p = Leaves ls" and "i < length ls"
  shows "\<exists>t pf. merkle_new (sha256 X) (map leaf_hash ls) = Inr t \<and> get_proof t i = Some pf \<and>
    verify_merkle_proof (sha256 X) (leaf_hash (ls ! i)) pf (page_merkle_root p)"
proof -
  let ?hs = "map leaf_hash ls"
  have ne: "?hs \<noteq> []" using assms(3) by auto
  then obtain t where t: "merkle_new (sha256 X) ?hs = Inr t" by (simp add: merkle_new_def)
  obtain pf where pf: "get_proof t i = Some pf" using get_proof_eq[OF t] assms(3) by simp
  have "page_merkle_root p = root_of_hashes X ?hs"
    using assms(1,2) by (simp add: page_consistent_iff)
  with ne have root: "page_merkle_root p = root_spec (sha256 X) ?hs" by (simp add: root_of_hashes_spec)
  with proof_complete[OF t get_root_spec[OF t] pf] assms(3) t pf show ?thesis by simp
qed

text \<open>What a proof promises about the pages \<open>V\<close>: it verifies against the root of one of them.\<close>

definition proof_ok :: "externals \<Rightarrow> page_map \<Rightarrow> hash \<Rightarrow> leaf_inclusion_proof \<Rightarrow> bool" where
  "proof_ok X V h pr \<longleftrightarrow>
     leaf_hash (ip_leaf pr) = h \<and>
     verify_merkle_proof (sha256 X) h (ip_proof pr) (ip_page_merkle_root pr) \<and>
     (\<exists>p. V (ip_level pr, ip_page_id pr) = Some p \<and> page_merkle_root p = ip_page_merkle_root pr \<and>
        (\<exists>l\<in>set (leaves_of p). leaf_hash l = h))"

definition holds_leaf :: "hash \<Rightarrow> journal_page \<Rightarrow> bool" where
  "holds_leaf h p \<longleftrightarrow> (\<exists>l\<in>set (leaves_of p). leaf_hash l = h)"

lemma found_leaf_iff: "found_leaf h (content p) \<longleftrightarrow> holds_leaf h p"
  by (cases "content p") (simp_all add: holds_leaf_def leaves_of_def)

context storage_laws
begin

lemma hint_proof_ok:
  assumes "good (storage m)"
    and "\<And>l i p. hint = Some (l, i) \<Longrightarrow> pages (storage m) (l, i) = Some p \<Longrightarrow> page_consistent X p"
  shows "\<exists>r. hint_proof X B m h hint = Inr r \<and> (\<forall>pr. r = Some pr \<longrightarrow> proof_ok X (pages (storage m)) h pr)"
proof (cases hint)
  case None
  then show ?thesis by (simp add: hint_proof_def)
next
  case (Some li)
  obtain l i where li: "li = (l, i)" by (cases li)
  note load = load_ok[OF assms(1), of l i]
  show ?thesis
  proof (cases "pages (storage m) (l, i)")
    case None
    with Some li load show ?thesis by (simp add: hint_proof_def)
  next
    case p: (Some p)
    show ?thesis
    proof (cases "content p")
      case (Leaves ls)
      show ?thesis
      proof (cases "position (\<lambda>x. leaf_hash x = h) ls")
        case None
        with Some li load p Leaves show ?thesis by (simp add: hint_proof_def)
      next
        case idx: (Some k)
        note k = position_Some[OF idx]
        have c: "page_consistent X p" using assms(2) Some li p by simp
        obtain t pf where t: "merkle_new (sha256 X) (map leaf_hash ls) = Inr t" "get_proof t k = Some pf"
          "verify_merkle_proof (sha256 X) (leaf_hash (ls ! k)) pf (page_merkle_root p)"
          using consistent_page_proof[OF c Leaves] k by blast
        have "\<exists>x\<in>set (leaves_of p). leaf_hash x = h"
          using k Leaves by (intro bexI[of _ "ls ! k"]) (simp_all add: leaves_of_def)
        moreover have "page_level p = l" "page_id p = i" using keyed_pages[OF assms(1)] p by (auto simp: keyed_def)
        ultimately show ?thesis
          using Some li load p Leaves idx t k by (auto simp: hint_proof_def proof_ok_def)
      qed
    qed (use Some li load p in \<open>simp_all add: hint_proof_def\<close>)
  qed
qed

lemma scan_for_leaf_ok:
  assumes "good (storage m)"
    and "\<And>i p. pages (storage m) (0, i) = Some p \<Longrightarrow> page_consistent X p"
  shows "case scan_for_leaf X B m h is of
      Inl e \<Rightarrow> e = LeafNotFound h \<and> (\<forall>i\<in>set is. \<forall>p. pages (storage m) (0, i) = Some p \<longrightarrow> \<not> holds_leaf h p)
    | Inr pr \<Rightarrow> proof_ok X (pages (storage m)) h pr"
proof (induction "is")
  case (Cons i "is")
  note load = load_ok[OF assms(1), of 0 i]
  show ?case
  proof (cases "pages (storage m) (0, i)")
    case None
    with load Cons show ?thesis by (auto split: sum.splits)
  next
    case (Some p)
    show ?thesis
    proof (cases "holds_leaf h p")
      case False
      with Some load Cons show ?thesis by (auto simp: found_leaf_iff split: sum.splits)
    next
      case True
      then obtain ls where ls: "content p = Leaves ls" "h \<in> set (map leaf_hash ls)"
        by (cases "content p") (auto simp: holds_leaf_def leaves_of_def)
      obtain k where idx: "position (\<lambda>x. x = h) (map leaf_hash ls) = Some k"
        using position_None[of "\<lambda>x. x = h" "map leaf_hash ls" h] ls(2)
        by (cases "position (\<lambda>x. x = h) (map leaf_hash ls)") auto
      have k: "k < length ls" "leaf_hash (ls ! k) = h" using position_Some[OF idx] by auto
      have c: "page_consistent X p" by (rule assms(2)[OF Some])
      obtain t pf where t: "merkle_new (sha256 X) (map leaf_hash ls) = Inr t" "get_proof t k = Some pf"
        "verify_merkle_proof (sha256 X) (leaf_hash (ls ! k)) pf (page_merkle_root p)"
        using consistent_page_proof[OF c ls(1) k(1)] by blast
      have p0: "p \<in> pages_at (pages (storage m)) 0" using Some by (auto simp: pages_at_def)
      obtain r where r: "load_leaf_by_hash B (storage m) h = Inr r"
        "case r of None \<Rightarrow> \<forall>p\<in>pages_at (pages (storage m)) 0. \<forall>x\<in>set (leaves_of p). leaf_hash x \<noteq> h
         | Some x \<Rightarrow> leaf_hash x = h \<and> (\<exists>p\<in>pages_at (pages (storage m)) 0. x \<in> set (leaves_of p))"
        using by_leaf_ok[OF assms(1)] by blast
      then obtain x where x: "r = Some x" "leaf_hash x = h"
        using True p0 by (cases r) (auto simp: holds_leaf_def)
      have "page_level p = 0" "page_id p = i" using keyed_pages[OF assms(1)] Some by (auto simp: keyed_def)
      with Some load True ls(1) idx t k r(1) x show ?thesis
        by (auto simp: found_leaf_iff proof_ok_def holds_leaf_def)
    qed
  qed
qed simp

lemma inclusion_proof_ok:
  assumes "good (storage m)"
    and "\<And>l i p. l = 0 \<or> hint = Some (l, i) \<Longrightarrow> pages (storage m) (l, i) = Some p \<Longrightarrow>
      page_consistent X p"
  shows "case get_leaf_inclusion_proof_with_hint X B m h hint of
      Inl e \<Rightarrow> e = LeafNotFound h \<and> (\<forall>i p. pages (storage m) (0, i) = Some p \<longrightarrow> \<not> holds_leaf h p)
    | Inr pr \<Rightarrow> proof_ok X (pages (storage m)) h pr"
proof -
  obtain r where r: "hint_proof X B m h hint = Inr r"
    "\<forall>pr. r = Some pr \<longrightarrow> proof_ok X (pages (storage m)) h pr"
    using hint_proof_ok[OF assms(1), of hint X h] assms(2) by blast
  show ?thesis
  proof (cases r)
    case (Some pr)
    with r show ?thesis by (simp add: get_leaf_inclusion_proof_with_hint_def)
  next
    case None
    obtain ss where ss: "list_finalized_pages_summary B (storage m) 0 = Inr ss"
      "set ss = summary_of ` pages_at (pages (storage m)) 0"
      using list_ok[OF assms(1)] by blast
    let ?act = "case get_current_active_page_id m 0 of None \<Rightarrow> [] | Some i \<Rightarrow> [i]"
    let ?is = "remdups_adj (sort (?act @ map sum_page_id ss))"
    have all: "i \<in> set ?is" if "pages (storage m) (0, i) = Some p" for i p
    proof -
      have "page_id p = i" using keyed_pages[OF assms(1)] that by (auto simp: keyed_def)
      moreover have "summary_of p \<in> set ss" using that ss(2) by (auto simp: pages_at_def)
      ultimately show ?thesis by force
    qed
    have eq: "get_leaf_inclusion_proof_with_hint X B m h hint = scan_for_leaf X B m h ?is"
      using r(1) None ss(1) by (simp add: get_leaf_inclusion_proof_with_hint_def Let_def)
    have c: "page_consistent X p" if "pages (storage m) (0, i) = Some p" for i p
      by (rule assms(2)[OF _ that]) simp
    have "case scan_for_leaf X B m h ?is of
        Inl e \<Rightarrow> e = LeafNotFound h \<and> (\<forall>i\<in>set ?is. \<forall>p. pages (storage m) (0, i) = Some p \<longrightarrow> \<not> holds_leaf h p)
      | Inr pr \<Rightarrow> proof_ok X (pages (storage m)) h pr"
      by (rule scan_for_leaf_ok[OF assms(1)]) (rule c)
    with all show ?thesis unfolding eq by (auto split: sum.splits)
  qed
qed

end

text \<open>
  C28: inclusion proofs are sound and complete for stored leaves. On a storage whose pages
  are consistent, with or without a page hint, the proof returned verifies the requested
  hash against the Merkle root of a stored page that holds the leaf, the returned leaf has
  that hash, and the only error is \<open>LeafNotFound\<close>, for exactly the hashes that no stored L0
  page holds, so also for a leaf whose page is still active.
\<close>

theorem inclusion_proofs_verify:
  assumes "mem_good (storage m)" and "\<forall>p\<in>ran (mem_view (storage m)). page_consistent X p"
  shows "case get_leaf_inclusion_proof_with_hint X memory_backend m h hint of
      Inl e \<Rightarrow> e = LeafNotFound h \<and>
        (\<forall>i p. mem_load_page (storage m) 0 i = Inr (Some p) \<longrightarrow> \<not> holds_leaf h p)
    | Inr pr \<Rightarrow> proof_ok X (mem_view (storage m)) h pr"
proof -
  have "page_consistent X p" if "mem_view (storage m) (l, i) = Some p" for l i p
    using assms(2) that by (auto simp: ran_def)
  then show ?thesis
    using mem.inclusion_proof_ok[OF assms(1), of hint X h]
    unfolding mem_load_page_def mem_view_def by (auto split: sum.splits)
qed

theorem inclusion_proofs_verify_witness:
  "\<exists>pr. get_leaf_inclusion_proof sample_hashing memory_backend one_page_manager zero_hash = Inr pr \<and>
     verify_merkle_proof (sha256 sample_hashing) zero_hash (ip_proof pr) (ip_page_merkle_root pr) \<and>
     leaf_hash (ip_leaf pr) = zero_hash"
proof -
  have c: "\<forall>p\<in>ran (mem_view (storage one_page_manager)). page_consistent sample_hashing p"
    unfolding one_page_view by (auto simp: ran_def closed_leaf_page_def split: if_splits)
  have l: "mem_load_page (storage one_page_manager) 0 0 = Inr (Some closed_leaf_page)"
    by (simp add: mem_load_page_def one_page_manager_def manager_new_def mem_new_def)
  have "holds_leaf zero_hash closed_leaf_page"
    by (simp add: holds_leaf_def leaves_of_def closed_leaf_page_def sample_leaf_def)
  with inclusion_proofs_verify[OF one_page_good c, of zero_hash None] l show ?thesis
    by (auto simp: get_leaf_inclusion_proof_def proof_ok_def split: sum.splits)
qed

end
