(* ===== verification/Turnstile.thy ===== *)
theory Turnstile
  imports File_Storage
begin

text \<open>
  The turnstile of \<open>src/turnstile/mod.rs\<close>: tickets for payloads that wait for the
  confirmation of an external database, their retries, and the hash chain of committed,
  orphan and success leaves, with the state file it is restored from.

  Strings that are hashed (the JSON payloads) are their UTF-8 bytes. The \<open>HashMap\<close> of
  pending entries is an association list with distinct keys, whose order is the iteration
  order; the \<open>HashSet\<close> is a set. The crate \<open>hex\<close> and the JSON form of the persisted state
  are the parameters of the record \<open>turnstile_codecs\<close>. Of the file system the model has
  the content of the state file per storage path, and the set of paths the operating
  system refuses to write. A retry callback is a function of its three arguments; it is
  called at most once per retry and cannot reach the turnstile.
\<close>

section \<open>Types\<close>

datatype pending_status = Pending | Committed | FailedPermanent

record pending_entry =
  pe_prev_hash :: string
  payload_json :: bytes
  pe_timestamp :: nat
  retry_count :: nat
  last_error :: "string option"
  pe_status :: pending_status

record orphan_event =
  oe_leaf_hash :: string
  oe_orig_hash :: string
  oe_error_msg :: string
  oe_timestamp :: nat

record success_event =
  se_leaf_hash :: string
  se_orig_hash :: string
  se_timestamp :: nat

record persisted_state =
  ps_prev_leaf_hash :: string
  ps_pending :: "(string \<times> pending_entry) list"
  ps_committed :: "string set"
  ps_orphans :: "orphan_event list"
  ps_successes :: "success_event list"

record turnstile =
  prev_leaf_hash :: string
  pending :: "(string \<times> pending_entry) list"
  committed :: "string set"
  orphans :: "orphan_event list"
  successes :: "success_event list"
  max_retries :: nat
  storage_path :: "string option"
  log_orphans :: bool
  state_files :: "string \<Rightarrow> bytes option"
  state_denied :: "string \<Rightarrow> bool"

record turnstile_codecs =
  hex_encode :: "bytes \<Rightarrow> string"
  hex_decode :: "string \<Rightarrow> bytes option"
  state_to_vec :: "persisted_state \<Rightarrow> bytes option"
  state_from_slice :: "bytes \<Rightarrow> persisted_state option"

definition pending_entry_new :: "string \<Rightarrow> bytes \<Rightarrow> nat \<Rightarrow> pending_entry" where
  "pending_entry_new prev payload t =
     \<lparr>pe_prev_hash = prev, payload_json = payload, pe_timestamp = t, retry_count = 0,
      last_error = None, pe_status = Pending\<rparr>"

section \<open>Hashing and persistence\<close>

definition compute_hash ::
  "externals \<Rightarrow> turnstile_codecs \<Rightarrow> string \<Rightarrow> bytes \<Rightarrow> cj_error + string" where
  "compute_hash X T prev_hash_hex payload =
     (if \<not> json_parses X payload then Inl SerdeJson
      else case hex_decode T prev_hash_hex of
        None \<Rightarrow> Inl cj_error_new
      | Some prev_raw \<Rightarrow> Inr (hex_encode T (sha256_hash_concat X [prev_raw, payload])))"

definition load_state :: "turnstile_codecs \<Rightarrow> turnstile \<Rightarrow> (cj_error + unit) \<times> turnstile" where
  "load_state T t =
     (case storage_path t of
        None \<Rightarrow> (Inr (), t)
      | Some path \<Rightarrow>
          (case state_files t path of
             None \<Rightarrow> (Inr (), t)
           | Some data \<Rightarrow>
               (case state_from_slice T data of
                  None \<Rightarrow> (Inl SerdeJson, t)
                | Some s \<Rightarrow> (Inr (), t\<lparr>prev_leaf_hash := ps_prev_leaf_hash s, pending := ps_pending s,
                    committed := ps_committed s, orphans := ps_orphans s,
                    successes := ps_successes s\<rparr>))))"

definition persisted_of :: "turnstile \<Rightarrow> persisted_state" where
  "persisted_of t =
     \<lparr>ps_prev_leaf_hash = prev_leaf_hash t, ps_pending = pending t, ps_committed = committed t,
      ps_orphans = orphans t, ps_successes = successes t\<rparr>"

definition persist_state :: "turnstile_codecs \<Rightarrow> turnstile \<Rightarrow> (cj_error + unit) \<times> turnstile" where
  "persist_state T t =
     (case storage_path t of
        None \<Rightarrow> (Inr (), t)
      | Some path \<Rightarrow>
          if state_denied t path then (Inl Io, t)
          else case state_to_vec T (persisted_of t) of
            None \<Rightarrow> (Inl SerdeJson, t)
          | Some data \<Rightarrow> (Inr (), t\<lparr>state_files := (state_files t)(path \<mapsto> data)\<rparr>))"

text \<open>The file system is the argument \<open>fs\<close>, a result of loading is discarded.\<close>

definition turnstile_new_with_storage ::
  "turnstile_codecs \<Rightarrow> string \<Rightarrow> nat \<Rightarrow> string option \<Rightarrow> bool \<Rightarrow> (string \<Rightarrow> bytes option) \<Rightarrow>
    (string \<Rightarrow> bool) \<Rightarrow> turnstile" where
  "turnstile_new_with_storage T initial_prev_hash n path lo fs denied =
     snd (load_state T
       \<lparr>prev_leaf_hash = initial_prev_hash, pending = [], committed = {}, orphans = [],
        successes = [], max_retries = n, storage_path = path, log_orphans = lo,
        state_files = fs, state_denied = denied\<rparr>)"

definition turnstile_new ::
  "turnstile_codecs \<Rightarrow> string \<Rightarrow> nat \<Rightarrow> (string \<Rightarrow> bytes option) \<Rightarrow> (string \<Rightarrow> bool) \<Rightarrow> turnstile" where
  "turnstile_new T initial_prev_hash n fs denied =
     turnstile_new_with_storage T initial_prev_hash n None True fs denied"

section \<open>Log leaves\<close>

text \<open>\<open>Value::to_string\<close>, which panics where serialisation fails.\<close>

definition json_text :: "externals \<Rightarrow> json \<Rightarrow> cj_error + bytes" where
  "json_text X j = (case json_to_vec X j of None \<Rightarrow> Inl Panicked | Some b \<Rightarrow> Inr b)"

definition commit_log_leaf :: "string \<Rightarrow> turnstile \<Rightarrow> turnstile" where
  "commit_log_leaf h t = t\<lparr>prev_leaf_hash := h, committed := insert h (committed t)\<rparr>"

definition log_orphan_leaf ::
  "externals \<Rightarrow> turnstile_codecs \<Rightarrow> string \<Rightarrow> string \<Rightarrow> nat \<Rightarrow> turnstile \<Rightarrow>
    (cj_error + unit) \<times> turnstile" where
  "log_orphan_leaf X T orig_hash msg ts t =
     (if \<not> log_orphans t then (Inr (), t)
      else case try_pure (json_text X (JObject
               [(''error_msg'', JString msg), (''orig_hash'', JString orig_hash),
                (''timestamp'', JNumber (dec_digits ts)), (''type'', JString ''orphan'')]))
             (compute_hash X T (prev_leaf_hash t)) of
        Inl e \<Rightarrow> (Inl e, t)
      | Inr orphan_hash \<Rightarrow>
          (Inr (), (commit_log_leaf orphan_hash t)\<lparr>orphans := orphans t @
             [\<lparr>oe_leaf_hash = orphan_hash, oe_orig_hash = orig_hash, oe_error_msg = msg,
               oe_timestamp = ts\<rparr>]\<rparr>))"

definition log_success_leaf ::
  "externals \<Rightarrow> turnstile_codecs \<Rightarrow> string \<Rightarrow> nat \<Rightarrow> turnstile \<Rightarrow> (cj_error + unit) \<times> turnstile" where
  "log_success_leaf X T orig_hash ts t =
     (if \<not> log_orphans t then (Inr (), t)
      else case try_pure (json_text X (JObject
               [(''orig_hash'', JString orig_hash), (''timestamp'', JNumber (dec_digits ts)),
                (''type'', JString ''retry_success'')]))
             (compute_hash X T (prev_leaf_hash t)) of
        Inl e \<Rightarrow> (Inl e, t)
      | Inr success_hash \<Rightarrow>
          (Inr (), (commit_log_leaf success_hash t)\<lparr>successes := successes t @
             [\<lparr>se_leaf_hash = success_hash, se_orig_hash = orig_hash, se_timestamp = ts\<rparr>]\<rparr>))"

section \<open>Operations\<close>

definition turnstile_append ::
  "externals \<Rightarrow> turnstile_codecs \<Rightarrow> bytes \<Rightarrow> nat \<Rightarrow> turnstile \<Rightarrow> (cj_error + string) \<times> turnstile" where
  "turnstile_append X T payload ts t =
     (case compute_hash X T (prev_leaf_hash t) payload of
        Inl e \<Rightarrow> (Inl e, t)
      | Inr ticket \<Rightarrow>
          try_then (persist_state T (t\<lparr>pending :=
              AList.update ticket (pending_entry_new (prev_leaf_hash t) payload ts) (pending t)\<rparr>))
            (\<lambda>_ t. (Inr ticket, t)))"

definition set_entry :: "string \<Rightarrow> pending_entry \<Rightarrow> turnstile \<Rightarrow> turnstile" where
  "set_entry h e t = t\<lparr>pending := AList.update h e (pending t)\<rparr>"

definition remove_entry :: "string \<Rightarrow> turnstile \<Rightarrow> turnstile" where
  "remove_entry h t = t\<lparr>pending := AList.delete h (pending t)\<rparr>"

definition rejected_entry :: "nat \<Rightarrow> string option \<Rightarrow> pending_entry \<Rightarrow> pending_entry" where
  "rejected_entry n error_msg e =
     (let e = e\<lparr>retry_count := retry_count e + 1\<rparr>;
          e = (case error_msg of None \<Rightarrow> e | Some msg \<Rightarrow> e\<lparr>last_error := Some msg\<rparr>)
      in if n < retry_count e then e\<lparr>pe_status := FailedPermanent\<rparr> else e)"

text \<open>\<open>retry_count += 1\<close> on a \<open>u32\<close>, which panics on overflow.\<close>

definition confirm_ticket ::
  "externals \<Rightarrow> turnstile_codecs \<Rightarrow> string \<Rightarrow> bool \<Rightarrow> string option \<Rightarrow> turnstile \<Rightarrow>
    (cj_error + unit) \<times> turnstile" where
  "confirm_ticket X T h status error_msg t =
     (case map_of (pending t) h of
        None \<Rightarrow> (Inl cj_not_found, t)
      | Some e \<Rightarrow>
          if status then
            persist_state T (commit_log_leaf h (remove_entry h t))
          else if 2 ^ 32 \<le> retry_count e + 1 then (Inl Panicked, t)
          else
            let e' = rejected_entry (max_retries t) error_msg e; t' = set_entry h e' t
            in try_then (case error_msg of
                           None \<Rightarrow> (Inr (), t')
                         | Some msg \<Rightarrow> log_orphan_leaf X T h msg (pe_timestamp e') t')
                 (\<lambda>_ t. persist_state T t))"

text \<open>\<open>Iterator::min_by_key\<close>: the first of the least elements.\<close>

fun first_min :: "('a \<Rightarrow> nat) \<Rightarrow> 'a list \<Rightarrow> 'a option" where
  "first_min f [] = None"
| "first_min f (x # xs) =
     (case first_min f xs of None \<Rightarrow> Some x | Some y \<Rightarrow> if f x \<le> f y then Some x else Some y)"

definition oldest_pending :: "turnstile \<Rightarrow> (string \<times> pending_entry) option" where
  "oldest_pending t =
     first_min (\<lambda>(h, e). pe_timestamp e) (filter (\<lambda>(h, e). pe_status e = Pending) (pending t))"

definition failed_retry :: "nat \<Rightarrow> pending_entry \<Rightarrow> pending_entry" where
  "failed_retry n e =
     (let e = e\<lparr>retry_count := retry_count e + 1\<rparr>
      in if n \<le> retry_count e then e\<lparr>pe_status := FailedPermanent\<rparr>
         else e\<lparr>last_error := Some ''retry failed''\<rparr>)"

definition retry_next_pending ::
  "externals \<Rightarrow> turnstile_codecs \<Rightarrow> (string \<Rightarrow> bytes \<Rightarrow> string \<Rightarrow> int) \<Rightarrow> turnstile \<Rightarrow>
    (cj_error + int) \<times> turnstile" where
  "retry_next_pending X T callback t =
     (case oldest_pending t of
        None \<Rightarrow> (Inr (- 1), t)
      | Some (h, e) \<Rightarrow>
          (case compute_hash X T (pe_prev_hash e) (payload_json e) of
             Inl err \<Rightarrow> (Inl err, t)
           | Inr computed \<Rightarrow>
               if computed \<noteq> h then (Inr (- 2), set_entry h (e\<lparr>pe_status := FailedPermanent\<rparr>) t)
               else if callback (pe_prev_hash e) (payload_json e) h = 1 then
                 try_then (persist_state T (commit_log_leaf h (remove_entry h t))) (\<lambda>_ t.
                 try_then (log_success_leaf X T h (pe_timestamp e) t) (\<lambda>_ t. (Inr 0, t)))
               else if 2 ^ 32 \<le> retry_count e + 1 then (Inl Panicked, t)
               else
                 let e' = failed_retry (max_retries t) e; code = if max_retries t \<le> retry_count e' then 2 else 1 in
                 try_then (log_orphan_leaf X T h ''retry failed'' (pe_timestamp e) (set_entry h e' t)) (\<lambda>_ t.
                 try_then (persist_state T t) (\<lambda>_ t. (Inr code, t)))))"

definition leaf_exists :: "turnstile \<Rightarrow> string \<Rightarrow> bool" where
  "leaf_exists t h \<longleftrightarrow> map_of (pending t) h \<noteq> None \<or> h \<in> committed t"

definition latest_leaf_hash :: "turnstile \<Rightarrow> string" where
  "latest_leaf_hash t = prev_leaf_hash t"

definition pending_count :: "turnstile \<Rightarrow> nat" where
  "pending_count t = length (filter (\<lambda>(h, e). pe_status e = Pending) (pending t))"

definition list_pending :: "turnstile \<Rightarrow> nat \<Rightarrow> string list" where
  "list_pending t max_entries =
     map fst (take max_entries (filter (\<lambda>(h, e). pe_status e = Pending) (pending t)))"

definition orphan_events :: "turnstile \<Rightarrow> orphan_event list" where
  "orphan_events t = orphans t"

definition success_events :: "turnstile \<Rightarrow> success_event list" where
  "success_events t = successes t"

end
