(* ===== verification/Turnstile_Properties.thy ===== *)
theory Turnstile_Properties
  imports Turnstile
begin

text \<open>
  The turnstile as a state machine: the states reachable from a new turnstile keep every
  ticket equal to the hash of its entry and the head of the chain committed; retrying with
  a callback that never succeeds drains the queue; a restart recovers what was persisted;
  confirming tickets out of order leaves the chain.
\<close>

section \<open>Steps and reachable states\<close>

inductive turnstile_step :: "externals \<Rightarrow> turnstile_codecs \<Rightarrow> turnstile \<Rightarrow> turnstile \<Rightarrow> bool"
  for X T where
  append: "turnstile_step X T t (snd (turnstile_append X T payload ts t))"
| confirm: "turnstile_step X T t (snd (confirm_ticket X T h status msg t))"
| retry: "turnstile_step X T t (snd (retry_next_pending X T callback t))"

inductive turnstile_reachable :: "externals \<Rightarrow> turnstile_codecs \<Rightarrow> turnstile \<Rightarrow> turnstile \<Rightarrow> bool"
  for X T t0 where
  start: "turnstile_reachable X T t0 t0"
| step: "turnstile_reachable X T t0 t \<Longrightarrow> turnstile_step X T t t' \<Longrightarrow> turnstile_reachable X T t0 t'"

inductive_cases turnstile_stepE: "turnstile_step X T t t'"

section \<open>The invariant\<close>

definition entry_ok ::
  "externals \<Rightarrow> turnstile_codecs \<Rightarrow> nat \<Rightarrow> string \<Rightarrow> pending_entry \<Rightarrow> bool" where
  "entry_ok X T n h e \<longleftrightarrow>
     compute_hash X T (pe_prev_hash e) (payload_json e) = Inr h \<and> pe_status e \<noteq> Committed \<and>
     (pe_status e = Pending \<longrightarrow> retry_count e \<le> n)"

definition turnstile_inv :: "externals \<Rightarrow> turnstile_codecs \<Rightarrow> string \<Rightarrow> turnstile \<Rightarrow> bool" where
  "turnstile_inv X T h0 t \<longleftrightarrow>
     distinct (map fst (pending t)) \<and>
     (\<forall>h e. map_of (pending t) h = Some e \<longrightarrow> entry_ok X T (max_retries t) h e) \<and>
     (prev_leaf_hash t = h0 \<or> prev_leaf_hash t \<in> committed t) \<and>
     oe_leaf_hash ` set (orphans t) \<union> se_leaf_hash ` set (successes t) \<subseteq> committed t"

lemma invD:
  assumes "turnstile_inv X T h0 t"
  shows "distinct (map fst (pending t))"
    and "map_of (pending t) h = Some e \<Longrightarrow> entry_ok X T (max_retries t) h e"
  using assms by (simp_all add: turnstile_inv_def)

lemma inv_commit:
  "turnstile_inv X T h0 t \<Longrightarrow> turnstile_inv X T h0 (commit_log_leaf h t)"
  by (auto simp: turnstile_inv_def commit_log_leaf_def)

lemma inv_dequeue: "turnstile_inv X T h0 t \<Longrightarrow> turnstile_inv X T h0 (remove_entry h t)"
  by (simp add: turnstile_inv_def remove_entry_def)

lemma inv_set:
  "turnstile_inv X T h0 t \<Longrightarrow> entry_ok X T (max_retries t) h e \<Longrightarrow> turnstile_inv X T h0 (set_entry h e t)"
  by (auto simp: turnstile_inv_def set_entry_def)

lemma inv_persist: "turnstile_inv X T h0 t \<Longrightarrow> turnstile_inv X T h0 (snd (persist_state T t))"
  by (simp add: turnstile_inv_def persist_state_def split: option.split)

lemma inv_log_orphan:
  "turnstile_inv X T h0 t \<Longrightarrow> turnstile_inv X T h0 (snd (log_orphan_leaf X T h msg ts t))"
  by (auto simp: turnstile_inv_def log_orphan_leaf_def commit_log_leaf_def split: sum.split)

lemma inv_log_success:
  "turnstile_inv X T h0 t \<Longrightarrow> turnstile_inv X T h0 (snd (log_success_leaf X T h ts t))"
  by (auto simp: turnstile_inv_def log_success_leaf_def commit_log_leaf_def split: sum.split)

lemma inv_try_then:
  assumes "turnstile_inv X T h0 (snd r)"
    and "\<And>x s. r = (Inr x, s) \<Longrightarrow> turnstile_inv X T h0 (snd (k x s))"
  shows "turnstile_inv X T h0 (snd (try_then r k))"
  using assms by (cases r) (auto simp: try_then_def split: sum.split)

lemma inv_append:
  assumes "turnstile_inv X T h0 t"
  shows "turnstile_inv X T h0 (snd (turnstile_append X T payload ts t))"
proof (cases "compute_hash X T (prev_leaf_hash t) payload")
  case (Inl e)
  with assms show ?thesis by (simp add: turnstile_append_def)
next
  case (Inr h)
  let ?e = "pending_entry_new (prev_leaf_hash t) payload ts"
  have "entry_ok X T (max_retries t) h ?e" using Inr by (simp add: entry_ok_def pending_entry_new_def)
  then have I: "turnstile_inv X T h0 (set_entry h ?e t)" by (rule inv_set[OF assms])
  have "turnstile_inv X T h0 (snd (try_then (persist_state T (set_entry h ?e t)) (\<lambda>_ t. (Inr h, t))))"
  proof (rule inv_try_then)
    show "turnstile_inv X T h0 (snd (persist_state T (set_entry h ?e t)))" by (rule inv_persist[OF I])
    then show "persist_state T (set_entry h ?e t) = (Inr x, s) \<Longrightarrow> turnstile_inv X T h0 (snd (Inr h, s))" for x s
      by simp
  qed
  then show ?thesis using Inr by (simp add: turnstile_append_def set_entry_def)
qed

lemma rejected_entry_ok: "entry_ok X T n h e \<Longrightarrow> entry_ok X T n h (rejected_entry n msg e)"
  by (auto simp: entry_ok_def rejected_entry_def Let_def split: option.split)

lemma inv_confirm:
  assumes "turnstile_inv X T h0 t"
  shows "turnstile_inv X T h0 (snd (confirm_ticket X T h status msg t))"
proof (cases "map_of (pending t) h")
  case None
  with assms show ?thesis by (simp add: confirm_ticket_def)
next
  case (Some e)
  note E = invD(2)[OF assms Some]
  define e3 where "e3 = rejected_entry (max_retries t) msg e"
  have "entry_ok X T (max_retries t) h e3"
    using E unfolding e3_def by (rule rejected_entry_ok)
  then have I: "turnstile_inv X T h0 (set_entry h e3 t)" by (rule inv_set[OF assms])
  let ?log = "case msg of None \<Rightarrow> (Inr (), set_entry h e3 t)
    | Some m \<Rightarrow> log_orphan_leaf X T h m (pe_timestamp e3) (set_entry h e3 t)"
  have L: "turnstile_inv X T h0 (snd ?log)"
    using I inv_log_orphan[OF I] by (auto split: option.split)
  have "turnstile_inv X T h0 (snd (try_then ?log (\<lambda>_ t. persist_state T t)))"
  proof (rule inv_try_then[OF L])
    fix x s assume "?log = (Inr x, s)"
    with L have "turnstile_inv X T h0 s" by (metis snd_conv)
    then show "turnstile_inv X T h0 (snd (persist_state T s))" by (rule inv_persist)
  qed
  moreover have "turnstile_inv X T h0 (snd (persist_state T (commit_log_leaf h (remove_entry h t))))"
    by (intro inv_persist inv_commit inv_dequeue assms)
  ultimately show ?thesis
    using Some assms unfolding e3_def by (simp add: confirm_ticket_def Let_def)
qed

lemma first_min_in: "first_min f xs = Some x \<Longrightarrow> x \<in> set xs"
  by (induction xs arbitrary: x) (auto split: option.splits if_splits)

lemma first_min_None: "first_min f xs = None \<longleftrightarrow> xs = []"
  by (induction xs) (auto split: option.splits)

lemma oldest_entry:
  assumes "turnstile_inv X T h0 t" and "oldest_pending t = Some (h, e)"
  shows "map_of (pending t) h = Some e" and "pe_status e = Pending"
    and "entry_ok X T (max_retries t) h e"
proof -
  have "(h, e) \<in> set (pending t)" and p: "pe_status e = Pending"
    using first_min_in[OF assms(2)[unfolded oldest_pending_def]] by auto
  then show m: "map_of (pending t) h = Some e" using invD(1)[OF assms(1)] by simp
  show "pe_status e = Pending" by (rule p)
  show "entry_ok X T (max_retries t) h e" by (rule invD(2)[OF assms(1) m])
qed

lemma failed_retry_ok: "entry_ok X T n h e \<Longrightarrow> entry_ok X T n h (failed_retry n e)"
  by (auto simp: entry_ok_def failed_retry_def Let_def)

lemma inv_retry:
  assumes "turnstile_inv X T h0 t"
  shows "turnstile_inv X T h0 (snd (retry_next_pending X T callback t))"
proof (cases "oldest_pending t")
  case None
  with assms show ?thesis by (simp add: retry_next_pending_def)
next
  case (Some he)
  obtain h e where he: "he = (h, e)" by (cases he)
  note O = oldest_entry[OF assms Some[unfolded he]]
  then have c: "compute_hash X T (pe_prev_hash e) (payload_json e) = Inr h" by (simp add: entry_ok_def)
  have I: "turnstile_inv X T h0 (set_entry h (failed_retry (max_retries t) e) t)"
    by (rule inv_set[OF assms failed_retry_ok[OF O(3)]])
  have C: "turnstile_inv X T h0 (commit_log_leaf h (remove_entry h t))"
    by (intro inv_commit inv_dequeue assms)
  have persisted: "turnstile_inv X T h0 s" if "turnstile_inv X T h0 u" "persist_state T u = (r, s)" for u r s
    using inv_persist[OF that(1)] that(2) by simp
  have "turnstile_inv X T h0 (snd (try_then (persist_state T (commit_log_leaf h (remove_entry h t)))
      (\<lambda>_ t. try_then (log_success_leaf X T h (pe_timestamp e) t) (\<lambda>_ t. (Inr (0 :: int), t)))))"
  proof (rule inv_try_then[OF inv_persist[OF C]])
    fix x s assume "persist_state T (commit_log_leaf h (remove_entry h t)) = (Inr x, s)"
    with C have s: "turnstile_inv X T h0 s" by (rule persisted)
    show "turnstile_inv X T h0 (snd (try_then (log_success_leaf X T h (pe_timestamp e) s) (\<lambda>_ t. (Inr (0 :: int), t))))"
      by (rule inv_try_then) (use inv_log_success[OF s, of h "pe_timestamp e"] in auto)
  qed
  moreover have "turnstile_inv X T h0 (snd (try_then
      (log_orphan_leaf X T h ''retry failed'' (pe_timestamp e) (set_entry h (failed_retry (max_retries t) e) t))
      (\<lambda>_ t. try_then (persist_state T t) (\<lambda>_ t. (Inr v, t)))))" for v :: int
  proof (rule inv_try_then[OF inv_log_orphan[OF I]])
    fix x s
    assume "log_orphan_leaf X T h ''retry failed'' (pe_timestamp e)
      (set_entry h (failed_retry (max_retries t) e) t) = (Inr x, s)"
    then have s: "turnstile_inv X T h0 s" using inv_log_orphan[OF I] by (metis snd_conv)
    show "turnstile_inv X T h0 (snd (try_then (persist_state T s) (\<lambda>_ t. (Inr v, t))))"
      by (rule inv_try_then) (use inv_persist[OF s] in auto)
  qed
  ultimately show ?thesis
    using Some he c assms by (simp add: retry_next_pending_def Let_def)
qed

lemma inv_reachable:
  assumes "turnstile_reachable X T t0 t" and "turnstile_inv X T h0 t0"
  shows "turnstile_inv X T h0 t"
  using assms
proof (induction rule: turnstile_reachable.induct)
  case (step t t')
  from step.hyps(2) step.IH[OF step.prems] show ?case
    by cases (simp_all add: inv_append inv_confirm inv_retry)
qed

section \<open>Retries that fail\<close>

text \<open>The number of failing retries an entry survives, and those the whole queue does.\<close>

definition entry_work :: "nat \<Rightarrow> pending_entry \<Rightarrow> nat" where
  "entry_work n e = (if pe_status e = Pending then max 1 (n - retry_count e) else 0)"

definition retry_work :: "turnstile \<Rightarrow> nat" where
  "retry_work t = sum_list (map (\<lambda>(h, e). entry_work (max_retries t) e) (pending t))"

lemma entry_work_failed:
  "pe_status e = Pending \<Longrightarrow> entry_work n (failed_retry n e) + 1 = entry_work n e"
  by (auto simp: entry_work_def failed_retry_def Let_def max_def)

lemma sum_list_update:
  assumes "map_of xs h = Some e" and "distinct (map fst xs)"
  shows "sum_list (map f (AList.update h e' xs)) + f (h, e) = sum_list (map f xs) + (f (h, e') :: nat)"
  using assms by (induction xs) (auto split: if_splits)

lemma retry_work_set:
  assumes "map_of (pending t) h = Some e" and "distinct (map fst (pending t))"
  shows "retry_work (set_entry h e' t) + entry_work (max_retries t) e =
    retry_work t + entry_work (max_retries t) e'"
  using sum_list_update[OF assms, of "\<lambda>(h, e). entry_work (max_retries t) e" e']
  by (simp add: retry_work_def set_entry_def)

lemma retry_work_zero: "retry_work t = 0 \<longleftrightarrow> oldest_pending t = None"
  unfolding retry_work_def oldest_pending_def first_min_None
  by (auto simp: filter_empty_conv entry_work_def)

text \<open>What a retry needs of its surroundings not to fail with an error.\<close>

definition codecs_total :: "externals \<Rightarrow> turnstile_codecs \<Rightarrow> bool" where
  "codecs_total X T \<longleftrightarrow>
     (\<forall>j. case json_to_vec X j of None \<Rightarrow> False | Some b \<Rightarrow> json_parses X b) \<and>
     (\<forall>bs. hex_decode T (hex_encode T bs) = Some bs) \<and> (\<forall>s. state_to_vec T s \<noteq> None)"

definition retryable :: "externals \<Rightarrow> turnstile_codecs \<Rightarrow> string \<Rightarrow> turnstile \<Rightarrow> bool" where
  "retryable X T h0 t \<longleftrightarrow>
     turnstile_inv X T h0 t \<and> hex_decode T (prev_leaf_hash t) \<noteq> None \<and>
     (\<forall>p. storage_path t = Some p \<longrightarrow> \<not> state_denied t p) \<and> max_retries t + 1 < 2 ^ 32"

lemma persist_ok:
  assumes "codecs_total X T" and "\<forall>p. storage_path t = Some p \<longrightarrow> \<not> state_denied t p"
  shows "fst (persist_state T t) = Inr ()"
proof -
  obtain d where "state_to_vec T (persisted_of t) = Some d"
    using assms(1) unfolding codecs_total_def by blast
  with assms(2) show ?thesis by (simp add: persist_state_def split: option.split)
qed

lemma persist_same:
  "pending (snd (persist_state T t)) = pending t"
  "max_retries (snd (persist_state T t)) = max_retries t"
  "prev_leaf_hash (snd (persist_state T t)) = prev_leaf_hash t"
  "storage_path (snd (persist_state T t)) = storage_path t"
  "state_denied (snd (persist_state T t)) = state_denied t"
  "committed (snd (persist_state T t)) = committed t"
  "orphans (snd (persist_state T t)) = orphans t"
  "successes (snd (persist_state T t)) = successes t"
  "log_orphans (snd (persist_state T t)) = log_orphans t"
  by (simp_all add: persist_state_def split: option.split)

lemma log_orphan_ok:
  assumes "codecs_total X T" and "hex_decode T (prev_leaf_hash t) \<noteq> None"
  shows "fst (log_orphan_leaf X T h msg ts t) = Inr ()"
    and "hex_decode T (prev_leaf_hash (snd (log_orphan_leaf X T h msg ts t))) \<noteq> None"
proof -
  let ?j = "JObject [(''error_msg'', JString msg), (''orig_hash'', JString h),
    (''timestamp'', JNumber (dec_digits ts)), (''type'', JString ''orphan'')]"
  have "case json_to_vec X ?j of None \<Rightarrow> False | Some b \<Rightarrow> json_parses X b"
    using assms(1) unfolding codecs_total_def by blast
  then obtain b where b: "json_to_vec X ?j = Some b" "json_parses X b" by (auto split: option.splits)
  obtain raw where raw: "hex_decode T (prev_leaf_hash t) = Some raw" using assms(2) by auto
  have dec: "hex_decode T (hex_encode T bs) = Some bs" for bs using assms(1) by (simp add: codecs_total_def)
  show "fst (log_orphan_leaf X T h msg ts t) = Inr ()"
    using b raw by (simp add: log_orphan_leaf_def json_text_def compute_hash_def)
  show "hex_decode T (prev_leaf_hash (snd (log_orphan_leaf X T h msg ts t))) \<noteq> None"
    using b raw dec by (simp add: log_orphan_leaf_def json_text_def compute_hash_def commit_log_leaf_def)
qed

lemma log_orphan_same:
  "pending (snd (log_orphan_leaf X T h msg ts t)) = pending t"
  "max_retries (snd (log_orphan_leaf X T h msg ts t)) = max_retries t"
  "storage_path (snd (log_orphan_leaf X T h msg ts t)) = storage_path t"
  "state_denied (snd (log_orphan_leaf X T h msg ts t)) = state_denied t"
  by (simp_all add: log_orphan_leaf_def commit_log_leaf_def split: sum.split)

lemma failing_retry:
  assumes total: "codecs_total X T" and R: "retryable X T h0 t"
    and fails: "\<forall>p b h. callback p b h \<noteq> 1" and work: "retry_work t \<noteq> 0"
  shows "fst (retry_next_pending X T callback t) \<in> {Inr 1, Inr 2}"
    and "retryable X T h0 (snd (retry_next_pending X T callback t))"
    and "retry_work (snd (retry_next_pending X T callback t)) + 1 = retry_work t"
proof -
  have I: "turnstile_inv X T h0 t" using R by (simp add: retryable_def)
  obtain h e where o: "oldest_pending t = Some (h, e)" using work retry_work_zero[of t] by auto
  note O = oldest_entry[OF I o]
  have c: "compute_hash X T (pe_prev_hash e) (payload_json e) = Inr h" and "retry_count e \<le> max_retries t"
    using O(2,3) by (simp_all add: entry_ok_def)
  then have small: "retry_count e < 4294967295" using R by (simp add: retryable_def)
  define t1 where "t1 = set_entry h (failed_retry (max_retries t) e) t"
  define t2 where "t2 = snd (log_orphan_leaf X T h ''retry failed'' (pe_timestamp e) t1)"
  have t1: "max_retries t1 = max_retries t" "storage_path t1 = storage_path t"
    "state_denied t1 = state_denied t" "prev_leaf_hash t1 = prev_leaf_hash t"
    by (simp_all add: t1_def set_entry_def)
  have head: "hex_decode T (prev_leaf_hash t1) \<noteq> None" using R by (simp add: t1 retryable_def)
  note L = log_orphan_ok[OF total head, of h "''retry failed''" "pe_timestamp e"]
  note same = log_orphan_same[of X T h "''retry failed''" "pe_timestamp e" t1, folded t2_def]
  have "\<forall>p. storage_path t2 = Some p \<longrightarrow> \<not> state_denied t2 p"
    using R by (simp add: same t1 retryable_def)
  then have P: "fst (persist_state T t2) = Inr ()" by (rule persist_ok[OF total])
  have log: "log_orphan_leaf X T h ''retry failed'' (pe_timestamp e) t1 = (Inr (), t2)"
    unfolding t2_def using L(1) by (metis prod.collapse)
  obtain t3 where persist: "persist_state T t2 = (Inr (), t3)"
    using P by (cases "persist_state T t2") simp
  have run: "\<exists>code \<in> {1, 2}. retry_next_pending X T callback t = (Inr code, t3)"
    using o c fails small log persist
    by (simp add: retry_next_pending_def Let_def t1_def[symmetric])
  then show "fst (retry_next_pending X T callback t) \<in> {Inr 1, Inr 2}" by auto
  have fin: "snd (retry_next_pending X T callback t) = t3" using run by auto
  note kept = persist_same[of T t2, unfolded persist snd_conv]
  have "turnstile_inv X T h0 t3" using inv_retry[OF I, of callback] fin by simp
  then show "retryable X T h0 (snd (retry_next_pending X T callback t))"
    using R L(2) by (simp add: fin retryable_def kept same t1 t2_def[symmetric])
  have "retry_work t1 + 1 = retry_work t"
    using retry_work_set[OF O(1) invD(1)[OF I], of "failed_retry (max_retries t) e"]
      entry_work_failed[OF O(2), of "max_retries t"] by (simp add: t1_def)
  then show "retry_work (snd (retry_next_pending X T callback t)) + 1 = retry_work t"
    by (simp add: fin retry_work_def kept same)
qed

lemma failing_retries:
  assumes total: "codecs_total X T" and fails: "\<forall>p b h. callback p b h \<noteq> 1"
  shows "retryable X T h0 t \<Longrightarrow> k \<le> retry_work t \<Longrightarrow>
    (let t' = ((\<lambda>t. snd (retry_next_pending X T callback t)) ^^ k) t
     in retryable X T h0 t' \<and> retry_work t' = retry_work t - k)"
proof (induction k)
  case (Suc k)
  let ?t = "((\<lambda>t. snd (retry_next_pending X T callback t)) ^^ k) t"
  have "retryable X T h0 ?t" and w: "retry_work ?t = retry_work t - k"
    using Suc by (simp_all add: Let_def)
  moreover have "retry_work ?t \<noteq> 0" using w Suc.prems(2) by simp
  ultimately show ?case
    using failing_retry[OF total _ fails, of h0 ?t] Suc.prems(2) by (simp add: Let_def)
qed (simp add: Let_def)

section \<open>Restart\<close>

definition restart :: "turnstile_codecs \<Rightarrow> string \<Rightarrow> turnstile \<Rightarrow> turnstile" where
  "restart T h0 t =
     turnstile_new_with_storage T h0 (max_retries t) (storage_path t) (log_orphans t)
       (state_files t) (state_denied t)"

text \<open>Equal up to the iteration order of the pending map.\<close>

definition same_state :: "turnstile \<Rightarrow> turnstile \<Rightarrow> bool" where
  "same_state t u \<longleftrightarrow> map_of (pending t) = map_of (pending u) \<and> t\<lparr>pending := []\<rparr> = u\<lparr>pending := []\<rparr>"

definition state_roundtrip :: "turnstile_codecs \<Rightarrow> bool" where
  "state_roundtrip T \<longleftrightarrow>
     (\<forall>s d. state_to_vec T s = Some d \<longrightarrow>
        (\<exists>ps. state_from_slice T d = Some (s\<lparr>ps_pending := ps\<rparr>) \<and> map_of ps = map_of (ps_pending s)))"

lemma persisted_restarts:
  assumes "state_roundtrip T" and "storage_path t = Some p" and "persist_state T t = (Inr (), t')"
  shows "same_state (restart T h0 t') t'"
proof -
  obtain d where d: "state_to_vec T (persisted_of t) = Some d" and t': "t' = t\<lparr>state_files := (state_files t)(p \<mapsto> d)\<rparr>"
    using assms(2,3) by (auto simp: persist_state_def split: if_splits option.splits)
  then obtain ps where "state_from_slice T d = Some ((persisted_of t)\<lparr>ps_pending := ps\<rparr>)"
    and "map_of ps = map_of (pending t)"
    using assms(1) unfolding state_roundtrip_def by (fastforce simp: persisted_of_def)
  then show ?thesis
    using assms(2)
    by (simp add: t' restart_def turnstile_new_with_storage_def load_state_def same_state_def persisted_of_def)
qed

section \<open>Properties\<close>

lemma inv_fresh:
  "(\<And>p. path = Some p \<Longrightarrow> fs p = None) \<Longrightarrow>
    turnstile_inv X T h0 (turnstile_new_with_storage T h0 n path lo fs denied)"
  by (simp add: turnstile_new_with_storage_def load_state_def turnstile_inv_def split: option.split)

lemma retry_not_mismatch:
  assumes "turnstile_inv X T h0 t"
  shows "fst (retry_next_pending X T callback t) \<noteq> Inr (- 2)"
proof (cases "oldest_pending t")
  case None
  then show ?thesis by (simp add: retry_next_pending_def)
next
  case (Some he)
  obtain h e where he: "he = (h, e)" by (cases he)
  have c: "compute_hash X T (pe_prev_hash e) (payload_json e) = Inr h"
    using oldest_entry(3)[OF assms Some[unfolded he]] by (simp add: entry_ok_def)
  have no: "fst (try_then r (\<lambda>_ u. try_then (k u) (\<lambda>_ u. (Inr v, u)))) \<noteq> Inr (- 2)"
    if "v \<noteq> - 2" for r :: "(cj_error + unit) \<times> turnstile" and k :: "turnstile \<Rightarrow> (cj_error + unit) \<times> turnstile"
      and v :: int
    using that by (auto simp: try_then_def split: sum.split prod.split)
  show ?thesis using Some he c no by (simp add: retry_next_pending_def Let_def)
qed

text \<open>A codec for the closed instances: a hash is its bytes as characters.\<close>

definition sample_turnstile_codecs :: turnstile_codecs where
  "sample_turnstile_codecs =
     \<lparr>hex_encode = map (\<lambda>b. char_of (unat b)), hex_decode = (\<lambda>s. Some (str_bytes s)),
      state_to_vec = (\<lambda>_. Some []), state_from_slice = (\<lambda>_. None)\<rparr>"

definition sample_turnstile :: turnstile where
  "sample_turnstile = turnstile_new sample_turnstile_codecs [] 3 (\<lambda>_. None) (\<lambda>_. False)"

text \<open>
  C21: in every state reachable from a new turnstile by appends, confirmations and
  retries, failed ones included, every ticket is the hash of the payload and predecessor
  of its entry, no pending entry has status committed, the head of the chain is the
  initial hash or in the set of committed leaves, every logged orphan and success leaf is in
  that set, and a retry never reports a hash mismatch. The directory holds no state file when
  the turnstile is made.
\<close>

theorem turnstile_tickets_are_hashes:
  assumes "turnstile_reachable X T (turnstile_new_with_storage T h0 n path lo fs denied) t"
    and "\<And>p. path = Some p \<Longrightarrow> fs p = None"
  shows "(\<forall>(h, e) \<in> set (pending t).
            compute_hash X T (pe_prev_hash e) (payload_json e) = Inr h \<and> pe_status e \<noteq> Committed) \<and>
         (latest_leaf_hash t = h0 \<or> latest_leaf_hash t \<in> committed t) \<and>
         (\<forall>ev \<in> set (orphan_events t). oe_leaf_hash ev \<in> committed t) \<and>
         (\<forall>ev \<in> set (success_events t). se_leaf_hash ev \<in> committed t) \<and>
         fst (retry_next_pending X T callback t) \<noteq> Inr (- 2)"
proof (intro conjI)
  have I: "turnstile_inv X T h0 t" by (rule inv_reachable[OF assms(1) inv_fresh[OF assms(2)]])
  have "map_of (pending t) h = Some e" if "(h, e) \<in> set (pending t)" for h e
    using that invD(1)[OF I] by simp
  then show "\<forall>(h, e) \<in> set (pending t).
      compute_hash X T (pe_prev_hash e) (payload_json e) = Inr h \<and> pe_status e \<noteq> Committed"
    using invD(2)[OF I] by (fastforce simp: entry_ok_def)
  show "latest_leaf_hash t = h0 \<or> latest_leaf_hash t \<in> committed t"
    and "\<forall>ev \<in> set (orphan_events t). oe_leaf_hash ev \<in> committed t"
    and "\<forall>ev \<in> set (success_events t). se_leaf_hash ev \<in> committed t"
    using I by (auto simp: turnstile_inv_def latest_leaf_hash_def orphan_events_def success_events_def)
  show "fst (retry_next_pending X T callback t) \<noteq> Inr (- 2)" by (rule retry_not_mismatch[OF I])
qed

definition sample_turnstile_externals :: externals where
  "sample_turnstile_externals = sample_externals\<lparr>json_to_vec := \<lambda>_. Some [1]\<rparr>"

lemma sample_turnstile_new:
  "sample_turnstile = turnstile_new_with_storage sample_turnstile_codecs [] 3 None True (\<lambda>_. None) (\<lambda>_. False)"
  by (simp add: sample_turnstile_def turnstile_new_def)

definition sample_appended :: turnstile where
  "sample_appended = snd (turnstile_append sample_turnstile_externals sample_turnstile_codecs [97] 7 sample_turnstile)"

lemma sample_appended_pending:
  "pending sample_appended = [(''a'', pending_entry_new [] [97] 7)]"
  by (simp add: sample_appended_def sample_turnstile_def turnstile_new_def turnstile_new_with_storage_def
      load_state_def turnstile_append_def compute_hash_def sample_turnstile_codecs_def sample_turnstile_externals_def sample_externals_def
      sha256_hash_concat_def str_bytes_def persist_state_def char_of_def bit_numeral_rec bit_Suc_0_iff)

lemma sample_appended_reachable:
  "turnstile_reachable sample_turnstile_externals sample_turnstile_codecs
     (turnstile_new_with_storage sample_turnstile_codecs [] 3 None True (\<lambda>_. None) (\<lambda>_. False)) sample_appended"
  unfolding sample_appended_def sample_turnstile_new[symmetric]
  by (rule turnstile_reachable.step[OF turnstile_reachable.start turnstile_step.append])

theorem turnstile_tickets_are_hashes_witness:
  "compute_hash sample_turnstile_externals sample_turnstile_codecs [] [97] = Inr ''a'' \<and>
   pending_count sample_appended = 1"
proof -
  have "(''a'', pending_entry_new [] [97] 7) \<in> set (pending sample_appended)"
    by (simp add: sample_appended_pending)
  then have "compute_hash sample_turnstile_externals sample_turnstile_codecs [] [97] = Inr ''a''"
    using turnstile_tickets_are_hashes[OF sample_appended_reachable] by (fastforce simp: pending_entry_new_def)
  then show ?thesis by (simp add: pending_count_def sample_appended_pending pending_entry_new_def)
qed

text \<open>
  C22: from every reachable state, retrying with a callback that never reports success
  ends: exactly \<open>retry_work\<close> retries report failure (code 1, or 2 when an entry is given
  up), and every later one reports that nothing is pending. The number is the sum over the
  pending entries of the retries each has left, at least one each. It needs that the logged
  leaves serialise, hashes decode, the state file can be written and counters do not wrap.
\<close>

theorem failing_retries_drain_queue:
  assumes "turnstile_reachable X T (turnstile_new_with_storage T h0 n path lo fs denied) t"
    and "\<And>p. path = Some p \<Longrightarrow> fs p = None"
    and "codecs_total X T" and "hex_decode T (latest_leaf_hash t) \<noteq> None"
    and "\<And>p. storage_path t = Some p \<Longrightarrow> \<not> state_denied t p" and "max_retries t + 1 < 2 ^ 32"
    and "\<And>p b h. callback p b h \<noteq> 1"
  shows "fst (retry_next_pending X T callback (((\<lambda>t. snd (retry_next_pending X T callback t)) ^^ k) t))
           \<in> (if k < retry_work t then {Inr 1, Inr 2} else {Inr (- 1)})"
proof -
  let ?retry = "\<lambda>t. snd (retry_next_pending X T callback t)"
  have R: "retryable X T h0 t"
    using inv_reachable[OF assms(1) inv_fresh[OF assms(2)]] assms(4,5,6)
    by (simp add: retryable_def latest_leaf_hash_def)
  have fails: "\<forall>p b h. callback p b h \<noteq> 1" using assms(7) by simp
  show ?thesis
  proof (cases "k < retry_work t")
    case True
    then have "retryable X T h0 ((?retry ^^ k) t)" "retry_work ((?retry ^^ k) t) \<noteq> 0"
      using failing_retries[where callback = callback and k = k, OF assms(3) fails R] by (simp_all add: Let_def)
    from failing_retry(1)[OF assms(3) this(1) fails this(2)] True show ?thesis by simp
  next
    case False
    define t' where "t' = (?retry ^^ retry_work t) t"
    have "retry_work t' = 0"
      using failing_retries[where callback = callback and k = "retry_work t", OF assms(3) fails R]
      by (simp add: Let_def t'_def)
    then have stop: "retry_next_pending X T callback t' = (Inr (- 1), t')"
      by (simp add: retry_work_zero retry_next_pending_def)
    then have "(?retry ^^ j) t' = t'" for j by (induction j) simp_all
    moreover have "(?retry ^^ k) t = (?retry ^^ (k - retry_work t)) t'"
      using False by (simp add: t'_def funpow_add[symmetric, THEN fun_cong, unfolded comp_def])
    ultimately show ?thesis using False stop by simp
  qed
qed

lemma of_char_char_of_unat: "of_char (char_of (unat b)) = (b :: byte)"
proof -
  have "unat b < 256" using unsigned_less[of b] by simp
  then have "of_nat (of_char (char_of (unat b))) = (of_nat (unat b) :: byte)" by (simp only: of_char_of mod_less)
  moreover have "of_nat (unat b) = b" by simp
  ultimately show ?thesis by (simp only: of_nat_of_char)
qed

lemma sample_codecs_total: "codecs_total sample_turnstile_externals sample_turnstile_codecs"
  by (simp add: codecs_total_def sample_turnstile_externals_def sample_externals_def sample_turnstile_codecs_def str_bytes_def
      of_char_char_of_unat comp_def)

theorem failing_retries_drain_queue_witness:
  "let retry = retry_next_pending sample_turnstile_externals sample_turnstile_codecs (\<lambda>_ _ _. 0)
   in fst (retry (((\<lambda>t. snd (retry t)) ^^ 2) sample_appended)) \<in> {Inr 1, Inr 2} \<and>
      fst (retry (((\<lambda>t. snd (retry t)) ^^ 3) sample_appended)) = Inr (- 1)"
proof -
  have n: "max_retries sample_appended = 3" "storage_path sample_appended = None"
    by (simp_all add: sample_appended_def sample_turnstile_def turnstile_new_def turnstile_new_with_storage_def
        load_state_def turnstile_append_def compute_hash_def sample_turnstile_codecs_def sample_turnstile_externals_def sample_externals_def
        persist_state_def)
  then have w: "retry_work sample_appended = 3"
    by (simp add: retry_work_def sample_appended_pending entry_work_def pending_entry_new_def)
  have h: "hex_decode sample_turnstile_codecs (latest_leaf_hash sample_appended) \<noteq> None"
    by (simp add: sample_turnstile_codecs_def)
  note D = failing_retries_drain_queue[OF sample_appended_reachable _ sample_codecs_total h, where callback = "\<lambda>_ _ _. 0"]
  show ?thesis using D[of 2] D[of 3] n w by (simp add: Let_def)
qed

text \<open>What a successful operation wrote last is the state it leaves.\<close>

definition written :: "turnstile_codecs \<Rightarrow> turnstile \<Rightarrow> turnstile \<Rightarrow> bool" where
  "written T t t' \<longleftrightarrow> (\<exists>u. storage_path u = storage_path t \<and> persist_state T u = (Inr (), t'))"

lemma written_restart:
  assumes "state_roundtrip T" and "storage_path t = Some p" and "written T t t'"
  shows "same_state (restart T h0 t') t'"
  using assms(2,3) persisted_restarts[OF assms(1)] unfolding written_def by auto

lemma written_append:
  assumes "fst (turnstile_append X T payload ts t) = Inr h"
  shows "written T t (snd (turnstile_append X T payload ts t))"
proof -
  obtain k where k: "compute_hash X T (prev_leaf_hash t) payload = Inr k"
    using assms by (auto simp: turnstile_append_def split: sum.splits)
  let ?u = "t\<lparr>pending := AList.update k (pending_entry_new (prev_leaf_hash t) payload ts) (pending t)\<rparr>"
  obtain r t' where p: "persist_state T ?u = (r, t')" by (cases "persist_state T ?u")
  have "r = Inr ()" using assms k p by (cases r) (simp_all add: turnstile_append_def)
  then have "written T t t'" using p unfolding written_def by (intro exI[of _ ?u]) simp
  then show ?thesis using k p \<open>r = Inr ()\<close> by (simp add: turnstile_append_def)
qed

lemma written_confirm:
  assumes "fst (confirm_ticket X T h status msg t) = Inr ()"
  shows "written T t (snd (confirm_ticket X T h status msg t))"
proof -
  obtain e where e: "map_of (pending t) h = Some e"
    using assms by (auto simp: confirm_ticket_def split: option.splits)
  show ?thesis
  proof (cases status)
    case True
    then show ?thesis
      using assms e unfolding written_def
      by (intro exI[of _ "commit_log_leaf h (remove_entry h t)"])
        (simp add: confirm_ticket_def commit_log_leaf_def remove_entry_def prod_eq_iff)
  next
    case False
    define t1 where "t1 = set_entry h (rejected_entry (max_retries t) msg e) t"
    define r where "r = (case msg of None \<Rightarrow> (Inr (), t1)
      | Some m \<Rightarrow> log_orphan_leaf X T h m (pe_timestamp (rejected_entry (max_retries t) msg e)) t1)"
    have path: "storage_path (snd r) = storage_path t"
      by (simp add: r_def t1_def set_entry_def log_orphan_same split: option.split)
    have run: "confirm_ticket X T h status msg t = try_then r (\<lambda>_ t. persist_state T t)"
      using assms e False unfolding r_def t1_def by (simp add: confirm_ticket_def Let_def split: if_splits)
    obtain u where r: "r = (Inr (), u)" using assms unfolding run by (cases r; cases "fst r") auto
    then show ?thesis
      using assms path unfolding written_def run r by (intro exI[of _ u]) (simp add: prod_eq_iff)
  qed
qed

lemma written_retry:
  assumes "fst (retry_next_pending X T callback t) \<in> {Inr 1, Inr 2}"
  shows "written T t (snd (retry_next_pending X T callback t))"
proof -
  obtain h e where o: "oldest_pending t = Some (h, e)"
    using assms by (auto simp: retry_next_pending_def split: option.splits)
  define t1 where "t1 = set_entry h (failed_retry (max_retries t) e) t"
  let ?r = "log_orphan_leaf X T h ''retry failed'' (pe_timestamp e) t1"
  have no: "fst (try_then r (\<lambda>_ u. try_then (k u) (\<lambda>_ u. (Inr (0 :: int), u)))) \<notin> {Inr 1, Inr 2}"
    for r :: "(cj_error + unit) \<times> turnstile" and k :: "turnstile \<Rightarrow> (cj_error + unit) \<times> turnstile"
    by (auto simp: try_then_def split: sum.split prod.split)
  obtain code :: int where run: "retry_next_pending X T callback t =
      try_then ?r (\<lambda>_ t. try_then (persist_state T t) (\<lambda>_ t. (Inr code, t)))"
    using assms o no by (auto simp: retry_next_pending_def Let_def t1_def[symmetric] split: sum.splits if_splits)
  obtain v w where r: "?r = (v, w)" by (cases ?r)
  obtain x t' where p: "persist_state T w = (x, t')" by (cases "persist_state T w")
  have v: "v = Inr ()" using assms run r by (cases v) auto
  have x: "x = Inr ()" using assms run r p v by (cases x) auto
  have "storage_path w = storage_path t"
    using log_orphan_same(3)[of X T h "''retry failed''" "pe_timestamp e" t1] r
    by (simp add: t1_def set_entry_def)
  then show ?thesis using run r p v x unfolding written_def by (intro exI[of _ w]) simp
qed

text \<open>
  C23: a restart from the state file recovers the turnstile. After every successful append
  and confirmation, and after every retry that reports a failed attempt, the turnstile
  made from the same path holds the same head, pending entries, committed leaves and
  events, given that reading the state file back inverts writing it.
\<close>

theorem restart_recovers_state:
  assumes "state_roundtrip T" and "storage_path t = Some p"
  shows "(fst (turnstile_append X T payload ts t) = Inr h \<longrightarrow>
            same_state (restart T h0 (snd (turnstile_append X T payload ts t)))
              (snd (turnstile_append X T payload ts t))) \<and>
         (fst (confirm_ticket X T h status msg t) = Inr () \<longrightarrow>
            same_state (restart T h0 (snd (confirm_ticket X T h status msg t)))
              (snd (confirm_ticket X T h status msg t))) \<and>
         (fst (retry_next_pending X T callback t) \<in> {Inr 1, Inr 2} \<longrightarrow>
            same_state (restart T h0 (snd (retry_next_pending X T callback t)))
              (snd (retry_next_pending X T callback t)))"
  using written_restart[OF assms] written_append written_confirm written_retry by simp

definition one_state_codecs :: "persisted_state \<Rightarrow> turnstile_codecs" where
  "one_state_codecs s = sample_turnstile_codecs
     \<lparr>state_to_vec := \<lambda>s'. if s' = s then Some [1] else None, state_from_slice := \<lambda>_. Some s\<rparr>"

lemma one_state_roundtrip: "state_roundtrip (one_state_codecs s)"
proof -
  have "\<exists>ps. s = s\<lparr>ps_pending := ps\<rparr> \<and> map_of ps = map_of (ps_pending s)"
    by (rule exI[of _ "ps_pending s"]) simp
  then show ?thesis by (simp add: state_roundtrip_def one_state_codecs_def)
qed

lemmas sample_turnstile_defs =
  turnstile_new_with_storage_def load_state_def compute_hash_def one_state_codecs_def
  sample_turnstile_codecs_def sample_turnstile_externals_def sample_externals_def sha256_hash_concat_def
  str_bytes_def persist_state_def persisted_of_def char_of_def bit_numeral_rec bit_Suc_0_iff

definition sample_state_codecs :: turnstile_codecs where
  "sample_state_codecs = one_state_codecs
     \<lparr>ps_prev_leaf_hash = [], ps_pending = [(''a'', pending_entry_new [] [97] 7)], ps_committed = {},
      ps_orphans = [], ps_successes = []\<rparr>"

lemma sample_state_roundtrip: "state_roundtrip sample_state_codecs"
  by (simp add: sample_state_codecs_def one_state_roundtrip)

theorem restart_recovers_state_witness:
  "let t = turnstile_new_with_storage sample_state_codecs [] 3 (Some ''t'') True (\<lambda>_. None) (\<lambda>_. False);
       t' = snd (turnstile_append sample_turnstile_externals sample_state_codecs [97] 7 t)
   in same_state (restart sample_state_codecs [] t') t' \<and> leaf_exists t' ''a''"
proof -
  let ?T = sample_state_codecs
  let ?t = "turnstile_new_with_storage ?T [] 3 (Some ''t'') True (\<lambda>_. None) (\<lambda>_. False)"
  have run: "turnstile_append sample_turnstile_externals ?T [97] 7 ?t =
      (Inr ''a'', ?t\<lparr>pending := [(''a'', pending_entry_new [] [97] 7)], state_files := [''t'' \<mapsto> [1]]\<rparr>)"
    by (simp add: turnstile_append_def sample_state_codecs_def sample_turnstile_defs)
  have path: "storage_path ?t = Some ''t''"
    by (simp add: turnstile_new_with_storage_def load_state_def)
  from restart_recovers_state[OF sample_state_roundtrip path, of sample_turnstile_externals "[97]" 7 "''a''" "[]"] run
  show ?thesis by (simp add: Let_def leaf_exists_def)
qed

text \<open>
  The leaf that records a successful retry is not in the state file. The retry writes
  the file before it logs the success, so after a restart the head of the chain is the
  ticket and the last success event is gone, although the live turnstile had committed it.
\<close>

theorem success_leaf_lost_at_restart:
  assumes "state_roundtrip T" and "storage_path t = Some p" and "log_orphans t"
    and "retry_next_pending X T callback t = (Inr 0, t')"
  shows "\<exists>h ev. leaf_exists t h \<and> success_events t' = success_events t @ [ev] \<and> se_orig_hash ev = h \<and>
           latest_leaf_hash t' = se_leaf_hash ev \<and>
           latest_leaf_hash (restart T h0 t') = h \<and> success_events (restart T h0 t') = success_events t"
proof -
  have no: "try_then r (\<lambda>_ u. try_then (k u) (\<lambda>_ u. (Inr (v :: int), u))) \<noteq> (Inr 0, t')" if "v \<noteq> 0"
    for r :: "(cj_error + unit) \<times> turnstile" and k :: "turnstile \<Rightarrow> (cj_error + unit) \<times> turnstile" and v
    using that by (auto simp: try_then_def split: sum.split prod.split)
  obtain h e where o: "oldest_pending t = Some (h, e)"
    using assms(4) by (auto simp: retry_next_pending_def split: option.splits)
  let ?u = "commit_log_leaf h (remove_entry h t)"
  have run: "try_then (persist_state T ?u) (\<lambda>_ t.
      try_then (log_success_leaf X T h (pe_timestamp e) t) (\<lambda>_ t. (Inr (0 :: int), t))) = (Inr 0, t')"
    using assms(4) o no by (simp add: retry_next_pending_def Let_def split: sum.splits if_splits)
  obtain w where w: "persist_state T ?u = (Inr (), w)" and l: "log_success_leaf X T h (pe_timestamp e) w = (Inr (), t')"
    using run by (auto elim!: try_then_InrE)
  have path: "storage_path ?u = Some p" using assms(2) by (simp add: commit_log_leaf_def remove_entry_def)
  have "same_state (restart T h0 w) w" by (rule persisted_restarts[OF assms(1) path w])
  then have W: "latest_leaf_hash (restart T h0 w) = latest_leaf_hash w"
    "success_events (restart T h0 w) = success_events w"
    by (auto simp: same_state_def latest_leaf_hash_def success_events_def dest: arg_cong[of _ _ prev_leaf_hash]
        arg_cong[of _ _ successes])
  note kept = persist_same[of T ?u, unfolded w snd_conv]
  have on: "log_orphans w" and s: "successes w = successes t" and p: "prev_leaf_hash w = h"
    using assms(3) by (simp_all add: kept commit_log_leaf_def remove_entry_def)
  obtain k where t': "t' = (commit_log_leaf k w)\<lparr>successes := successes w @
      [\<lparr>se_leaf_hash = k, se_orig_hash = h, se_timestamp = pe_timestamp e\<rparr>]\<rparr>"
    using l on by (auto simp: log_success_leaf_def split: sum.splits)
  have "restart T h0 t' = restart T h0 w" by (simp add: t' restart_def commit_log_leaf_def)
  moreover have "map_of (pending t) h \<noteq> None"
    using first_min_in[OF o[unfolded oldest_pending_def]] by (auto dest: weak_map_of_SomeI)
  ultimately show ?thesis
    using W s p
    by (intro exI[of _ h] exI[of _ "\<lparr>se_leaf_hash = k, se_orig_hash = h, se_timestamp = pe_timestamp e\<rparr>"])
      (simp add: leaf_exists_def t' latest_leaf_hash_def success_events_def commit_log_leaf_def)
qed

definition sample_retry_codecs :: turnstile_codecs where
  "sample_retry_codecs = one_state_codecs
     \<lparr>ps_prev_leaf_hash = ''a'', ps_pending = [], ps_committed = {''a''}, ps_orphans = [], ps_successes = []\<rparr>"

lemma sample_retry_roundtrip: "state_roundtrip sample_retry_codecs"
  by (simp add: sample_retry_codecs_def one_state_roundtrip)

theorem success_leaf_lost_at_restart_witness:
  "let t = (turnstile_new_with_storage sample_retry_codecs [] 3 (Some ''t'') True (\<lambda>_. None) (\<lambda>_. False))
             \<lparr>pending := [(''a'', pending_entry_new [] [97] 7)]\<rparr>;
       (r, t') = retry_next_pending sample_turnstile_externals sample_retry_codecs (\<lambda>_ _ _. 1) t
   in r = Inr 0 \<and> length (success_events t') = 1 \<and>
      success_events (restart sample_retry_codecs [] t') = []"
proof -
  let ?t = "(turnstile_new_with_storage sample_retry_codecs [] 3 (Some ''t'') True (\<lambda>_. None) (\<lambda>_. False))
             \<lparr>pending := [(''a'', pending_entry_new [] [97] 7)]\<rparr>"
  have start: "storage_path ?t = Some ''t''" "log_orphans ?t" "success_events ?t = []"
    by (simp_all add: turnstile_new_with_storage_def load_state_def success_events_def)
  obtain t' where run: "retry_next_pending sample_turnstile_externals sample_retry_codecs (\<lambda>_ _ _. 1) ?t = (Inr 0, t')"
    by (simp add: retry_next_pending_def oldest_pending_def pending_entry_new_def commit_log_leaf_def
        remove_entry_def log_success_leaf_def json_text_def sample_retry_codecs_def sample_turnstile_defs)
  show ?thesis
    using success_leaf_lost_at_restart[OF sample_retry_roundtrip start(1,2) run, of "[]"]
      run start(3) by (auto simp: Let_def)
qed

text \<open>
  The chain of committed leaves can fork. Two payloads appended before either is
  confirmed get tickets over the same predecessor; both can be confirmed, and then the head
  of the chain is a committed leaf whose recorded predecessor is not the leaf committed
  before it.
\<close>

theorem siblings_both_commit:
  assumes "storage_path t = None" and "map_of (pending t) h2 = None" and "h1 \<noteq> h2"
    and "turnstile_append X T p1 ts1 t = (Inr h1, t1)"
    and "turnstile_append X T p2 ts2 t1 = (Inr h2, t2)"
    and "confirm_ticket X T h1 True None t2 = (r3, t3)"
    and "confirm_ticket X T h2 True None t3 = (r4, t4)"
  shows "r3 = Inr () \<and> r4 = Inr () \<and> committed t4 = committed t \<union> {h1, h2} \<and>
         latest_leaf_hash t3 = h1 \<and> latest_leaf_hash t4 = h2 \<and>
         map_option pe_prev_hash (map_of (pending t3) h2) = Some (latest_leaf_hash t) \<and>
         compute_hash X T (latest_leaf_hash t) p2 = Inr h2"
proof -
  have h1: "compute_hash X T (prev_leaf_hash t) p1 = Inr h1"
    and t1: "t1 = set_entry h1 (pending_entry_new (prev_leaf_hash t) p1 ts1) t"
    using assms(1,4) by (auto simp: turnstile_append_def persist_state_def set_entry_def split: sum.splits)
  have h2: "compute_hash X T (prev_leaf_hash t) p2 = Inr h2"
    and t2: "t2 = set_entry h2 (pending_entry_new (prev_leaf_hash t) p2 ts2) t1"
    using assms(1,5) by (auto simp: t1 turnstile_append_def persist_state_def set_entry_def split: sum.splits)
  have t3: "r3 = Inr ()" "t3 = commit_log_leaf h1 (remove_entry h1 t2)"
    using assms(1,3,6) by (auto simp: t2 t1 confirm_ticket_def persist_state_def set_entry_def
        commit_log_leaf_def remove_entry_def)
  have "r4 = Inr ()" "t4 = commit_log_leaf h2 (remove_entry h2 t3)"
    using assms(1,3,7) by (auto simp: t3 t2 t1 confirm_ticket_def persist_state_def set_entry_def
        commit_log_leaf_def remove_entry_def)
  then show ?thesis
    using h2 assms(3)
    by (auto simp: t3 t2 t1 latest_leaf_hash_def commit_log_leaf_def remove_entry_def set_entry_def
        pending_entry_new_def)
qed

theorem siblings_both_commit_witness:
  "\<exists>t1 t2 t3 t4. turnstile_append sample_turnstile_externals sample_turnstile_codecs [97] 1 sample_turnstile = (Inr ''a'', t1) \<and>
     turnstile_append sample_turnstile_externals sample_turnstile_codecs [99] 2 t1 = (Inr ''c'', t2) \<and>
     confirm_ticket sample_turnstile_externals sample_turnstile_codecs ''a'' True None t2 = (Inr (), t3) \<and>
     confirm_ticket sample_turnstile_externals sample_turnstile_codecs ''c'' True None t3 = (Inr (), t4) \<and>
     committed t4 = {''a'', ''c''}"
proof -
  note defs = sample_turnstile_def turnstile_new_def turnstile_append_def sample_turnstile_defs
  obtain t1 where 1: "turnstile_append sample_turnstile_externals sample_turnstile_codecs [97] 1 sample_turnstile = (Inr ''a'', t1)"
    by (simp add: defs)
  then have p: "prev_leaf_hash t1 = []" "storage_path t1 = None" by (auto simp: defs)
  obtain t2 where 2: "turnstile_append sample_turnstile_externals sample_turnstile_codecs [99] 2 t1 = (Inr ''c'', t2)"
    by (simp add: defs p)
  obtain r3 t3 where 3: "confirm_ticket sample_turnstile_externals sample_turnstile_codecs ''a'' True None t2 = (r3, t3)"
    by (cases "confirm_ticket sample_turnstile_externals sample_turnstile_codecs ''a'' True None t2")
  obtain r4 t4 where 4: "confirm_ticket sample_turnstile_externals sample_turnstile_codecs ''c'' True None t3 = (r4, t4)"
    by (cases "confirm_ticket sample_turnstile_externals sample_turnstile_codecs ''c'' True None t3")
  have "storage_path sample_turnstile = None" "map_of (pending sample_turnstile) ''c'' = None" "committed sample_turnstile = {}"
    by (simp_all add: defs)
  with siblings_both_commit[OF this(1,2) _ 1 2 3 4] 1 2 3 4 show ?thesis by auto
qed

end
