(* ===== verification/Config_Validation.thy ===== *)
theory Config_Validation
  imports Time_Manager File_Storage
begin

text \<open>
  Loading and validating the configuration: \<open>src/config/mod.rs\<close>, \<open>src/config/validation.rs\<close>
  and the initialisation of \<open>src/lib.rs\<close>.

  Validation probes the file system. The operating system is the record \<open>os_env\<close>: its
  answers may depend on the calls made so far, which are the state of the validators, so
  nothing is assumed of it. A path is the pair of its root flag and its components, with
  the normalisation of \<open>std::path\<close>. TOML parsing, URL parsing and the compile-time
  features are parameters; log output is not modelled.
\<close>

section \<open>Paths\<close>

type_synonym os_path = "bool \<times> string list"

fun split_on :: "char \<Rightarrow> string \<Rightarrow> string list" where
  "split_on c [] = [[]]"
| "split_on c (x # xs) =
     (if x = c then [] # split_on c xs
      else case split_on c xs of [] \<Rightarrow> [[x]] | w # ws \<Rightarrow> (x # w) # ws)"

definition plain_parts :: "string list \<Rightarrow> string list" where
  "plain_parts ws = filter (\<lambda>w. w \<noteq> [] \<and> w \<noteq> ''.'') ws"

text \<open>\<open>Path::components\<close>: a dot is kept only at the head of a relative path.\<close>

definition parse_path :: "string \<Rightarrow> os_path" where
  "parse_path s =
     (let ws = split_on (CHR ''/'') s; root = starts_with s ''/''
      in if \<not> root \<and> hd ws = ''.'' then (False, ''.'' # plain_parts (tl ws))
         else (root, plain_parts ws))"

definition path_is_empty :: "os_path \<Rightarrow> bool" where
  "path_is_empty p \<longleftrightarrow> p = (False, [])"

definition path_parent :: "os_path \<Rightarrow> os_path option" where
  "path_parent p = (if snd p = [] then None else Some (fst p, butlast (snd p)))"

definition path_join :: "os_path \<Rightarrow> os_path \<Rightarrow> os_path" where
  "path_join p q =
     (if fst q \<or> path_is_empty p then q else (fst p, snd p @ plain_parts (snd q)))"

section \<open>The operating system\<close>

datatype fs_call =
    CreateFile os_path
  | RemoveFile os_path
  | CreateDirAll os_path
  | RemoveDir os_path
  | OpenAppend os_path

datatype metadata_result = IsDir | IsNotDir | MetaNotFound | MetaError

record os_env =
  os_metadata :: "fs_call list \<Rightarrow> os_path \<Rightarrow> metadata_result"
  os_exists :: "fs_call list \<Rightarrow> os_path \<Rightarrow> bool"
  os_succeeds :: "fs_call list \<Rightarrow> fs_call \<Rightarrow> bool"
  os_current_dir :: "os_path option"

record build_env =
  url_parses :: "string \<Rightarrow> bool"
  zstd_feature :: bool
  lz4_feature :: bool
  snappy_feature :: bool

type_synonym check = "(cj_error + unit) \<times> fs_call list"

definition perform :: "os_env \<Rightarrow> fs_call \<Rightarrow> fs_call list \<Rightarrow> bool \<times> fs_call list" where
  "perform E c tr = (os_succeeds E tr c, tr @ [c])"

definition invalid_value :: "string \<Rightarrow> cj_error" where
  "invalid_value field = ConfigError (InvalidValue field)"

section \<open>The validators\<close>

definition validate_existing_dir :: "os_env \<Rightarrow> os_path \<Rightarrow> fs_call list \<Rightarrow> check" where
  "validate_existing_dir E p tr =
     (let test_file = path_join p (parse_path ''.civicjournal_test'');
          (ok, tr) = perform E (CreateFile test_file) tr
      in if ok then (Inr (), snd (perform E (RemoveFile test_file) tr))
         else (Inl (invalid_value ''storage.base_path''), tr))"

definition validate_missing_dir :: "os_env \<Rightarrow> os_path \<Rightarrow> fs_call list \<Rightarrow> check" where
  "validate_missing_dir E p tr =
     (case path_parent p of
        None \<Rightarrow> (Inr (), tr)
      | Some parent \<Rightarrow>
          if \<not> os_exists E tr parent then (Inl (invalid_value ''storage.base_path''), tr)
          else
            let (ok, tr) = perform E (CreateDirAll p) tr
            in if ok then (Inr (), snd (perform E (RemoveDir p) tr))
               else (Inl (invalid_value ''storage.base_path''), tr))"

definition validate_base_path :: "os_env \<Rightarrow> storage_config \<Rightarrow> fs_call list \<Rightarrow> check" where
  "validate_base_path E s tr =
     (if base_path s = [] then (Inl (invalid_value ''storage.base_path''), tr)
      else
        let p = parse_path (base_path s)
        in case os_metadata E tr p of
             IsDir \<Rightarrow> validate_existing_dir E p tr
           | IsNotDir \<Rightarrow> (Inl (invalid_value ''storage.base_path''), tr)
           | MetaNotFound \<Rightarrow> validate_missing_dir E p tr
           | MetaError \<Rightarrow> (Inl (invalid_value ''storage.base_path''), tr))"

definition validate_storage_config :: "os_env \<Rightarrow> storage_config \<Rightarrow> fs_call list \<Rightarrow> check" where
  "validate_storage_config E s tr =
     try_then (if storage_type s = FileType then validate_base_path E s tr else (Inr (), tr)) (\<lambda>_ tr.
       if max_open_files s < 10 then (Inl (invalid_value ''storage.max_open_files''), tr)
       else (Inr (), tr))"

definition validate_compression_config :: "compression_config \<Rightarrow> cj_error + unit" where
  "validate_compression_config c =
     (if \<not> compression_enabled c then Inr ()
      else case algorithm c of
        Zstd \<Rightarrow> if compression_level c < 1 \<or> 22 < compression_level c
                then Inl (invalid_value ''compression.level'') else Inr ()
      | Lz4 \<Rightarrow> if compression_level c < 1 \<or> 12 < compression_level c
               then Inl (invalid_value ''compression.level'') else Inr ()
      | Snappy \<Rightarrow> Inr ()
      | NoCompression \<Rightarrow> Inr ())"

definition validate_log_dir :: "os_env \<Rightarrow> os_path \<Rightarrow> fs_call list \<Rightarrow> check" where
  "validate_log_dir E abs_log_path tr =
     (case path_parent abs_log_path of
        None \<Rightarrow> (Inr (), tr)
      | Some parent \<Rightarrow>
          if \<not> os_exists E tr parent then (Inl (invalid_value ''logging.file_path''), tr)
          else
            let test_file = path_join parent (parse_path ''.civicjournal_test_write'');
                (ok, tr) = perform E (CreateFile test_file) tr
            in if \<not> ok then (Inl (invalid_value ''logging.file_path''), tr)
               else (Inr (), snd (perform E (RemoveFile test_file) tr)))"

definition validate_log_file :: "os_env \<Rightarrow> string \<Rightarrow> fs_call list \<Rightarrow> check" where
  "validate_log_file E path tr =
     (let log_path = parse_path path
      in case (if fst log_path then Some log_path
               else map_option (\<lambda>d. path_join d log_path) (os_current_dir E)) of
           None \<Rightarrow> (Inl (ConfigError ConfigIo), tr)
         | Some abs_log_path \<Rightarrow>
             try_then (validate_log_dir E abs_log_path tr) (\<lambda>_ tr.
               let (ok, tr) = perform E (OpenAppend abs_log_path) tr
               in if ok then (Inr (), tr) else (Inl (invalid_value ''logging.file_path''), tr)))"

definition validate_logging_config :: "os_env \<Rightarrow> logging_config \<Rightarrow> fs_call list \<Rightarrow> check" where
  "validate_logging_config E c tr =
     (if \<not> console c \<and> \<not> log_file c then (Inr (), tr)
      else if log_file c then
        if file_path c = [] then (Inl (ConfigError (MissingValue ''logging.file_path'')), tr)
        else validate_log_file E (file_path c) tr
      else (Inr (), tr))"

definition validate_metrics_config :: "build_env \<Rightarrow> metrics_config \<Rightarrow> cj_error + unit" where
  "validate_metrics_config F c =
     (if \<not> metrics_enabled c then Inr ()
      else if push_interval_seconds c = 0 then Inl (ConfigError ValidationError)
      else if endpoint c \<noteq> [] \<and> \<not> url_parses F (endpoint c)
      then Inl (invalid_value ''metrics.endpoint'')
      else Inr ())"

definition validate_retention_config :: "retention_config \<Rightarrow> cj_error + unit" where
  "validate_retention_config c =
     (if \<not> retention_enabled c then Inr ()
      else if cleanup_interval_seconds c = 0 then Inl (ConfigError ValidationError)
      else if 0 < period_seconds c \<and> period_seconds c < cleanup_interval_seconds c
      then Inl (ConfigError ValidationError)
      else Inr ())"

definition validate_cross_section :: "build_env \<Rightarrow> config \<Rightarrow> cj_error + unit" where
  "validate_cross_section F cfg =
     (if storage_type (storage_cfg cfg) = FileType then
        (case algorithm (compression_cfg cfg) of
           Zstd \<Rightarrow> if zstd_feature F then Inr () else Inl (ConfigError ValidationError)
         | Lz4 \<Rightarrow> if lz4_feature F then Inr () else Inl (ConfigError ValidationError)
         | Snappy \<Rightarrow> if snappy_feature F then Inr () else Inl (ConfigError ValidationError)
         | NoCompression \<Rightarrow> Inr ())
      else Inr ())"

text \<open>
  The loop over the levels: \<open>i\<close> is the index, \<open>names\<close> the set of names seen and \<open>prev\<close>
  the duration of the level before.
\<close>

definition level_field :: "nat \<Rightarrow> string \<Rightarrow> cj_error" where
  "level_field i f = invalid_value (''time_hierarchy.levels['' @ dec_digits i @ ''].'' @ f)"

fun validate_levels :: "nat \<Rightarrow> string set \<Rightarrow> nat option \<Rightarrow> time_level list \<Rightarrow> cj_error + unit" where
  "validate_levels i names prev [] = Inr ()"
| "validate_levels i names prev (lc # lcs) =
     (if level_name lc \<in> names then Inl (ConfigError ValidationError)
      else if duration_seconds lc = 0 then Inl (level_field i ''duration_seconds'')
      else if (case prev of None \<Rightarrow> False | Some d \<Rightarrow> duration_seconds lc \<le> d)
      then Inl (level_field i ''duration_seconds'')
      else if max_items_per_page (rollup_config lc) = 0
      then Inl (level_field i ''rollup_config.max_items_per_page'')
      else if as_i64 (int (max_page_age_seconds (rollup_config lc))) < 0
      then Inl (level_field i ''rollup_config.max_page_age_seconds'')
      else validate_levels (i + 1) (insert (level_name lc) names) (Some (duration_seconds lc)) lcs)"

definition validate_time_hierarchy :: "time_level list \<Rightarrow> cj_error + unit" where
  "validate_time_hierarchy ls =
     (if ls = [] then Inl (ConfigError ValidationError) else validate_levels 0 {} None ls)"

definition validate_config :: "os_env \<Rightarrow> build_env \<Rightarrow> config \<Rightarrow> fs_call list \<Rightarrow> check" where
  "validate_config E F cfg tr =
     try_then (validate_time_hierarchy (levels cfg), tr) (\<lambda>_ tr.
     try_then (validate_storage_config E (storage_cfg cfg) tr) (\<lambda>_ tr.
     try_then (validate_compression_config (compression_cfg cfg), tr) (\<lambda>_ tr.
     try_then (validate_logging_config E (logging_cfg cfg) tr) (\<lambda>_ tr.
     try_then (validate_metrics_config F (metrics_cfg cfg), tr) (\<lambda>_ tr.
     try_then (validate_retention_config (retention_cfg cfg), tr) (\<lambda>_ tr.
       (validate_cross_section F cfg, tr)))))))"

section \<open>Loading\<close>

definition config_validate ::
  "os_env \<Rightarrow> build_env \<Rightarrow> config \<Rightarrow> fs_call list \<Rightarrow> (config_error + unit) \<times> fs_call list" where
  "config_validate E F cfg tr =
     (case validate_config E F cfg tr of
        (Inr _, tr) \<Rightarrow> (Inr (), tr)
      | (Inl (ConfigError e), tr) \<Rightarrow> (Inl e, tr)
      | (Inl _, tr) \<Rightarrow> (Inl OtherConfigError, tr))"

text \<open>\<open>str::trim\<close> leaves nothing of a string of white space (ASCII range).\<close>

definition is_blank :: "string \<Rightarrow> bool" where
  "is_blank s \<longleftrightarrow> list_all (\<lambda>c. c \<in> {CHR 0x09, CHR 0x0A, CHR 0x0B, CHR 0x0C, CHR 0x0D, CHR 0x20}) s"

definition is_level_var :: "string \<times> string \<Rightarrow> bool" where
  "is_level_var kv \<longleftrightarrow>
     starts_with (fst kv) ''CJ_'' \<and> \<not> is_blank (snd kv) \<and>
     to_lowercase (drop 3 (fst kv)) = ''logging_level''"

definition set_log_level :: "log_level \<Rightarrow> config \<Rightarrow> config" where
  "set_log_level l cfg = cfg\<lparr>logging_cfg := (logging_cfg cfg)\<lparr>logging_level := l\<rparr>\<rparr>"

text \<open>The loop over \<open>env::vars()\<close>, which stops at the first value that does not parse.\<close>

fun apply_env_vars :: "(string \<times> string) list \<Rightarrow> config \<Rightarrow> (config_error + unit) \<times> config" where
  "apply_env_vars [] cfg = (Inr (), cfg)"
| "apply_env_vars (kv # env) cfg =
     (if is_level_var kv then
        (case log_level_from_str (snd kv) of
           None \<Rightarrow> (Inl (InvalidValue ''logging.level''), cfg)
         | Some l \<Rightarrow> apply_env_vars env (set_log_level l cfg))
      else apply_env_vars env cfg)"

datatype read_result = ReadOk string | ReadNotFound | ReadFailed

text \<open>\<open>read\<close> is the answer of reading the file, \<open>parse\<close> the TOML parser.\<close>

definition config_load ::
  "os_env \<Rightarrow> build_env \<Rightarrow> (string \<Rightarrow> config option) \<Rightarrow> read_result \<Rightarrow> (string \<times> string) list \<Rightarrow>
    fs_call list \<Rightarrow> (config_error + config) \<times> fs_call list" where
  "config_load E F parse read env tr =
     (case read of
        ReadOk config_str \<Rightarrow>
          (case parse config_str of
             None \<Rightarrow> (Inl ValidationError, tr)
           | Some cfg \<Rightarrow>
               (case apply_env_vars env cfg of
                  (Inl e, _) \<Rightarrow> (Inl e, tr)
                | (Inr _, cfg) \<Rightarrow> try_then (config_validate E F cfg tr) (\<lambda>_ tr. (Inr cfg, tr))))
      | ReadNotFound \<Rightarrow>
          (case apply_env_vars env default_config of
             (Inl e, _) \<Rightarrow> (Inl e, tr)
           | (Inr _, cfg) \<Rightarrow> (Inr cfg, tr))
      | ReadFailed \<Rightarrow> (Inl FileNotFound, tr))"

section \<open>Initialisation\<close>

text \<open>
  The process state of \<open>src/lib.rs\<close>: the cell \<open>CONFIG\<close> and whether a logger is installed
  (installing a second one fails). The result is the configuration \<open>init\<close> returns.
\<close>

record process_state =
  config_cell :: "config option"
  logger_installed :: bool
  fs_trace :: "fs_call list"

definition init_config ::
  "os_env \<Rightarrow> build_env \<Rightarrow> (string \<Rightarrow> config option) \<Rightarrow> read_result \<Rightarrow> (string \<times> string) list \<Rightarrow>
    fs_call list \<Rightarrow> config \<times> fs_call list" where
  "init_config E F parse read env tr =
     (case config_load E F parse read env tr of
        (Inr cfg, tr) \<Rightarrow> (cfg, tr)
      | (Inl _, tr) \<Rightarrow> (snd (apply_env_vars env default_config), tr))"

definition init_logging :: "process_state \<Rightarrow> (cj_error + unit) \<times> process_state" where
  "init_logging s =
     (if logger_installed s then (Inl cj_error_new, s) else (Inr (), s\<lparr>logger_installed := True\<rparr>))"

definition cj_init ::
  "os_env \<Rightarrow> build_env \<Rightarrow> (string \<Rightarrow> config option) \<Rightarrow> read_result \<Rightarrow> (string \<times> string) list \<Rightarrow>
    process_state \<Rightarrow> (cj_error + config) \<times> process_state" where
  "cj_init E F parse read env s =
     (let (cfg, tr) = init_config E F parse read env (fs_trace s)
      in try_then (init_logging (s\<lparr>fs_trace := tr\<rparr>)) (\<lambda>_ s.
           case config_cell s of
             Some c \<Rightarrow> (Inr c, s)
           | None \<Rightarrow> (Inr cfg, s\<lparr>config_cell := Some cfg\<rparr>)))"

definition cj_config :: "process_state \<Rightarrow> cj_error + config" where
  "cj_config s = (case config_cell s of None \<Rightarrow> Inl Panicked | Some c \<Rightarrow> Inr c)"

end
