(* ===== verification/Config_Properties.thy ===== *)
theory Config_Properties
  imports Config_Validation
begin

text \<open>
  What loading a configuration guarantees: which level lists validation accepts, that an
  accepted configuration within the machine bounds is one the journal can run on, how the
  environment overrides the log level, and a base path that is refused although it could
  be created.
\<close>

section \<open>The level list\<close>

definition level_fields_ok :: "time_level \<Rightarrow> bool" where
  "level_fields_ok lc \<longleftrightarrow>
     0 < duration_seconds lc \<and> 0 < max_items_per_page (rollup_config lc) \<and>
     0 \<le> as_i64 (int (max_page_age_seconds (rollup_config lc)))"

lemma validate_levels_iff:
  "validate_levels i names prev ls = Inr () \<longleftrightarrow>
     distinct (map level_name ls) \<and> names \<inter> level_name ` set ls = {} \<and>
     sorted_wrt (<) ((case prev of None \<Rightarrow> [] | Some d \<Rightarrow> [d]) @ map duration_seconds ls) \<and>
     (\<forall>lc\<in>set ls. level_fields_ok lc)"
proof (induction ls arbitrary: i names prev)
  case Nil
  then show ?case by (simp split: option.split)
next
  case (Cons lc lcs)
  have "sorted_wrt (<) ((case prev of None \<Rightarrow> [] | Some d \<Rightarrow> [d]) @ map duration_seconds (lc # lcs)) \<longleftrightarrow>
      \<not> (case prev of None \<Rightarrow> False | Some d \<Rightarrow> duration_seconds lc \<le> d) \<and>
      sorted_wrt (<) (duration_seconds lc # map duration_seconds lcs)"
    by (cases prev) (auto intro: less_trans)
  then show ?case
    using Cons.IH[of "i + 1" "insert (level_name lc) names" "Some (duration_seconds lc)"]
    by (auto simp: level_fields_ok_def level_field_def)
qed

text \<open>The bounds of the machine integers validation does not check.\<close>

definition level_bounds :: "config \<Rightarrow> bool" where
  "level_bounds cfg \<longleftrightarrow> length (levels cfg) \<le> 255 \<and>
     (\<forall>lc\<in>set (levels cfg). duration_seconds lc \<le> 9223372036 \<and>
        max_items_per_page (rollup_config lc) < 2 ^ 32)"

lemma validated_config_ok:
  assumes "validate_time_hierarchy (levels cfg) = Inr ()" and "level_bounds cfg"
  shows "config_ok cfg"
proof -
  have "levels cfg \<noteq> []" and "\<forall>lc\<in>set (levels cfg). level_fields_ok lc"
    using assms(1) validate_levels_iff[of 0 "{}" None "levels cfg"]
    by (auto simp: validate_time_hierarchy_def split: if_splits)
  with assms(2) show ?thesis by (auto simp: config_ok_def level_bounds_def level_ok_def level_fields_ok_def)
qed

lemma default_hierarchy_valid: "validate_time_hierarchy (levels default_config) = Inr ()"
  by (simp add: validate_time_hierarchy_def default_config_defs as_i64_def)

section \<open>The environment\<close>

lemma set_log_level_levels [simp]: "levels (set_log_level l cfg) = levels cfg"
  by (simp add: set_log_level_def)

lemma apply_env_levels: "levels (snd (apply_env_vars env cfg)) = levels cfg"
  by (induction env cfg rule: apply_env_vars.induct) (auto split: option.split)

text \<open>The values of the level variables, in the order of the environment.\<close>

definition level_values :: "(string \<times> string) list \<Rightarrow> string list" where
  "level_values env = map snd (filter is_level_var env)"

definition parsed_levels :: "(string \<times> string) list \<Rightarrow> log_level list" where
  "parsed_levels env =
     map (the \<circ> log_level_from_str) (takeWhile (\<lambda>v. log_level_from_str v \<noteq> None) (level_values env))"

lemma set_log_level_twice [simp]: "set_log_level l (set_log_level k cfg) = set_log_level l cfg"
  by (simp add: set_log_level_def)

lemma apply_env_vars_spec:
  "apply_env_vars env cfg =
     (if \<forall>v\<in>set (level_values env). log_level_from_str v \<noteq> None then Inr ()
      else Inl (InvalidValue ''logging.level''),
      case rev (parsed_levels env) of [] \<Rightarrow> cfg | l # _ \<Rightarrow> set_log_level l cfg)"
proof (induction env arbitrary: cfg)
  case Nil
  then show ?case by (simp add: level_values_def parsed_levels_def)
next
  case (Cons kv env)
  show ?case
  proof (cases "is_level_var kv")
    case False
    then show ?thesis using Cons.IH by (simp add: level_values_def parsed_levels_def)
  next
    case level: True
    show ?thesis
    proof (cases "log_level_from_str (snd kv)")
      case None
      with level show ?thesis by (simp add: level_values_def parsed_levels_def)
    next
      case (Some l)
      have v: "level_values (kv # env) = snd kv # level_values env"
        and p: "parsed_levels (kv # env) = l # parsed_levels env"
        using level Some by (simp_all add: level_values_def parsed_levels_def)
      show ?thesis
        using level Some Cons.IH[of "set_log_level l cfg"]
        by (cases "rev (parsed_levels env)") (simp_all add: v p)
    qed
  qed
qed

section \<open>Properties\<close>

text \<open>
  C25: a configuration that loads is well formed. Its level list is non-empty, with
  distinct names, strictly increasing positive durations, positive page sizes and page ages
  that are non-negative as signed numbers; and if it also stays within the machine bounds
  that validation does not check, the manager's operations are defined on it.
\<close>

theorem loaded_config_is_well_formed:
  assumes "config_load E F parse read env tr = (Inr cfg, tr')"
  shows "levels cfg \<noteq> [] \<and> distinct (map level_name (levels cfg)) \<and>
         sorted_wrt (<) (map duration_seconds (levels cfg)) \<and>
         (\<forall>lc\<in>set (levels cfg). 0 < duration_seconds lc \<and> 0 < max_items_per_page (rollup_config lc) \<and>
            0 \<le> as_i64 (int (max_page_age_seconds (rollup_config lc)))) \<and>
         (level_bounds cfg \<longrightarrow> config_ok cfg)"
proof -
  have valid: "validate_time_hierarchy (levels cfg) = Inr ()"
  proof (cases read)
    case (ReadOk s)
    then obtain tr1 where "config_validate E F cfg tr = (Inr (), tr1)"
      using assms by (auto simp: config_load_def elim!: try_then_InrE split: option.splits prod.splits sum.splits)
    then show ?thesis
      by (auto simp: config_validate_def validate_config_def
          split: prod.splits sum.splits cj_error.splits elim!: try_then_InrE)
  next
    case ReadNotFound
    then have "cfg = snd (apply_env_vars env default_config)"
      using assms by (auto simp: config_load_def split: prod.splits sum.splits)
    then show ?thesis using default_hierarchy_valid by (simp add: apply_env_levels)
  next
    case ReadFailed
    with assms show ?thesis by (simp add: config_load_def)
  qed
  then have "levels cfg \<noteq> []" and "validate_levels 0 {} None (levels cfg) = Inr ()"
    by (auto simp: validate_time_hierarchy_def split: if_splits)
  with validated_config_ok[OF valid] show ?thesis by (simp add: validate_levels_iff level_fields_ok_def)
qed

definition silent_os :: os_env where
  "silent_os = \<lparr>os_metadata = \<lambda>_ _. MetaNotFound, os_exists = \<lambda>_ p. \<not> path_is_empty p,
     os_succeeds = \<lambda>_ _. True, os_current_dir = None\<rparr>"

definition all_features :: build_env where
  "all_features = \<lparr>url_parses = \<lambda>_. True, zstd_feature = True, lz4_feature = True, snappy_feature = True\<rparr>"

theorem loaded_config_is_well_formed_witness:
  "config_ok default_config \<and>
   config_load silent_os all_features (\<lambda>_. Some default_config) (ReadOk []) [] [] =
     (Inr default_config, [CreateDirAll (False, [''.'', ''data'']), RemoveDir (False, [''.'', ''data''])])"
proof -
  have p: "parse_path ''./data'' = (False, [''.'', ''data''])"
    by (simp add: parse_path_def starts_with_def plain_parts_def)
  have load: "config_load silent_os all_features (\<lambda>_. Some default_config) (ReadOk []) [] [] =
     (Inr default_config, [CreateDirAll (False, [''.'', ''data'']), RemoveDir (False, [''.'', ''data''])])"
    using default_hierarchy_valid
    by (simp add: config_load_def config_validate_def validate_config_def validate_storage_config_def
        validate_base_path_def validate_missing_dir_def validate_compression_config_def
        validate_logging_config_def validate_metrics_config_def validate_retention_config_def
        validate_cross_section_def default_config_def default_storage_config_def
        default_compression_config_def default_logging_config_def default_metrics_config_def
        default_retention_config_def p path_parent_def path_is_empty_def perform_def silent_os_def
        all_features_def Let_def)
  have "level_bounds default_config" by (simp add: level_bounds_def default_config_defs)
  with loaded_config_is_well_formed[OF load] load show ?thesis by simp
qed

text \<open>
  The environment overrides the log level and nothing else. The overrides succeed
  exactly when every non-blank \<open>CJ_LOGGING_LEVEL\<close> variable, compared without case, names a
  level; the configuration then has the last of these levels, and an error leaves it with
  the last one before the bad value.
\<close>

theorem environment_sets_log_level:
  "apply_env_vars env cfg =
     (if \<forall>v\<in>set (level_values env). log_level_from_str v \<noteq> None then Inr ()
      else Inl (InvalidValue ''logging.level''),
      case rev (parsed_levels env) of [] \<Rightarrow> cfg | l # _ \<Rightarrow> set_log_level l cfg)"
  by (rule apply_env_vars_spec)

theorem environment_sets_log_level_witness:
  "apply_env_vars [(''CJ_LOGGING_LEVEL'', ''WARN''), (''CJ_logging_level'', '' ''), (''HOME'', ''x''),
     (''CJ_Logging_Level'', ''loud'')] default_config =
   (Inl (InvalidValue ''logging.level''), set_log_level Warn default_config)"
proof -
  let ?env = "[(''CJ_LOGGING_LEVEL'', ''WARN''), (''CJ_logging_level'', '' ''), (''HOME'', ''x''),
     (''CJ_Logging_Level'', ''loud'')]"
  have v: "level_values ?env = [''WARN'', ''loud'']"
    by (simp add: level_values_def is_level_var_def starts_with_def is_blank_def to_lowercase_def lower_char_def
        char_of_def bit_numeral_rec bit_Suc_0_iff)
  have l: "log_level_from_str ''WARN'' = Some Warn" "log_level_from_str ''loud'' = None"
    by (simp_all add: log_level_from_str_def to_lowercase_def lower_char_def char_of_def bit_numeral_rec bit_Suc_0_iff)
  show ?thesis using environment_sets_log_level[of ?env default_config] by (simp add: v l parsed_levels_def)
qed

lemma dotted_path:
  assumes "parse_path q = (False, [d])" and "d \<noteq> ''.''"
  shows "parse_path (''./'' @ q) = (False, [''.'', d])"
proof -
  have "\<not> (\<not> starts_with q ''/'' \<and> hd (split_on (CHR ''/'') q) = ''.'')"
    using assms by (auto simp: parse_path_def Let_def split: if_splits)
  then have "plain_parts (split_on (CHR ''/'') q) = [d]"
    using assms(1) by (auto simp: parse_path_def Let_def split: if_splits)
  moreover have "split_on (CHR ''/'') q \<noteq> []" by (cases q) (auto split: list.split)
  ultimately show ?thesis
    by (auto simp: parse_path_def starts_with_def plain_parts_def neq_Nil_conv)
qed

text \<open>
  A base path that is a single relative name and does not exist yet is refused. Its
  parent is the empty path, for which \<open>exists\<close> is false, so validation reports that the
  parent directory does not exist, without trying to create the directory. The same name
  behind \<open>./\<close> is accepted where the current directory exists and takes a new directory.
\<close>

theorem bare_relative_base_path_rejected:
  assumes "storage_type s = FileType" and "10 \<le> max_open_files s"
    and "parse_path (base_path s) = (False, [d])" and "d \<noteq> ''.''"
    and "os_metadata E tr (False, [d]) = MetaNotFound" and "os_metadata E tr (False, [''.'', d]) = MetaNotFound"
    and "\<not> os_exists E tr (False, [])" and "os_exists E tr (False, [''.''])"
    and "os_succeeds E tr (CreateDirAll (False, [''.'', d]))"
  shows "validate_storage_config E s tr = (Inl (invalid_value ''storage.base_path''), tr) \<and>
         fst (validate_storage_config E (s\<lparr>base_path := ''./'' @ base_path s\<rparr>) tr) = Inr ()"
  using assms dotted_path[OF assms(3,4)]
  by (simp add: validate_storage_config_def validate_base_path_def validate_missing_dir_def path_parent_def
      perform_def Let_def)

theorem bare_relative_base_path_rejected_witness:
  "fst (validate_storage_config silent_os \<lparr>storage_type = FileType, base_path = ''data'', max_open_files = 100\<rparr> [])
     = Inl (invalid_value ''storage.base_path'')"
proof -
  have "parse_path ''data'' = (False, [''data''])"
    by (simp add: parse_path_def starts_with_def plain_parts_def)
  then show ?thesis
    using bare_relative_base_path_rejected[of "\<lparr>storage_type = FileType, base_path = ''data'', max_open_files = 100\<rparr>"
        "''data''" silent_os "[]"]
    by (simp add: silent_os_def path_is_empty_def)
qed

end
