(* ===== verification/Snapshot.thy ===== *)
theory Snapshot
  imports Time_Manager "HOL-Library.Product_Lexorder"
begin

text \<open>
  Snapshots, \<open>src/core/snapshot_manager.rs\<close>: the state of every container as of a time,
  rebuilt from the stored pages of all levels and the active L0 page, and stored as a page
  of the dedicated level.

  The state of the operation is the manager (with its storage) and the counter
  \<open>NEXT_PAGE_ID\<close> of \<open>JournalPage::new\<close>, which is not the manager's id generator. A
  \<open>HashMap\<close> of fields is an association list with distinct keys in iteration order. The
  iteration order of the set of container ids, \<open>serde_json::to_vec\<close> of a map, the least
  time of chrono, the UUID and the clock are the record \<open>snapshot_env\<close>.
\<close>

datatype snapshot_error =
    SnapConfigError
  | SnapStorageError
  | TimeManagerError
  | ReconstructionError
  | PageCreationError
  | SnapIoError
  | InternalError

record snapshot_env =
  state_bytes :: "(string \<times> json) list \<Rightarrow> bytes option"
  id_order :: "string list \<Rightarrow> string list"
  min_utc :: timestamp
  new_uuid :: string
  clock :: timestamp

section \<open>The scope of a snapshot\<close>

text \<open>Pages that fail to load, and levels that fail to list, are logged and skipped.\<close>

definition level_scope ::
  "'s storage_backend \<Rightarrow> 's \<Rightarrow> timestamp \<Rightarrow> nat \<Rightarrow> journal_page list" where
  "level_scope B s as_of l =
     (case list_finalized_pages_summary B s l of
        Inl e \<Rightarrow> []
      | Inr summaries \<Rightarrow>
          concat (map (\<lambda>x.
            if sum_creation_timestamp x \<le> as_of then
              (case load_page B s l (sum_page_id x) of Inr (Some p) \<Rightarrow> [p] | _ \<Rightarrow> [])
            else []) summaries))"

definition finalized_scope ::
  "'s storage_backend \<Rightarrow> config \<Rightarrow> 's \<Rightarrow> timestamp \<Rightarrow> journal_page list" where
  "finalized_scope B cfg s as_of =
     concat (map (\<lambda>i. level_scope B s as_of (i mod 256)) [0..<length (levels cfg)])"

definition ids_up_to :: "timestamp \<Rightarrow> journal_leaf list \<Rightarrow> string list" where
  "ids_up_to as_of leaves = map container_id (filter (\<lambda>l. leaf_timestamp l \<le> as_of) leaves)"

definition page_container_ids :: "timestamp \<Rightarrow> journal_page \<Rightarrow> string list" where
  "page_container_ids as_of p =
     (case content p of
        Leaves leaves \<Rightarrow> ids_up_to as_of leaves
      | NetPatches ps \<Rightarrow> if end_time p \<le> as_of then map fst ps else []
      | _ \<Rightarrow> [])"

definition target_container_ids ::
  "snapshot_env \<Rightarrow> string list option \<Rightarrow> journal_page list \<Rightarrow> journal_leaf list \<Rightarrow> timestamp \<Rightarrow>
    string list" where
  "target_container_ids E container_ids pages active as_of =
     id_order E (remdups
       (case container_ids of
          Some ids \<Rightarrow> ids
        | None \<Rightarrow> concat (map (page_container_ids as_of) pages) @ ids_up_to as_of active))"

section \<open>The state of one container\<close>

text \<open>A null removes the field, any other value sets it; non-object deltas are ignored.\<close>

definition patch_state :: "(string \<times> json) list \<Rightarrow> (string \<times> json) list \<Rightarrow> (string \<times> json) list" where
  "patch_state fps state =
     fold (\<lambda>(k, v) st. if is_null v then AList.delete k st else AList.update k v st) fps state"

definition apply_delta_to_state :: "json \<Rightarrow> (string \<times> json) list \<Rightarrow> (string \<times> json) list" where
  "apply_delta_to_state delta state =
     (case delta of JObject delta_map \<Rightarrow> patch_state delta_map state | _ \<Rightarrow> state)"

definition leaves_for :: "string \<Rightarrow> timestamp \<Rightarrow> journal_leaf list \<Rightarrow> journal_leaf list" where
  "leaves_for c as_of leaves = filter (\<lambda>l. container_id l = c \<and> leaf_timestamp l \<le> as_of) leaves"

definition container_specific_leaves ::
  "journal_page list \<Rightarrow> journal_leaf list \<Rightarrow> timestamp \<Rightarrow> string \<Rightarrow> journal_leaf list" where
  "container_specific_leaves pages active as_of c =
     sort_key (\<lambda>l. (leaf_timestamp l, leaf_id l))
       (concat (map (\<lambda>p. leaves_for c as_of (leaves_of p)) pages) @ leaves_for c as_of active)"

text \<open>The first net patches of the container, and the end time of their page.\<close>

fun find_baseline ::
  "timestamp \<Rightarrow> string \<Rightarrow> journal_page list \<Rightarrow> ((string \<times> json) list \<times> timestamp) option" where
  "find_baseline as_of c [] = None"
| "find_baseline as_of c (p # ps) =
     (case (if end_time p \<le> as_of then
              (case content p of NetPatches patches \<Rightarrow> map_of patches c | _ \<Rightarrow> None)
            else None) of
        Some fps \<Rightarrow> Some (fps, end_time p)
      | None \<Rightarrow> find_baseline as_of c ps)"

definition container_baseline ::
  "snapshot_env \<Rightarrow> journal_page list \<Rightarrow> timestamp \<Rightarrow> string \<Rightarrow> (string \<times> json) list \<times> timestamp" where
  "container_baseline E pages as_of c =
     (case find_baseline as_of c (sort_key (\<lambda>p. - end_time p) pages) of
        Some (fps, t) \<Rightarrow> (patch_state fps [], t)
      | None \<Rightarrow> ([], min_utc E))"

definition reconstructed_fields ::
  "snapshot_env \<Rightarrow> journal_page list \<Rightarrow> journal_leaf list \<Rightarrow> timestamp \<Rightarrow> string \<Rightarrow> (string \<times> json) list" where
  "reconstructed_fields E pages active as_of c =
     (let (state, baseline_at) = container_baseline E pages as_of c
      in fold (\<lambda>l. apply_delta_to_state (delta_payload l))
           (filter (\<lambda>l. baseline_at < leaf_timestamp l \<and> leaf_timestamp l \<le> as_of)
              (container_specific_leaves pages active as_of c)) state)"

text \<open>A container whose state does not serialise is logged and left out.\<close>

definition container_state ::
  "snapshot_env \<Rightarrow> journal_page list \<Rightarrow> journal_leaf list \<Rightarrow> timestamp \<Rightarrow> string \<Rightarrow>
    snapshot_container_state option" where
  "container_state E pages active as_of c =
     (let leaves = container_specific_leaves pages active as_of c;
          state = reconstructed_fields E pages active as_of c;
          baseline_at = snd (container_baseline E pages as_of c)
      in case state_bytes E state of
           None \<Rightarrow> None
         | Some payload \<Rightarrow> Some
             \<lparr>cs_container_id = c, state_payload = payload,
              last_leaf_hash_applied = (if leaves = [] then zero_hash else leaf_hash (last leaves)),
              last_leaf_timestamp_applied =
                (if leaves \<noteq> [] then leaf_timestamp (last leaves)
                 else if state \<noteq> [] \<and> baseline_at \<noteq> min_utc E then baseline_at else as_of)\<rparr>)"

definition collect_states ::
  "snapshot_env \<Rightarrow> journal_page list \<Rightarrow> journal_leaf list \<Rightarrow> timestamp \<Rightarrow> string list \<Rightarrow>
    snapshot_container_state list" where
  "collect_states E pages active as_of ids =
     concat (map (\<lambda>c. case container_state E pages active as_of c of None \<Rightarrow> [] | Some cs \<Rightarrow> [cs]) ids)"

section \<open>Assembly\<close>

definition container_state_hash :: "externals \<Rightarrow> snapshot_container_state \<Rightarrow> hash" where
  "container_state_hash X cs =
     sha256 X (str_bytes (cs_container_id cs) @ state_payload cs @ last_leaf_hash_applied cs @
       le_bytes 8 (last_leaf_timestamp_applied cs div 1000))"

definition states_merkle_root ::
  "externals \<Rightarrow> snapshot_container_state list \<Rightarrow> snapshot_error + hash" where
  "states_merkle_root X states =
     (let hashes = map (container_state_hash X) states
      in if hashes = [] then Inr zero_hash
         else case merkle_new (sha256 X) hashes of
           Inl e \<Rightarrow> Inl InternalError
         | Inr tree \<Rightarrow> Inr (case get_root tree of None \<Rightarrow> zero_hash | Some r \<Rightarrow> r))"

definition preceding_page_hash :: "journal_page list \<Rightarrow> timestamp \<Rightarrow> hash option" where
  "preceding_page_hash pages as_of =
     (case sort_key (\<lambda>p. (- end_time p, - int (page_level p), - int (page_id p)))
             (filter (\<lambda>p. end_time p \<le> as_of) pages) of
        [] \<Rightarrow> None
      | p # _ \<Rightarrow> Some (page_hash p))"

definition previous_snapshot_hash ::
  "'s storage_backend \<Rightarrow> config \<Rightarrow> 's \<Rightarrow> hash option" where
  "previous_snapshot_hash B cfg s =
     (case list_finalized_pages_summary B s (dedicated_level (snapshot_cfg cfg)) of
        Inl e \<Rightarrow> None
      | Inr summaries \<Rightarrow>
          (case sort_key (\<lambda>x. (- sum_creation_timestamp x, - int (sum_page_id x))) summaries of
             [] \<Rightarrow> None
           | x # _ \<Rightarrow> Some (sum_page_hash x)))"

definition snapshot_payload ::
  "externals \<Rightarrow> snapshot_env \<Rightarrow> 's storage_backend \<Rightarrow> config \<Rightarrow> timestamp \<Rightarrow> string list option \<Rightarrow>
    's manager \<Rightarrow> snapshot_error + snapshot_page_payload" where
  "snapshot_payload X E B cfg as_of container_ids m =
     (let pages = finalized_scope B cfg (storage m) as_of;
          active = get_active_l0_leaves_up_to m as_of;
          ids = target_container_ids E container_ids pages active as_of;
          states = collect_states E pages active as_of ids
      in try_pure (states_merkle_root X states) (\<lambda>root. Inr
           \<lparr>snapshot_id = new_uuid E, as_of_timestamp = as_of, created_at_timestamp = clock E,
            container_states = states,
            preceding_journal_page_hash = preceding_page_hash pages as_of,
            previous_snapshot_page_hash_on_snapshot_level = previous_snapshot_hash B cfg (storage m),
            container_states_merkle_root = root\<rparr>))"

definition snapshot_page ::
  "externals \<Rightarrow> config \<Rightarrow> snapshot_page_payload \<Rightarrow> nat \<Rightarrow> journal_page \<times> nat" where
  "snapshot_page X cfg sp next_page_id =
     (let (page, next_page_id) = page_new X cfg (dedicated_level (snapshot_cfg cfg))
            (previous_snapshot_page_hash_on_snapshot_level sp) (created_at_timestamp sp) next_page_id
      in (recalculate X (page\<lparr>content := Snapshot sp\<rparr>), next_page_id))"

definition create_snapshot ::
  "externals \<Rightarrow> snapshot_env \<Rightarrow> 's storage_backend \<Rightarrow> config \<Rightarrow> timestamp \<Rightarrow> string list option \<Rightarrow>
    's manager \<times> nat \<Rightarrow> (snapshot_error + hash) \<times> 's manager \<times> nat" where
  "create_snapshot X E B cfg as_of container_ids st =
     (case st of (m, next_page_id) \<Rightarrow>
        if \<not> snapshot_enabled (snapshot_cfg cfg) then (Inl SnapConfigError, st)
        else case snapshot_payload X E B cfg as_of container_ids m of
          Inl e \<Rightarrow> (Inl e, st)
        | Inr sp \<Rightarrow>
            let (page, next_page_id) = snapshot_page X cfg sp next_page_id
            in case store_in B page m of
                 (Inr _, m) \<Rightarrow> (Inr (page_hash page), m, next_page_id)
               | (Inl _, m) \<Rightarrow> (Inl SnapStorageError, m, next_page_id))"

end
