(* ===== verification/Snapshot_Properties.thy ===== *)
theory Snapshot_Properties
  imports Snapshot Query_Properties "HOL-Library.Multiset"
begin

text \<open>
  What a snapshot holds. On a journal that \<open>add_leaf\<close> built, over levels without net-patch
  pages, it holds for every container with a leaf up to the time exactly the fold of these
  leaves, stored and active ones alike. With net-patch pages only the latest one counts.
  The page ids of snapshots come from a counter that starts again with the process.
\<close>

section \<open>Generic facts\<close>

lemma sort_key_unique:
  assumes "mset xs = mset ys" and "sorted (map f ys)" and "distinct (map f ys)"
  shows "sort_key f xs = ys"
proof (rule map_sorted_distinct_set_unique[of f])
  have "mset (map f (sort_key f xs)) = mset (map f ys)"
    unfolding mset_map mset_sort assms(1) ..
  from mset_eq_imp_distinct_iff[OF this] assms(3) show "distinct (map f (sort_key f xs))" by blast
  have s: "set (sort_key f xs) = set ys" using mset_eq_setD[OF assms(1)] by simp
  then show "inj_on f (set (sort_key f xs) \<union> set ys)" using assms(3) by (simp add: distinct_map)
  show "set (sort_key f xs) = set ys" by (rule s)
qed (use assms in simp_all)

lemma mset_concat_map: "mset xs = mset ys \<Longrightarrow> mset (concat (map g xs)) = mset (concat (map g ys))"
  by (metis mset_concat mset_map sum_mset_sum_list)

lemma leaves_for_concat:
  "concat (map (\<lambda>p. leaves_for c t (leaves_of p)) ps) = leaves_for c t (pages_log ps)"
  by (induction ps) (simp_all add: leaves_for_def pages_log_def)

lemma leaves_for_append: "leaves_for c t (xs @ ys) = leaves_for c t xs @ leaves_for c t ys"
  by (simp add: leaves_for_def)

lemma find_baseline_None:
  assumes "\<And>p patches. p \<in> set ps \<Longrightarrow> content p \<noteq> NetPatches patches"
  shows "find_baseline t c ps = None"
  using assms by (induction ps) (auto split: page_content.split)

section \<open>Ordered logs and their states\<close>

text \<open>The state a container has after its leaves, by the snapshot's own delta rule.\<close>

definition state_after :: "journal_leaf list \<Rightarrow> (string \<times> json) list" where
  "state_after ls = fold (\<lambda>l. apply_delta_to_state (delta_payload l)) ls []"

definition log_ordered :: "journal_leaf list \<Rightarrow> bool" where
  "log_ordered ls \<longleftrightarrow> sorted_wrt (\<lambda>a b. leaf_timestamp a \<le> leaf_timestamp b \<and> leaf_id a < leaf_id b) ls"

definition no_net_patch_levels :: "config \<Rightarrow> bool" where
  "no_net_patch_levels cfg \<longleftrightarrow> (\<forall>l. level_content cfg l \<noteq> NetPatchesType)"

lemma log_ordered_leaves_for:
  assumes "log_ordered ls"
  shows "sorted (map (\<lambda>l. (leaf_timestamp l, leaf_id l)) (leaves_for c t ls))"
    and "distinct (map (\<lambda>l. (leaf_timestamp l, leaf_id l)) (leaves_for c t ls))"
proof -
  have "sorted_wrt (\<lambda>a b. leaf_timestamp a \<le> leaf_timestamp b \<and> leaf_id a < leaf_id b) (leaves_for c t ls)"
    using assms unfolding log_ordered_def leaves_for_def by (rule sorted_wrt_filter)
  then have "sorted_wrt (<) (map (\<lambda>l. (leaf_timestamp l, leaf_id l)) (leaves_for c t ls))"
    unfolding sorted_wrt_map by (rule sorted_wrt_mono_rel[rotated]) (auto simp: less_prod_def)
  then show "sorted (map (\<lambda>l. (leaf_timestamp l, leaf_id l)) (leaves_for c t ls))"
    and "distinct (map (\<lambda>l. (leaf_timestamp l, leaf_id l)) (leaves_for c t ls))"
    by (simp_all add: strict_sorted_iff)
qed

lemma get_active_up_to: "get_active_l0_leaves_up_to m t = filter (\<lambda>l. leaf_timestamp l \<le> t) (active_leaves m)"
  by (simp add: get_active_l0_leaves_up_to_def active_leaves_def leaves_of_def split: option.split page_content.split)

lemma leaves_for_active: "leaves_for c t (get_active_l0_leaves_up_to m t) = leaves_for c t (active_leaves m)"
  by (auto simp: get_active_up_to leaves_for_def intro: filter_cong)

section \<open>The scope of a journal\<close>

context storage_laws
begin

lemma level_scope_pages:
  assumes "good s"
  obtains ss where "level_scope B s t l = map (\<lambda>x. the (pages s (l, sum_page_id x)))
      (filter (\<lambda>x. sum_creation_timestamp x \<le> t) ss)"
    and "distinct (map sum_page_id ss)"
    and "\<And>x. x \<in> set ss \<longleftrightarrow> (\<exists>p. pages s (l, sum_page_id x) = Some p \<and> x = summary_of p)"
proof -
  obtain ss where ss: "list_finalized_pages_summary B s l = Inr ss" "distinct (map sum_page_id ss)"
    "\<And>x. x \<in> set ss \<longleftrightarrow> (\<exists>p. pages s (l, sum_page_id x) = Some p \<and> x = summary_of p)"
    using list_summaries[OF assms, of l] by metis
  have "concat (map (\<lambda>x. if sum_creation_timestamp x \<le> t then
        (case load_page B s l (sum_page_id x) of Inr (Some p) \<Rightarrow> [p] | _ \<Rightarrow> []) else []) xs) =
      map (\<lambda>x. the (pages s (l, sum_page_id x))) (filter (\<lambda>x. sum_creation_timestamp x \<le> t) xs)"
    if "set xs \<subseteq> set ss" for xs
    using that
  proof (induction xs)
    case (Cons x xs)
    then obtain p where "pages s (l, sum_page_id x) = Some p" using ss(3)[of x] by auto
    with Cons load_ok[OF assms] show ?case by simp
  qed simp
  from this[of ss] ss show ?thesis by (intro that[of ss]) (simp_all add: level_scope_def)
qed

lemma level_scope_set:
  assumes "good s"
  shows "set (level_scope B s t l) = {p. \<exists>i. pages s (l, i) = Some p \<and> creation_timestamp p \<le> t}"
    and "distinct (level_scope B s t l)"
proof -
  obtain ss where sc: "level_scope B s t l = map (\<lambda>x. the (pages s (l, sum_page_id x)))
      (filter (\<lambda>x. sum_creation_timestamp x \<le> t) ss)"
    and d: "distinct (map sum_page_id ss)"
    and ss: "\<And>x. x \<in> set ss \<longleftrightarrow> (\<exists>p. pages s (l, sum_page_id x) = Some p \<and> x = summary_of p)"
    using level_scope_pages[OF assms, of t l] by metis
  have key: "page_id p = i" if "pages s (l, i) = Some p" for i p
    using keyed_pages[OF assms] that by (simp add: keyed_def)
  have "p \<in> set (level_scope B s t l) \<longleftrightarrow> (\<exists>i. pages s (l, i) = Some p \<and> creation_timestamp p \<le> t)" for p
  proof
    assume "p \<in> set (level_scope B s t l)"
    then obtain x where "x \<in> set ss" "sum_creation_timestamp x \<le> t" "p = the (pages s (l, sum_page_id x))"
      by (auto simp: sc)
    with ss[of x] show "\<exists>i. pages s (l, i) = Some p \<and> creation_timestamp p \<le> t" by auto
  next
    assume "\<exists>i. pages s (l, i) = Some p \<and> creation_timestamp p \<le> t"
    then obtain i where i: "pages s (l, i) = Some p" "creation_timestamp p \<le> t" by blast
    then have "summary_of p \<in> set ss" using ss[of "summary_of p"] key by auto
    with i key show "p \<in> set (level_scope B s t l)"
      by (auto simp: sc image_iff intro!: bexI[of _ "summary_of p"])
  qed
  then show "set (level_scope B s t l) = {p. \<exists>i. pages s (l, i) = Some p \<and> creation_timestamp p \<le> t}"
    by blast
  have "map page_id (level_scope B s t l) = map sum_page_id (filter (\<lambda>x. sum_creation_timestamp x \<le> t) ss)"
    unfolding sc map_map
  proof (rule map_cong[OF refl])
    fix x assume "x \<in> set (filter (\<lambda>x. sum_creation_timestamp x \<le> t) ss)"
    then obtain p where "pages s (l, sum_page_id x) = Some p" using ss[of x] by auto
    then show "(page_id \<circ> (\<lambda>x. the (pages s (l, sum_page_id x)))) x = sum_page_id x" using key by simp
  qed
  then have "distinct (map page_id (level_scope B s t l))" using d by (simp add: distinct_map_filter)
  then show "distinct (level_scope B s t l)" by (simp add: distinct_map)
qed

lemma scope_page:
  assumes "log_ok X cfg m ps" and "config_ok cfg"
    and "p \<in> set (finalized_scope B cfg (storage m) t)"
  obtains l where "l < length (levels cfg)" and "page_fits cfg l p" and "creation_timestamp p \<le> t"
proof -
  note I = log_invD[OF assms(1)]
  have le: "length (levels cfg) \<le> 255" using assms(2) by (simp add: config_ok_def)
  obtain l where l: "l < length (levels cfg)" "p \<in> set (level_scope B (storage m) t l)"
    using assms(3) le by (auto simp: finalized_scope_def)
  then obtain i where i: "pages (storage m) (l, i) = Some p" "creation_timestamp p \<le> t"
    using level_scope_set(1)[OF I(1), of t l] by auto
  have "page_fits cfg l p"
    using I(2) l(1) i(1) unfolding manager_inv_def stored_ok_def stored_page_ok_def by blast
  then show ?thesis using that l(1) i(2) by blast
qed

lemma level0_scope:
  assumes "log_ok X cfg m ps"
  shows "mset (level_scope B (storage m) t 0) = mset (filter (\<lambda>p. creation_timestamp p \<le> t) ps)"
proof -
  note I = log_invD[OF assms]
  have V: "pages (storage m) (0, i) = Some p \<longleftrightarrow> p \<in> set ps \<and> page_id p = i" for i p
    using I(3) by (simp add: l0_inv_def)
  have "sorted_wrt (<) (map page_id ps)" using I(3) by (simp add: l0_inv_def)
  then have "distinct (map page_id ps)" by (simp add: strict_sorted_iff)
  then have d: "distinct (filter (\<lambda>p. creation_timestamp p \<le> t) ps)" by (simp add: distinct_map)
  have "set (level_scope B (storage m) t 0) = set (filter (\<lambda>p. creation_timestamp p \<le> t) ps)"
    using level_scope_set(1)[OF I(1), of t 0] V by auto
  then show ?thesis using set_eq_iff_mset_eq_distinct[OF level_scope_set(2)[OF I(1)] d] by blast
qed

text \<open>What the pages of the scope give, when only leaves up to \<open>t\<close> count.\<close>

lemma scope_concat:
  assumes "log_ok X cfg m ps" and "config_ok cfg"
    and g: "\<And>ls. (\<And>l. l \<in> set ls \<Longrightarrow> t < leaf_timestamp l) \<Longrightarrow> g ls = []"
  shows "mset (concat (map (\<lambda>p. g (leaves_of p)) (finalized_scope B cfg (storage m) t))) =
    mset (concat (map (\<lambda>p. g (leaves_of p)) ps))"
proof -
  let ?g = "\<lambda>p. g (leaves_of p)" and ?n = "length (levels cfg)"
  note I = log_invD[OF assms(1)]
  have n: "0 < ?n" "?n \<le> 255" using assms(2) by (simp_all add: config_ok_def)
  have upper: "?g p = []" if u: "p \<in> set (level_scope B (storage m) t (l mod 256))" "0 < l" "l < ?n" for l p
  proof -
    have "l mod 256 = l" using u n by simp
    then obtain i where "pages (storage m) (l, i) = Some p"
      using u(1) level_scope_set(1)[OF I(1), of t l] by auto
    then have "page_fits cfg l p"
      using I(2) u(3) unfolding manager_inv_def stored_ok_def stored_page_ok_def by blast
    then have "leaves_of p = []" using u(2) by (cases "content p") (auto simp: page_fits_def leaves_of_def)
    with g[of "[]"] show ?thesis by simp
  qed
  have split: "finalized_scope B cfg (storage m) t = level_scope B (storage m) t 0 @
      concat (map (\<lambda>i. level_scope B (storage m) t (i mod 256)) [1..<?n])"
    using n(1) by (simp add: finalized_scope_def upt_conv_Cons)
  have "concat (map ?g (finalized_scope B cfg (storage m) t)) = concat (map ?g (level_scope B (storage m) t 0))"
    unfolding split using upper by (auto simp: concat_eq_Nil_conv)
  then have "mset (concat (map ?g (finalized_scope B cfg (storage m) t))) =
      mset (concat (map ?g (filter (\<lambda>p. creation_timestamp p \<le> t) ps)))"
    using mset_concat_map[OF level0_scope[OF assms(1)], of ?g t] by simp
  moreover have late: "?g p = []" if "p \<in> set ps" "\<not> creation_timestamp p \<le> t" for p
  proof (rule g)
    fix l assume "l \<in> set (leaves_of p)"
    then have "creation_timestamp p \<le> leaf_timestamp l"
      using I(3) that(1) unfolding l0_inv_def leaf_page_ok_def in_window_def by blast
    with that(2) show "t < leaf_timestamp l" by simp
  qed
  then have "concat (map ?g (filter (\<lambda>p. creation_timestamp p \<le> t) ps)) = concat (map ?g ps)"
    by (induction ps) auto
  ultimately show ?thesis by simp
qed

lemma scope_container_leaves:
  assumes "log_ok X cfg m ps" and "config_ok cfg"
  shows "mset (concat (map (\<lambda>p. leaves_for c t (leaves_of p)) (finalized_scope B cfg (storage m) t))) =
    mset (leaves_for c t (pages_log ps))"
proof -
  have "leaves_for c t ls = []" if "\<And>l. l \<in> set ls \<Longrightarrow> t < leaf_timestamp l" for ls
    using that by (force simp: leaves_for_def filter_empty_conv)
  from scope_concat[OF assms, of t "leaves_for c t", OF this] show ?thesis by (simp add: leaves_for_concat)
qed

lemma scope_no_net_patches:
  assumes "log_ok X cfg m ps" and "config_ok cfg" and "no_net_patch_levels cfg"
    and "p \<in> set (finalized_scope B cfg (storage m) t)"
  shows "content p \<noteq> NetPatches patches"
proof
  assume c: "content p = NetPatches patches"
  obtain l where "page_fits cfg l p" using scope_page[OF assms(1,2,4)] by metis
  then have "level_content cfg l = NetPatchesType" using c by (simp add: page_fits_def)
  with assms(3) show False by (simp add: no_net_patch_levels_def)
qed

lemma scope_ids:
  assumes "log_ok X cfg m ps" and "config_ok cfg" and "no_net_patch_levels cfg"
  shows "set (concat (map (page_container_ids t) (finalized_scope B cfg (storage m) t))) =
    set (ids_up_to t (pages_log ps))"
proof -
  let ?sc = "finalized_scope B cfg (storage m) t"
  have "page_container_ids t p = ids_up_to t (leaves_of p)" if "p \<in> set ?sc" for p
    using scope_no_net_patches[OF assms that(1)]
    by (cases "content p") (auto simp: page_container_ids_def leaves_of_def ids_up_to_def)
  then have "concat (map (page_container_ids t) ?sc) = concat (map (\<lambda>p. ids_up_to t (leaves_of p)) ?sc)"
    by (intro arg_cong[where f = concat] map_cong) simp_all
  moreover have e: "ids_up_to t ls = []" if "\<And>l. l \<in> set ls \<Longrightarrow> t < leaf_timestamp l" for ls
    using that by (force simp: ids_up_to_def filter_empty_conv)
  have "set (concat (map (\<lambda>p. ids_up_to t (leaves_of p)) ?sc)) = set (concat (map (\<lambda>p. ids_up_to t (leaves_of p)) ps))"
    by (rule mset_eq_setD[OF scope_concat[OF assms(1,2) e]])
  moreover have "concat (map (\<lambda>p. ids_up_to t (leaves_of p)) ps) = ids_up_to t (pages_log ps)"
    by (induction ps) (simp_all add: ids_up_to_def pages_log_def)
  ultimately show ?thesis by simp
qed

lemma specific_leaves_log:
  assumes "log_ok X cfg m ps" and "config_ok cfg" and "log_ordered (pages_log ps @ active_leaves m)"
  shows "container_specific_leaves (finalized_scope B cfg (storage m) t) (get_active_l0_leaves_up_to m t) t c =
    leaves_for c t (pages_log ps @ active_leaves m)"
  unfolding container_specific_leaves_def
proof (rule sort_key_unique)
  show "mset (concat (map (\<lambda>p. leaves_for c t (leaves_of p)) (finalized_scope B cfg (storage m) t)) @
      leaves_for c t (get_active_l0_leaves_up_to m t)) = mset (leaves_for c t (pages_log ps @ active_leaves m))"
    using scope_container_leaves[OF assms(1,2)] by (simp add: leaves_for_append leaves_for_active)
qed (use log_ordered_leaves_for[OF assms(3), of c t] in simp_all)

lemma container_state_log:
  assumes "log_ok X cfg m ps" and "config_ok cfg" and "no_net_patch_levels cfg"
    and "log_ordered (pages_log ps @ active_leaves m)"
    and "\<forall>l\<in>set (pages_log ps @ active_leaves m). min_utc E < leaf_timestamp l"
    and "leaves_for c t (pages_log ps @ active_leaves m) = ls" and "ls \<noteq> []"
    and "state_bytes E (state_after ls) = Some payload"
  shows "container_state E (finalized_scope B cfg (storage m) t) (get_active_l0_leaves_up_to m t) t c =
    Some \<lparr>cs_container_id = c, state_payload = payload, last_leaf_hash_applied = leaf_hash (last ls),
          last_leaf_timestamp_applied = leaf_timestamp (last ls)\<rparr>"
proof -
  let ?sc = "finalized_scope B cfg (storage m) t" and ?a = "get_active_l0_leaves_up_to m t"
  have sp: "container_specific_leaves ?sc ?a t c = ls"
    using specific_leaves_log[OF assms(1,2,4)] assms(6) by simp
  have "find_baseline t c (sort_key (\<lambda>p. - end_time p) ?sc) = None"
    by (rule find_baseline_None) (use scope_no_net_patches[OF assms(1-3)] in simp)
  then have b: "container_baseline E ?sc t c = ([], min_utc E)" by (simp add: container_baseline_def)
  have "\<forall>l\<in>set ls. min_utc E < leaf_timestamp l \<and> leaf_timestamp l \<le> t"
    using assms(5,6) by (auto simp: leaves_for_def)
  then have "filter (\<lambda>l. min_utc E < leaf_timestamp l \<and> leaf_timestamp l \<le> t) ls = ls"
    by (simp add: filter_id_conv)
  then have "reconstructed_fields E ?sc ?a t c = state_after ls"
    by (simp add: reconstructed_fields_def b sp state_after_def)
  with assms(7,8) show ?thesis by (simp add: container_state_def sp)
qed

lemma target_ids_log:
  assumes "log_ok X cfg m ps" and "config_ok cfg" and "no_net_patch_levels cfg"
    and "\<And>xs. mset (id_order E xs) = mset xs"
    and ids_def: "ids = target_container_ids E None (finalized_scope B cfg (storage m) t) (get_active_l0_leaves_up_to m t) t"
  shows "distinct ids" and "set ids = {c. leaves_for c t (pages_log ps @ active_leaves m) \<noteq> []}"
proof -
  let ?xs = "concat (map (page_container_ids t) (finalized_scope B cfg (storage m) t)) @
      ids_up_to t (get_active_l0_leaves_up_to m t)"
  have m: "mset ids = mset (remdups ?xs)" by (simp add: ids_def target_container_ids_def assms(4))
  then show "distinct ids" using mset_eq_imp_distinct_iff[OF m] by simp
  have "set ids = set ?xs" using mset_eq_setD[OF m] by simp
  also have "\<dots> = set (ids_up_to t (pages_log ps @ active_leaves m))"
    using scope_ids[OF assms(1-3)] by (auto simp: ids_up_to_def get_active_up_to)
  also have "\<dots> = {c. leaves_for c t (pages_log ps @ active_leaves m) \<noteq> []}"
    by (auto simp: ids_up_to_def leaves_for_def filter_empty_conv)
  finally show "set ids = {c. leaves_for c t (pages_log ps @ active_leaves m) \<noteq> []}" .
qed

text \<open>A level that holds one page lists this page.\<close>

lemma single_page_listed:
  assumes "good s" and "\<And>i. pages s (l, i) = (if i = n then Some p else None)" and "page_id p = n"
  shows "list_finalized_pages_summary B s l = Inr [summary_of p]"
proof -
  obtain ss where ss: "list_finalized_pages_summary B s l = Inr ss" "distinct (map sum_page_id ss)"
    "\<And>x. x \<in> set ss \<longleftrightarrow> (\<exists>q. pages s (l, sum_page_id x) = Some q \<and> x = summary_of q)"
    using list_summaries[OF assms(1), of l] by metis
  have set: "set ss = {summary_of p}" using ss(3) assms(2,3) by (auto split: if_splits)
  have "distinct ss" using ss(2) by (simp add: distinct_map)
  then have "length ss = 1" using distinct_card[of ss] set by simp
  then have "ss = [summary_of p]" using set by (cases ss) auto
  with ss(1) show ?thesis by simp
qed

lemma states_root_total: "\<exists>r. states_merkle_root X states = Inr r"
  by (cases "states = []") (simp_all add: states_merkle_root_def Let_def merkle_new_def)

lemma create_snapshot_Inr:
  assumes "good (storage m)" and "create_snapshot X E B cfg t cids (m, n) = (Inr h, m', n')"
  shows "\<exists>sp. snapshot_payload X E B cfg t cids m = Inr sp \<and>
    h = page_hash (fst (snapshot_page X cfg sp n)) \<and> good (storage m') \<and>
    pages (storage m') = (pages (storage m))
      ((dedicated_level (snapshot_cfg cfg), n) \<mapsto> fst (snapshot_page X cfg sp n))"
proof -
  obtain sp where sp: "snapshot_payload X E B cfg t cids m = Inr sp"
    using assms(2) by (auto simp: create_snapshot_def split: if_splits sum.splits)
  obtain p k where p: "snapshot_page X cfg sp n = (p, k)" by force
  then have key: "page_level p = dedicated_level (snapshot_cfg cfg)" "page_id p = n"
    by (auto simp: snapshot_page_def page_new_def fetch_add64_def Let_def)
  obtain r s where st: "store_page B (storage m) p = (r, s)" by force
  then have r: "r = Inr ()" "h = page_hash p" "storage m' = s"
    using assms(2) sp p by (auto simp: create_snapshot_def store_in_def split: if_splits sum.splits)
  then show ?thesis using store_ok[OF assms(1) st[unfolded r(1)]] sp p key by simp
qed

end

lemma snapshot_page_fields:
  "page_level (fst (snapshot_page X cfg sp n)) = dedicated_level (snapshot_cfg cfg)"
  "page_id (fst (snapshot_page X cfg sp n)) = n"
  "content (fst (snapshot_page X cfg sp n)) = Snapshot sp"
  "prev_page_hash (fst (snapshot_page X cfg sp n)) = previous_snapshot_page_hash_on_snapshot_level sp"
  "page_consistent X (fst (snapshot_page X cfg sp n))"
  "snd (snapshot_page X cfg sp n) = (n + 1) mod 2 ^ 64"
  by (simp_all add: snapshot_page_def page_new_def fetch_add64_def split_def Let_def)

section \<open>A snapshot of a journal\<close>

definition env_ok :: "snapshot_env \<Rightarrow> bool" where
  "env_ok E \<longleftrightarrow> (\<forall>xs. mset (id_order E xs) = mset xs) \<and> (\<forall>st. state_bytes E st \<noteq> None) \<and> min_utc E < 0"

text \<open>The state recorded for a container is that of its leaves up to the time.\<close>

definition state_of_log ::
  "snapshot_env \<Rightarrow> timestamp \<Rightarrow> journal_leaf list \<Rightarrow> snapshot_container_state \<Rightarrow> bool" where
  "state_of_log E t ls cs \<longleftrightarrow>
     (let own = leaves_for (cs_container_id cs) t ls
      in own \<noteq> [] \<and> state_bytes E (state_after own) = Some (state_payload cs) \<and>
         last_leaf_hash_applied cs = leaf_hash (last own) \<and>
         last_leaf_timestamp_applied cs = leaf_timestamp (last own))"

lemma collect_states_ids:
  assumes "\<And>c. c \<in> set ids \<Longrightarrow> \<exists>cs. container_state E pages active t c = Some cs \<and> cs_container_id cs = c \<and> P cs"
  shows "map cs_container_id (collect_states E pages active t ids) = ids \<and>
    (\<forall>cs\<in>set (collect_states E pages active t ids). P cs)"
  using assms
proof (induction ids)
  case (Cons c ids)
  obtain cs where "container_state E pages active t c = Some cs" "cs_container_id cs = c" "P cs"
    using Cons.prems[of c] by auto
  with Cons show ?case by (simp add: collect_states_def)
qed (simp add: collect_states_def)

context reliable_storage
begin

lemma create_snapshot_total:
  assumes "good (storage m)" and "reliable (storage m)" and "snapshot_enabled (snapshot_cfg cfg)"
  shows "\<exists>h m'. create_snapshot X E B cfg t cids (m, n) = (Inr h, m', (n + 1) mod 2 ^ 64)"
proof -
  obtain sp where sp: "snapshot_payload X E B cfg t cids m = Inr sp"
    unfolding snapshot_payload_def Let_def
    using states_root_total[of X "collect_states E (finalized_scope B cfg (storage m) t)
        (get_active_l0_leaves_up_to m t) t (target_container_ids E cids (finalized_scope B cfg (storage m) t)
        (get_active_l0_leaves_up_to m t) t)"] by auto
  obtain p k where p: "snapshot_page X cfg sp n = (p, k)" by force
  then have k: "k = (n + 1) mod 2 ^ 64" using snapshot_page_fields(6)[of X cfg sp n] by simp
  obtain s' where "store_page B (storage m) p = (Inr (), s')" using store_total[OF assms(1,2)] by blast
  with sp p k assms(3) show ?thesis by (simp add: create_snapshot_def store_in_def)
qed

lemma snapshot_of_log:
  assumes "ready X cfg m ps" and "config_ok cfg" and "no_net_patch_levels cfg"
    and "log_ordered (pages_log ps @ active_leaves m)"
    and "\<forall>l\<in>set (pages_log ps @ active_leaves m). 0 \<le> leaf_timestamp l"
    and "env_ok E" and "snapshot_enabled (snapshot_cfg cfg)"
  shows "\<exists>m' sp. create_snapshot X E B cfg t None (m, n) =
      (Inr (page_hash (fst (snapshot_page X cfg sp n))), m', (n + 1) mod 2 ^ 64) \<and>
    load_page B (storage m') (dedicated_level (snapshot_cfg cfg)) n = Inr (Some (fst (snapshot_page X cfg sp n))) \<and>
    distinct (map cs_container_id (container_states sp)) \<and>
    cs_container_id ` set (container_states sp) = {c. leaves_for c t (pages_log ps @ active_leaves m) \<noteq> []} \<and>
    (\<forall>cs\<in>set (container_states sp). state_of_log E t (pages_log ps @ active_leaves m) cs)"
proof -
  let ?log = "pages_log ps @ active_leaves m"
  have L: "log_ok X cfg m ps" and R: "reliable (storage m)" using assms(1) by (simp_all add: ready_def)
  have G: "good (storage m)" by (rule log_invD(1)[OF L])
  define sc where "sc = finalized_scope B cfg (storage m) t"
  define act where "act = get_active_l0_leaves_up_to m t"
  define ids where "ids = target_container_ids E None sc act t"
  obtain h m' where c: "create_snapshot X E B cfg t None (m, n) = (Inr h, m', (n + 1) mod 2 ^ 64)"
    using create_snapshot_total[OF G R assms(7)] by blast
  obtain sp where sp: "snapshot_payload X E B cfg t None m = Inr sp"
    and h: "h = page_hash (fst (snapshot_page X cfg sp n))" and G': "good (storage m')"
    and V: "pages (storage m') = (pages (storage m))
      ((dedicated_level (snapshot_cfg cfg), n) \<mapsto> fst (snapshot_page X cfg sp n))"
    using create_snapshot_Inr[OF G c] by blast
  have st: "container_states sp = collect_states E sc act t ids"
    using sp by (auto simp: snapshot_payload_def Let_def sc_def act_def ids_def elim!: try_pure_InrE)
  have perm: "\<And>xs. mset (id_order E xs) = mset xs" and low: "min_utc E < 0" using assms(6) by (simp_all add: env_ok_def)
  note T = target_ids_log[OF L assms(2,3) perm ids_def[unfolded sc_def act_def]]
  have "\<exists>cs. container_state E sc act t c = Some cs \<and> cs_container_id cs = c \<and> state_of_log E t ?log cs"
    if "c \<in> set ids" for c
  proof -
    have ne: "leaves_for c t ?log \<noteq> []" using that T(2) by blast
    obtain b where b: "state_bytes E (state_after (leaves_for c t ?log)) = Some b"
      using assms(6) unfolding env_ok_def by blast
    have "\<forall>l\<in>set ?log. min_utc E < leaf_timestamp l" using assms(5) low by fastforce
    from container_state_log[OF L assms(2-4) this refl ne b] ne b show ?thesis
      by (simp add: sc_def act_def state_of_log_def Let_def)
  qed
  from collect_states_ids[where P = "state_of_log E t ?log", OF this]
  have ids: "map cs_container_id (container_states sp) = ids"
    and states: "\<forall>cs\<in>set (container_states sp). state_of_log E t ?log cs"
    by (simp_all add: st)
  have "cs_container_id ` set (container_states sp) = set ids" using ids by (metis set_map)
  moreover have "load_page B (storage m') (dedicated_level (snapshot_cfg cfg)) n =
      Inr (Some (fst (snapshot_page X cfg sp n)))"
    using load_ok[OF G'] V by simp
  ultimately show ?thesis using c h T ids states by (intro exI[of _ m'] exI[of _ sp]) simp
qed

end

section \<open>Properties\<close>

text \<open>
  C14: a snapshot of a journal is the state of its log. On the memory backend, after any
  sequence of \<open>add_leaf\<close> calls with non-decreasing timestamps and increasing leaf ids, on
  levels that hold no net-patch pages and with snapshots enabled, taking a snapshot succeeds and stores a consistent page on the dedicated
  level; it has exactly one state for each container with a leaf up to the time, and that
  state is the fold of the container's leaves up to the time in log order, whether their
  page is stored or still active, with the hash and time of the last of them.
\<close>

theorem snapshot_is_state_of_log:
  assumes "config_ok cfg" and "leaves_valid xs"
    and "(4 * length xs + 6) * 2 ^ length (levels cfg) \<le> 2 ^ 64"
    and "add_leaves X memory_backend cfg xs (manager_new mem_new) = (Inr is, m)"
    and "log_ordered (map fst xs)" and "no_net_patch_levels cfg"
    and "snapshot_enabled (snapshot_cfg cfg)" and "env_ok E"
  shows "\<exists>m' p sp. create_snapshot X E memory_backend cfg t None (m, n) = (Inr (page_hash p), m', (n + 1) mod 2 ^ 64) \<and>
    mem_load_page (storage m') (dedicated_level (snapshot_cfg cfg)) n = Inr (Some p) \<and>
    content p = Snapshot sp \<and> page_consistent X p \<and>
    distinct (map cs_container_id (container_states sp)) \<and>
    cs_container_id ` set (container_states sp) = {c. leaves_for c t (map fst xs) \<noteq> []} \<and>
    (\<forall>cs\<in>set (container_states sp). state_of_log E t (map fst xs) cs)"
proof -
  have r: "mem.ready X cfg (manager_new mem_new) []"
    by (rule mem.ready_initial) (simp_all add: mem_good_new mem_new_empty)
  have b: "page_id_gen (manager_new mem_new) + (4 * length xs + 6) * 2 ^ length (levels cfg) \<le> 2 ^ 64"
    using assms(3) by simp
  obtain ps where ready: "mem.ready X cfg m ps"
    using mem.add_leaves_ready[OF r assms(1,2) b] assms(4) by auto
  obtain qs where qs: "mem.log_ok X cfg m qs" "pages_log qs @ active_leaves m = map fst xs"
    by (rule journal_log[OF assms(1-4)])
  have "mem.ready X cfg m qs" using ready qs(1) by (simp add: mem.ready_def)
  moreover have "\<forall>l\<in>set (pages_log qs @ active_leaves m). 0 \<le> leaf_timestamp l"
    using assms(2) by (auto simp: qs(2) leaves_valid_def)
  ultimately show ?thesis
    using mem.snapshot_of_log[of X cfg m qs E t n] assms(1,5-8) snapshot_page_fields[of X cfg]
    unfolding qs(2) memory_backend_simps by metis
qed

definition day_config :: config where
  "day_config = default_config\<lparr>levels := [default_levels ! 0]\<rparr>"

definition sample_snapshot_env :: snapshot_env where
  "sample_snapshot_env = \<lparr>state_bytes = \<lambda>st. Some [of_nat (length st)], id_order = id, min_utc = - 1,
     new_uuid = ''u'', clock = 10\<rparr>"

lemma day_config_ok: "config_ok day_config" "no_net_patch_levels day_config" "snapshot_enabled (snapshot_cfg day_config)"
  by (auto simp: day_config_def config_ok_def default_config_defs level_ok_def no_net_patch_levels_def
      level_content_def level_at_def)

lemma sample_snapshot_env_ok: "env_ok sample_snapshot_env"
  by (simp add: env_ok_def sample_snapshot_env_def)

theorem snapshot_is_state_of_log_witness:
  "\<exists>is m m' p sp. add_leaves sample_hashing memory_backend day_config two_leaves (manager_new mem_new) = (Inr is, m) \<and>
     create_snapshot sample_hashing sample_snapshot_env memory_backend day_config 100 None (m, 4) =
       (Inr (page_hash p), m', 5) \<and>
     mem_load_page (storage m') 250 4 = Inr (Some p) \<and> content p = Snapshot sp \<and>
     map cs_container_id (container_states sp) = [''c'']"
proof -
  have b: "(4 * length two_leaves + 6) * 2 ^ length (levels day_config) \<le> 2 ^ 64"
    by (simp add: two_leaves_def day_config_def)
  have r: "mem.ready sample_hashing day_config (manager_new mem_new) []"
    by (rule mem.ready_initial) (simp_all add: mem_good_new mem_new_empty)
  have b': "page_id_gen (manager_new mem_new) + (4 * length two_leaves + 6) * 2 ^ length (levels day_config) \<le> 2 ^ 64"
    using b by simp
  obtain "is" m where a: "add_leaves sample_hashing memory_backend day_config two_leaves (manager_new mem_new) = (Inr is, m)"
    using mem.add_leaves_total[OF r day_config_ok(1) two_leaves_facts(1) b'] by blast
  have o: "log_ordered (map fst two_leaves)"
    by (simp add: log_ordered_def two_leaves_facts(4) sample_leaf_def)
  have "{c. leaves_for c 100 (map fst two_leaves) \<noteq> []} = {''c''}"
    by (auto simp: two_leaves_facts(4) leaves_for_def sample_leaf_def)
  moreover have "dedicated_level (snapshot_cfg day_config) = 250"
    by (simp add: day_config_def default_config_defs)
  ultimately obtain m' p sp where s: "create_snapshot sample_hashing sample_snapshot_env memory_backend day_config 100 None (m, 4) =
       (Inr (page_hash p), m', 5)" "mem_load_page (storage m') 250 4 = Inr (Some p)" "content p = Snapshot sp"
    and ids: "distinct (map cs_container_id (container_states sp))"
      "set (map cs_container_id (container_states sp)) = {''c''}"
    using snapshot_is_state_of_log[OF day_config_ok(1) two_leaves_facts(1) b a o day_config_ok(2,3)
        sample_snapshot_env_ok, of 100 4] by auto
  have "length (map cs_container_id (container_states sp)) = 1"
    using distinct_card[OF ids(1)] ids(2) by simp
  then have "map cs_container_id (container_states sp) = [''c'']"
    using ids(2) by (cases "map cs_container_id (container_states sp)") auto
  then show ?thesis
    by (intro exI[of _ "is"] exI[of _ m] exI[of _ m'] exI[of _ p] exI[of _ sp] conjI a s)
qed

text \<open>
  C36: with net-patch pages only the latest one counts. Let one net-patch page of the scope
  that names a container end, by the time of the snapshot, after every other such page that
  names it and not before any leaf of the container up to that time. Then the state of the
  container in the snapshot is the content of this page alone: what earlier net-patch pages
  and the leaves themselves say of other fields is dropped. Pages and leaves of other
  containers do not matter.
\<close>

theorem snapshot_drops_earlier_fields:
  assumes "p \<in> set pages" and "content p = NetPatches patches" and "map_of patches c = Some fps"
    and "end_time p \<le> t"
    and "\<And>q qs. q \<in> set pages \<Longrightarrow> content q = NetPatches qs \<Longrightarrow> map_of qs c \<noteq> None \<Longrightarrow>
      end_time q \<le> t \<Longrightarrow> q \<noteq> p \<Longrightarrow> end_time q < end_time p"
    and "\<And>l. l \<in> set active \<union> \<Union> (set ` leaves_of ` set pages) \<Longrightarrow> container_id l = c \<Longrightarrow>
      leaf_timestamp l \<le> t \<Longrightarrow> leaf_timestamp l \<le> end_time p"
  shows "reconstructed_fields E pages active t c = patch_state fps []"
proof -
  let ?ps = "sort_key (\<lambda>p. - end_time p) pages"
  have find: "find_baseline t c qs = Some (fps, end_time p)"
    if "p \<in> set qs" "set qs \<subseteq> set pages" "sorted (map (\<lambda>p. - end_time p) qs)" for qs
    using that
  proof (induction qs)
    case (Cons q qs)
    show ?case
    proof (cases "q = p")
      case True
      with assms(2-4) show ?thesis by simp
    next
      case False
      then have "p \<in> set qs" using Cons.prems(1) by simp
      then have "end_time p \<le> end_time q" using Cons.prems(3) by auto
      then have "map_of x c = None" if "content q = NetPatches x" "end_time q \<le> t" for x
        using assms(5)[of q x] Cons.prems(2) False that by fastforce
      then have "find_baseline t c (q # qs) = find_baseline t c qs"
        by (auto split: page_content.split)
      with Cons \<open>p \<in> set qs\<close> show ?thesis by auto
    qed
  qed simp
  have "find_baseline t c ?ps = Some (fps, end_time p)"
    by (rule find) (use assms(1) in simp_all)
  then have b: "container_baseline E pages t c = (patch_state fps [], end_time p)"
    by (simp add: container_baseline_def)
  have "l \<in> set active \<union> \<Union> (set ` leaves_of ` set pages)" "container_id l = c"
    if "l \<in> set (container_specific_leaves pages active t c)" for l
    using that by (auto simp: container_specific_leaves_def leaves_for_def)
  then have "filter (\<lambda>l. end_time p < leaf_timestamp l \<and> leaf_timestamp l \<le> t)
      (container_specific_leaves pages active t c) = []"
    using assms(6) by (fastforce simp: filter_empty_conv)
  then show ?thesis by (simp add: reconstructed_fields_def b)
qed

definition field_leaf :: "nat \<Rightarrow> timestamp \<Rightarrow> string \<Rightarrow> journal_leaf" where
  "field_leaf i t f =
     \<lparr>leaf_id = i, leaf_timestamp = t, leaf_prev_hash = None, container_id = ''c'',
      delta_payload = JObject [(f, JBool True)], leaf_hash = zero_hash\<rparr>"

definition year_page :: "nat \<Rightarrow> timestamp \<Rightarrow> string \<Rightarrow> journal_page" where
  "year_page i en f = (new_with_id sample_hashing default_config i 3 None 0)
     \<lparr>end_time := en, content := NetPatches [(''c'', [(f, JBool True)])]\<rparr>"

definition day_page :: "nat \<Rightarrow> journal_leaf \<Rightarrow> journal_page" where
  "day_page i l = (new_with_id sample_hashing default_config i 0 None 0)\<lparr>content := Leaves [l]\<rparr>"

theorem snapshot_drops_earlier_fields_witness:
  "let pages = [day_page 0 (field_leaf 0 5 ''a''), day_page 1 (field_leaf 1 15 ''b''),
                year_page 2 10 ''a'', year_page 3 20 ''b'']
   in state_after (leaves_for ''c'' 30 (pages_log pages)) = [(''a'', JBool True), (''b'', JBool True)] \<and>
      reconstructed_fields sample_snapshot_env pages [] 30 ''c'' = [(''b'', JBool True)]"
proof -
  let ?pages = "[day_page 0 (field_leaf 0 5 ''a''), day_page 1 (field_leaf 1 15 ''b''),
                year_page 2 10 ''a'', year_page 3 20 ''b'']"
  have k: "content (day_page i l) = Leaves [l]" "content (year_page i en f) = NetPatches [(''c'', [(f, JBool True)])]"
    "end_time (year_page i en f) = en" "year_page 3 20 ''b'' \<in> set ?pages" for i l en f
    by (simp_all add: day_page_def year_page_def)
  have "reconstructed_fields sample_snapshot_env ?pages [] 30 ''c'' = patch_state [(''b'', JBool True)] []"
    by (rule snapshot_drops_earlier_fields[OF k(4,2)])
      (auto simp: k leaves_of_def field_leaf_def)
  then show ?thesis
    by (simp add: patch_state_def state_after_def apply_delta_to_state_def pages_log_def leaves_of_def k
        leaves_for_def field_leaf_def)
qed

text \<open>
  The page id of a snapshot is not unique across processes. It comes from a counter
  that starts again with the process. Two snapshots taken at the same counter value, with
  the storage of the first handed to the second, leave one page on the dedicated level: the
  second, whose previous hash names the first, which is gone.
\<close>

theorem restarted_counter_overwrites_snapshot:
  assumes "file_good C (storage m)" and "\<And>i. file_view C (storage m) (dedicated_level (snapshot_cfg cfg), i) = None"
    and "create_snapshot X E (file_backend C) cfg t cids (m, n) = (Inr h1, m1, n1)"
    and "create_snapshot X E' (file_backend C) cfg t' cids' (manager_new (storage m1), n) = (Inr h2, m2, n2)"
  shows "\<exists>p. file_load_page C (storage m2) (dedicated_level (snapshot_cfg cfg)) n = Inr (Some p) \<and>
           page_hash p = h2 \<and> prev_page_hash p = Some h1 \<and>
           file_list_summaries C (storage m2) (dedicated_level (snapshot_cfg cfg)) = Inr [summary_of p]"
proof -
  let ?d = "dedicated_level (snapshot_cfg cfg)"
  obtain sp1 where 1: "h1 = page_hash (fst (snapshot_page X cfg sp1 n))" "file_good C (storage m1)"
    "file_view C (storage m1) = (file_view C (storage m))((?d, n) \<mapsto> fst (snapshot_page X cfg sp1 n))"
    using disk.create_snapshot_Inr[OF assms(1,3)] by blast
  define p1 where "p1 = fst (snapshot_page X cfg sp1 n)"
  have "file_good C (storage (manager_new (storage m1)))" using 1(2) by simp
  from disk.create_snapshot_Inr[OF this assms(4)]
  obtain sp2 where sp2: "snapshot_payload X E' (file_backend C) cfg t' cids' (manager_new (storage m1)) = Inr sp2"
    and 2: "h2 = page_hash (fst (snapshot_page X cfg sp2 n))" "file_good C (storage m2)"
    "file_view C (storage m2) = (file_view C (storage m1))((?d, n) \<mapsto> fst (snapshot_page X cfg sp2 n))"
    by auto
  define p2 where "p2 = fst (snapshot_page X cfg sp2 n)"
  have "file_list_summaries C (storage m1) ?d = Inr [summary_of p1]"
    by (rule disk.single_page_listed[unfolded file_backend_simps]) (use 1 assms(2) snapshot_page_fields[of X cfg sp1 n] in \<open>simp_all add: p1_def\<close>)
  then have "previous_snapshot_page_hash_on_snapshot_level sp2 = Some (page_hash p1)"
    using sp2 by (auto simp: snapshot_payload_def Let_def previous_snapshot_hash_def summary_of_def elim!: try_pure_InrE)
  then have "prev_page_hash p2 = Some h1" using snapshot_page_fields(4)[of X cfg sp2 n] 1(1) by (simp add: p1_def p2_def)
  moreover have "file_list_summaries C (storage m2) ?d = Inr [summary_of p2]"
    by (rule disk.single_page_listed[unfolded file_backend_simps]) (use 1 2 assms(2) snapshot_page_fields[of X cfg sp2 n] in \<open>simp_all add: p2_def\<close>)
  moreover have "file_load_page C (storage m2) ?d n = Inr (Some p2)"
    using disk.load_ok[OF 2(2), of ?d n] 2(3) by (simp add: p2_def)
  ultimately show ?thesis using 2(1) by (auto simp: p2_def)
qed

text \<open>A codec that serialises the two snapshot pages of the instance below.\<close>

definition bare_payload :: "string \<Rightarrow> hash option \<Rightarrow> snapshot_page_payload" where
  "bare_payload u prev = \<lparr>snapshot_id = u, as_of_timestamp = 0, created_at_timestamp = 10, container_states = [],
     preceding_journal_page_hash = None, previous_snapshot_page_hash_on_snapshot_level = prev,
     container_states_merkle_root = zero_hash\<rparr>"

definition first_snapshot :: journal_page where
  "first_snapshot = fst (snapshot_page sample_hashing default_config (bare_payload ''u'' None) 4)"

definition second_snapshot :: journal_page where
  "second_snapshot =
     fst (snapshot_page sample_hashing default_config (bare_payload ''v'' (Some (page_hash first_snapshot))) 4)"

definition two_page_codecs :: codecs where
  "two_page_codecs = pair_codecs first_snapshot second_snapshot"

lemma snapshot_key [simp]:
  "page_id first_snapshot = 4" "page_level first_snapshot = 250"
  "page_id second_snapshot = 4" "page_level second_snapshot = 250"
  by (simp_all add: first_snapshot_def second_snapshot_def snapshot_page_fields default_config_defs)

lemma two_page_codecs_ok: "codecs_ok two_page_codecs"
  unfolding two_page_codecs_def by (rule pair_codecs_ok) (simp_all add: storable_def)

definition one_snapshot_disk :: "bytes \<Rightarrow> file_storage" where
  "one_snapshot_disk b = sample_disk\<lparr>fs_files := [(page_path 250 4, file_content (40 # b) Zstd)],
     fs_dirs := [[''journal''], level_dir 250]\<rparr>"

lemma two_snapshots_stored:
  "file_store_page two_page_codecs sample_disk first_snapshot = (Inr (), one_snapshot_disk [1])"
  "first_snapshot \<noteq> second_snapshot \<Longrightarrow>
     file_store_page two_page_codecs (one_snapshot_disk [1]) second_snapshot = (Inr (), one_snapshot_disk [2])"
proof -
  have d: "page_path 250 4 \<noteq> level_dir 250" "page_path 250 4 \<noteq> [''journal'']" "level_dir 250 \<noteq> [''journal'']"
    by (simp_all add: page_path_def level_dir_def)
  have b: "butlast (page_path 250 4) = level_dir 250" by (simp add: page_path_def)
  show "file_store_page two_page_codecs sample_disk first_snapshot = (Inr (), one_snapshot_disk [1])"
    using d b by (simp add: file_store_page_def create_level_dir_prefixes Let_def sample_disk_def is_dir_def
        is_file_def write_file_def compress_page_def default_compression_config_def two_page_codecs_def pair_codecs_def
        sample_codecs_def one_snapshot_disk_def)
  show "first_snapshot \<noteq> second_snapshot \<Longrightarrow>
     file_store_page two_page_codecs (one_snapshot_disk [1]) second_snapshot = (Inr (), one_snapshot_disk [2])"
    using d b by (simp add: file_store_page_def create_level_dir_prefixes Let_def sample_disk_def is_dir_def
        is_file_def write_file_def compress_page_def default_compression_config_def two_page_codecs_def pair_codecs_def
        sample_codecs_def one_snapshot_disk_def)
qed

context storage_laws
begin

lemma snapshot_payload_empty:
  assumes "good (storage m)" and "\<And>l i. l < length (levels cfg) \<Longrightarrow> pages (storage m) (l, i) = None"
    and "active_pages m 0 = None" and "id_order E [] = []" and "length (levels cfg) \<le> 255"
  shows "snapshot_payload X E B cfg t None m = Inr
    \<lparr>snapshot_id = new_uuid E, as_of_timestamp = t, created_at_timestamp = clock E, container_states = [],
     preceding_journal_page_hash = None,
     previous_snapshot_page_hash_on_snapshot_level = previous_snapshot_hash B cfg (storage m),
     container_states_merkle_root = zero_hash\<rparr>"
proof -
  have "level_scope B (storage m) t l = []" if "l < length (levels cfg)" for l
    using level_scope_set(1)[OF assms(1), of t l] assms(2)[OF that] by simp
  then have "finalized_scope B cfg (storage m) t = []"
    using assms(5) by (auto simp: finalized_scope_def concat_eq_Nil_conv)
  then show ?thesis
    using assms(3,4)
    by (simp add: snapshot_payload_def get_active_l0_leaves_up_to_def target_container_ids_def ids_up_to_def
        collect_states_def states_merkle_root_def preceding_page_hash_def)
qed

end

lemma snapshots_differ: "first_snapshot \<noteq> second_snapshot"
proof
  assume "first_snapshot = second_snapshot"
  then have "content first_snapshot = content second_snapshot" by simp
  then show False by (simp add: first_snapshot_def second_snapshot_def snapshot_page_fields bare_payload_def)
qed

lemma sample_snapshot_config:
  "dedicated_level (snapshot_cfg default_config) = 250" "snapshot_enabled (snapshot_cfg default_config)"
  "length (levels default_config) = 4"
  by (simp_all add: default_config_defs)

lemma two_page_disk_good: "file_good two_page_codecs sample_disk"
  by (simp add: file_good_def two_page_codecs_ok sample_disk_def)

lemma sample_disk_view: "file_view two_page_codecs sample_disk (l, i) = None"
  by (simp add: file_view_def sample_disk_def)

lemma snapshot_disk:
  "file_good two_page_codecs (one_snapshot_disk [1])"
  "file_view two_page_codecs (one_snapshot_disk [1]) =
     (file_view two_page_codecs sample_disk)((250, 4) \<mapsto> first_snapshot)"
  using disk.store_ok[OF two_page_disk_good] two_snapshots_stored(1) by auto

text \<open>A snapshot of an empty journal on this disk has the payload \<open>bare_payload\<close>.\<close>

lemma empty_snapshot_payload:
  assumes "file_good two_page_codecs s" and "\<And>l i. l < 4 \<Longrightarrow> file_view two_page_codecs s (l, i) = None"
    and "clock E = 10" and "id_order E = id"
    and "previous_snapshot_hash (file_backend two_page_codecs) default_config s = h"
  shows "snapshot_payload sample_hashing E (file_backend two_page_codecs) default_config 0 None (manager_new s) =
    Inr (bare_payload (new_uuid E) h)"
  using disk.snapshot_payload_empty[of two_page_codecs "manager_new s" default_config E sample_hashing 0] assms
    sample_snapshot_config(3)
  by (simp add: bare_payload_def manager_new_def)

lemma first_snapshot_created:
  "create_snapshot sample_hashing sample_snapshot_env (file_backend two_page_codecs) default_config 0 None
     (manager_new sample_disk, 4) =
   (Inr (page_hash first_snapshot), (manager_new sample_disk)\<lparr>storage := one_snapshot_disk [1]\<rparr>, 5)"
proof -
  have "file_list_summaries two_page_codecs sample_disk 250 = Inr []"
    using disk.list_summaries[OF two_page_disk_good, of 250] sample_disk_view
    by simp (metis list.set_intros(1) neq_Nil_conv)
  then have "previous_snapshot_hash (file_backend two_page_codecs) default_config sample_disk = None"
    by (simp add: previous_snapshot_hash_def sample_snapshot_config)
  then have "snapshot_payload sample_hashing sample_snapshot_env (file_backend two_page_codecs) default_config 0
      None (manager_new sample_disk) = Inr (bare_payload ''u'' None)"
    using empty_snapshot_payload[OF two_page_disk_good sample_disk_view, of sample_snapshot_env None]
    by (simp add: sample_snapshot_env_def)
  then show ?thesis
    using two_snapshots_stored(1) snapshot_page_fields(6)[of sample_hashing default_config "bare_payload ''u'' None" 4]
    by (simp add: create_snapshot_def sample_snapshot_config store_in_def first_snapshot_def split_def)
qed

lemma second_snapshot_created:
  "create_snapshot sample_hashing (sample_snapshot_env\<lparr>new_uuid := ''v''\<rparr>) (file_backend two_page_codecs)
     default_config 0 None (manager_new (one_snapshot_disk [1]), 4) =
   (Inr (page_hash second_snapshot), (manager_new (one_snapshot_disk [1]))\<lparr>storage := one_snapshot_disk [2]\<rparr>, 5)"
proof -
  have "previous_snapshot_hash (file_backend two_page_codecs) default_config (one_snapshot_disk [1]) =
      Some (page_hash first_snapshot)"
    using disk.single_page_listed[OF snapshot_disk(1), of 250 4 first_snapshot] snapshot_disk(2) sample_disk_view
    by (simp add: previous_snapshot_hash_def sample_snapshot_config summary_of_def)
  then have "snapshot_payload sample_hashing (sample_snapshot_env\<lparr>new_uuid := ''v''\<rparr>) (file_backend two_page_codecs)
      default_config 0 None (manager_new (one_snapshot_disk [1])) =
      Inr (bare_payload ''v'' (Some (page_hash first_snapshot)))"
    using empty_snapshot_payload[OF snapshot_disk(1), of "sample_snapshot_env\<lparr>new_uuid := ''v''\<rparr>"]
    by (simp add: snapshot_disk(2) sample_disk_view sample_snapshot_env_def)
  then show ?thesis
    using two_snapshots_stored(2)[OF snapshots_differ]
      snapshot_page_fields(6)[of sample_hashing default_config "bare_payload ''v'' (Some (page_hash first_snapshot))" 4]
    by (simp add: create_snapshot_def sample_snapshot_config store_in_def second_snapshot_def split_def)
qed

theorem restarted_counter_overwrites_snapshot_witness:
  "\<exists>m1 m2 p. create_snapshot sample_hashing sample_snapshot_env (file_backend two_page_codecs) default_config 0 None
       (manager_new sample_disk, 4) = (Inr (page_hash first_snapshot), m1, 5) \<and>
     create_snapshot sample_hashing (sample_snapshot_env\<lparr>new_uuid := ''v''\<rparr>) (file_backend two_page_codecs) default_config
       0 None (manager_new (storage m1), 4) = (Inr (page_hash p), m2, 5) \<and>
     prev_page_hash p = Some (page_hash first_snapshot) \<and>
     file_list_summaries two_page_codecs (storage m2) 250 = Inr [summary_of p]"
proof -
  let ?C = two_page_codecs
  let ?m1 = "(manager_new sample_disk)\<lparr>storage := one_snapshot_disk [1]\<rparr>"
  let ?m2 = "(manager_new (one_snapshot_disk [1]))\<lparr>storage := one_snapshot_disk [2]\<rparr>"
  have "file_good ?C (storage (manager_new sample_disk))" using two_page_disk_good by simp
  moreover have "file_view ?C (storage (manager_new sample_disk)) (dedicated_level (snapshot_cfg default_config), i) = None"
    for i by (simp add: sample_disk_view)
  moreover have "create_snapshot sample_hashing (sample_snapshot_env\<lparr>new_uuid := ''v''\<rparr>) (file_backend ?C)
      default_config 0 None (manager_new (storage ?m1), 4) = (Inr (page_hash second_snapshot), ?m2, 5)"
    using second_snapshot_created by simp
  ultimately obtain p where
    "page_hash p = page_hash second_snapshot" "prev_page_hash p = Some (page_hash first_snapshot)"
    "file_list_summaries ?C (storage ?m2) 250 = Inr [summary_of p]"
    using restarted_counter_overwrites_snapshot[OF _ _ first_snapshot_created] sample_snapshot_config(1) by metis
  then show ?thesis using first_snapshot_created second_snapshot_created
    by (intro exI[of _ ?m1] exI[of _ ?m2] exI[of _ p]) simp
qed

end
