(* ===== verification/Journal_Api.thy ===== *)
theory Journal_Api
  imports Query_Integrity Retention Snapshot
begin

text \<open>
  The journal, \<open>src/api/async_api.rs\<close> and \<open>src/api/sync_api.rs\<close>, with the choice of the
  storage backend in \<open>src/storage/mod.rs\<close>: what a client of the library calls.

  A journal is its manager and the hash of the last leaf it appended; the query engine
  shares the manager and its storage. The counter \<open>NEXT_LEAF_ID\<close> is process-wide and
  passed beside it, and so is \<open>NEXT_PAGE_ID\<close> where a snapshot is taken. The trait object
  \<open>Box<dyn StorageBackend>\<close> is a datatype of the two backends with a dispatching record.
  \<open>Journal::new\<close> takes the file tree found at the base path as \<open>disk\<close>. Creating a Tokio
  runtime, which the synchronous journal does first, is taken to succeed.
\<close>

section \<open>The storage backend of a configuration\<close>

datatype any_storage = MemoryState memory_storage | FileState file_storage

definition any_backend :: "codecs \<Rightarrow> any_storage storage_backend" where
  "any_backend C =
     \<lparr>store_page = (\<lambda>s p. case s of
          MemoryState x \<Rightarrow> map_prod id MemoryState (store_page memory_backend x p)
        | FileState x \<Rightarrow> map_prod id FileState (store_page (file_backend C) x p)),
      load_page = (\<lambda>s l i. case s of
          MemoryState x \<Rightarrow> load_page memory_backend x l i
        | FileState x \<Rightarrow> load_page (file_backend C) x l i),
      page_exists = (\<lambda>s l i. case s of
          MemoryState x \<Rightarrow> page_exists memory_backend x l i
        | FileState x \<Rightarrow> page_exists (file_backend C) x l i),
      delete_page = (\<lambda>s l i. case s of
          MemoryState x \<Rightarrow> map_prod id MemoryState (delete_page memory_backend x l i)
        | FileState x \<Rightarrow> map_prod id FileState (delete_page (file_backend C) x l i)),
      list_finalized_pages_summary = (\<lambda>s l. case s of
          MemoryState x \<Rightarrow> list_finalized_pages_summary memory_backend x l
        | FileState x \<Rightarrow> list_finalized_pages_summary (file_backend C) x l),
      load_page_by_hash = (\<lambda>s h. case s of
          MemoryState x \<Rightarrow> load_page_by_hash memory_backend x h
        | FileState x \<Rightarrow> load_page_by_hash (file_backend C) x h),
      load_leaf_by_hash = (\<lambda>s h. case s of
          MemoryState x \<Rightarrow> load_leaf_by_hash memory_backend x h
        | FileState x \<Rightarrow> load_leaf_by_hash (file_backend C) x h)\<rparr>"

definition create_storage_backend :: "config \<Rightarrow> file_storage \<Rightarrow> cj_error + any_storage" where
  "create_storage_backend cfg disk =
     (case storage_type (storage_cfg cfg) of
        MemoryType \<Rightarrow> Inr (MemoryState mem_new)
      | FileType \<Rightarrow>
          if base_path (storage_cfg cfg) = [] then Inl InvalidInput
          else case file_new (disk\<lparr>fs_compression := compression_cfg cfg\<rparr>) of
            (Inl e, _) \<Rightarrow> Inl e
          | (Inr _, s) \<Rightarrow> Inr (FileState s))"

section \<open>The journal\<close>

datatype page_content_hash = LeafHash hash | ThrallPageHash hash

record journal =
  manager :: "any_storage manager"
  last_leaf_hash :: "hash option"

definition journal_new :: "config \<Rightarrow> file_storage \<Rightarrow> cj_error + journal" where
  "journal_new cfg disk =
     (case create_storage_backend cfg disk of
        Inl e \<Rightarrow> Inl cj_error_new
      | Inr s \<Rightarrow> Inr \<lparr>manager = manager_new s, last_leaf_hash = None\<rparr>)"

definition previous_hash :: "page_content_hash option \<Rightarrow> hash option \<Rightarrow> hash option" where
  "previous_hash parent_hash tracked =
     (case parent_hash of
        Some (LeafHash h) \<Rightarrow> Some h
      | Some (ThrallPageHash h) \<Rightarrow> Some h
      | None \<Rightarrow> tracked)"

definition append_leaf ::
  "externals \<Rightarrow> codecs \<Rightarrow> config \<Rightarrow> timestamp \<Rightarrow> page_content_hash option \<Rightarrow> string \<Rightarrow> json \<Rightarrow>
    journal \<times> nat \<Rightarrow> (cj_error + page_content_hash) \<times> journal \<times> nat" where
  "append_leaf X C cfg ts parent_hash cid data st =
     (case st of (j, next_leaf_id) \<Rightarrow>
        case leaf_new X ts (previous_hash parent_hash (last_leaf_hash j)) cid data next_leaf_id of
          (Inl e, next_leaf_id) \<Rightarrow> (Inl e, j, next_leaf_id)
        | (Inr leaf, next_leaf_id) \<Rightarrow>
            (case add_leaf X (any_backend C) cfg leaf ts (manager j) of
               (Inl e, m) \<Rightarrow> (Inl e, j\<lparr>manager := m\<rparr>, next_leaf_id)
             | (Inr _, m) \<Rightarrow>
                 (Inr (LeafHash (leaf_hash leaf)),
                  j\<lparr>manager := m, last_leaf_hash := Some (leaf_hash leaf)\<rparr>, next_leaf_id)))"

definition reset_last_leaf_hash :: "journal \<Rightarrow> journal" where
  "reset_last_leaf_hash j = j\<lparr>last_leaf_hash := None\<rparr>"

definition get_page :: "codecs \<Rightarrow> journal \<Rightarrow> nat \<Rightarrow> nat \<Rightarrow> cj_error + journal_page" where
  "get_page C j l i =
     (case load_page_from_storage (any_backend C) (manager j) l i of
        Inr (Some page) \<Rightarrow> Inr page
      | Inr None \<Rightarrow>
          (case get_active_page_by_id (manager j) l i of
             Some active \<Rightarrow> Inr active
           | None \<Rightarrow> Inl (PageNotFound l i))
      | Inl e \<Rightarrow> Inl StorageError)"

text \<open>\<open>map_err(Into::into)\<close>: a query error becomes the text of a \<open>CJError::new\<close>.\<close>

definition query_result :: "(query_error + 'a) \<Rightarrow> cj_error + 'a" where
  "query_result r =
     (case r of
        Inl e \<Rightarrow> Inl (if e = CoreError Panicked then Panicked else cj_error_new)
      | Inr x \<Rightarrow> Inr x)"

definition journal_inclusion_proof ::
  "externals \<Rightarrow> codecs \<Rightarrow> journal \<Rightarrow> hash \<Rightarrow> cj_error + leaf_inclusion_proof" where
  "journal_inclusion_proof X C j h =
     query_result (get_leaf_inclusion_proof X (any_backend C) (manager j) h)"

definition journal_inclusion_proof_with_hint ::
  "externals \<Rightarrow> codecs \<Rightarrow> journal \<Rightarrow> hash \<Rightarrow> (nat \<times> nat) option \<Rightarrow>
    cj_error + leaf_inclusion_proof" where
  "journal_inclusion_proof_with_hint X C j h hint =
     query_result (get_leaf_inclusion_proof_with_hint X (any_backend C) (manager j) h hint)"

definition journal_container_state ::
  "codecs \<Rightarrow> journal \<Rightarrow> string \<Rightarrow> timestamp \<Rightarrow> cj_error + reconstructed_state" where
  "journal_container_state C j c at_time =
     query_result (reconstruct_container_state (any_backend C) (manager j) c at_time)"

definition journal_delta_report ::
  "codecs \<Rightarrow> journal \<Rightarrow> string \<Rightarrow> timestamp \<Rightarrow> timestamp \<Rightarrow> cj_error + delta_report" where
  "journal_delta_report C j c from to =
     query_result (get_delta_report (any_backend C) (manager j) c from to)"

definition journal_delta_report_paginated ::
  "codecs \<Rightarrow> journal \<Rightarrow> string \<Rightarrow> timestamp \<Rightarrow> timestamp \<Rightarrow> nat \<Rightarrow> nat \<Rightarrow> cj_error + delta_report" where
  "journal_delta_report_paginated C j c from to offset limit =
     query_result (get_delta_report_paginated (any_backend C) (manager j) c from to offset limit)"

definition journal_chain_integrity ::
  "externals \<Rightarrow> codecs \<Rightarrow> journal \<Rightarrow> nat \<Rightarrow> nat option \<Rightarrow> nat option \<Rightarrow>
    cj_error + page_integrity_report list" where
  "journal_chain_integrity X C j l from to =
     query_result (get_page_chain_integrity X (any_backend C) (manager j) l from to)"

definition journal_apply_retention ::
  "(page_summary list \<Rightarrow> page_summary list) \<Rightarrow> codecs \<Rightarrow> config \<Rightarrow> timestamp \<Rightarrow> journal \<Rightarrow>
    (cj_error + unit) \<times> journal" where
  "journal_apply_retention U C cfg now j =
     (case apply_retention_policies U (any_backend C) cfg now (manager j) of
        (r, m) \<Rightarrow> (r, j\<lparr>manager := m\<rparr>))"

definition journal_create_snapshot ::
  "externals \<Rightarrow> snapshot_env \<Rightarrow> codecs \<Rightarrow> config \<Rightarrow> timestamp \<Rightarrow> string list option \<Rightarrow>
    journal \<times> nat \<Rightarrow> (cj_error + hash) \<times> journal \<times> nat" where
  "journal_create_snapshot X E C cfg as_of container_ids st =
     (case st of (j, next_page_id) \<Rightarrow>
        case create_snapshot X E (any_backend C) cfg as_of container_ids (manager j, next_page_id) of
          (r, m, next_page_id) \<Rightarrow>
            (case r of Inl e \<Rightarrow> Inl cj_error_new | Inr h \<Rightarrow> Inr h, j\<lparr>manager := m\<rparr>, next_page_id))"

section \<open>The synchronous journal\<close>

text \<open>The same calls, each run to its end on the journal's own runtime; there is no \<open>append_leaf\<close>.\<close>

definition sync_journal_new :: "config \<Rightarrow> file_storage \<Rightarrow> cj_error + journal" where
  "sync_journal_new cfg disk =
     (case create_storage_backend cfg disk of
        Inl e \<Rightarrow> Inl cj_error_new
      | Inr s \<Rightarrow> Inr \<lparr>manager = manager_new s, last_leaf_hash = None\<rparr>)"

definition sync_get_page :: "codecs \<Rightarrow> journal \<Rightarrow> nat \<Rightarrow> nat \<Rightarrow> cj_error + journal_page" where
  "sync_get_page C j l i =
     (case load_page_from_storage (any_backend C) (manager j) l i of
        Inr (Some page) \<Rightarrow> Inr page
      | Inr None \<Rightarrow> Inl (PageNotFound l i)
      | Inl e \<Rightarrow> Inl e)"

definition sync_inclusion_proof ::
  "externals \<Rightarrow> codecs \<Rightarrow> journal \<Rightarrow> hash \<Rightarrow> cj_error + leaf_inclusion_proof" where
  "sync_inclusion_proof X C j h =
     query_result (get_leaf_inclusion_proof X (any_backend C) (manager j) h)"

definition sync_inclusion_proof_with_hint ::
  "externals \<Rightarrow> codecs \<Rightarrow> journal \<Rightarrow> hash \<Rightarrow> (nat \<times> nat) option \<Rightarrow>
    cj_error + leaf_inclusion_proof" where
  "sync_inclusion_proof_with_hint X C j h hint =
     query_result (get_leaf_inclusion_proof_with_hint X (any_backend C) (manager j) h hint)"

definition sync_container_state ::
  "codecs \<Rightarrow> journal \<Rightarrow> string \<Rightarrow> timestamp \<Rightarrow> cj_error + reconstructed_state" where
  "sync_container_state C j c at_time =
     query_result (reconstruct_container_state (any_backend C) (manager j) c at_time)"

definition sync_delta_report ::
  "codecs \<Rightarrow> journal \<Rightarrow> string \<Rightarrow> timestamp \<Rightarrow> timestamp \<Rightarrow> cj_error + delta_report" where
  "sync_delta_report C j c from to =
     query_result (get_delta_report (any_backend C) (manager j) c from to)"

definition sync_delta_report_paginated ::
  "codecs \<Rightarrow> journal \<Rightarrow> string \<Rightarrow> timestamp \<Rightarrow> timestamp \<Rightarrow> nat \<Rightarrow> nat \<Rightarrow> cj_error + delta_report" where
  "sync_delta_report_paginated C j c from to offset limit =
     query_result (get_delta_report_paginated (any_backend C) (manager j) c from to offset limit)"

definition sync_chain_integrity ::
  "externals \<Rightarrow> codecs \<Rightarrow> journal \<Rightarrow> nat \<Rightarrow> nat option \<Rightarrow> nat option \<Rightarrow>
    cj_error + page_integrity_report list" where
  "sync_chain_integrity X C j l from to =
     query_result (get_page_chain_integrity X (any_backend C) (manager j) l from to)"

definition sync_reset_last_leaf_hash :: "journal \<Rightarrow> journal" where
  "sync_reset_last_leaf_hash j = j\<lparr>last_leaf_hash := None\<rparr>"

section \<open>The chosen backend keeps the contract\<close>

lemma any_backend_simps [simp]:
  "store_page (any_backend C) (MemoryState x) p = map_prod id MemoryState (mem_store_page x p)"
  "store_page (any_backend C) (FileState y) p = map_prod id FileState (file_store_page C y p)"
  "load_page (any_backend C) (MemoryState x) l i = mem_load_page x l i"
  "load_page (any_backend C) (FileState y) l i = file_load_page C y l i"
  "page_exists (any_backend C) (MemoryState x) l i = mem_page_exists x l i"
  "page_exists (any_backend C) (FileState y) l i = file_page_exists y l i"
  "delete_page (any_backend C) (MemoryState x) l i = map_prod id MemoryState (mem_delete_page x l i)"
  "delete_page (any_backend C) (FileState y) l i = map_prod id FileState (file_delete_page y l i)"
  "list_finalized_pages_summary (any_backend C) (MemoryState x) l = mem_list_summaries x l"
  "list_finalized_pages_summary (any_backend C) (FileState y) l = file_list_summaries C y l"
  "load_page_by_hash (any_backend C) (MemoryState x) h = mem_load_page_by_hash x h"
  "load_page_by_hash (any_backend C) (FileState y) h = file_load_page_by_hash C y h"
  "load_leaf_by_hash (any_backend C) (MemoryState x) h = mem_load_leaf_by_hash x h"
  "load_leaf_by_hash (any_backend C) (FileState y) h = file_load_leaf_by_hash C y h"
  by (simp_all add: any_backend_def)

fun any_view :: "codecs \<Rightarrow> any_storage \<Rightarrow> page_map" where
  "any_view C (MemoryState x) = mem_view x"
| "any_view C (FileState y) = file_view C y"

fun any_good :: "codecs \<Rightarrow> any_storage \<Rightarrow> bool" where
  "any_good C (MemoryState x) \<longleftrightarrow> mem_good x"
| "any_good C (FileState y) \<longleftrightarrow> file_good C y"

fun any_reliable :: "any_storage \<Rightarrow> bool" where
  "any_reliable (MemoryState x) \<longleftrightarrow> mem_reliable x"
| "any_reliable (FileState y) \<longleftrightarrow> False"

lemma map_prod_id_eq:
  "map_prod id f r = (a, s') \<longleftrightarrow> (\<exists>x. r = (a, x) \<and> s' = f x)"
  by (cases r) auto

lemmas memory_laws =
  mem.finite_pages[unfolded memory_backend_simps] mem.keyed_pages[unfolded memory_backend_simps]
  mem.load_ok[unfolded memory_backend_simps] mem.exists_ok[unfolded memory_backend_simps]
  mem.list_ok[unfolded memory_backend_simps] mem.by_hash_ok[unfolded memory_backend_simps]
  mem.by_leaf_ok[unfolded memory_backend_simps]

lemmas memory_writes =
  mem.store_ok[unfolded memory_backend_simps] mem.store_err[unfolded memory_backend_simps]
  mem.delete_ok[unfolded memory_backend_simps] mem.delete_err[unfolded memory_backend_simps]

lemmas file_laws =
  disk.finite_pages[unfolded file_backend_simps] disk.keyed_pages[unfolded file_backend_simps]
  file_load_view file_exists_view file_list_ok file_by_hash_ok file_by_leaf_ok

interpretation any: reliable_storage "any_backend C" "any_view C" "any_good C" any_reliable for C
proof unfold_locales
  fix s :: any_storage and p :: journal_page and l i :: nat and h :: hash
    and s' :: any_storage and u :: unit and e :: cj_error
  show "any_good C s \<Longrightarrow> finite (dom (any_view C s))"
    by (cases s) (simp_all add: memory_laws file_laws)
  show "any_good C s \<Longrightarrow> keyed (any_view C s)"
    by (cases s) (simp_all add: memory_laws file_laws)
  show "any_good C s \<Longrightarrow> store_page (any_backend C) s p = (Inr u, s') \<Longrightarrow>
      any_good C s' \<and> any_view C s' = (any_view C s)((page_level p, page_id p) \<mapsto> p)"
    by (cases s) (auto simp: map_prod_id_eq dest: memory_writes file_store_ok file_store_err
        file_delete_ok file_delete_err)
  show "any_good C s \<Longrightarrow> store_page (any_backend C) s p = (Inl e, s') \<Longrightarrow>
      any_good C s' \<and> any_view C s' = any_view C s"
    by (cases s) (auto simp: map_prod_id_eq dest: memory_writes file_store_ok file_store_err
        file_delete_ok file_delete_err)
  show "any_good C s \<Longrightarrow> load_page (any_backend C) s l i = Inr (any_view C s (l, i))"
    by (cases s) (simp_all add: memory_laws file_laws)
  show "any_good C s \<Longrightarrow> page_exists (any_backend C) s l i = Inr (any_view C s (l, i) \<noteq> None)"
    by (cases s) (simp_all add: memory_laws file_laws)
  show "any_good C s \<Longrightarrow> delete_page (any_backend C) s l i = (Inr u, s') \<Longrightarrow>
      any_good C s' \<and> any_view C s' = (any_view C s)((l, i) := None)"
    by (cases s) (auto simp: map_prod_id_eq dest: memory_writes file_store_ok file_store_err
        file_delete_ok file_delete_err)
  show "any_good C s \<Longrightarrow> delete_page (any_backend C) s l i = (Inl e, s') \<Longrightarrow>
      any_good C s' \<and> any_view C s' = any_view C s"
    by (cases s) (auto simp: map_prod_id_eq dest: memory_writes file_store_ok file_store_err
        file_delete_ok file_delete_err)
  show "any_good C s \<Longrightarrow> \<exists>ss. list_finalized_pages_summary (any_backend C) s l = Inr ss \<and>
      distinct (map sum_page_id ss) \<and> set ss = summary_of ` pages_at (any_view C s) l"
    by (cases s) (simp_all add: memory_laws file_laws)
  show "any_good C s \<Longrightarrow> \<exists>r. load_page_by_hash (any_backend C) s h = Inr r \<and>
      (case r of None \<Rightarrow> \<forall>p\<in>ran (any_view C s). page_hash p \<noteq> h
       | Some p \<Rightarrow> p \<in> ran (any_view C s) \<and> page_hash p = h)"
    by (cases s) (simp_all add: memory_laws file_laws cong: option.case_cong)
  show "any_good C s \<Longrightarrow> \<exists>r. load_leaf_by_hash (any_backend C) s h = Inr r \<and>
      (case r of None \<Rightarrow> \<forall>p\<in>pages_at (any_view C s) 0. \<forall>x\<in>set (leaves_of p). leaf_hash x \<noteq> h
       | Some x \<Rightarrow> leaf_hash x = h \<and> (\<exists>p\<in>pages_at (any_view C s) 0. x \<in> set (leaves_of p)))"
    by (cases s) (simp_all add: memory_laws file_laws cong: option.case_cong)
  show "any_good C s \<Longrightarrow> any_reliable s \<Longrightarrow>
      \<exists>s'. store_page (any_backend C) s p = (Inr (), s') \<and> any_reliable s'"
    by (cases s) (simp_all add: map_prod_id_eq mem_reliable_def mem_store_page_def)
  show "any_good C s \<Longrightarrow> any_reliable s \<Longrightarrow>
      \<exists>s'. delete_page (any_backend C) s l i = (Inr (), s') \<and> any_reliable s'"
    by (cases s) (simp_all add: map_prod_id_eq mem_reliable_def mem_delete_page_def)
qed

end
