(* ===== verification/Journal_Properties.thy ===== *)
theory Journal_Properties
  imports Journal_Api Manager_Properties
begin

text \<open>
  What a client of the journal can rely on: the appended leaves are a hash chain and are
  read back from the pages, on either backend; and what happens when a journal is opened
  again on the files of an earlier one.
\<close>

section \<open>Sequences of appends\<close>

record append_request =
  rq_timestamp :: timestamp
  rq_parent :: "page_content_hash option"
  rq_container :: string
  rq_data :: json

fun append_leaves ::
  "externals \<Rightarrow> codecs \<Rightarrow> config \<Rightarrow> append_request list \<Rightarrow> journal \<times> nat \<Rightarrow>
    (cj_error + page_content_hash list) \<times> journal \<times> nat" where
  "append_leaves X C cfg [] st = (Inr [], st)"
| "append_leaves X C cfg (r # rs) st =
     try_then (append_leaf X C cfg (rq_timestamp r) (rq_parent r) (rq_container r) (rq_data r) st)
       (\<lambda>h st. try_then (append_leaves X C cfg rs st) (\<lambda>hs st. (Inr (h # hs), st)))"

text \<open>
  The predecessor a request asks for: the hash it names, whichever kind it is, and without
  one the hash \<open>tracked\<close> of the last leaf. The leaf it asks for, when the id is \<open>n\<close>.
\<close>

primrec named_hash :: "page_content_hash \<Rightarrow> hash" where
  "named_hash (LeafHash h) = h"
| "named_hash (ThrallPageHash h) = h"

definition predecessor :: "append_request \<Rightarrow> hash option \<Rightarrow> hash option" where
  "predecessor r tracked =
     (if rq_parent r = None then tracked else map_option named_hash (rq_parent r))"

lemma previous_hash_predecessor: "previous_hash (rq_parent r) tracked = predecessor r tracked"
  by (simp add: previous_hash_def predecessor_def split: option.split page_content_hash.split)

definition issued :: "externals \<Rightarrow> nat \<Rightarrow> hash option \<Rightarrow> append_request \<Rightarrow> journal_leaf \<Rightarrow> bool" where
  "issued X n tracked r l \<longleftrightarrow>
     (\<exists>payload. json_to_vec X (rq_data r) = Some payload \<and> json_parses X payload \<and>
        l = \<lparr>leaf_id = n, leaf_timestamp = rq_timestamp r,
             leaf_prev_hash = predecessor r tracked,
             container_id = rq_container r, delta_payload = rq_data r,
             leaf_hash = sha256 X (leaf_hash_input X n (rq_timestamp r)
               (predecessor r tracked) (rq_container r) payload)\<rparr>)"

text \<open>
  A chain of leaves: every leaf without a parent of its own links to the hash of the leaf
  before it, the ids count up.
\<close>

fun issued_chain ::
  "externals \<Rightarrow> nat \<Rightarrow> hash option \<Rightarrow> append_request list \<Rightarrow> journal_leaf list \<Rightarrow> bool" where
  "issued_chain X n tracked [] ls \<longleftrightarrow> ls = []"
| "issued_chain X n tracked (r # rs) [] \<longleftrightarrow> False"
| "issued_chain X n tracked (r # rs) (l # ls) \<longleftrightarrow>
     issued X n tracked r l \<and> issued_chain X ((n + 1) mod 2 ^ 64) (Some (leaf_hash l)) rs ls"

definition requests_valid :: "append_request list \<Rightarrow> bool" where
  "requests_valid rs \<longleftrightarrow> (\<forall>r\<in>set rs. 0 \<le> rq_timestamp r \<and> in_i64 (rq_timestamp r))"

definition payloads_ok :: "externals \<Rightarrow> append_request list \<Rightarrow> bool" where
  "payloads_ok X rs \<longleftrightarrow>
     (\<forall>r\<in>set rs. \<exists>payload. json_to_vec X (rq_data r) = Some payload \<and> json_parses X payload)"

section \<open>Appending through the manager\<close>

definition at_its_time :: "journal_leaf \<Rightarrow> journal_leaf \<times> timestamp" where
  "at_its_time l = (l, leaf_timestamp l)"

lemma leaf_new_issued:
  "leaf_new X (rq_timestamp r) (previous_hash (rq_parent r) tracked) (rq_container r) (rq_data r) n =
     (Inr l, n') \<longleftrightarrow> issued X n tracked r l \<and> n' = (n + 1) mod 2 ^ 64"
  using leaf_new_Inr[of X "rq_timestamp r" "previous_hash (rq_parent r) tracked" "rq_container r"
      "rq_data r" n l]
    leaf_new_counter[of X "rq_timestamp r" "previous_hash (rq_parent r) tracked" "rq_container r"
      "rq_data r" n]
  by (auto simp: issued_def prod_eq_iff previous_hash_predecessor)

lemma issued_timestamp: "issued X n tracked r l \<Longrightarrow> leaf_timestamp l = rq_timestamp r"
  by (auto simp: issued_def)

lemma add_leaves_at_its_time [simp]:
  "add_leaves X B cfg (at_its_time l # xs) m =
     try_then (add_leaf X B cfg l (leaf_timestamp l) m) (\<lambda>i m.
       try_then (add_leaves X B cfg xs m) (\<lambda>is m. (Inr (i # is), m)))"
  by (simp add: at_its_time_def)

lemma issued_chain_exists: "payloads_ok X rs \<Longrightarrow> \<exists>ls. issued_chain X n tracked rs ls"
proof (induction rs arbitrary: n tracked)
  case Nil
  show ?case by (rule exI[of _ "[]"]) simp
next
  case (Cons r rs)
  then obtain l where "issued X n tracked r l" by (auto simp: payloads_ok_def issued_def)
  moreover obtain ls where "issued_chain X ((n + 1) mod 2 ^ 64) (Some (leaf_hash l)) rs ls"
    using Cons.IH[of "(n + 1) mod 2 ^ 64" "Some (leaf_hash l)"] Cons.prems
    by (auto simp: payloads_ok_def)
  ultimately show ?case by (intro exI[of _ "l # ls"]) simp
qed

lemma append_leaf_step:
  "append_leaf X C cfg (rq_timestamp r) (rq_parent r) (rq_container r) (rq_data r) (j, n) =
     (Inr h, j', n') \<longleftrightarrow>
   (\<exists>l i m. issued X n (last_leaf_hash j) r l \<and> h = LeafHash (leaf_hash l) \<and>
      n' = (n + 1) mod 2 ^ 64 \<and>
      add_leaf X (any_backend C) cfg l (leaf_timestamp l) (manager j) = (Inr i, m) \<and>
      j' = j\<lparr>manager := m, last_leaf_hash := Some (leaf_hash l)\<rparr>)"
proof -
  obtain r0 n0 where new: "leaf_new X (rq_timestamp r) (previous_hash (rq_parent r) (last_leaf_hash j))
      (rq_container r) (rq_data r) n = (r0, n0)" by force
  show ?thesis
  proof (cases r0)
    case (Inl e)
    have "\<not> issued X n (last_leaf_hash j) r l" for l
      using leaf_new_issued[of X r "last_leaf_hash j" n l n0] leaf_new_issued[of X r "last_leaf_hash j" n l "(n + 1) mod 2 ^ 64"]
        new Inl by auto
    with new Inl show ?thesis by (simp add: append_leaf_def)
  next
    case (Inr l)
    then have l: "issued X n (last_leaf_hash j) r l" "n0 = (n + 1) mod 2 ^ 64"
      using leaf_new_issued[of X r "last_leaf_hash j" n l n0] new by auto
    have u: "issued X n (last_leaf_hash j) r l' \<longleftrightarrow> l' = l" for l'
      using l(1) by (auto simp: issued_def)
    obtain r1 m where add: "add_leaf X (any_backend C) cfg l (rq_timestamp r) (manager j) = (r1, m)" by force
    have t: "leaf_timestamp l = rq_timestamp r" by (rule issued_timestamp[OF l(1)])
    have run: "append_leaf X C cfg (rq_timestamp r) (rq_parent r) (rq_container r) (rq_data r) (j, n) =
        (case r1 of Inl e \<Rightarrow> (Inl e, j\<lparr>manager := m\<rparr>, n0)
         | Inr i \<Rightarrow> (Inr (LeafHash (leaf_hash l)),
             j\<lparr>manager := m, last_leaf_hash := Some (leaf_hash l)\<rparr>, n0))"
      using new Inr add by (simp add: append_leaf_def split: sum.split)
    show ?thesis
    proof (cases r1)
      case (Inl e)
      then show ?thesis by (simp add: run u add t)
    next
      case (Inr i)
      then show ?thesis by (auto simp: run u add t l(2))
    qed
  qed
qed

lemma append_leaves_manager:
  assumes "append_leaves X C cfg rs (j, n) = (Inr hs, j', n')"
  shows "\<exists>ls is. issued_chain X n (last_leaf_hash j) rs ls \<and> hs = map (LeafHash \<circ> leaf_hash) ls \<and>
    add_leaves X (any_backend C) cfg (map at_its_time ls) (manager j) = (Inr is, manager j')"
  using assms
proof (induction rs arbitrary: j n hs)
  case (Cons r rs)
  obtain h st1 ks st2 where a: "append_leaf X C cfg (rq_timestamp r) (rq_parent r) (rq_container r) (rq_data r) (j, n) = (Inr h, st1)"
    and b: "append_leaves X C cfg rs st1 = (Inr ks, st2)" and e: "hs = h # ks" "st2 = (j', n')"
    using Cons.prems by (auto elim!: try_then_InrE)
  obtain j1 n1 where st1: "st1 = (j1, n1)" by (cases st1)
  obtain l i m where l: "issued X n (last_leaf_hash j) r l" "h = LeafHash (leaf_hash l)"
    "n1 = (n + 1) mod 2 ^ 64" "add_leaf X (any_backend C) cfg l (leaf_timestamp l) (manager j) = (Inr i, m)"
    "j1 = j\<lparr>manager := m, last_leaf_hash := Some (leaf_hash l)\<rparr>"
    using a unfolding st1 append_leaf_step by blast
  obtain ls "is" where "issued_chain X n1 (last_leaf_hash j1) rs ls" "ks = map (LeafHash \<circ> leaf_hash) ls"
    "add_leaves X (any_backend C) cfg (map at_its_time ls) (manager j1) = (Inr is, manager j')"
    using Cons.IH[of j1 n1 ks] b e(2) st1 by blast
  with l e(1) show ?case
    by (intro exI[of _ "l # ls"] exI[of _ "i # is"]) simp
qed simp

lemma append_leaves_succeed:
  assumes "payloads_ok X rs"
    and "\<And>ls. issued_chain X n (last_leaf_hash j) rs ls \<Longrightarrow>
      \<exists>is m. add_leaves X (any_backend C) cfg (map at_its_time ls) (manager j) = (Inr is, m)"
  shows "\<exists>hs j' n'. append_leaves X C cfg rs (j, n) = (Inr hs, j', n')"
  using assms
proof (induction rs arbitrary: j n)
  case (Cons r rs)
  obtain payload where "json_to_vec X (rq_data r) = Some payload" "json_parses X payload"
    using Cons.prems(1) by (auto simp: payloads_ok_def)
  then obtain l where l: "issued X n (last_leaf_hash j) r l" by (auto simp: issued_def)
  let ?n = "(n + 1) mod 2 ^ 64"
  have run: "\<exists>i is m m'. add_leaf X (any_backend C) cfg l (leaf_timestamp l) (manager j) = (Inr i, m) \<and>
      add_leaves X (any_backend C) cfg (map at_its_time ls) m = (Inr is, m')"
    if "issued_chain X ?n (Some (leaf_hash l)) rs ls" for ls
    using Cons.prems(2)[of "l # ls"] l that by (auto elim!: try_then_InrE)
  have p: "payloads_ok X rs" using Cons.prems(1) by (simp add: payloads_ok_def)
  obtain i m where add: "add_leaf X (any_backend C) cfg l (leaf_timestamp l) (manager j) = (Inr i, m)"
    using issued_chain_exists[OF p] run by blast
  let ?j = "j\<lparr>manager := m, last_leaf_hash := Some (leaf_hash l)\<rparr>"
  have a: "append_leaf X C cfg (rq_timestamp r) (rq_parent r) (rq_container r) (rq_data r) (j, n) =
      (Inr (LeafHash (leaf_hash l)), ?j, ?n)"
    unfolding append_leaf_step using l add by blast
  have "\<exists>hs j' n'. append_leaves X C cfg rs (?j, ?n) = (Inr hs, j', n')"
    using run add by (intro Cons.IH[OF p]) auto
  with a show ?case by auto
qed simp

lemma issued_chain_valid:
  "issued_chain X n tracked rs ls \<Longrightarrow> requests_valid rs \<Longrightarrow>
     leaves_valid (map at_its_time ls) \<and> length ls = length rs"
proof (induction X n tracked rs ls rule: issued_chain.induct)
  case (3 X n tracked r rs l ls)
  then show ?case
    using issued_timestamp[of X n tracked r l]
    by (auto simp: leaves_valid_def requests_valid_def at_its_time_def)
qed (auto simp: leaves_valid_def)


section \<open>A new journal\<close>

definition fresh_disk :: "codecs \<Rightarrow> config \<Rightarrow> file_storage \<Rightarrow> bool" where
  "fresh_disk C cfg disk \<longleftrightarrow>
     (storage_type (storage_cfg cfg) = FileType \<longrightarrow>
        file_good C disk \<and> file_view C disk = Map.empty)"

lemma file_new_good:
  assumes "file_good C s" and "file_new (s\<lparr>fs_compression := c\<rparr>) = (Inr u, s')"
  shows "file_good C s' \<and> file_view C s' = file_view C s"
proof -
  have m: "\<not> in_journal marker_path" "marker_path \<noteq> page_path l i" for l i
    by (simp_all add: in_journal_def marker_path_def page_path_def level_dir_def)
  have s': "s' = s\<lparr>fs_compression := c\<rparr> \<or>
      s' = s\<lparr>fs_compression := c, fs_files := AList.update marker_path [] (fs_files s)\<rparr>"
    using assms(2) by (auto simp: file_new_def write_file_def split: if_splits)
  have g: "file_good C (s\<lparr>fs_compression := c\<rparr>)" "file_view C (s\<lparr>fs_compression := c\<rparr>) = file_view C s"
    using assms(1) by (simp_all add: file_good_def file_view_def)
  have "file_good C (s\<lparr>fs_compression := c, fs_files := AList.update marker_path [] (fs_files s)\<rparr>)"
    using assms(1) m(1) by (auto simp: file_good_def in_set_AList_update split: if_splits)
  moreover have "file_view C (s\<lparr>fs_compression := c, fs_files := AList.update marker_path [] (fs_files s)\<rparr>) =
      file_view C s"
    by (simp add: file_view_def m(2)[symmetric] map_of_AList_update fun_eq_iff)
  ultimately show ?thesis using s' g by auto
qed

lemma journal_new_storage:
  assumes "journal_new cfg disk = Inr j"
    and "storage_type (storage_cfg cfg) = FileType \<Longrightarrow> file_good C disk"
  obtains s where "j = \<lparr>manager = manager_new s, last_leaf_hash = None\<rparr>" and "any_good C s"
    and "any_view C s = (if storage_type (storage_cfg cfg) = FileType then file_view C disk else Map.empty)"
    and "storage_type (storage_cfg cfg) = MemoryType \<Longrightarrow> any_reliable s"
proof (cases "storage_type (storage_cfg cfg)")
  case MemoryType
  with assms(1) show ?thesis
    by (intro that[of "MemoryState mem_new"])
      (simp_all add: journal_new_def create_storage_backend_def mem_good_new mem_new_empty)
next
  case FileType
  with assms(1) obtain u x where x: "file_new (disk\<lparr>fs_compression := compression_cfg cfg\<rparr>) = (Inr u, x)"
    "j = \<lparr>manager = manager_new (FileState x), last_leaf_hash = None\<rparr>"
    by (auto simp: journal_new_def create_storage_backend_def split: if_splits prod.splits sum.splits)
  with file_new_good[OF assms(2) x(1)] FileType show ?thesis
    by (intro that[of "FileState x"]) simp_all
qed

lemma journal_new_fresh:
  assumes "journal_new cfg disk = Inr j" and "fresh_disk C cfg disk"
  shows "any.log_ok C X cfg (manager j) []" and "last_leaf_hash j = None"
    and "page_id_gen (manager j) = 0"
    and "storage_type (storage_cfg cfg) = MemoryType \<Longrightarrow> any.ready C X cfg (manager j) []"
proof -
  obtain s where s: "j = \<lparr>manager = manager_new s, last_leaf_hash = None\<rparr>" "any_good C s"
    "any_view C s = Map.empty" "storage_type (storage_cfg cfg) = MemoryType \<Longrightarrow> any_reliable s"
    by (rule journal_new_storage[OF assms(1), of C]) (use assms(2) in \<open>auto simp: fresh_disk_def split: if_splits\<close>)
  show "any.log_ok C X cfg (manager j) []" using any.log_ok_initial[OF s(2,3)] s(1) by simp
  show "last_leaf_hash j = None" "page_id_gen (manager j) = 0" using s(1) by simp_all
  show "any.ready C X cfg (manager j) []" if "storage_type (storage_cfg cfg) = MemoryType"
    using any.ready_initial[OF s(2) _ s(3)] s(1,4) that by simp
qed

section \<open>The log of a journal\<close>

definition journal_log :: "codecs \<Rightarrow> journal \<Rightarrow> journal_leaf list" where
  "journal_log C j = l0_log (any_backend C) (manager j)"

lemma journal_run:
  assumes "config_ok cfg" and "requests_valid rs"
    and "(4 * length rs + 6) * 2 ^ length (levels cfg) \<le> 2 ^ 64"
    and "journal_new cfg disk = Inr j" and "fresh_disk C cfg disk"
    and "append_leaves X C cfg rs (j, n) = (Inr hs, j', n')"
  obtains ls ps where "issued_chain X n None rs ls" and "hs = map (LeafHash \<circ> leaf_hash) ls"
    and "any.log_ok C X cfg (manager j') ps" and "journal_log C j' = ls"
    and "pages_log ps @ active_leaves (manager j') = ls"
proof -
  note J = journal_new_fresh[OF assms(4,5)]
  obtain ls "is" where ls: "issued_chain X n None rs ls" "hs = map (LeafHash \<circ> leaf_hash) ls"
    and add: "add_leaves X (any_backend C) cfg (map at_its_time ls) (manager j) = (Inr is, manager j')"
    using append_leaves_manager[OF assms(6)] J(2) by auto
  have v: "leaves_valid (map at_its_time ls)" "length ls = length rs"
    using issued_chain_valid[OF ls(1) assms(2)] by simp_all
  have b: "page_id_gen (manager j) + (4 * length (map at_its_time ls) + 6) * 2 ^ length (levels cfg) \<le> 2 ^ 64"
    using assms(3) v(2) J(3) by simp
  have "map fst (map at_its_time ls) = ls" by (simp add: at_its_time_def comp_def)
  moreover have "pages_log [] @ active_leaves (manager j) = []"
    using assms(4) by (auto simp: journal_new_def manager_new_def active_leaves_def split: sum.splits)
  ultimately obtain ps where "any.log_ok C X cfg (manager j') ps"
    "pages_log ps @ active_leaves (manager j') = ls"
    using any.add_leaves_append[OF J(1) assms(1) v(1) b add] by auto
  with ls show ?thesis by (intro that[of ls ps]) (simp_all add: journal_log_def any.l0_log_pages)
qed


section \<open>A manager that starts on stored pages\<close>

text \<open>
  A single level whose pages are closed by their window alone: no age limit, room for more
  than one leaf.
\<close>

definition window_level :: "config \<Rightarrow> bool" where
  "window_level cfg \<longleftrightarrow> config_ok cfg \<and> level_at cfg 1 = None \<and> 1 < leaf_limit cfg \<and>
     max_page_age_seconds (rollup_config (levels cfg ! 0)) = 0"

lemma window_levelD:
  assumes "window_level cfg"
  shows "config_ok cfg" and "level_at cfg 0 = Some (levels cfg ! 0)" and "level_at cfg 1 = None"
    and "1 < leaf_limit cfg" and "as_u32 (leaf_limit cfg) = leaf_limit cfg"
    and "leaf_max_age (levels cfg ! 0) = None" and "0 < length (levels cfg)"
  using assms
  by (auto simp: window_level_def config_ok_def level_at_def leaf_limit_def leaf_max_age_def as_u32_def)

lemma leaf_to_empty_page:
  assumes "window_level cfg"
    and "get_or_create_active_page_for_leaf X B cfg l m = (Inr p, m1)"
    and "page_level p = 0" and "content p = Leaves []" and "in_window p (leaf_timestamp l)"
  obtains q where "add_leaf X B cfg l t m = (Inr (page_id p), set_active 0 (Some q) m1)"
    and "page_add_leaf p l = Inr q" and "leaves_of q = [l]" and "content q = Leaves [l]" and "page_level q = 0"
    and "page_id q = page_id p" and "in_window q = in_window p"
proof -
  note W = window_levelD[OF assms(1)]
  obtain q where q: "page_add_leaf p l = Inr q" "content q = Leaves [l]" "page_level q = 0"
    "page_id q = page_id p" "in_window q = in_window p" "end_time q = end_time p"
    using assms(3,4) by (auto simp: page_add_leaf_def in_window_def fun_eq_iff)
  have fin: "leaf_finalize (levels cfg ! 0) q (leaf_timestamp l) t = (False, False)"
    using W(4-6) assms(5) q(2,6)
    by (simp add: leaf_finalize_def should_finalize_def Let_def content_len_def leaf_limit_def in_window_def)
  have empty: "is_content_empty p" using assms(4) by (simp add: is_content_empty_def)
  have "add_leaf X B cfg l t m = (Inr (page_id p), set_active 0 (Some q) m1)"
    using assms(2,3) W(2) empty q(1,3) fin by (simp add: add_leaf_def insert_leaf_def)
  with q show ?thesis by (intro that[of q]) (simp_all add: leaves_of_def)
qed

lemma level0_page_window:
  assumes "config_ok cfg" and "0 \<le> t" and "in_i64 t" and "0 \<le> u" and "in_i64 u"
    and "get_page_window cfg 0 t = Inr (ws, we)" and "ws \<le> u" and "u < we"
  shows "get_page_window cfg 0 u = get_page_window cfg 0 t"
proof -
  let ?lc = "levels cfg ! 0"
  have lc: "level_at cfg 0 = Some ?lc" "level_ok ?lc"
    using assms(1) by (auto simp: level_at_def config_ok_def)
  let ?g = "nanos (int (duration_seconds ?lc))"
  have w: "get_page_window cfg 0 x = Inr (window_start x ?g, window_start x ?g + ?g)" if "in_i64 x" for x
    using get_page_window_ok[OF lc, of x] that by (simp add: Let_def timestamp_nanos_def)
  have "window_start u ?g = window_start t ?g"
    using window_start_idem[OF assms(2) level_ok_nanos(2)[OF lc(2)], of u] assms(6-8) w[OF assms(3)] by simp
  then show ?thesis using w assms(3,5) by simp
qed

context storage_laws
begin

lemma last_stored_good:
  assumes "good (storage m)"
  obtains h where "last_stored_hash B 0 m = Inr h"
  using load_ok[OF assms] by (cases "last_finalized_page_ids m 0") (simp_all add: last_stored_hash_def)

lemma fresh_leaf_page_good:
  assumes "good (storage m)" and "page_id_gen m + 1 < 2 ^ 64"
  obtains h where "fresh_leaf_page X B cfg ws m =
    (Inr (new_with_id X cfg (page_id_gen m) 0 h ws), m\<lparr>page_id_gen := page_id_gen m + 1\<rparr>)"
proof -
  obtain h where "last_stored_hash B 0 m = Inr h" by (rule last_stored_good[OF assms(1)])
  with assms(2) show ?thesis
    by (intro that[of h]) (cases h; simp add: fresh_leaf_page_def create_page_def id_next_def fetch_add64_def)
qed

lemma reopened_first_leaf:
  assumes "good s" and "window_level cfg" and "0 \<le> leaf_timestamp l" and "in_i64 (leaf_timestamp l)"
  obtains q ws we where "add_leaf X B cfg l t (manager_new s) =
      (Inr 0, set_active 0 (Some q) ((manager_new s)\<lparr>page_id_gen := 1\<rparr>))"
    and "page_add_leaf (new_with_id X cfg 0 0 None ws) l = Inr q"
    and "leaves_of q = [l]" and "content q = Leaves [l]" and "page_level q = 0" and "page_id q = 0"
    and "get_page_window cfg 0 (leaf_timestamp l) = Inr (ws, we)"
    and "in_window q = (\<lambda>u. ws \<le> u \<and> u < we)"
proof -
  note W = window_levelD[OF assms(2)]
  obtain ws where w: "get_page_window cfg 0 (leaf_timestamp l) = Inr (ws, page_end_time cfg 0 ws)"
    "ws \<le> leaf_timestamp l" "leaf_timestamp l < page_end_time cfg 0 ws"
    by (rule level0_window[OF W(1) assms(3,4)])
  let ?p = "new_with_id X cfg 0 0 None ws"
  have g: "get_or_create_active_page_for_leaf X B cfg l (manager_new s) =
      (Inr ?p, (manager_new s)\<lparr>page_id_gen := 1\<rparr>)"
    using w(1) by (simp add: get_or_create_active_page_for_leaf_def manager_new_def fresh_leaf_page_def
        last_stored_hash_def create_page_def id_next_def fetch_add64_def)
  have iw: "in_window ?p = (\<lambda>u. ws \<le> u \<and> u < page_end_time cfg 0 ws)"
    by (simp add: in_window_def fun_eq_iff)
  obtain q where "add_leaf X B cfg l t (manager_new s) =
      (Inr 0, set_active 0 (Some q) ((manager_new s)\<lparr>page_id_gen := 1\<rparr>))"
    "page_add_leaf ?p l = Inr q"
    "leaves_of q = [l]" "content q = Leaves [l]" "page_level q = 0" "page_id q = 0"
    "in_window q = in_window ?p"
    by (rule leaf_to_empty_page[OF assms(2) g, where t = t])
      (use w(2,3) in \<open>simp_all add: initial_content_def iw\<close>)
  with w(1) iw show ?thesis by (intro that[of q ws "page_end_time cfg 0 ws"]) simp_all
qed

lemma single_level_rollup:
  assumes "good s" and "store_page B s p = (Inr u, s')" and "level_at cfg 1 = None"
    and "storage m = s'"
  shows "perform_rollup X B cfg 0 (page_hash p) t m = (Inr (), m)"
proof -
  obtain q where "load_page_by_hash B s' (page_hash p) = Inr (Some q)"
    by (rule by_hash_after_store[OF assms(1,2)])
  with assms(3,4) show ?thesis by (subst perform_rollup.simps) simp
qed

text \<open>A leaf of another window closes the active page, and succeeds when storing it does.\<close>

lemma reopened_next_window:
  assumes "good (storage m)" and "window_level cfg" and "0 \<le> leaf_timestamp l" and "in_i64 (leaf_timestamp l)"
    and "active_pages m 0 = Some q" and "\<not> is_content_empty q" and "page_level q = 0"
    and "\<not> in_window q (leaf_timestamp l)" and "page_id_gen m + 1 < 2 ^ 64"
  shows "case store_page B (storage m) (recalculate X q) of
      (Inl e, s') \<Rightarrow> fst (add_leaf X B cfg l t m) = Inl e
    | (Inr u, s') \<Rightarrow> \<exists>i m'. add_leaf X B cfg l t m = (Inr i, m') \<and> storage m' = s'"
proof -
  note W = window_levelD[OF assms(2)]
  obtain ws where w: "get_page_window cfg 0 (leaf_timestamp l) = Inr (ws, page_end_time cfg 0 ws)"
    "ws \<le> leaf_timestamp l" "leaf_timestamp l < page_end_time cfg 0 ws"
    by (rule level0_window[OF W(1) assms(3,4)])
  let ?q = "recalculate X q" and ?m = "set_active 0 None m"
  have gp: "get_or_create_active_page_for_leaf X B cfg l m =
      try_then (finalize_and_rollup_page X B cfg q (leaf_timestamp l) ?m)
        (\<lambda>_ m. fresh_leaf_page X B cfg ws m)"
    using w(1) assms(5,8) by (auto simp: get_or_create_active_page_for_leaf_def in_window_def)
  obtain r s' where store: "store_page B (storage m) ?q = (r, s')" by force
  then have s: "store_in B ?q ?m = (r, ?m\<lparr>storage := s'\<rparr>)" by (simp add: store_in_def)
  show ?thesis
  proof (cases r)
    case (Inl e)
    with s assms(6) gp have "get_or_create_active_page_for_leaf X B cfg l m = (Inl e, ?m\<lparr>storage := s'\<rparr>)"
      by (simp add: finalize_and_rollup_page_def Let_def)
    with store Inl show ?thesis by (simp add: add_leaf_def)
  next
    case (Inr u)
    let ?k = "track_finalized 0 ?q (?m\<lparr>storage := s'\<rparr>)"
    have "perform_rollup X B cfg 0 (page_hash ?q) (leaf_timestamp l) ?k = (Inr (), ?k)"
      using single_level_rollup[OF assms(1) store[unfolded Inr] W(3)] by (simp add: track_finalized_def)
    with s Inr assms(6,7) gp have gp': "get_or_create_active_page_for_leaf X B cfg l m = fresh_leaf_page X B cfg ws ?k"
      by (simp add: finalize_and_rollup_page_def Let_def)
    have k: "good (storage ?k)" "page_id_gen ?k + 1 < 2 ^ 64" "storage ?k = s'"
      using store_ok[OF assms(1) store[unfolded Inr]] assms(9)
      by (simp_all add: track_finalized_def set_active_def)
    obtain h where f: "fresh_leaf_page X B cfg ws ?k = (Inr (new_with_id X cfg (page_id_gen ?k) 0 h ws),
        ?k\<lparr>page_id_gen := page_id_gen ?k + 1\<rparr>)"
      by (rule fresh_leaf_page_good[OF k(1,2)])
    obtain i x where "add_leaf X B cfg l t m = (Inr i, set_active 0 (Some x) (?k\<lparr>page_id_gen := page_id_gen ?k + 1\<rparr>))"
      by (rule leaf_to_empty_page[OF assms(2) gp'[unfolded f], where t = t])
        (use w(2,3) in \<open>simp_all add: initial_content_def in_window_def\<close>)
    with store Inr k(3) show ?thesis by (simp add: set_active_def)
  qed
qed

end

section \<open>Properties\<close>

text \<open>
  C1: the journal is one hash chain. On either backend, a fresh journal that takes any
  sequence of successful \<open>append_leaf\<close> calls holds, read back from its pages, exactly one leaf per
  call, in order: each carries the request's time, container and payload, the next id, the
  hash of the leaf before it as its predecessor unless the request names one, and the hash
  of all this; and the calls returned exactly these hashes. A call without a parent hash does
  not start a chain of its own: its leaf is linked to the one appended before.
\<close>

theorem journal_is_hash_chain:
  assumes "config_ok cfg" and "requests_valid rs"
    and "(4 * length rs + 6) * 2 ^ length (levels cfg) \<le> 2 ^ 64"
    and "journal_new cfg disk = Inr j" and "fresh_disk C cfg disk"
    and "append_leaves X C cfg rs (j, n) = (Inr hs, j', n')"
  shows "issued_chain X n None rs (journal_log C j') \<and>
    hs = map (LeafHash \<circ> leaf_hash) (journal_log C j')"
  by (rule journal_run[OF assms]) simp

definition memory_config :: config where
  "memory_config =
     default_config\<lparr>storage_cfg := default_storage_config\<lparr>storage_type := MemoryType\<rparr>\<rparr>"

definition request :: "timestamp \<Rightarrow> append_request" where
  "request t = \<lparr>rq_timestamp = t, rq_parent = None, rq_container = ''c'', rq_data = JBool True\<rparr>"

lemma memory_config_simps [simp]:
  "levels memory_config = default_levels" "storage_type (storage_cfg memory_config) = MemoryType"
  by (simp_all add: memory_config_def default_config_def)

lemma memory_config_ok: "config_ok memory_config"
  using default_config_ok by (simp add: config_ok_def default_config_def)

definition two_requests :: "append_request list" where
  "two_requests = [request 5, request 86400000000007]"

lemma two_requests_facts:
  "requests_valid two_requests" "payloads_ok sample_hashing two_requests" "length two_requests = 2"
  "(4 * length two_requests + 6) * 2 ^ length (levels memory_config) \<le> 2 ^ 64"
  "fresh_disk C memory_config disk"
  by (simp_all add: two_requests_def fresh_disk_def requests_valid_def request_def in_i64_def payloads_ok_def sample_hashing_def
      sample_externals_def default_levels_def)

text \<open>
  A journal in memory takes every leaf: with a valid configuration and payloads that
  serialise, creating the journal and every \<open>append_leaf\<close> call succeed, whatever the order
  of the timestamps.
\<close>

theorem memory_appends_succeed:
  assumes "config_ok cfg" and "storage_type (storage_cfg cfg) = MemoryType"
    and "requests_valid rs" and "payloads_ok X rs"
    and "(4 * length rs + 6) * 2 ^ length (levels cfg) \<le> 2 ^ 64"
  shows "\<exists>j hs j' n'. journal_new cfg disk = Inr j \<and>
    append_leaves X C cfg rs (j, n) = (Inr hs, j', n') \<and> length hs = length rs"
proof -
  obtain j where j: "journal_new cfg disk = Inr j"
    using assms(2) by (simp add: journal_new_def create_storage_backend_def)
  have "fresh_disk C cfg disk" using assms(2) by (simp add: fresh_disk_def)
  note J = journal_new_fresh[OF j this]
  have run: "\<exists>is m. add_leaves X (any_backend C) cfg (map at_its_time ls) (manager j) = (Inr is, m)"
    if "issued_chain X n (last_leaf_hash j) rs ls" for ls
  proof -
    have v: "leaves_valid (map at_its_time ls)" "length ls = length rs"
      using issued_chain_valid[OF that assms(3)] by simp_all
    then have b: "page_id_gen (manager j) + (4 * length (map at_its_time ls) + 6) * 2 ^ length (levels cfg) \<le> 2 ^ 64"
      using assms(5) J(3) by simp
    from any.add_leaves_total[OF J(4)[OF assms(2)] assms(1) v(1) b] show ?thesis by blast
  qed
  obtain hs j' n' where a: "append_leaves X C cfg rs (j, n) = (Inr hs, j', n')"
    using append_leaves_succeed[OF assms(4) run] by blast
  obtain ls where "issued_chain X n (last_leaf_hash j) rs ls" "hs = map (LeafHash \<circ> leaf_hash) ls"
    using append_leaves_manager[OF a] by blast
  with issued_chain_valid[OF this(1) assms(3)] j a show ?thesis by auto
qed

lemma two_requests_run:
  obtains j hs j' n' where "journal_new memory_config sample_disk = Inr j"
    and "append_leaves sample_hashing sample_codecs memory_config two_requests (j, 0) = (Inr hs, j', n')"
  using memory_appends_succeed[OF memory_config_ok memory_config_simps(2) two_requests_facts(1,2,4),
      of sample_disk sample_codecs 0] by blast

theorem journal_is_hash_chain_witness:
  "\<exists>j hs j' n' l1 l2. journal_new memory_config sample_disk = Inr j \<and>
     append_leaves sample_hashing sample_codecs memory_config two_requests (j, 0) = (Inr hs, j', n') \<and>
     journal_log sample_codecs j' = [l1, l2] \<and> leaf_prev_hash l1 = None \<and>
     leaf_prev_hash l2 = Some (leaf_hash l1) \<and> hs = [LeafHash (leaf_hash l1), LeafHash (leaf_hash l2)]"
proof -
  obtain j hs j' n' where r: "journal_new memory_config sample_disk = Inr j"
    "append_leaves sample_hashing sample_codecs memory_config two_requests (j, 0) = (Inr hs, j', n')"
    by (rule two_requests_run)
  have chain: "issued_chain sample_hashing 0 None two_requests (journal_log sample_codecs j')"
    and hs: "hs = map (LeafHash \<circ> leaf_hash) (journal_log sample_codecs j')"
    using journal_is_hash_chain[OF memory_config_ok two_requests_facts(1,4) r(1) two_requests_facts(5) r(2)]
    by simp_all
  obtain l1 l2 where l: "journal_log sample_codecs j' = [l1, l2]"
    using issued_chain_valid[OF chain two_requests_facts(1)] two_requests_facts(3)
    by (auto simp: length_Suc_conv numeral_2_eq_2)
  with chain have "leaf_prev_hash l1 = None" "leaf_prev_hash l2 = Some (leaf_hash l1)"
    by (auto simp: issued_def predecessor_def request_def two_requests_def)
  with r l hs show ?thesis by simp
qed

text \<open>
  C5: every appended leaf can be read from a page. After any sequence of \<open>append_leaf\<close>
  calls on a fresh journal, each leaf of the log is on an L0 page that \<open>get_page\<close> returns
  for that page's id, and such pages hold nothing else. The synchronous \<open>get_page\<close> returns
  the same pages except the active one, which it reports as not found.
\<close>

theorem appended_leaves_on_pages:
  assumes "config_ok cfg" and "requests_valid rs"
    and "(4 * length rs + 6) * 2 ^ length (levels cfg) \<le> 2 ^ 64"
    and "journal_new cfg disk = Inr j" and "fresh_disk C cfg disk"
    and "append_leaves X C cfg rs (j, n) = (Inr hs, j', n')"
  shows "(\<forall>l\<in>set (journal_log C j'). \<exists>i p. get_page C j' 0 i = Inr p \<and> l \<in> set (leaves_of p)) \<and>
    (\<forall>i p. get_page C j' 0 i = Inr p \<longrightarrow>
       page_id p = i \<and> set (leaves_of p) \<subseteq> set (journal_log C j')) \<and>
    (\<forall>i. sync_get_page C j' 0 i =
       (if get_current_active_page_id (manager j') 0 = Some i then Inl (PageNotFound 0 i)
        else get_page C j' 0 i))"
proof -
  obtain ls ps where L: "any.log_ok C X cfg (manager j') ps" and log: "journal_log C j' = ls"
    and ls: "pages_log ps @ active_leaves (manager j') = ls"
    by (rule journal_run[OF assms])
  note I = log_invD[OF L]
  have V: "any_view C (storage (manager j')) (0, i) = Some p \<longleftrightarrow> p \<in> set ps \<and> page_id p = i" for i p
    using I(3) by (simp add: l0_inv_def)
  have load: "load_page_from_storage (any_backend C) (manager j') 0 i =
      Inr (any_view C (storage (manager j')) (0, i))" for i
    by (simp add: load_page_from_storage_def any.load_ok[OF I(1)])
  have act: "any_view C (storage (manager j')) (0, page_id a) = None" if "active_pages (manager j') 0 = Some a" for a
  proof -
    have "\<forall>q\<in>set ps. page_id q < page_id a" using I(3) that by (simp add: l0_inv_def continues_def)
    then show ?thesis using V[of "page_id a"] by (metis less_irrefl not_None_eq)
  qed
  have get: "get_page C j' 0 i = Inr p \<longleftrightarrow> (p \<in> set ps \<or> active_pages (manager j') 0 = Some p) \<and> page_id p = i" for i p
  proof (cases "any_view C (storage (manager j')) (0, i)")
    case None
    then show ?thesis using V[of i]
      by (auto simp: get_page_def load get_active_page_by_id_def split: option.splits)
  next
    case (Some q)
    have "get_page C j' 0 i = Inr q" by (simp add: get_page_def load Some)
    moreover have "active_pages (manager j') 0 = Some p \<Longrightarrow> page_id p \<noteq> i" using act Some by auto
    ultimately show ?thesis using V[of i p] Some by auto
  qed
  have "\<exists>i p. get_page C j' 0 i = Inr p \<and> l \<in> set (leaves_of p)" if "l \<in> set ls" for l
    using that ls unfolding get by (auto simp: pages_log_def active_leaves_def split: option.splits)
  moreover have "page_id p = i \<and> set (leaves_of p) \<subseteq> set ls" if "get_page C j' 0 i = Inr p" for i p
    using that ls unfolding get by (auto simp: pages_log_def active_leaves_def)
  moreover have "sync_get_page C j' 0 i =
       (if get_current_active_page_id (manager j') 0 = Some i then Inl (PageNotFound 0 i)
        else get_page C j' 0 i)" for i
    using act by (auto simp: sync_get_page_def get_page_def load get_current_active_page_id_def
        get_active_page_by_id_def split: option.splits)
  ultimately show ?thesis using log by blast
qed

theorem appended_leaves_on_pages_witness:
  "\<exists>j hs j' n' i p. journal_new memory_config sample_disk = Inr j \<and>
     append_leaves sample_hashing sample_codecs memory_config two_requests (j, 0) = (Inr hs, j', n') \<and>
     get_page sample_codecs j' 0 i = Inr p \<and> leaves_of p \<noteq> [] \<and> set (leaves_of p) \<subseteq> set (journal_log sample_codecs j')"
proof -
  obtain j hs j' n' where r: "journal_new memory_config sample_disk = Inr j"
    "append_leaves sample_hashing sample_codecs memory_config two_requests (j, 0) = (Inr hs, j', n')"
    by (rule two_requests_run)
  note run = memory_config_ok two_requests_facts(1,4) r(1) two_requests_facts(5) r(2)
  obtain ls ps where chain: "issued_chain sample_hashing 0 None two_requests ls" and log: "journal_log sample_codecs j' = ls"
    by (rule journal_run[OF run])
  have "ls \<noteq> []" using issued_chain_valid[OF chain two_requests_facts(1)] two_requests_facts(3) by auto
  then obtain l where "l \<in> set (journal_log sample_codecs j')" using log by (metis list.set_intros(1) neq_Nil_conv)
  then obtain i p where "get_page sample_codecs j' 0 i = Inr p" "l \<in> set (leaves_of p)"
    using appended_leaves_on_pages[OF run] by blast
  with appended_leaves_on_pages[OF run] r show ?thesis by (metis empty_iff list.set(1))
qed

text \<open>
  C35: opening a journal again overwrites its pages. \<open>Journal::new\<close> on a directory that
  holds pages starts its page ids at 0 and its leaf chain without a predecessor: the old
  page 0 is still read at first, but once two leaves of different time windows are
  appended, page 0 holds only the first of them, and the old page is gone.
\<close>

theorem reopened_journal_overwrites_pages:
  assumes "window_level cfg" and "storage_type (storage_cfg cfg) = FileType"
    and "file_good C disk" and "file_view C disk (0, 0) = Some old"
    and "journal_new cfg disk = Inr j" and "requests_valid [r1, r2]"
    and "get_page_window cfg 0 (rq_timestamp r1) \<noteq> get_page_window cfg 0 (rq_timestamp r2)"
    and "append_leaves X C cfg [r1, r2] (j, n) = (Inr hs, j', n')"
  shows "get_page C j 0 0 = Inr old \<and>
    (\<exists>p l. get_page C j' 0 0 = Inr p \<and> leaves_of p = [l] \<and> issued X n None r1 l)"
proof -
  obtain s where j: "j = \<lparr>manager = manager_new s, last_leaf_hash = None\<rparr>" and s: "any_good C s"
    and v: "any_view C s = file_view C disk"
    by (rule journal_new_storage[OF assms(5,3)]) (use assms(2) in auto)
  obtain ls "is" where "issued_chain X n None [r1, r2] ls"
    and add: "add_leaves X (any_backend C) cfg (map at_its_time ls) (manager_new s) = (Inr is, manager j')"
    using append_leaves_manager[OF assms(8)] j by auto
  then obtain l1 l2 k where ls: "ls = [l1, l2]" and l1: "issued X n None r1 l1"
    and l2: "issued X k (Some (leaf_hash l1)) r2 l2"
    by (cases ls; cases "tl ls"; cases "tl (tl ls)") auto
  have t: "leaf_timestamp l1 = rq_timestamp r1" "leaf_timestamp l2 = rq_timestamp r2"
    using issued_timestamp l1 l2 by blast+
  have ok: "0 \<le> leaf_timestamp l1" "in_i64 (leaf_timestamp l1)" "0 \<le> leaf_timestamp l2" "in_i64 (leaf_timestamp l2)"
    using assms(6) t by (simp_all add: requests_valid_def)
  obtain q ws we where first: "add_leaf X (any_backend C) cfg l1 (leaf_timestamp l1) (manager_new s) =
      (Inr 0, set_active 0 (Some q) ((manager_new s)\<lparr>page_id_gen := 1\<rparr>))"
    and q: "leaves_of q = [l1]" "content q = Leaves [l1]" "page_level q = 0" "page_id q = 0"
    and w: "get_page_window cfg 0 (leaf_timestamp l1) = Inr (ws, we)"
    and iw: "in_window q = (\<lambda>u. ws \<le> u \<and> u < we)"
    by (rule any.reopened_first_leaf[OF s assms(1) ok(1,2), where X = X and t = "leaf_timestamp l1"])
  let ?m = "set_active 0 (Some q) ((manager_new s)\<lparr>page_id_gen := 1\<rparr>)"
  have m: "any_good C (storage ?m)" "active_pages ?m 0 = Some q" "\<not> is_content_empty q" "page_id_gen ?m + 1 < 2 ^ 64"
    using s q(2) by (simp_all add: set_active_def is_content_empty_def)
  have "\<not> in_window q (leaf_timestamp l2)"
    using level0_page_window[OF window_levelD(1)[OF assms(1)] ok w] assms(7) t iw by auto
  note next_page = any.reopened_next_window[OF m(1) assms(1) ok(3,4) m(2,3) q(3) this m(4), of X "leaf_timestamp l2"]
  obtain r s' where store: "store_page (any_backend C) (storage ?m) (recalculate X q) = (r, s')" by force
  obtain i where second: "add_leaf X (any_backend C) cfg l2 (leaf_timestamp l2) ?m = (Inr i, manager j')"
    using add first by (auto simp: ls elim!: try_then_InrE)
  then obtain u where "r = Inr u" "storage (manager j') = s'"
    using next_page store by (cases r) auto
  with any.store_ok[OF m(1)] store have g: "any_good C (storage (manager j'))"
    and p: "any_view C (storage (manager j')) (0, 0) = Some (recalculate X q)"
    using q(3,4) by auto
  have "get_page C j 0 0 = Inr old"
    using any.load_ok[OF s, of 0 0] assms(4) v by (simp add: get_page_def load_page_from_storage_def j)
  moreover have "get_page C j' 0 0 = Inr (recalculate X q)"
    using any.load_ok[OF g, of 0 0] p by (simp add: get_page_def load_page_from_storage_def)
  ultimately show ?thesis using q(1) l1 by (intro conjI exI[of _ "recalculate X q"] exI[of _ l1]) simp_all
qed

text \<open>A closed instance: one level of days, a stored page 0, and a leaf on each of two days.\<close>

definition day_only :: config where
  "day_only = default_config\<lparr>levels := [hd default_levels]\<rparr>"

definition old_page :: journal_page where
  "old_page = recalculate sample_hashing
     (new_with_id sample_hashing day_only 0 0 None 0\<lparr>content := Leaves [sample_leaf 0 5]\<rparr>)"

definition replacing_leaf :: journal_leaf where
  "replacing_leaf = projr (fst (leaf_new sample_hashing 5 None ''c'' (JBool True) 0))"

definition replacing_page :: journal_page where
  "replacing_page = recalculate sample_hashing
     (projr (page_add_leaf (new_with_id sample_hashing day_only 0 0 None 0) replacing_leaf))"

definition reopened_codecs :: codecs where
  "reopened_codecs = pair_codecs old_page replacing_page"

definition old_disk :: file_storage where
  "old_disk = sample_disk
     \<lparr>fs_files := [(page_path 0 0, file_content [40, 1] Zstd), (marker_path, [])],
      fs_dirs := [[''journal''], level_dir 0]\<rparr>"

lemma day_only_facts:
  "window_level day_only" "storage_type (storage_cfg day_only) = FileType"
  "compression_cfg day_only = default_compression_config" "base_path (storage_cfg day_only) \<noteq> []"
  by (simp_all add: window_level_def day_only_def default_config_defs config_ok_def level_ok_def level_at_def
      leaf_limit_def)

lemma day_only_window:
  "get_page_window day_only 0 5 = Inr (0, 86400000000000)"
  "get_page_window day_only 0 86400000000007 = Inr (86400000000000, 172800000000000)"
  by (simp_all add: get_page_window_def day_only_def default_config_defs level_at_def nanos_def as_i64_def
      Let_def window_start_def timestamp_nanos_def in_i64_def trunc_div_def)

lemma replacing_leaf_issued: "issued sample_hashing 0 None (request 5) replacing_leaf"
  by (simp add: issued_def replacing_leaf_def leaf_new_def fetch_add64_def request_def predecessor_def previous_hash_def
      sample_hashing_def sample_externals_def)

lemma replacing_page_key:
  "page_id replacing_page = 0" "page_level replacing_page = 0" "page_id old_page = 0" "page_level old_page = 0"
  by (simp_all add: replacing_page_def old_page_def page_add_leaf_def initial_content_def)

lemma reopened_codecs_ok: "codecs_ok reopened_codecs"
  unfolding reopened_codecs_def by (rule pair_codecs_ok) (simp_all add: storable_def replacing_page_key)

lemma old_disk_decodes: "decode_file reopened_codecs (file_content [40, 1] Zstd) = Inr old_page"
  by (simp add: decode_file_content) (simp add: reopened_codecs_def pair_codecs_def sample_codecs_def strip_byte_def)

lemma old_disk_good: "file_good reopened_codecs old_disk" "file_view reopened_codecs old_disk (0, 0) = Some old_page"
proof -
  have m: "\<not> in_journal marker_path" by (simp add: in_journal_def marker_path_def)
  have "page_path 0 0 \<noteq> marker_path" using m in_journal_simps(1)[of 0 0] by metis
  moreover have "page_file reopened_codecs (page_path 0 0) (file_content [40, 1] Zstd)"
    by (simp add: page_file_def old_disk_decodes replacing_page_key)
  moreover have "butlast (page_path 0 0) = level_dir 0" by (simp add: page_path_def)
  ultimately show "file_good reopened_codecs old_disk"
    using m reopened_codecs_ok by (auto simp: file_good_def old_disk_def)
  show "file_view reopened_codecs old_disk (0, 0) = Some old_page"
    by (simp add: file_view_def old_disk_def old_disk_decodes)
qed

lemma reopened_store:
  "\<exists>s'. file_store_page reopened_codecs old_disk replacing_page = (Inr (), s')"
proof -
  have "\<exists>bs. page_to_vec reopened_codecs replacing_page = Some bs"
    by (simp add: reopened_codecs_def pair_codecs_def)
  moreover have "butlast (page_path 0 0) = level_dir 0" by (simp add: page_path_def)
  moreover have "\<not> is_dir old_disk (page_path 0 0)" by (rule page_path_not_dir[OF old_disk_good(1)])
  ultimately show ?thesis
    by (auto simp: file_store_page_def replacing_page_key create_level_dir_prefixes Let_def write_file_def
        compress_page_def is_dir_def old_disk_def sample_disk_def default_compression_config_def
        reopened_codecs_def pair_codecs_def sample_codecs_def)
qed

lemma reopened_journal:
  "journal_new day_only old_disk = Inr \<lparr>manager = manager_new (FileState old_disk), last_leaf_hash = None\<rparr>"
proof -
  have "old_disk\<lparr>fs_compression := default_compression_config\<rparr> = old_disk"
    by (simp add: old_disk_def sample_disk_def)
  moreover have "file_new old_disk = (Inr (), old_disk)"
    by (simp add: file_new_def fs_exists_def is_file_def old_disk_def sample_disk_def)
  ultimately show ?thesis
    using day_only_facts by (simp add: journal_new_def create_storage_backend_def)
qed

lemma reopened_run:
  "\<exists>hs j' n'. append_leaves sample_hashing reopened_codecs day_only [request 5, request 86400000000007]
     (\<lparr>manager = manager_new (FileState old_disk), last_leaf_hash = None\<rparr>, 0) = (Inr hs, j', n')"
proof (rule append_leaves_succeed)
  show "payloads_ok sample_hashing [request 5, request 86400000000007]"
    using two_requests_facts(2) by (simp add: two_requests_def)
  fix ls
  let ?j = "\<lparr>manager = manager_new (FileState old_disk), last_leaf_hash = None\<rparr>"
  assume chain: "issued_chain sample_hashing 0 (last_leaf_hash ?j) [request 5, request 86400000000007] ls"
  then obtain l1 l2 h where ls: "ls = [l1, l2]" and l: "issued sample_hashing 0 None (request 5) l1"
    "issued sample_hashing 1 h (request 86400000000007) l2"
    by (cases ls; cases "tl ls"; cases "tl (tl ls)") auto
  have l1: "l1 = replacing_leaf" using l(1) replacing_leaf_issued by (auto simp: issued_def)
  have t: "leaf_timestamp l1 = 5" "leaf_timestamp l2 = 86400000000007"
    using issued_timestamp[OF l(1)] issued_timestamp[OF l(2)] by (simp_all add: request_def)
  have g: "any_good reopened_codecs (FileState old_disk)" using old_disk_good(1) by simp
  have v: "0 \<le> leaf_timestamp l1" "in_i64 (leaf_timestamp l1)" "0 \<le> leaf_timestamp l2" "in_i64 (leaf_timestamp l2)"
    by (simp_all add: t in_i64_def)
  obtain q ws we where first: "add_leaf sample_hashing (any_backend reopened_codecs) day_only l1
      (leaf_timestamp l1) (manager ?j) = (Inr 0, set_active 0 (Some q) ((manager_new (FileState old_disk))\<lparr>page_id_gen := 1\<rparr>))"
    and q: "page_add_leaf (new_with_id sample_hashing day_only 0 0 None ws) l1 = Inr q"
    "content q = Leaves [l1]" "page_level q = 0"
    and w: "get_page_window day_only 0 (leaf_timestamp l1) = Inr (ws, we)"
    and iw: "in_window q = (\<lambda>u. ws \<le> u \<and> u < we)"
    unfolding journal.select_convs
    by (rule any.reopened_first_leaf[OF g day_only_facts(1) v(1,2), where X = sample_hashing and t = "leaf_timestamp l1"])
  let ?m = "set_active 0 (Some q) ((manager_new (FileState old_disk))\<lparr>page_id_gen := 1\<rparr>)"
  have ws: "ws = 0" "we = 86400000000000" using w day_only_window(1) t by simp_all
  have rq: "recalculate sample_hashing q = replacing_page" using q(1) by (simp add: replacing_page_def ws l1)
  obtain s' where s': "store_page (any_backend reopened_codecs) (storage ?m) (recalculate sample_hashing q) = (Inr (), FileState s')"
    using reopened_store by (auto simp: rq set_active_def)
  have n: "\<not> in_window q (leaf_timestamp l2)" by (simp add: iw ws t)
  have m: "any_good reopened_codecs (storage ?m)" "active_pages ?m 0 = Some q" "\<not> is_content_empty q"
    "page_id_gen ?m + 1 < 2 ^ 64"
    using g q(2) by (simp_all add: set_active_def is_content_empty_def)
  obtain i m' where "add_leaf sample_hashing (any_backend reopened_codecs) day_only l2 (leaf_timestamp l2) ?m = (Inr i, m')"
    using any.reopened_next_window[OF m(1) day_only_facts(1) v(3,4) m(2,3) q(3) n m(4), of sample_hashing "leaf_timestamp l2"]
    unfolding s' by auto
  with first show "\<exists>is m. add_leaves sample_hashing (any_backend reopened_codecs) day_only
      (map at_its_time ls) (manager ?j) = (Inr is, m)"
    by (simp add: ls)
qed

theorem reopened_journal_overwrites_pages_witness:
  "\<exists>j hs j' n' p l. journal_new day_only old_disk = Inr j \<and>
     append_leaves sample_hashing reopened_codecs day_only [request 5, request 86400000000007] (j, 0) =
       (Inr hs, j', n') \<and>
     get_page reopened_codecs j 0 0 = Inr old_page \<and> leaves_of old_page = [sample_leaf 0 5] \<and>
     get_page reopened_codecs j' 0 0 = Inr p \<and> leaves_of p = [l] \<and> container_id l = ''c'' \<and>
     delta_payload l = JBool True"
proof -
  obtain hs j' n' where run: "append_leaves sample_hashing reopened_codecs day_only [request 5, request 86400000000007]
     (\<lparr>manager = manager_new (FileState old_disk), last_leaf_hash = None\<rparr>, 0) = (Inr hs, j', n')"
    using reopened_run by blast
  have v: "requests_valid [request 5, request 86400000000007]"
    using two_requests_facts(1) by (simp add: two_requests_def)
  have w: "get_page_window day_only 0 (rq_timestamp (request 5)) \<noteq>
      get_page_window day_only 0 (rq_timestamp (request 86400000000007))"
    using day_only_window by (simp add: request_def)
  have "leaves_of old_page = [sample_leaf 0 5]" by (simp add: old_page_def) (simp add: leaves_of_def)
  moreover note reopened_journal_overwrites_pages[OF day_only_facts(1,2) old_disk_good reopened_journal v w run]
  ultimately show ?thesis
    using reopened_journal run by (auto simp: issued_def request_def)
qed

end
