(* ===== verification/Backup.thy ===== *)
theory Backup
  imports File_Storage
begin

text \<open>
  Backup and restore of a journal directory, \<open>backup_journal\<close> and \<open>restore_journal\<close> of
  \<open>src/storage/file.rs\<close>.

  The paths of the two operations lie anywhere, so the tree is taken below a root common to
  all of them, and the base path of the storage is an argument. The crate \<open>zip\<close> is the pair
  \<open>zip_write\<close>, \<open>zip_read\<close> on lists of entries, a directory having no content;
  \<open>zip_partial\<close> is what a writer that is dropped early leaves in the file, and a failing
  writer shows when it is finished. An entry read back has no path when \<open>enclosed_name\<close>
  rejects its name. \<open>walk_order\<close> is the order of \<open>WalkDir\<close>. Path components are valid
  UTF-8, removing a directory is all or nothing, and permission bits are not modelled.
\<close>

section \<open>The manifest\<close>

record manifest_compression_info =
  mc_algorithm :: string
  mc_level :: "int option"

record manifest_storage_details =
  ms_storage_type :: string
  ms_base_path :: string
  ms_compression :: manifest_compression_info

record manifest_file_entry =
  mf_relative_path :: string
  mf_sha256_hash_uncompressed :: string
  mf_original_size :: nat
  mf_stored_size :: nat

record backup_manifest =
  bm_format_version :: string
  bm_timestamp :: string
  bm_storage_details :: manifest_storage_details
  bm_files :: "manifest_file_entry list"
  bm_tool_version :: string

type_synonym zip_entry = "path \<times> bytes option"

record backup_env =
  walk_order :: "path list \<Rightarrow> path list"
  zip_write :: "zip_entry list \<Rightarrow> bytes option"
  zip_partial :: "zip_entry list \<Rightarrow> bytes"
  zip_read :: "bytes \<Rightarrow> (path option \<times> bytes option) list option"
  manifest_to_string :: "backup_manifest \<Rightarrow> bytes option"
  digest_hex :: "bytes \<Rightarrow> string"
  path_text :: "path \<Rightarrow> string"
  backup_time :: string
  tool_version :: string

fun algorithm_debug :: "compression_algorithm \<Rightarrow> string" where
  "algorithm_debug Zstd = ''Zstd''"
| "algorithm_debug Lz4 = ''Lz4''"
| "algorithm_debug Snappy = ''Snappy''"
| "algorithm_debug NoCompression = ''None''"

definition manifest_compression :: "compression_config \<Rightarrow> manifest_compression_info" where
  "manifest_compression cfg =
     \<lparr>mc_algorithm = algorithm_debug (algorithm cfg), mc_level = Some (int (compression_level cfg))\<rparr>"

definition backup_manifest_of ::
  "backup_env \<Rightarrow> path \<Rightarrow> compression_config \<Rightarrow> manifest_file_entry list \<Rightarrow> backup_manifest" where
  "backup_manifest_of Z base cfg mfs =
     \<lparr>bm_format_version = ''1.0.0'', bm_timestamp = backup_time Z,
      bm_storage_details = \<lparr>ms_storage_type = ''FileStorage'', ms_base_path = path_text Z base,
        ms_compression = manifest_compression cfg\<rparr>,
      bm_files = mfs, bm_tool_version = tool_version Z\<rparr>"

definition manifest_name :: path where
  "manifest_name = [''backup_manifest.json'']"

section \<open>More of the file system\<close>

definition below :: "path \<Rightarrow> path \<Rightarrow> bool" where
  "below d q \<longleftrightarrow> take (length d) q = d"

definition put_file :: "path \<Rightarrow> bytes \<Rightarrow> file_storage \<Rightarrow> file_storage" where
  "put_file q data s = s\<lparr>fs_files := AList.update q data (fs_files s)\<rparr>"

definition rename_file :: "file_storage \<Rightarrow> path \<Rightarrow> path \<Rightarrow> (cj_error + unit) \<times> file_storage" where
  "rename_file s a b =
     (case map_of (fs_files s) a of
        None \<Rightarrow> (Inl StorageError, s)
      | Some data \<Rightarrow>
          if is_dir s b \<or> \<not> is_dir s (butlast b) \<or> write_denied s a \<or> write_denied s b
          then (Inl StorageError, s)
          else (Inr (), s\<lparr>fs_files := AList.update b data (AList.delete a (fs_files s))\<rparr>))"

definition remove_dir_all :: "file_storage \<Rightarrow> path \<Rightarrow> (cj_error + unit) \<times> file_storage" where
  "remove_dir_all s d =
     (if \<not> is_dir s d \<or> (\<exists>q \<in> set (d # fs_dirs s @ map fst (fs_files s)). below d q \<and> write_denied s q)
      then (Inl StorageError, s)
      else (Inr (), s\<lparr>fs_files := filter (\<lambda>(q, data). \<not> below d q) (fs_files s),
                       fs_dirs := filter (\<lambda>q. \<not> below d q) (fs_dirs s)\<rparr>))"

definition ensure_dir :: "file_storage \<Rightarrow> path \<Rightarrow> (cj_error + unit) \<times> file_storage" where
  "ensure_dir s d = (if fs_exists s d then (Inr (), s) else create_dir_all s d)"

section \<open>Backup\<close>

text \<open>\<open>WalkDir\<close>: the directory itself and everything below it.\<close>

definition walk :: "backup_env \<Rightarrow> file_storage \<Rightarrow> path \<Rightarrow> path list" where
  "walk Z s d =
     walk_order Z (d # filter (\<lambda>q. below d q \<and> q \<noteq> d) (fs_dirs s @ map fst (fs_files s)))"

fun join_path :: "path \<Rightarrow> string" where
  "join_path [] = []"
| "join_path [c] = c"
| "join_path (c # cs) = c @ ''/'' @ join_path cs"

definition slashes :: "string \<Rightarrow> string" where
  "slashes s = map (\<lambda>c. if c = CHR 0x5C then CHR ''/'' else c) s"

text \<open>A file that is no page goes into the archive, but not into the manifest.\<close>

definition manifest_entries ::
  "externals \<Rightarrow> codecs \<Rightarrow> backup_env \<Rightarrow> path \<Rightarrow> bytes \<Rightarrow> cj_error + manifest_file_entry list" where
  "manifest_entries X C Z rel data =
     (if length data < 6 \<or> take 4 data \<noteq> magic_string then Inr []
      else try_pure (u8_to_compression_algorithm (data ! 5)) (\<lambda>algo.
        case decompress C algo (drop 6 data) of
          None \<Rightarrow> Inl CompressionError
        | Some raw \<Rightarrow> Inr
            [\<lparr>mf_relative_path = slashes (join_path rel),
              mf_sha256_hash_uncompressed = digest_hex Z (sha256 X raw),
              mf_original_size = length raw, mf_stored_size = length data\<rparr>]))"

fun backup_entries ::
  "externals \<Rightarrow> codecs \<Rightarrow> backup_env \<Rightarrow> file_storage \<Rightarrow> path \<Rightarrow> path \<Rightarrow> path list \<Rightarrow>
    zip_entry list \<Rightarrow> (cj_error + manifest_file_entry list) \<times> zip_entry list" where
  "backup_entries X C Z s source temp [] es = (Inr [], es)"
| "backup_entries X C Z s source temp (q # qs) es =
     (let rel = drop (length source) q
      in if q = temp then backup_entries X C Z s source temp qs es
         else case map_of (fs_files s) q of
           Some data \<Rightarrow>
             try_then (manifest_entries X C Z rel data, es) (\<lambda>mfs es.
             try_then (backup_entries X C Z s source temp qs (es @ [(rel, Some data)]))
               (\<lambda>rest es. (Inr (mfs @ rest), es)))
         | None \<Rightarrow>
             backup_entries X C Z s source temp qs
               (if rel = [] then es else es @ [(rel, None)]))"

text \<open>\<open>with_extension("<ext>.tmp")\<close>.\<close>

definition temp_path :: "path \<Rightarrow> path" where
  "temp_path q =
     (case split_ext (last q) of
        (stem, ext) \<Rightarrow> butlast q @ [stem @ ''.'' @ (case ext of None \<Rightarrow> ''zip'' | Some e \<Rightarrow> e) @ ''.tmp''])"

text \<open>The manifest is added and the archive is finished in the file \<open>q\<close>.\<close>

definition write_archive ::
  "backup_env \<Rightarrow> path \<Rightarrow> zip_entry list \<Rightarrow> backup_manifest \<Rightarrow> file_storage \<Rightarrow>
    (cj_error + unit) \<times> file_storage" where
  "write_archive Z q es bm s =
     (case manifest_to_string Z bm of
        None \<Rightarrow> (Inl StorageError, put_file q (zip_partial Z es) s)
      | Some manifest_json \<Rightarrow>
          let es = es @ [(manifest_name, Some manifest_json)]
          in (case zip_write Z es of
                None \<Rightarrow> (Inl StorageError, put_file q (zip_partial Z es) s)
              | Some archive \<Rightarrow> (Inr (), put_file q archive s)))"

definition replace_backup :: "path \<Rightarrow> path \<Rightarrow> file_storage \<Rightarrow> (cj_error + unit) \<times> file_storage" where
  "replace_backup temp backup_path s =
     try_then
       (if fs_exists s backup_path then
          if is_dir s backup_path then (Inl StorageError, s) else remove_file s backup_path
        else (Inr (), s))
       (\<lambda>_ s. case rename_file s temp backup_path of
          (Inl e, s) \<Rightarrow> (Inl e, snd (remove_file s temp))
        | (Inr _, s) \<Rightarrow> (Inr (), s))"

definition file_backup_journal ::
  "externals \<Rightarrow> codecs \<Rightarrow> backup_env \<Rightarrow> path \<Rightarrow> path \<Rightarrow> file_storage \<Rightarrow>
    (cj_error + unit) \<times> file_storage" where
  "file_backup_journal X C Z base backup_path s =
     (let source = base @ [''journal'']; cfg = fs_compression s
      in if \<not> fs_exists s source then
           try_then (write_file s backup_path []) (\<lambda>_ s.
             write_archive Z backup_path [] (backup_manifest_of Z base cfg []) s)
         else
           try_then (ensure_dir s (butlast backup_path)) (\<lambda>_ s.
           let temp = temp_path backup_path;
               s = (if fs_exists s temp then snd (remove_file s temp) else s)
           in try_then (write_file s temp []) (\<lambda>_ s.
             case backup_entries X C Z s source temp (walk Z s source) [] of
               (Inl e, es) \<Rightarrow> (Inl e, put_file temp (zip_partial Z es) s)
             | (Inr mfs, es) \<Rightarrow>
                 try_then (write_archive Z temp es (backup_manifest_of Z base cfg mfs) s) (\<lambda>_ s.
                   replace_backup temp backup_path s))))"

section \<open>Restore\<close>

definition restore_entry ::
  "path \<Rightarrow> path option \<times> bytes option \<Rightarrow> file_storage \<Rightarrow> (cj_error + unit) \<times> file_storage" where
  "restore_entry target e s =
     (case e of
        (None, _) \<Rightarrow> (Inr (), s)
      | (Some q, None) \<Rightarrow> create_dir_all s (target @ q)
      | (Some q, Some data) \<Rightarrow>
          try_then (ensure_dir s (butlast (target @ q))) (\<lambda>_ s. write_file s (target @ q) data))"

fun restore_entries ::
  "path \<Rightarrow> (path option \<times> bytes option) list \<Rightarrow> file_storage \<Rightarrow> (cj_error + unit) \<times> file_storage" where
  "restore_entries target [] s = (Inr (), s)"
| "restore_entries target (e # es) s =
     try_then (restore_entry target e s) (\<lambda>_ s. restore_entries target es s)"

definition file_restore_journal ::
  "backup_env \<Rightarrow> path \<Rightarrow> path \<Rightarrow> file_storage \<Rightarrow> (cj_error + unit) \<times> file_storage" where
  "file_restore_journal Z backup_path target s =
     (if \<not> fs_exists s backup_path then (Inl StorageError, s)
      else
        try_then (if fs_exists s target then remove_dir_all s target else (Inr (), s)) (\<lambda>_ s.
        try_then (create_dir_all s target) (\<lambda>_ s.
        case map_of (fs_files s) backup_path of
          None \<Rightarrow> (Inl StorageError, s)
        | Some archive \<Rightarrow>
            (case zip_read Z archive of
               None \<Rightarrow> (Inl StorageError, s)
             | Some es \<Rightarrow> restore_entries target es s))))"

text \<open>The storage that opens the directory \<open>base\<close>.\<close>

definition at_base :: "path \<Rightarrow> file_storage \<Rightarrow> file_storage" where
  "at_base base s = s
     \<lparr>fs_files := map (\<lambda>(q, data). (drop (length base) q, data))
        (filter (\<lambda>(q, data). below base q) (fs_files s)),
      fs_dirs := map (drop (length base)) (filter (\<lambda>q. below base q \<and> q \<noteq> base) (fs_dirs s)),
      write_denied := (\<lambda>q. write_denied s (base @ q))\<rparr>"

end
