(* ===== verification/Backup_Properties.thy ===== *)
theory Backup_Properties
  imports Backup
begin

text \<open>
  Restoring a backup gives the journal back, and the two ways it does not work out: one
  damaged page stops the backup of all others, and a restore clears its target before it
  has looked at the archive.
\<close>

section \<open>Files through the operations\<close>

definition files_of :: "file_storage \<Rightarrow> path \<Rightarrow> bytes option" where
  "files_of s = map_of (fs_files s)"

lemma put_file_simps [simp]:
  "files_of (put_file q data s) = (files_of s)(q \<mapsto> data)"
  "fs_dirs (put_file q data s) = fs_dirs s" "write_denied (put_file q data s) = write_denied s"
  "is_dir (put_file q data s) d = is_dir s d"
  by (simp_all add: put_file_def files_of_def map_of_AList_update is_dir_def)

lemma create_dir_all_frame:
  assumes "create_dir_all s q = (r, s')"
  shows "files_of s' = files_of s" and "set (fs_dirs s) \<subseteq> set (fs_dirs s')"
  using make_dirs_frame[of s _ r s'] assms by (auto simp: create_dir_all_def files_of_def)

lemma ensure_dir_frame:
  assumes "ensure_dir s q = (r, s')"
  shows "files_of s' = files_of s" and "set (fs_dirs s) \<subseteq> set (fs_dirs s')"
  using assms create_dir_all_frame[of s q r s'] by (auto simp: ensure_dir_def split: if_splits)

lemma write_file_frame:
  assumes "write_file s q data = (Inr u, s')"
  shows "files_of s' = (files_of s)(q \<mapsto> data)" and "fs_dirs s' = fs_dirs s"
  using assms by (auto simp: write_file_def files_of_def map_of_AList_update split: if_splits)

lemma remove_file_frame:
  assumes "remove_file s q = (r, s')"
  shows "p \<noteq> q \<Longrightarrow> files_of s' p = files_of s p" and "fs_dirs s' = fs_dirs s"
  using assms by (auto simp: remove_file_def files_of_def map_of_AList_delete split: if_splits)

lemma rename_file_frame:
  assumes "rename_file s a b = (Inr u, s')"
  shows "files_of s' b = files_of s a" and "p \<noteq> a \<Longrightarrow> p \<noteq> b \<Longrightarrow> files_of s' p = files_of s p"
    and "fs_dirs s' = fs_dirs s"
  using assms by (auto simp: rename_file_def files_of_def map_of_AList_update map_of_AList_delete
      split: option.splits if_splits)

lemma below_append [simp]: "below d (d @ r)"
  by (simp add: below_def)

lemma below_split: "below d q \<Longrightarrow> q = d @ drop (length d) q"
  by (metis append_take_drop_id below_def)

lemma at_base_files [simp]: "files_of (at_base base s) q = files_of s (base @ q)"
proof -
  have "map_of (map (\<lambda>(p, data). (drop (length base) p, data)) (filter (\<lambda>(p, data). below base p) xs)) q =
      map_of xs (base @ q)" for xs :: "(path \<times> bytes) list"
  proof (induction xs)
    case (Cons x xs)
    obtain p data where x: "x = (p, data)" by (cases x)
    have "below base p \<and> drop (length base) p = q \<longleftrightarrow> p = base @ q"
      using below_split[of base p] by auto
    with Cons x show ?case by (cases "below base p") auto
  qed simp
  then show ?thesis by (simp add: files_of_def at_base_def)
qed

lemma file_view_files: "file_view C s (l, i) =
    (case files_of s (page_path l i) of
       None \<Rightarrow> None
     | Some data \<Rightarrow> (case decode_file C data of Inl _ \<Rightarrow> None | Inr p \<Rightarrow> Some p))"
  by (simp add: file_view_def files_of_def)

section \<open>The entries of a backup\<close>

definition entry_of :: "file_storage \<Rightarrow> path \<Rightarrow> path \<Rightarrow> path \<Rightarrow> zip_entry list" where
  "entry_of s source temp q =
     (if q = temp then []
      else case files_of s q of
        Some data \<Rightarrow> [(drop (length source) q, Some data)]
      | None \<Rightarrow> if drop (length source) q = [] then [] else [(drop (length source) q, None)])"

lemma backup_entries_result:
  "backup_entries X C Z s source temp qs es = (Inr mfs, es') \<Longrightarrow>
     es' = es @ concat (map (entry_of s source temp) qs)"
proof (induction qs arbitrary: es mfs)
  case (Cons q qs)
  let ?rel = "drop (length source) q"
  show ?case
  proof (cases "q = temp")
    case True
    with Cons.IH[of es mfs] Cons.prems show ?thesis by (simp add: entry_of_def Let_def)
  next
    case False
    show ?thesis
    proof (cases "map_of (fs_files s) q")
      case None
      with False Cons.prems Cons.IH[of "if ?rel = [] then es else es @ [(?rel, None)]" mfs] show ?thesis
        by (simp add: entry_of_def files_of_def Let_def split: if_splits)
    next
      case (Some data)
      with False Cons.prems obtain rest where
        "backup_entries X C Z s source temp qs (es @ [(?rel, Some data)]) = (Inr rest, es')"
        by (auto simp: Let_def elim!: try_then_InrE)
      from Cons.IH[OF this] False Some show ?thesis by (simp add: entry_of_def files_of_def)
    qed
  qed
qed simp

text \<open>The files an archive holds, and what extracting it writes: the last entry of a name wins.\<close>

definition archive_files :: "(path option \<times> bytes option) list \<Rightarrow> (path \<times> bytes) list" where
  "archive_files es =
     concat (map (\<lambda>e. case e of (Some q, Some data) \<Rightarrow> [(q, data)] | _ \<Rightarrow> []) es)"

lemma restore_entries_files:
  assumes "restore_entries target es s = (Inr u, s')"
  shows "files_of s' = files_of s ++ map_of (rev (map (\<lambda>(q, data). (target @ q, data)) (archive_files es)))"
  using assms
proof (induction es arbitrary: s)
  case (Cons e es)
  obtain s1 v where e: "restore_entry target e s = (Inr v, s1)"
    and r: "restore_entries target es s1 = (Inr u, s')"
    using Cons.prems by (auto elim!: try_then_InrE)
  let ?new = "map (\<lambda>(q, data). (target @ q, data)) (archive_files [e])"
  have "files_of s1 = files_of s ++ map_of (rev ?new)"
    using e by (auto simp: restore_entry_def archive_files_def write_file_frame(1) ensure_dir_frame(1)
        dest: create_dir_all_frame(1) ensure_dir_frame(1) write_file_frame(1)
        split: prod.splits option.splits elim!: try_then_InrE)
  moreover have "archive_files (e # es) = archive_files [e] @ archive_files es"
    by (simp add: archive_files_def)
  ultimately show ?case using Cons.IH[OF r] by simp
qed (simp add: archive_files_def)

lemma archive_files_append: "archive_files (es @ fs) = archive_files es @ archive_files fs"
  by (simp add: archive_files_def)

lemma map_of_prefixed:
  "map_of (map (\<lambda>(q, data). (d @ q, data)) xs) (d @ r) = map_of xs r"
  by (induction xs) auto

lemma map_of_functional:
  assumes "\<And>r x. (r, x) \<in> set xs \<Longrightarrow> f r = Some x" and "f r \<noteq> None \<Longrightarrow> r \<in> fst ` set xs"
  shows "map_of xs r = f r"
proof (cases "map_of xs r")
  case None
  then have "f r = None" using assms(2) by (auto simp: map_of_eq_None_iff)
  with None show ?thesis by simp
next
  case (Some x)
  then show ?thesis using assms(1) map_of_SomeD[OF Some] by simp
qed

section \<open>What a backup holds\<close>

text \<open>Every file lies in directories that exist.\<close>

definition tree_ok :: "file_storage \<Rightarrow> bool" where
  "tree_ok s \<longleftrightarrow> (\<forall>q n. files_of s q \<noteq> None \<and> n < length q \<longrightarrow> is_dir s (take n q))"

text \<open>
  \<open>WalkDir\<close> yields every path once it is given, and an archive that was finished is read
  back as it was written.
\<close>

definition backup_env_ok :: "backup_env \<Rightarrow> bool" where
  "backup_env_ok Z \<longleftrightarrow> (\<forall>ps. set (walk_order Z ps) = set ps) \<and>
     (\<forall>es archive. zip_write Z es = Some archive \<longrightarrow>
        zip_read Z archive = Some (map (\<lambda>(q, data). (Some q, data)) es))"

definition holds_files :: "file_storage \<Rightarrow> path \<Rightarrow> zip_entry list \<Rightarrow> bool" where
  "holds_files s source es \<longleftrightarrow> (\<forall>r data. (r, Some data) \<in> set es \<longleftrightarrow> files_of s (source @ r) = Some data)"

lemma tree_ok_dir:
  assumes "tree_ok s" and "files_of s q \<noteq> None" and "below d q"
  shows "fs_exists s d"
proof (cases "q = d")
  case True
  with assms(2) show ?thesis by (simp add: fs_exists_def is_file_def files_of_def)
next
  case False
  have "length d \<le> length q" using assms(3) by (metis below_def length_take min.cobounded1)
  then have "length d < length q" using False assms(3) by (metis below_def le_neq_implies_less take_all le_refl)
  then have "is_dir s (take (length d) q)" using assms(1,2) by (simp add: tree_ok_def)
  then show ?thesis using assms(3) by (simp add: below_def fs_exists_def)
qed

lemma walk_holds_files:
  assumes "backup_env_ok Z" and "\<not> below source temp" and "\<And>q. q \<noteq> temp \<Longrightarrow> files_of s' q = files_of s q"
  shows "holds_files s source (concat (map (entry_of s' source temp) (walk Z s' source)))"
proof -
  have w: "set (walk Z s' source) = insert source {q \<in> set (fs_dirs s') \<union> fst ` set (fs_files s'). below source q}"
    using assms(1) by (auto simp: walk_def backup_env_ok_def)
  have key: "q \<in> fst ` set (fs_files s')" if "files_of s' q = Some data" for q data
    using that by (force simp: files_of_def dest: map_of_SomeD)
  have "(r, Some data) \<in> set (concat (map (entry_of s' source temp) (walk Z s' source))) \<longleftrightarrow>
      files_of s (source @ r) = Some data" for r data
  proof
    assume "(r, Some data) \<in> set (concat (map (entry_of s' source temp) (walk Z s' source)))"
    then obtain q where q: "q \<in> set (walk Z s' source)" "q \<noteq> temp" "files_of s' q = Some data"
      "r = drop (length source) q"
      by (auto simp: entry_of_def split: if_splits option.splits)
    then have "below source q" using w by (auto simp: below_def)
    then have "q = source @ r" using q(4) below_split by simp
    with q(2,3) assms(3) show "files_of s (source @ r) = Some data" by simp
  next
    assume f: "files_of s (source @ r) = Some data"
    have t: "source @ r \<noteq> temp" using assms(2) by auto
    then have f': "files_of s' (source @ r) = Some data" using f assms(3) by simp
    then have "source @ r \<in> set (walk Z s' source)" using w key by auto
    moreover have "(r, Some data) \<in> set (entry_of s' source temp (source @ r))"
      using t f' by (simp add: entry_of_def)
    ultimately show "(r, Some data) \<in> set (concat (map (entry_of s' source temp) (walk Z s' source)))"
      by (auto intro!: bexI[of _ "source @ r"])
  qed
  then show ?thesis by (simp add: holds_files_def)
qed

lemma write_archive_Inr:
  assumes "write_archive Z q es bm s = (Inr u, s')"
  obtains json archive where "zip_write Z (es @ [(manifest_name, Some json)]) = Some archive"
    and "s' = put_file q archive s"
  using assms by (auto simp: write_archive_def Let_def split: option.splits)

lemma replace_backup_Inr:
  assumes "replace_backup temp bp s = (Inr u, s')"
  shows "files_of s temp \<noteq> None \<Longrightarrow> temp \<noteq> bp \<Longrightarrow> files_of s' bp = files_of s temp"
    and "q \<noteq> temp \<Longrightarrow> q \<noteq> bp \<Longrightarrow> files_of s' q = files_of s q" and "fs_dirs s' = fs_dirs s"
proof -
  obtain s1 v where r: "rename_file s1 temp bp = (Inr v, s')" and s1: "s1 = s \<or> remove_file s bp = (Inr (), s1)"
    using assms by (auto simp: replace_backup_def split: if_splits prod.splits sum.splits elim!: try_then_InrE)
  have f: "fs_dirs s1 = fs_dirs s" "\<And>p. p \<noteq> bp \<Longrightarrow> files_of s1 p = files_of s p"
    using s1 remove_file_frame[of s bp "Inr ()" s1] by auto
  show "temp \<noteq> bp \<Longrightarrow> files_of s' bp = files_of s temp"
    using rename_file_frame(1)[OF r] f(2) by simp
  show "q \<noteq> temp \<Longrightarrow> q \<noteq> bp \<Longrightarrow> files_of s' q = files_of s q" "fs_dirs s' = fs_dirs s"
    using rename_file_frame(2,3)[OF r] f by simp_all
qed

lemma backup_result:
  assumes "file_backup_journal X C Z base bp s = (Inr u, s')" and "backup_env_ok Z" and "tree_ok s"
    and "\<not> below (base @ [''journal'']) (temp_path bp)" and "temp_path bp \<noteq> bp"
  obtains es json archive where "files_of s' bp = Some archive"
    and "zip_write Z (es @ [(manifest_name, Some json)]) = Some archive"
    and "holds_files s (base @ [''journal'']) es"
    and "\<And>q. q \<noteq> temp_path bp \<Longrightarrow> q \<noteq> bp \<Longrightarrow> files_of s' q = files_of s q"
    and "set (fs_dirs s) \<subseteq> set (fs_dirs s')"
proof (cases "fs_exists s (base @ [''journal''])")
  case False
  then have none: "files_of s ((base @ [''journal'']) @ r) = None" for r
    using tree_ok_dir[OF assms(3)] below_append by blast
  obtain s1 v where w: "write_file s bp [] = (Inr v, s1)"
    and a: "write_archive Z bp [] (backup_manifest_of Z base (fs_compression s) []) s1 = (Inr u, s')"
    using assms(1) False by (auto simp: file_backup_journal_def Let_def elim!: try_then_InrE)
  obtain json archive where "zip_write Z ([] @ [(manifest_name, Some json)]) = Some archive"
    "s' = put_file bp archive s1" by (rule write_archive_Inr[OF a])
  then show ?thesis
    using that[of archive "[]" json] write_file_frame[OF w] none by (simp add: holds_files_def)
next
  case True
  let ?source = "base @ [''journal'']" and ?temp = "temp_path bp"
  obtain v1 s1 v2 s2 s3 mfs es where e: "ensure_dir s (butlast bp) = (Inr v1, s1)"
    and s2: "s2 = (if fs_exists s1 ?temp then snd (remove_file s1 ?temp) else s1)"
    and w: "write_file s2 ?temp [] = (Inr v2, s3)"
    and es: "backup_entries X C Z s3 ?source ?temp (walk Z s3 ?source) [] = (Inr mfs, es)"
    and t: "try_then (write_archive Z ?temp es (backup_manifest_of Z base (fs_compression s) mfs) s3)
        (\<lambda>_ s. replace_backup ?temp bp s) = (Inr u, s')"
    using assms(1) True
    by (auto simp: file_backup_journal_def Let_def split: prod.splits sum.splits elim!: try_then_InrE)
  obtain v3 s4 where a: "write_archive Z ?temp es (backup_manifest_of Z base (fs_compression s) mfs) s3 = (Inr v3, s4)"
    and r: "replace_backup ?temp bp s4 = (Inr u, s')"
    using t by (rule try_then_InrE)
  obtain json archive where z: "zip_write Z (es @ [(manifest_name, Some json)]) = Some archive"
    and s4: "s4 = put_file ?temp archive s3" by (rule write_archive_Inr[OF a])
  have f2: "fs_dirs s2 = fs_dirs s1" "\<And>q. q \<noteq> ?temp \<Longrightarrow> files_of s2 q = files_of s1 q"
    using remove_file_frame[of s1 ?temp "fst (remove_file s1 ?temp)" s2] by (auto simp: s2 prod_eq_iff split: if_splits)
  have f3: "files_of s3 q = files_of s q" if "q \<noteq> ?temp" for q
    using write_file_frame(1)[OF w] f2(2)[OF that] ensure_dir_frame(1)[OF e] that by simp
  have "files_of s4 ?temp = Some archive" by (simp add: s4)
  then have "files_of s' bp = Some archive" using replace_backup_Inr(1)[OF r _ assms(5)] by simp
  moreover have "files_of s' q = files_of s q" if "q \<noteq> ?temp" "q \<noteq> bp" for q
    using replace_backup_Inr(2)[OF r that] f3 that by (simp add: s4)
  moreover have "set (fs_dirs s) \<subseteq> set (fs_dirs s')"
    using replace_backup_Inr(3)[OF r] write_file_frame(2)[OF w] f2(1) ensure_dir_frame(2)[OF e] by (simp add: s4)
  moreover have "es = concat (map (entry_of s3 ?source ?temp) (walk Z s3 ?source))"
    using backup_entries_result[OF es] by simp
  ultimately show ?thesis
    using that[OF _ z] walk_holds_files[OF assms(2,4) f3] by simp
qed

section \<open>What a restore leaves\<close>

lemma remove_dir_all_frame:
  assumes "remove_dir_all s d = (Inr u, s')"
  shows "files_of s' q = (if below d q then None else files_of s q)"
proof -
  have "map_of (filter (\<lambda>(p, data). \<not> below d p) xs) q = (if below d q then None else map_of xs q)"
    for xs :: "(path \<times> bytes) list"
    by (induction xs) auto
  then show ?thesis using assms by (auto simp: remove_dir_all_def files_of_def split: if_splits)
qed

lemma restore_result:
  assumes "file_restore_journal Z bp target s = (Inr u, s')"
    and "\<And>r. files_of s (target @ r) \<noteq> None \<Longrightarrow> fs_exists s target"
    and "\<not> below target bp" and "files_of s bp = Some archive" and "zip_read Z archive = Some es"
  shows "files_of s' (target @ r) = map_of (rev (archive_files es)) r"
    and "\<not> below target q \<Longrightarrow> files_of s' q = files_of s q"
proof -
  obtain v1 s1 v2 s2 where c: "(if fs_exists s target then remove_dir_all s target else (Inr (), s)) = (Inr v1, s1)"
    and d: "create_dir_all s1 target = (Inr v2, s2)"
    and rest: "(case map_of (fs_files s2) bp of
          None \<Rightarrow> (Inl StorageError, s2)
        | Some archive \<Rightarrow>
            (case zip_read Z archive of
               None \<Rightarrow> (Inl StorageError, s2)
             | Some es \<Rightarrow> restore_entries target es s2)) = (Inr u, s')"
    using assms(1) by (auto simp: file_restore_journal_def split: if_splits elim!: try_then_InrE)
  have s1: "files_of s1 (target @ r) = None" "\<not> below target q \<Longrightarrow> files_of s1 q = files_of s q" for r q
    using c assms(2)[of r] remove_dir_all_frame[of s target v1 s1]
    by (cases "files_of s (target @ r)"; auto split: if_splits)+
  have s2: "files_of s2 = files_of s1" by (rule create_dir_all_frame(1)[OF d])
  then have "map_of (fs_files s2) bp = Some archive"
    using s1(2)[OF assms(3)] assms(4) by (simp add: files_of_def)
  with rest assms(5) have "restore_entries target es s2 = (Inr u, s')" by simp
  note f = restore_entries_files[OF this]
  have rev: "rev (map (\<lambda>(q, data). (target @ q, data)) xs) = map (\<lambda>(q, data). (target @ q, data)) (rev xs)"
    for xs :: "(path \<times> bytes) list"
    by (simp add: rev_map)
  show "files_of s' (target @ r) = map_of (rev (archive_files es)) r"
    using s1(1) by (simp add: f s2 rev map_add_def map_of_prefixed split: option.split)
  show "files_of s' q = files_of s q" if "\<not> below target q"
  proof -
    have "map_of (map (\<lambda>(p, data). (target @ p, data)) xs) q = None" for xs :: "(path \<times> bytes) list"
      using that by (auto simp: map_of_eq_None_iff)
    then show ?thesis using s1(2)[OF that] by (simp add: f s2 rev map_add_def)
  qed
qed

lemma temp_path_neq: "temp_path q \<noteq> q"
proof
  assume eq: "temp_path q = q"
  obtain stem ext where x: "split_ext (last q) = (stem, ext)" by force
  have "length (last q) \<le> length stem + (case ext of None \<Rightarrow> 0 | Some e \<Rightarrow> length e + 1)"
  proof -
    let ?n = "rev (last q)"
    have "length ?n = length (takeWhile (\<lambda>c. c \<noteq> CHR ''.'') ?n) + length (dropWhile (\<lambda>c. c \<noteq> CHR ''.'') ?n)"
      by (metis length_append takeWhile_dropWhile_id)
    then show ?thesis using x by (auto simp: split_ext_def split: list.splits if_splits)
  qed
  moreover have "last (temp_path q) = stem @ ''.'' @ (case ext of None \<Rightarrow> ''zip'' | Some e \<Rightarrow> e) @ ''.tmp''"
    by (simp add: temp_path_def x)
  then have "length (last (temp_path q)) = length stem + 1 + (case ext of None \<Rightarrow> 3 | Some e \<Rightarrow> length e) + 4"
    by (simp split: option.splits)
  ultimately show False using eq by (simp split: option.splits)
qed

section \<open>Properties\<close>

text \<open>
  C20: restoring a backup gives the journal back. When a backup of the journal at \<open>base\<close>
  and a restore of it into the journal directory of \<open>base'\<close> both succeed, a storage opened
  at \<open>base'\<close> has exactly the pages of the journal at the time of the backup, whatever the
  order of the walk, the content and the state of the target, as long as backup and
  temporary file lie outside both journal directories.
\<close>

theorem restored_backup_has_same_pages:
  assumes "backup_env_ok Z" and "tree_ok s"
    and "file_backup_journal X C Z base backup_path s = (Inr u, s1)"
    and "file_restore_journal Z backup_path (base' @ [''journal'']) s1 = (Inr v, s2)"
    and "\<not> below (base @ [''journal'']) (temp_path backup_path)"
    and "\<not> below (base' @ [''journal'']) (temp_path backup_path)"
    and "\<not> below (base' @ [''journal'']) backup_path"
  shows "file_view C (at_base base' s2) = file_view C (at_base base s)"
proof -
  let ?source = "base @ [''journal'']" and ?target = "base' @ [''journal'']"
  obtain es json archive where bp: "files_of s1 backup_path = Some archive"
    and z: "zip_write Z (es @ [(manifest_name, Some json)]) = Some archive"
    and h: "holds_files s ?source es"
    and f: "\<And>q. q \<noteq> temp_path backup_path \<Longrightarrow> q \<noteq> backup_path \<Longrightarrow> files_of s1 q = files_of s q"
    and d: "set (fs_dirs s) \<subseteq> set (fs_dirs s1)"
    using backup_result[OF assms(3,1,2,5) temp_path_neq] by metis
  let ?zs = "map (\<lambda>(q, data). (Some q, data)) (es @ [(manifest_name, Some json)])"
  have read: "zip_read Z archive = Some ?zs" using assms(1) z by (simp add: backup_env_ok_def)
  have out: "?target @ r \<noteq> temp_path backup_path" "?target @ r \<noteq> backup_path" for r
    using assms(6,7) below_append by metis+
  have ex: "fs_exists s1 ?target" if "files_of s1 (?target @ r) \<noteq> None" for r
  proof -
    have "fs_exists s ?target"
      using tree_ok_dir[OF assms(2) _ below_append, of ?target r] that f[OF out] by simp
    then show ?thesis
      using d f[OF out[of "[]", simplified append_Nil2]] by (auto simp: fs_exists_def is_dir_def is_file_def files_of_def)
  qed
  have got: "files_of s2 (?target @ r) = map_of (rev (archive_files ?zs)) r" for r
    by (rule restore_result(1)[OF assms(4) ex assms(7) bp read])
  have same: "files_of s2 (?target @ r) = files_of s (?source @ r)" if "r \<noteq> manifest_name" for r
  proof -
    let ?xs = "archive_files (map (\<lambda>(q, data). (Some q, data)) es)"
    have xs: "(q, data) \<in> set ?xs \<longleftrightarrow> files_of s (?source @ q) = Some data" for q data
      using h by (force simp: archive_files_def holds_files_def split: option.splits)
    have "map_of (rev ?xs) r = files_of s (?source @ r)"
      using xs by (intro map_of_functional[where f = "\<lambda>r. files_of s (?source @ r)"]) force+
    then show ?thesis using that unfolding got by (simp add: archive_files_def)
  qed
  have "files_of s2 (base' @ page_path l i) = files_of s (base @ page_path l i)" for l i
    using same[of "tl (page_path l i)"] by (simp add: page_path_def level_dir_def manifest_name_def)
  then show ?thesis by (simp add: fun_eq_iff file_view_files)
qed

text \<open>A closed instance: one page, backed up to a file beside the data and restored elsewhere.\<close>

definition level_name_0 :: string where
  "level_name_0 = ''level_'' @ dec_digits 0"

definition page_name_3 :: string where
  "page_name_3 = page_file_name 3"

definition page_bytes :: bytes where
  "page_bytes = file_content (be_bytes 8 3 @ be_bytes 1 0) NoCompression"

definition sample_entries :: "zip_entry list" where
  "sample_entries = [([level_name_0], None), ([level_name_0, page_name_3], Some page_bytes),
     (manifest_name, Some [1])]"

definition sample_backup_env :: backup_env where
  "sample_backup_env =
     \<lparr>walk_order = id, zip_write = (\<lambda>es. if es = sample_entries then Some [9] else None),
      zip_partial = (\<lambda>_. []),
      zip_read = (\<lambda>b. if b = [9] then Some (map (\<lambda>(q, data). (Some q, data)) sample_entries) else None),
      manifest_to_string = (\<lambda>_. Some [1]), digest_hex = (\<lambda>_. []), path_text = concat,
      backup_time = [], tool_version = ''0.1.0''\<rparr>"

definition data_disk :: file_storage where
  "data_disk = sample_disk
     \<lparr>fs_files := [([''data'', ''journal'', level_name_0, page_name_3], page_bytes)],
      fs_dirs := [[''data''], [''data'', ''journal''], [''data'', ''journal'', level_name_0]]\<rparr>"

lemma sample_backup_env_ok: "backup_env_ok sample_backup_env"
  by (auto simp: backup_env_ok_def sample_backup_env_def)

lemma data_disk_ok: "tree_ok data_disk"
proof -
  have "is_dir data_disk (take n [''data'', ''journal'', level_name_0, page_name_3])" if "n < 4" for n
  proof -
    have "n = 0 \<or> n = 1 \<or> n = 2 \<or> n = 3" using that by presburger
    then show ?thesis by (elim disjE) (simp_all add: is_dir_def data_disk_def)
  qed
  then show ?thesis by (simp add: tree_ok_def files_of_def data_disk_def split: if_splits)
qed

lemma page_path_three: "page_path 0 3 = [''journal'', level_name_0, page_name_3]"
  by (simp add: page_path_def level_dir_def level_name_0_def page_name_3_def)

lemma page_bytes_manifest:
  "manifest_entries X sample_codecs sample_backup_env rel page_bytes =
     Inr [\<lparr>mf_relative_path = slashes (join_path rel), mf_sha256_hash_uncompressed = [],
       mf_original_size = 9, mf_stored_size = 15\<rparr>]"
  by (simp add: manifest_entries_def page_bytes_def file_content_def magic_string_def format_version_def
      u8_to_compression_algorithm_def sample_backup_env_def)

lemma data_backup:
  "file_backup_journal X sample_codecs sample_backup_env [''data''] [''b.zip''] data_disk =
     (Inr (), data_disk\<lparr>fs_files := fs_files data_disk @ [([''b.zip''], [9])]\<rparr>)"
proof -
  have t: "temp_path [''b.zip''] = [''b.zip.tmp'']" by (simp add: temp_path_def split_ext_def)
  let ?temp = "[''b.zip.tmp'']"
  have e: "ensure_dir data_disk (butlast [''b.zip'']) = (Inr (), data_disk)"
    by (simp add: ensure_dir_def fs_exists_def is_dir_def)
  have s: "fs_exists data_disk ([''data''] @ [''journal''])" "\<not> fs_exists data_disk ?temp"
    by (simp_all add: fs_exists_def is_dir_def is_file_def data_disk_def)
  let ?s = "put_file ?temp [] data_disk"
  have w: "write_file data_disk ?temp [] = (Inr (), ?s)"
    by (simp add: write_file_def is_dir_def data_disk_def sample_disk_def put_file_def)
  have "walk sample_backup_env ?s [''data'', ''journal''] =
      [[''data'', ''journal''], [''data'', ''journal'', level_name_0],
       [''data'', ''journal'', level_name_0, page_name_3]]"
    by (simp add: walk_def sample_backup_env_def below_def data_disk_def put_file_def)
  then have es: "backup_entries X sample_codecs sample_backup_env ?s [''data'', ''journal''] ?temp
      (walk sample_backup_env ?s [''data'', ''journal'']) [] =
      (Inr [\<lparr>mf_relative_path = slashes (join_path [level_name_0, page_name_3]), mf_sha256_hash_uncompressed = [],
       mf_original_size = 9, mf_stored_size = 15\<rparr>],
       [([level_name_0], None), ([level_name_0, page_name_3], Some page_bytes)])"
    by (simp add: page_bytes_manifest put_file_def data_disk_def)
  have arch: "write_archive sample_backup_env ?temp
      [([level_name_0], None), ([level_name_0, page_name_3], Some page_bytes)] bm ?s =
      (Inr (), put_file ?temp [9] ?s)" for bm
    by (simp add: write_archive_def sample_backup_env_def sample_entries_def)
  have rep: "replace_backup ?temp [''b.zip''] (put_file ?temp [9] ?s) =
      (Inr (), data_disk\<lparr>fs_files := fs_files data_disk @ [([''b.zip''], [9])]\<rparr>)"
    by (simp add: replace_backup_def fs_exists_def is_file_def is_dir_def put_file_def rename_file_def
        data_disk_def sample_disk_def)
  show ?thesis
    using e s w es t by (simp add: file_backup_journal_def Let_def arch rep)
qed

definition restored_disk :: file_storage where
  "restored_disk = data_disk
     \<lparr>fs_files := fs_files data_disk @ [([''b.zip''], [9]),
        ([''new'', ''journal'', level_name_0, page_name_3], page_bytes),
        ([''new'', ''journal'', ''backup_manifest.json''], [1])],
      fs_dirs := fs_dirs data_disk @ [[''new''], [''new'', ''journal''], [''new'', ''journal'', level_name_0]]\<rparr>"

lemma data_restore:
  "file_restore_journal sample_backup_env [''b.zip''] ([''new''] @ [''journal''])
     (data_disk\<lparr>fs_files := fs_files data_disk @ [([''b.zip''], [9])]\<rparr>) = (Inr (), restored_disk)"
proof -
  have p: "map (\<lambda>n. take (Suc n) [a, b]) [0..<length [a, b]] = [[a], [a, b]]" for a b :: string
    by (simp add: upt_rec)
  have p3: "map (\<lambda>n. take (Suc n) [a, b, c]) [0..<length [a, b, c]] = [[a], [a, b], [a, b, c]]" for a b c :: string
    by (simp add: upt_rec)
  have n: "level_name_0 \<noteq> ''backup_manifest.json''" by (simp add: level_name_0_def)
  show ?thesis
    using p[of "''new''" "''journal''"] p3[of "''new''" "''journal''" level_name_0] n
    by (simp add: file_restore_journal_def fs_exists_def is_file_def is_dir_def data_disk_def sample_disk_def
        create_dir_all_def sample_backup_env_def sample_entries_def restore_entry_def ensure_dir_def
        write_file_def manifest_name_def restored_disk_def)
qed

theorem restored_backup_has_same_pages_witness:
  "file_view sample_codecs (at_base [''new''] restored_disk) =
     file_view sample_codecs (at_base [''data''] data_disk) \<and>
   file_view sample_codecs (at_base [''new''] restored_disk) (0, 3) \<noteq> None"
proof -
  have t: "temp_path [''b.zip''] = [''b.zip.tmp'']" by (simp add: temp_path_def split_ext_def)
  have b: "\<not> below ([''data''] @ [''journal'']) (temp_path [''b.zip''])"
    "\<not> below ([''new''] @ [''journal'']) (temp_path [''b.zip''])" "\<not> below ([''new''] @ [''journal'']) [''b.zip'']"
    by (simp_all add: t below_def)
  have eq: "file_view sample_codecs (at_base [''new''] restored_disk) =
      file_view sample_codecs (at_base [''data''] data_disk)"
    by (rule restored_backup_has_same_pages[OF sample_backup_env_ok data_disk_ok data_backup data_restore b])
  have "decode_file sample_codecs page_bytes = Inr q" if "page_from_slice sample_codecs (be_bytes 8 3 @ be_bytes 1 0) = Some q" for q
    using that by (simp add: page_bytes_def decode_file_content)
  moreover have "\<exists>q. page_from_slice sample_codecs (be_bytes 8 3 @ be_bytes 1 0) = Some q"
    by (simp add: sample_codecs_def sample_from_slice_def)
  moreover have "files_of data_disk ([''data''] @ page_path 0 3) = Some page_bytes"
    by (simp add: page_path_three files_of_def data_disk_def)
  ultimately show ?thesis by (auto simp: eq file_view_files)
qed

end
