(* ===== verification/C_Ffi.thy ===== *)
theory C_Ffi
  imports Turnstile
begin

text \<open>
  The C interface of the turnstile, \<open>src/ffi/c_ffi.rs\<close>.

  C memory is a map from the addresses of allocated byte objects to their content; a
  pointer a caller passes is null or the start of an object. Client handles live in a map
  of their own, since only \<open>cjt_init\<close> makes them. Reading past an object, writing past its
  end, and using a handle that is not live give the fault \<open>Undefined\<close>; a panic, which cannot
  unwind out of an \<open>extern "C"\<close> function, gives \<open>Abort\<close>. The state files are shared by all
  clients. UTF-8 decoding and the JSON form of the configuration are the parameters of the
  record \<open>ffi_codecs\<close>, with \<open>deserialised\<close> being \<open>None\<close> where parsing fails.
\<close>

section \<open>Memory and clients\<close>

datatype ptr = Null | Ptr nat

datatype ffi_fault = Undefined | Abort

record ffi_init_config =
  cfg_storage_path :: "string option"
  cfg_max_retries :: "nat option"
  cfg_orphan_event_logging :: "bool option"

record ffi_codecs =
  utf8_ok :: "bytes \<Rightarrow> bool"
  utf8_lossy :: "bytes \<Rightarrow> string"
  deserialised :: "bytes \<Rightarrow> ffi_init_config option"

record ffi =
  objects :: "nat \<Rightarrow> bytes option"
  clients :: "nat \<Rightarrow> turnstile option"
  next_client :: nat
  files :: "string \<Rightarrow> bytes option"
  denied_files :: "string \<Rightarrow> bool"

text \<open>\<open>CStr::from_ptr\<close>: the bytes before the first NUL of the object.\<close>

definition read_cstr :: "ffi \<Rightarrow> nat \<Rightarrow> ffi_fault + bytes" where
  "read_cstr st p =
     (case objects st p of
        None \<Rightarrow> Inl Undefined
      | Some bs \<Rightarrow> if 0 \<in> set bs then Inr (takeWhile (\<lambda>b. b \<noteq> 0) bs) else Inl Undefined)"

definition put_bytes :: "nat \<Rightarrow> bytes \<Rightarrow> bytes \<Rightarrow> bytes" where
  "put_bytes off data bs = take off bs @ data @ drop (off + length data) bs"

text \<open>\<open>copy_nonoverlapping\<close> or an indexed store into an object.\<close>

definition write_at :: "nat \<Rightarrow> nat \<Rightarrow> bytes \<Rightarrow> ffi \<Rightarrow> (ffi_fault + unit) \<times> ffi" where
  "write_at p off data st =
     (case objects st p of
        None \<Rightarrow> (Inl Undefined, st)
      | Some bs \<Rightarrow>
          if off + length data \<le> length bs
          then (Inr (), st\<lparr>objects := (objects st)(p \<mapsto> put_bytes off data bs)\<rparr>)
          else (Inl Undefined, st))"

text \<open>A hash and the NUL at index 64.\<close>

definition write_hash :: "nat \<Rightarrow> nat \<Rightarrow> string \<Rightarrow> ffi \<Rightarrow> (ffi_fault + unit) \<times> ffi" where
  "write_hash p off h st =
     try_then (write_at p off (str_bytes h) st) (\<lambda>_ st. write_at p (off + 64) [0] st)"

text \<open>The turnstile behind a handle, with the files as they are now.\<close>

definition on_client :: "nat \<Rightarrow> (turnstile \<Rightarrow> 'a \<times> turnstile) \<Rightarrow> ffi \<Rightarrow> (ffi_fault + 'a) \<times> ffi" where
  "on_client c f st =
     (case clients st c of
        None \<Rightarrow> (Inl Undefined, st)
      | Some t \<Rightarrow>
          (case f (t\<lparr>state_files := files st\<rparr>) of
             (r, t') \<Rightarrow> (Inr r, st\<lparr>clients := (clients st)(c \<mapsto> t'), files := state_files t'\<rparr>)))"

text \<open>\<open>x as c_int\<close> of a \<open>usize\<close>, and \<open>x as usize\<close> of a \<open>c_int\<close>.\<close>

definition as_c_int :: "nat \<Rightarrow> int" where
  "as_c_int n = (int n + 2 ^ 31) mod 2 ^ 32 - 2 ^ 31"

definition as_usize :: "int \<Rightarrow> nat" where
  "as_usize i = nat (i mod 2 ^ 64)"

definition panic_aborts :: "(cj_error + 'a) \<Rightarrow> ffi \<Rightarrow> (ffi_fault + (cj_error + 'a)) \<times> ffi" where
  "panic_aborts r st = (if r = Inl Panicked then (Inl Abort, st) else (Inr r, st))"

section \<open>The exported functions\<close>

definition cjt_init ::
  "turnstile_codecs \<Rightarrow> ffi_codecs \<Rightarrow> ptr \<Rightarrow> ffi \<Rightarrow> (ffi_fault + ptr) \<times> ffi" where
  "cjt_init T F config_json st =
     (case config_json of
        Null \<Rightarrow> (Inr Null, st)
      | Ptr p \<Rightarrow>
          (case read_cstr st p of
             Inl f \<Rightarrow> (Inl f, st)
           | Inr config_str \<Rightarrow>
               if \<not> utf8_ok F config_str then (Inr Null, st)
               else
                 let cfg = (case deserialised F config_str of
                       None \<Rightarrow> \<lparr>cfg_storage_path = None, cfg_max_retries = None,
                                cfg_orphan_event_logging = None\<rparr>
                     | Some cfg \<Rightarrow> cfg);
                   ts = turnstile_new_with_storage T (concat (replicate 32 ''00''))
                     (case cfg_max_retries cfg of None \<Rightarrow> 5 | Some n \<Rightarrow> n)
                     (cfg_storage_path cfg)
                     (case cfg_orphan_event_logging cfg of None \<Rightarrow> True | Some b \<Rightarrow> b)
                     (files st) (denied_files st)
                 in (Inr (Ptr (next_client st)),
                     st\<lparr>clients := (clients st)(next_client st \<mapsto> ts),
                        next_client := next_client st + 1\<rparr>)))"

definition cjt_destroy :: "ptr \<Rightarrow> ffi \<Rightarrow> (ffi_fault + unit) \<times> ffi" where
  "cjt_destroy client st =
     (case client of
        Null \<Rightarrow> (Inr (), st)
      | Ptr c \<Rightarrow>
          if clients st c = None then (Inl Undefined, st)
          else (Inr (), st\<lparr>clients := (clients st)(c := None)\<rparr>))"

definition cjt_turnstile_append ::
  "externals \<Rightarrow> turnstile_codecs \<Rightarrow> ffi_codecs \<Rightarrow> ptr \<Rightarrow> ptr \<Rightarrow> nat \<Rightarrow> ptr \<Rightarrow> ffi \<Rightarrow>
    (ffi_fault + int) \<times> ffi" where
  "cjt_turnstile_append X T F client payload_ptr timestamp out_ticket st =
     (case (client, payload_ptr, out_ticket) of
        (Ptr c, Ptr p, Ptr out) \<Rightarrow>
          if clients st c = None then (Inl Undefined, st)
          else (case read_cstr st p of
            Inl f \<Rightarrow> (Inl f, st)
          | Inr payload \<Rightarrow>
              if \<not> utf8_ok F payload then (Inr (- 3), st)
              else
                try_then (on_client c (turnstile_append X T payload timestamp) st) (\<lambda>r st.
                try_then (panic_aborts r st) (\<lambda>r st.
                case r of
                  Inr ticket \<Rightarrow> try_then (write_hash out 0 ticket st) (\<lambda>_ st. (Inr 0, st))
                | Inl e \<Rightarrow> (Inr (- 2), st))))
      | _ \<Rightarrow> (Inr (- 1), st))"

definition cjt_confirm_ticket ::
  "externals \<Rightarrow> turnstile_codecs \<Rightarrow> ffi_codecs \<Rightarrow> ptr \<Rightarrow> ptr \<Rightarrow> int \<Rightarrow> ptr \<Rightarrow> ffi \<Rightarrow>
    (ffi_fault + int) \<times> ffi" where
  "cjt_confirm_ticket X T F client hash_ptr status err_msg st =
     (case (client, hash_ptr) of
        (Ptr c, Ptr p) \<Rightarrow>
          if clients st c = None then (Inl Undefined, st)
          else (case read_cstr st p of
            Inl f \<Rightarrow> (Inl f, st)
          | Inr h \<Rightarrow>
              (case (case err_msg of
                       Null \<Rightarrow> Inr None
                     | Ptr q \<Rightarrow> try_pure (read_cstr st q) (\<lambda>m. Inr (Some (utf8_lossy F m)))) of
                 Inl f \<Rightarrow> (Inl f, st)
               | Inr err \<Rightarrow>
                   try_then (on_client c (confirm_ticket X T (utf8_lossy F h) (status \<noteq> 0) err) st) (\<lambda>r st.
                   try_then (panic_aborts r st) (\<lambda>r st.
                   case r of Inr _ \<Rightarrow> (Inr 0, st) | Inl e \<Rightarrow> (Inr (- 2), st)))))
      | _ \<Rightarrow> (Inr (- 1), st))"

text \<open>
  The arguments the retry passes to the callback, if it calls it; \<open>CString::new\<close> panics on
  a string with a NUL.
\<close>

definition callback_arguments ::
  "externals \<Rightarrow> turnstile_codecs \<Rightarrow> turnstile \<Rightarrow> bytes list" where
  "callback_arguments X T t =
     (case oldest_pending t of
        None \<Rightarrow> []
      | Some (h, e) \<Rightarrow>
          if compute_hash X T (pe_prev_hash e) (payload_json e) = Inr h
          then [str_bytes (pe_prev_hash e), payload_json e, str_bytes h] else [])"

definition cjt_retry_next_pending ::
  "externals \<Rightarrow> turnstile_codecs \<Rightarrow> ptr \<Rightarrow> (bytes \<Rightarrow> bytes \<Rightarrow> bytes \<Rightarrow> int) option \<Rightarrow> ffi \<Rightarrow>
    (ffi_fault + int) \<times> ffi" where
  "cjt_retry_next_pending X T client callback st =
     (case client of
        Null \<Rightarrow> (Inr (- 1), st)
      | Ptr c \<Rightarrow>
          (case clients st c of
             None \<Rightarrow> (Inl Undefined, st)
           | Some t \<Rightarrow>
               (case callback of
                  None \<Rightarrow> (Inr (- 1), st)
                | Some cb \<Rightarrow>
                    if \<exists>s \<in> set (callback_arguments X T t). 0 \<in> set s then (Inl Abort, st)
                    else
                      try_then (on_client c (retry_next_pending X T
                        (\<lambda>prev payload leaf. cb (str_bytes prev) payload (str_bytes leaf))) st) (\<lambda>r st.
                      try_then (panic_aborts r st) (\<lambda>r st.
                      case r of Inr rc \<Rightarrow> (Inr rc, st) | Inl e \<Rightarrow> (Inr (- 3), st))))))"

definition cjt_leaf_exists :: "ffi_codecs \<Rightarrow> ptr \<Rightarrow> ptr \<Rightarrow> ffi \<Rightarrow> (ffi_fault + int) \<times> ffi" where
  "cjt_leaf_exists F client hash_ptr st =
     (case (client, hash_ptr) of
        (Ptr c, Ptr p) \<Rightarrow>
          (case clients st c of
             None \<Rightarrow> (Inl Undefined, st)
           | Some t \<Rightarrow>
               (case read_cstr st p of
                  Inl f \<Rightarrow> (Inl f, st)
                | Inr h \<Rightarrow> (Inr (if leaf_exists t (utf8_lossy F h) then 1 else 0), st)))
      | _ \<Rightarrow> (Inr (- 1), st))"

definition cjt_get_latest_leaf_hash :: "ptr \<Rightarrow> ptr \<Rightarrow> ffi \<Rightarrow> (ffi_fault + int) \<times> ffi" where
  "cjt_get_latest_leaf_hash client out_hash st =
     (case (client, out_hash) of
        (Ptr c, Ptr out) \<Rightarrow>
          (case clients st c of
             None \<Rightarrow> (Inl Undefined, st)
           | Some t \<Rightarrow> try_then (write_hash out 0 (latest_leaf_hash t) st) (\<lambda>_ st. (Inr 0, st)))
      | _ \<Rightarrow> (Inr (- 1), st))"

definition cjt_pending_count :: "ptr \<Rightarrow> ffi \<Rightarrow> (ffi_fault + int) \<times> ffi" where
  "cjt_pending_count client st =
     (case client of
        Null \<Rightarrow> (Inr (- 1), st)
      | Ptr c \<Rightarrow>
          (case clients st c of
             None \<Rightarrow> (Inl Undefined, st)
           | Some t \<Rightarrow> (Inr (as_c_int (pending_count t)), st)))"

text \<open>
  The slice of \<open>from_raw_parts_mut\<close> must lie in the object as a whole. A hash longer than
  an entry writes past the entry it points into.
\<close>

fun write_hashes :: "nat \<Rightarrow> nat \<Rightarrow> string list \<Rightarrow> ffi \<Rightarrow> (ffi_fault + unit) \<times> ffi" where
  "write_hashes p i [] st = (Inr (), st)"
| "write_hashes p i (h # hs) st =
     (if 65 < length h then (Inl Undefined, st)
      else try_then (write_hash p (65 * i) h st) (\<lambda>_ st. write_hashes p (i + 1) hs st))"

definition cjt_list_pending :: "ptr \<Rightarrow> ptr \<Rightarrow> int \<Rightarrow> ffi \<Rightarrow> (ffi_fault + int) \<times> ffi" where
  "cjt_list_pending client out_hashes max_entries st =
     (case (client, out_hashes) of
        (Ptr c, Ptr out) \<Rightarrow>
          (case clients st c of
             None \<Rightarrow> (Inl Undefined, st)
           | Some t \<Rightarrow>
               let max = as_usize max_entries; hashes = list_pending t max
               in (case objects st out of
                     None \<Rightarrow> (Inl Undefined, st)
                   | Some bs \<Rightarrow>
                       if length bs < 65 * max then (Inl Undefined, st)
                       else try_then (write_hashes out 0 hashes st) (\<lambda>_ st.
                              (Inr (as_c_int (length hashes)), st))))
      | _ \<Rightarrow> (Inr (- 1), st))"

end
