(* ===== verification/C_Ffi_Properties.thy ===== *)
theory C_Ffi_Properties
  imports C_Ffi Turnstile_Properties
begin

text \<open>
  What a C caller can rely on: which calls stay inside the buffers it passes, and that the
  tickets it gets are the ones the turnstile knows.
\<close>

section \<open>Writing into a caller's object\<close>

lemma length_put_bytes [simp]:
  "off + length data \<le> length bs \<Longrightarrow> length (put_bytes off data bs) = length bs"
  by (simp add: put_bytes_def)

lemma put_bytes_append:
  assumes "off + length a + length b \<le> length bs"
  shows "put_bytes (off + length a) b (put_bytes off a bs) = put_bytes off (a @ b) bs"
  using assms by (simp add: put_bytes_def ac_simps)

lemma put_bytes_nothing [simp]: "put_bytes off [] bs = bs"
  by (simp add: put_bytes_def)

definition put_object :: "nat \<Rightarrow> bytes \<Rightarrow> ffi \<Rightarrow> ffi" where
  "put_object p bs st = st\<lparr>objects := (objects st)(p \<mapsto> bs)\<rparr>"

lemma put_object_simps [simp]:
  "objects (put_object p bs st) q = (if q = p then Some bs else objects st q)"
  "clients (put_object p bs st) = clients st" "files (put_object p bs st) = files st"
  "put_object p bs (put_object p cs st) = put_object p bs st"
  by (simp_all add: put_object_def)

lemma put_object_same: "objects st p = Some bs \<Longrightarrow> put_object p bs st = st"
  by (simp add: put_object_def fun_upd_idem)

definition hash_bytes :: "string \<Rightarrow> bytes" where
  "hash_bytes h = str_bytes h @ [0]"

lemma write_hash_ok:
  assumes "objects st p = Some bs" and "length h = 64" and "off + 65 \<le> length bs"
  shows "write_hash p off h st =
    (Inr (), put_object p (put_bytes off (hash_bytes h) bs) st)"
  using assms put_bytes_append[of off "str_bytes h" "[0]" bs]
  by (simp add: write_hash_def write_at_def hash_bytes_def put_object_def)

lemma length_hash_bytes [simp]: "length (hash_bytes h) = length h + 1"
  by (simp add: hash_bytes_def)

lemma length_entries:
  "\<forall>h\<in>set hs. length h = 64 \<Longrightarrow> length (concat (map hash_bytes hs)) = 65 * length hs"
  by (induction hs) simp_all

lemma write_hashes_ok:
  assumes "objects st p = Some bs" and "\<forall>h\<in>set hs. length h = 64"
    and "65 * (i + length hs) \<le> length bs"
  shows "write_hashes p i hs st =
    (Inr (), put_object p (put_bytes (65 * i) (concat (map hash_bytes hs)) bs) st)"
  using assms
proof (induction hs arbitrary: i st bs)
  case Nil
  then show ?case by (simp add: put_object_same)
next
  case (Cons h hs)
  let ?st = "put_object p (put_bytes (65 * i) (hash_bytes h) bs) st"
  have len: "length (hash_bytes h) = 65" using Cons.prems(2) by simp
  have w: "write_hash p (65 * i) h st = (Inr (), ?st)"
    using Cons.prems by (intro write_hash_ok) auto
  have sum: "length (concat (map hash_bytes hs)) = 65 * length hs"
    using Cons.prems(2) by (intro length_entries) simp
  have "write_hashes p (i + 1) hs ?st = (Inr (), put_object p
      (put_bytes (65 * (i + 1)) (concat (map hash_bytes hs)) (put_bytes (65 * i) (hash_bytes h) bs)) ?st)"
    using Cons.prems len by (intro Cons.IH) auto
  moreover have "put_bytes (65 * (i + 1)) (concat (map hash_bytes hs)) (put_bytes (65 * i) (hash_bytes h) bs) =
      put_bytes (65 * i) (hash_bytes h @ concat (map hash_bytes hs)) bs"
    using put_bytes_append[of "65 * i" "hash_bytes h" "concat (map hash_bytes hs)" bs] Cons.prems(3) len sum
    by (simp add: algebra_simps)
  ultimately show ?case using w Cons.prems(2) by simp
qed

lemma chunk_of_concat:
  "\<forall>c\<in>set cs. length c = k \<Longrightarrow> i < length cs \<Longrightarrow> take k (drop (k * i) (concat cs @ rest)) = cs ! i"
proof (induction cs arbitrary: i)
  case (Cons c cs)
  then show ?case by (cases i) simp_all
qed simp

lemma read_written:
  assumes "\<forall>b\<in>set data. b \<noteq> 0" and "objects st p = Some (put_bytes 0 (data @ [0]) bs)"
  shows "read_cstr st p = Inr data"
  using assms by (simp add: read_cstr_def put_bytes_def takeWhile_append2 cong: if_cong)

section \<open>Hypotheses on the codecs\<close>

text \<open>
  \<open>hex::encode\<close> of a SHA-256 digest is 64 characters, none of them NUL, and valid UTF-8.
\<close>

definition hashes_are_text :: "externals \<Rightarrow> turnstile_codecs \<Rightarrow> ffi_codecs \<Rightarrow> bool" where
  "hashes_are_text X T F \<longleftrightarrow>
     (\<forall>data. let h = hex_encode T (sha256 X data) in
        length h = 64 \<and> (\<forall>b\<in>set (str_bytes h). b \<noteq> 0) \<and> utf8_lossy F (str_bytes h) = h)"

lemma ticket_is_text:
  assumes "hashes_are_text X T F" and "compute_hash X T prev payload = Inr h"
  shows "length h = 64" and "\<forall>b\<in>set (str_bytes h). b \<noteq> 0" and "utf8_lossy F (str_bytes h) = h"
  using assms by (auto simp: hashes_are_text_def Let_def compute_hash_def sha256_hash_concat_def
      split: if_splits option.splits)

lemma append_cases:
  obtains e where "fst (turnstile_append X T payload ts t) = Inl e" and "e \<noteq> Panicked"
  | ticket where "fst (turnstile_append X T payload ts t) = Inr ticket"
      and "compute_hash X T (prev_leaf_hash t) payload = Inr ticket"
      and "leaf_exists (snd (turnstile_append X T payload ts t)) ticket"
proof (cases "compute_hash X T (prev_leaf_hash t) payload")
  case (Inl e)
  then have "e \<noteq> Panicked" by (auto simp: compute_hash_def cj_error_new_def split: if_splits option.splits)
  with Inl that(1)[of e] show ?thesis by (simp add: turnstile_append_def)
next
  case (Inr ticket)
  let ?t = "t\<lparr>pending := AList.update ticket (pending_entry_new (prev_leaf_hash t) payload ts) (pending t)\<rparr>"
  obtain r t' where p: "persist_state T ?t = (r, t')" by force
  then have "pending t' = pending ?t"
    by (auto simp: persist_state_def split: option.splits if_splits)
  then have "leaf_exists t' ticket" by (simp add: leaf_exists_def map_of_AList_update)
  moreover have "r \<noteq> Inl Panicked" using p by (auto simp: persist_state_def split: option.splits if_splits)
  ultimately show ?thesis
    using Inr p that by (cases r) (auto simp: turnstile_append_def)
qed

section \<open>Properties\<close>

text \<open>
  C33: a ticket handed to C is the turnstile's. With a live client, a NUL-terminated UTF-8
  payload and a buffer of at least 65 bytes, \<open>cjt_turnstile_append\<close> never leaves its
  buffers: it returns 0 or -2; on -2 memory is unchanged, on 0 the buffer holds, as a C
  string, the hash of the payload over the head of the chain, and passing the buffer back
  to \<open>cjt_leaf_exists\<close> finds it.
\<close>

theorem c_append_returns_ticket:
  assumes "hashes_are_text X T F" and "clients st c = Some t"
    and "read_cstr st p = Inr payload" and "utf8_ok F payload"
    and "objects st out = Some buffer" and "65 \<le> length buffer"
  shows "\<exists>code st'. cjt_turnstile_append X T F (Ptr c) (Ptr p) ts (Ptr out) st = (Inr code, st') \<and>
    (code = - 2 \<and> objects st' = objects st \<or>
     code = 0 \<and> (\<exists>ticket. compute_hash X T (latest_leaf_hash t) payload = Inr ticket \<and>
       read_cstr st' out = Inr (str_bytes ticket) \<and>
       cjt_leaf_exists F (Ptr c) (Ptr out) st' = (Inr 1, st')))"
proof -
  let ?t = "t\<lparr>state_files := files st\<rparr>"
  let ?t' = "snd (turnstile_append X T payload ts ?t)"
  let ?st = "st\<lparr>clients := (clients st)(c \<mapsto> ?t'), files := state_files ?t'\<rparr>"
  have on: "on_client c (turnstile_append X T payload ts) st =
      (Inr (fst (turnstile_append X T payload ts ?t)), ?st)"
    using assms(2) by (simp add: on_client_def split_def)
  show ?thesis
  proof (rule append_cases[of X T payload ts ?t])
    fix e assume a: "fst (turnstile_append X T payload ts ?t) = Inl e" "e \<noteq> Panicked"
    with assms on show ?thesis by (simp add: cjt_turnstile_append_def panic_aborts_def)
  next
    fix ticket assume a: "fst (turnstile_append X T payload ts ?t) = Inr ticket"
      and h: "compute_hash X T (prev_leaf_hash ?t) payload = Inr ticket" and ex: "leaf_exists ?t' ticket"
    note valid = ticket_is_text[OF assms(1) h]
    let ?st' = "put_object out (put_bytes 0 (hash_bytes ticket) buffer) ?st"
    have "write_hash out 0 ticket ?st = (Inr (), ?st')"
      using assms(5,6) valid(1) by (intro write_hash_ok) simp_all
    with a on assms(2-4) have run: "cjt_turnstile_append X T F (Ptr c) (Ptr p) ts (Ptr out) st = (Inr 0, ?st')"
      by (simp add: cjt_turnstile_append_def panic_aborts_def)
    have r: "read_cstr ?st' out = Inr (str_bytes ticket)"
      using valid(2) by (intro read_written) (auto simp: hash_bytes_def)
    then have "cjt_leaf_exists F (Ptr c) (Ptr out) ?st' = (Inr 1, ?st')"
      using ex valid(3) by (simp add: cjt_leaf_exists_def)
    with run r h show ?thesis by (simp add: latest_leaf_hash_def)
  qed
qed

definition text_codecs :: turnstile_codecs where
  "text_codecs = sample_turnstile_codecs\<lparr>hex_encode := \<lambda>bs. replicate 64 (CHR ''a'')\<rparr>"

definition sample_ffi_codecs :: ffi_codecs where
  "sample_ffi_codecs =
     \<lparr>utf8_ok = (\<lambda>_. True), utf8_lossy = map (\<lambda>b. char_of (unat b)), deserialised = (\<lambda>_. None)\<rparr>"

definition sample_ffi :: ffi where
  "sample_ffi =
     \<lparr>objects = [0 \<mapsto> [97, 0], 1 \<mapsto> replicate 65 1], clients = [0 \<mapsto> sample_turnstile],
      next_client = 1, files = (\<lambda>_. None), denied_files = (\<lambda>_. False)\<rparr>"

lemma sample_hashes_are_text: "hashes_are_text sample_turnstile_externals text_codecs sample_ffi_codecs"
  by (simp add: hashes_are_text_def text_codecs_def sample_ffi_codecs_def Let_def str_bytes_def
      char_of_def bit_numeral_rec bit_Suc_0_iff)

theorem c_append_returns_ticket_witness:
  "\<exists>st'. cjt_turnstile_append sample_turnstile_externals text_codecs sample_ffi_codecs
       (Ptr 0) (Ptr 0) 7 (Ptr 1) sample_ffi = (Inr 0, st') \<and>
     read_cstr st' 1 = Inr (replicate 64 97)"
proof -
  have r: "read_cstr sample_ffi 0 = Inr [97]" by (simp add: read_cstr_def sample_ffi_def)
  have b: "clients sample_ffi 0 = Some sample_turnstile" "objects sample_ffi 1 = Some (replicate 65 1)"
    "utf8_ok sample_ffi_codecs [97]" "65 \<le> length (replicate 65 (1 :: byte))"
    by (simp_all add: sample_ffi_def sample_ffi_codecs_def)
  have h: "compute_hash sample_turnstile_externals text_codecs (latest_leaf_hash sample_turnstile) [97] =
      Inr (replicate 64 (CHR ''a''))"
    by (simp add: compute_hash_def sample_turnstile_externals_def sample_externals_def text_codecs_def
        sample_turnstile_codecs_def)
  have ok: "fst (turnstile_append sample_turnstile_externals text_codecs [97] 7
      (sample_turnstile\<lparr>state_files := files sample_ffi\<rparr>)) = Inr (replicate 64 (CHR ''a''))"
    using h by (simp add: turnstile_append_def latest_leaf_hash_def persist_state_def sample_turnstile_def
        turnstile_new_def turnstile_new_with_storage_def load_state_def)
  have "fst (cjt_turnstile_append sample_turnstile_externals text_codecs sample_ffi_codecs
       (Ptr 0) (Ptr 0) 7 (Ptr 1) sample_ffi) \<noteq> Inr (- 2)"
    using r b ok by (auto simp: cjt_turnstile_append_def on_client_def panic_aborts_def split_def
        try_then_def split: sum.splits prod.splits)
  with c_append_returns_ticket[OF sample_hashes_are_text b(1) r b(3,2,4), of 7] h
  show ?thesis by (auto simp: str_bytes_def)
qed

text \<open>
  C34: \<open>cjt_list_pending\<close> needs a buffer for the maximum, not for what it writes. With a
  live client whose pending hashes are 64 characters, the call is undefined unless the
  buffer has 65 bytes for every entry of \<open>max_entries\<close>, which as an unsigned number is
  about 2^64 when it is negative; otherwise it returns the number of entries listed and
  each of them stands, NUL-terminated, at its place.
\<close>

theorem c_list_pending_bounds:
  assumes "clients st c = Some t" and "\<forall>h\<in>fst ` set (pending t). length h = 64"
    and "objects st out = Some buffer"
  shows "let hashes = list_pending t (as_usize n) in
    if length buffer < 65 * as_usize n
    then cjt_list_pending (Ptr c) (Ptr out) n st = (Inl Undefined, st)
    else \<exists>st' buffer'. cjt_list_pending (Ptr c) (Ptr out) n st = (Inr (as_c_int (length hashes)), st') \<and>
      objects st' out = Some buffer' \<and> length buffer' = length buffer \<and>
      (\<forall>i<length hashes. take 65 (drop (65 * i) buffer') = str_bytes (hashes ! i) @ [0])"
proof (cases "length buffer < 65 * as_usize n")
  case True
  with assms show ?thesis by (simp add: cjt_list_pending_def Let_def)
next
  case False
  let ?hs = "list_pending t (as_usize n)"
  have "set ?hs \<subseteq> fst ` set (pending t)"
    by (auto simp: list_pending_def dest!: in_set_takeD)
  then have l: "\<forall>h\<in>set ?hs. length h = 64" using assms(2) by blast
  have "length ?hs \<le> as_usize n" by (simp add: list_pending_def)
  then have b: "65 * (0 + length ?hs) \<le> length buffer" using False by simp
  let ?buffer = "put_bytes (65 * 0) (concat (map hash_bytes ?hs)) buffer"
  have chunks: "\<forall>x\<in>set (map hash_bytes ?hs). length x = 65" using l by auto
  note len = length_entries[OF l]
  have "take 65 (drop (65 * i) ?buffer) = str_bytes (?hs ! i) @ [0]" if "i < length ?hs" for i
  proof -
    have "?buffer = concat (map hash_bytes ?hs) @ drop (length (concat (map hash_bytes ?hs))) buffer"
      by (simp add: put_bytes_def)
    then show ?thesis using chunk_of_concat[OF chunks, of i] that by (simp only: length_map nth_map hash_bytes_def)
  qed
  with assms False l len b write_hashes_ok[OF assms(3) l b] show ?thesis
    by (simp add: cjt_list_pending_def Let_def)
qed

definition pending_ffi :: ffi where
  "pending_ffi = sample_ffi\<lparr>clients := [0 \<mapsto> sample_turnstile\<lparr>pending :=
     [(replicate 64 (CHR ''a''), pending_entry_new [] [97] 7)]\<rparr>]\<rparr>"

theorem c_list_pending_bounds_witness:
  "cjt_list_pending (Ptr 0) (Ptr 1) (- 1) pending_ffi = (Inl Undefined, pending_ffi) \<and>
   (\<exists>st' buffer. cjt_list_pending (Ptr 0) (Ptr 1) 1 pending_ffi = (Inr 1, st') \<and>
      objects st' 1 = Some buffer \<and> take 65 buffer = replicate 64 97 @ [0])"
proof -
  let ?t = "sample_turnstile\<lparr>pending := [(replicate 64 (CHR ''a''), pending_entry_new [] [97] 7)]\<rparr>"
  have c: "clients pending_ffi 0 = Some ?t" "\<forall>h\<in>fst ` set (pending ?t). length h = 64"
    "objects pending_ffi 1 = Some (replicate 65 1)"
    by (simp_all add: pending_ffi_def sample_ffi_def)
  note B = c_list_pending_bounds[OF c]
  have n: "as_usize (- 1) = 18446744073709551615" "as_usize 1 = 1" by (simp_all add: as_usize_def)
  have l: "list_pending ?t 1 = [replicate 64 (CHR ''a'')]" by (simp add: list_pending_def pending_entry_new_def)
  have "str_bytes (replicate 64 (CHR ''a'')) = replicate 64 97" by (simp add: str_bytes_def)
  then show ?thesis
    using B[of "- 1"] B[of 1] unfolding n l Let_def by (auto simp: as_c_int_def)
qed

end
