(* ===== verification/Wasm.thy ===== *)
theory Wasm
  imports Journal_Api Turnstile Config_Validation
begin

text \<open>
  The WebAssembly bindings, \<open>src/ffi/wasm_ffi.rs\<close>: the asynchronous journal for a JavaScript
  caller, with times in milliseconds, hashes as hexadecimal text and results as JavaScript
  values of a type \<open>'js\<close>.

  The conversions are third-party code and form the record \<open>wasm_codecs\<close>: a conversion that
  may fail returns an option. \<open>from_timestamp_millis\<close> is \<open>NaiveDateTime::from_timestamp_millis\<close>,
  \<open>as_string\<close> is \<open>JsValue::as_string\<close>, and the \<open>js_\<close> fields are \<open>JsValue::from_serde\<close> at the
  five types it is used at. The text of an error value is a constructor of \<open>js_error\<close>. The
  state is the journal inside the \<open>WasmJournal\<close> and the two process-wide counters. \<open>greet\<close>
  and \<open>journal_version\<close>, which only return fixed text, are left out.
\<close>

datatype js_error =
    ConfigParseError
  | EnvError config_error
  | InvalidTimestamp
  | InvalidJson
  | InvalidHex
  | HashNot32Bytes
  | SerializeFailed
  | JournalError cj_error

record 'js wasm_codecs =
  config_from_toml :: "string \<Rightarrow> config option"
  config_to_toml :: "config \<Rightarrow> string option"
  from_timestamp_millis :: "int \<Rightarrow> timestamp option"
  json_from_str :: "string \<Rightarrow> json option"
  as_string :: "'js \<Rightarrow> string option"
  js_page :: "journal_page \<Rightarrow> 'js option"
  js_state :: "reconstructed_state \<Rightarrow> 'js option"
  js_proof :: "leaf_inclusion_proof \<Rightarrow> 'js option"
  js_delta_report :: "delta_report \<Rightarrow> 'js option"
  js_integrity :: "page_integrity_report list \<Rightarrow> 'js option"

record wasm_journal =
  inner :: journal
  leaf_counter :: nat
  page_counter :: nat

text \<open>\<open>ok_or_else\<close> and \<open>map_err\<close>.\<close>

definition ok_or :: "'e \<Rightarrow> 'a option \<Rightarrow> 'e + 'a" where
  "ok_or e r = (case r of None \<Rightarrow> Inl e | Some x \<Rightarrow> Inr x)"

definition journal_result :: "cj_error + 'a \<Rightarrow> js_error + 'a" where
  "journal_result r = (case r of Inl e \<Rightarrow> Inl (JournalError e) | Inr x \<Rightarrow> Inr x)"

lemma ok_or_simps [simp]:
  "ok_or e None = Inl e" "ok_or e (Some x) = Inr x"
  "journal_result (Inl c) = Inl (JournalError c)" "journal_result (Inr y) = Inr y"
  by (simp_all add: ok_or_def journal_result_def)

section \<open>Construction\<close>

definition wasm_default_config :: "'js wasm_codecs \<Rightarrow> string" where
  "wasm_default_config W =
     (case config_to_toml W default_config of None \<Rightarrow> [] | Some s \<Rightarrow> s)"

text \<open>The configuration of a new journal; it is not validated.\<close>

definition wasm_config ::
  "'js wasm_codecs \<Rightarrow> (string \<times> string) list \<Rightarrow> string option \<Rightarrow> js_error + config" where
  "wasm_config W env config_toml =
     (case config_toml of
        Some cfg_str \<Rightarrow>
          try_pure (ok_or ConfigParseError (config_from_toml W cfg_str)) (\<lambda>cfg.
            case apply_env_vars env cfg of
              (Inl e, _) \<Rightarrow> Inl (EnvError e)
            | (Inr _, cfg) \<Rightarrow> Inr cfg)
      | None \<Rightarrow> Inr default_config)"

definition wasm_new ::
  "'js wasm_codecs \<Rightarrow> (string \<times> string) list \<Rightarrow> file_storage \<Rightarrow> nat \<Rightarrow> nat \<Rightarrow> string option \<Rightarrow>
    js_error + config \<times> wasm_journal" where
  "wasm_new W env disk next_leaf_id next_page_id config_toml =
     try_pure (wasm_config W env config_toml) (\<lambda>cfg.
       try_pure (journal_result (journal_new cfg disk)) (\<lambda>j.
         Inr (cfg, \<lparr>inner = j, leaf_counter = next_leaf_id, page_counter = next_page_id\<rparr>)))"

section \<open>Writing\<close>

definition wasm_append_leaf ::
  "externals \<Rightarrow> turnstile_codecs \<Rightarrow> 'js wasm_codecs \<Rightarrow> codecs \<Rightarrow> config \<Rightarrow> int \<Rightarrow> string \<Rightarrow> string \<Rightarrow>
    wasm_journal \<Rightarrow> (js_error + string) \<times> wasm_journal" where
  "wasm_append_leaf X T W C cfg timestamp_ms cid payload_str w =
     (case from_timestamp_millis W timestamp_ms of
        None \<Rightarrow> (Inl InvalidTimestamp, w)
      | Some ts \<Rightarrow>
          (case json_from_str W payload_str of
             None \<Rightarrow> (Inl InvalidJson, w)
           | Some data \<Rightarrow>
               (case append_leaf X C cfg ts None cid data (inner w, leaf_counter w) of
                  (r, j, n) \<Rightarrow>
                    (case r of
                       Inl e \<Rightarrow> Inl (JournalError e)
                     | Inr (LeafHash h) \<Rightarrow> Inr (hex_encode T h)
                     | Inr (ThrallPageHash h) \<Rightarrow> Inr (hex_encode T h),
                     w\<lparr>inner := j, leaf_counter := n\<rparr>))))"

definition wasm_apply_retention ::
  "(page_summary list \<Rightarrow> page_summary list) \<Rightarrow> codecs \<Rightarrow> config \<Rightarrow> timestamp \<Rightarrow> wasm_journal \<Rightarrow>
    (js_error + unit) \<times> wasm_journal" where
  "wasm_apply_retention U C cfg now w =
     (case journal_apply_retention U C cfg now (inner w) of
        (r, j) \<Rightarrow> (journal_result r, w\<lparr>inner := j\<rparr>))"

definition wasm_create_snapshot ::
  "externals \<Rightarrow> turnstile_codecs \<Rightarrow> 'js wasm_codecs \<Rightarrow> snapshot_env \<Rightarrow> codecs \<Rightarrow> config \<Rightarrow> int \<Rightarrow>
    'js list option \<Rightarrow> wasm_journal \<Rightarrow> (js_error + string) \<times> wasm_journal" where
  "wasm_create_snapshot X T W E C cfg as_of_ms container_ids w =
     (case from_timestamp_millis W as_of_ms of
        None \<Rightarrow> (Inl InvalidTimestamp, w)
      | Some as_of \<Rightarrow>
          (case journal_create_snapshot X E C cfg as_of
                  (map_option (List.map_filter (as_string W)) container_ids) (inner w, page_counter w) of
             (r, j, n) \<Rightarrow>
               (case r of Inl e \<Rightarrow> Inl (JournalError e) | Inr h \<Rightarrow> Inr (hex_encode T h),
                w\<lparr>inner := j, page_counter := n\<rparr>)))"

section \<open>Reading\<close>

definition wasm_get_page ::
  "'js wasm_codecs \<Rightarrow> codecs \<Rightarrow> wasm_journal \<Rightarrow> nat \<Rightarrow> nat \<Rightarrow> js_error + 'js" where
  "wasm_get_page W C w l i =
     try_pure (journal_result (get_page C (inner w) l i)) (\<lambda>page.
       ok_or SerializeFailed (js_page W page))"

definition wasm_container_state ::
  "'js wasm_codecs \<Rightarrow> codecs \<Rightarrow> wasm_journal \<Rightarrow> string \<Rightarrow> int \<Rightarrow> js_error + 'js" where
  "wasm_container_state W C w c at_ms =
     try_pure (ok_or InvalidTimestamp (from_timestamp_millis W at_ms)) (\<lambda>at_time.
       try_pure (journal_result (journal_container_state C (inner w) c at_time)) (\<lambda>state.
         ok_or SerializeFailed (js_state W state)))"

text \<open>\<open>hex::decode\<close> and the conversion to an array of 32 bytes.\<close>

definition wasm_leaf_hash :: "turnstile_codecs \<Rightarrow> string \<Rightarrow> js_error + hash" where
  "wasm_leaf_hash T leaf_hash_hex =
     try_pure (ok_or InvalidHex (hex_decode T leaf_hash_hex)) (\<lambda>bs.
       if length bs = 32 then Inr bs else Inl HashNot32Bytes)"

definition wasm_inclusion_proof ::
  "externals \<Rightarrow> turnstile_codecs \<Rightarrow> 'js wasm_codecs \<Rightarrow> codecs \<Rightarrow> wasm_journal \<Rightarrow> string \<Rightarrow>
    js_error + 'js" where
  "wasm_inclusion_proof X T W C w leaf_hash_hex =
     try_pure (wasm_leaf_hash T leaf_hash_hex) (\<lambda>h.
       try_pure (journal_result (journal_inclusion_proof X C (inner w) h)) (\<lambda>proof.
         ok_or SerializeFailed (js_proof W proof)))"

definition wasm_inclusion_proof_with_hint ::
  "externals \<Rightarrow> turnstile_codecs \<Rightarrow> 'js wasm_codecs \<Rightarrow> codecs \<Rightarrow> wasm_journal \<Rightarrow> string \<Rightarrow>
    nat option \<Rightarrow> nat option \<Rightarrow> js_error + 'js" where
  "wasm_inclusion_proof_with_hint X T W C w leaf_hash_hex hint_level hint_page =
     try_pure (wasm_leaf_hash T leaf_hash_hex) (\<lambda>h.
       let hint = (case (hint_level, hint_page) of (Some l, Some p) \<Rightarrow> Some (l, p) | _ \<Rightarrow> None)
       in try_pure (journal_result (journal_inclusion_proof_with_hint X C (inner w) h hint)) (\<lambda>proof.
            ok_or SerializeFailed (js_proof W proof)))"

definition wasm_delta_report ::
  "'js wasm_codecs \<Rightarrow> codecs \<Rightarrow> wasm_journal \<Rightarrow> string \<Rightarrow> int \<Rightarrow> int \<Rightarrow> js_error + 'js" where
  "wasm_delta_report W C w c from_ms to_ms =
     try_pure (ok_or InvalidTimestamp (from_timestamp_millis W from_ms)) (\<lambda>from.
       try_pure (ok_or InvalidTimestamp (from_timestamp_millis W to_ms)) (\<lambda>to.
         try_pure (journal_result (journal_delta_report C (inner w) c from to)) (\<lambda>r.
           ok_or SerializeFailed (js_delta_report W r))))"

definition wasm_delta_report_paginated ::
  "'js wasm_codecs \<Rightarrow> codecs \<Rightarrow> wasm_journal \<Rightarrow> string \<Rightarrow> int \<Rightarrow> int \<Rightarrow> nat \<Rightarrow> nat \<Rightarrow> js_error + 'js" where
  "wasm_delta_report_paginated W C w c from_ms to_ms offset limit =
     try_pure (ok_or InvalidTimestamp (from_timestamp_millis W from_ms)) (\<lambda>from.
       try_pure (ok_or InvalidTimestamp (from_timestamp_millis W to_ms)) (\<lambda>to.
         try_pure (journal_result
             (journal_delta_report_paginated C (inner w) c from to offset limit)) (\<lambda>r.
           ok_or SerializeFailed (js_delta_report W r))))"

definition wasm_chain_integrity ::
  "externals \<Rightarrow> 'js wasm_codecs \<Rightarrow> codecs \<Rightarrow> wasm_journal \<Rightarrow> nat \<Rightarrow> nat option \<Rightarrow> nat option \<Rightarrow>
    js_error + 'js" where
  "wasm_chain_integrity X W C w l from to =
     try_pure (journal_result (journal_chain_integrity X C (inner w) l from to)) (\<lambda>rs.
       ok_or SerializeFailed (js_integrity W rs))"

end
