(* ===== verification/Wasm_Properties.thy ===== *)
theory Wasm_Properties
  imports Wasm Journal_Properties Turnstile_Properties
begin

text \<open>
  A JavaScript caller and the journal behind the bindings: the text it gets for a leaf it
  appended is the key to an inclusion proof of that leaf.
\<close>

section \<open>Sequences of calls\<close>

record js_append =
  ja_millis :: int
  ja_container :: string
  ja_payload :: string

fun wasm_appends ::
  "externals \<Rightarrow> turnstile_codecs \<Rightarrow> 'js wasm_codecs \<Rightarrow> codecs \<Rightarrow> config \<Rightarrow> js_append list \<Rightarrow>
    wasm_journal \<Rightarrow> (js_error + string list) \<times> wasm_journal" where
  "wasm_appends X T W C cfg [] w = (Inr [], w)"
| "wasm_appends X T W C cfg (a # as) w =
     try_then (wasm_append_leaf X T W C cfg (ja_millis a) (ja_container a) (ja_payload a) w)
       (\<lambda>h w. try_then (wasm_appends X T W C cfg as w) (\<lambda>hs w. (Inr (h # hs), w)))"

text \<open>The leaf carries what the call said.\<close>

definition carries :: "'js wasm_codecs \<Rightarrow> js_append \<Rightarrow> journal_leaf \<Rightarrow> bool" where
  "carries W a l \<longleftrightarrow>
     from_timestamp_millis W (ja_millis a) = Some (leaf_timestamp l) \<and>
     container_id l = ja_container a \<and> json_from_str W (ja_payload a) = Some (delta_payload l)"

text \<open>The request a call makes of the journal.\<close>

definition decodes :: "'js wasm_codecs \<Rightarrow> js_append \<Rightarrow> append_request \<Rightarrow> bool" where
  "decodes W a r \<longleftrightarrow>
     from_timestamp_millis W (ja_millis a) = Some (rq_timestamp r) \<and> rq_parent r = None \<and>
     rq_container r = ja_container a \<and> json_from_str W (ja_payload a) = Some (rq_data r)"

lemma wasm_append_leaf_Inr:
  assumes "wasm_append_leaf X T W C cfg (ja_millis a) (ja_container a) (ja_payload a) w = (Inr s, w')"
  shows "\<exists>r h. decodes W a r \<and> s = hex_encode T (named_hash h) \<and>
    append_leaf X C cfg (rq_timestamp r) (rq_parent r) (rq_container r) (rq_data r)
      (inner w, leaf_counter w) = (Inr h, inner w', leaf_counter w')"
proof -
  obtain ts data where d: "from_timestamp_millis W (ja_millis a) = Some ts"
    "json_from_str W (ja_payload a) = Some data"
    using assms by (auto simp: wasm_append_leaf_def split: option.splits)
  let ?r = "\<lparr>rq_timestamp = ts, rq_parent = None, rq_container = ja_container a, rq_data = data\<rparr>"
  obtain r0 j n where run: "append_leaf X C cfg ts None (ja_container a) data (inner w, leaf_counter w) = (r0, j, n)"
    by (metis prod.exhaust)
  with assms d obtain h where h: "r0 = Inr h" "s = hex_encode T (named_hash h)"
    "w' = w\<lparr>inner := j, leaf_counter := n\<rparr>"
    by (auto simp: wasm_append_leaf_def split: sum.splits page_content_hash.splits)
  have "decodes W a ?r" using d by (simp add: decodes_def)
  with h run show ?thesis by (intro exI[of _ ?r] exI[of _ h]) simp
qed

lemma wasm_appends_Inr:
  assumes "wasm_appends X T W C cfg as w = (Inr ss, w')"
  shows "\<exists>rs hs. list_all2 (decodes W) as rs \<and> ss = map (hex_encode T \<circ> named_hash) hs \<and>
    append_leaves X C cfg rs (inner w, leaf_counter w) = (Inr hs, inner w', leaf_counter w')"
  using assms
proof (induction as arbitrary: w ss)
  case (Cons a as)
  obtain s w1 ss1 where a: "wasm_append_leaf X T W C cfg (ja_millis a) (ja_container a) (ja_payload a) w = (Inr s, w1)"
    and b: "wasm_appends X T W C cfg as w1 = (Inr ss1, w')" and ss: "ss = s # ss1"
    using Cons.prems by (auto elim!: try_then_InrE)
  obtain r h where r: "decodes W a r" "s = hex_encode T (named_hash h)"
    "append_leaf X C cfg (rq_timestamp r) (rq_parent r) (rq_container r) (rq_data r)
      (inner w, leaf_counter w) = (Inr h, inner w1, leaf_counter w1)"
    using wasm_append_leaf_Inr[OF a] by blast
  obtain rs hs where "list_all2 (decodes W) as rs" "ss1 = map (hex_encode T \<circ> named_hash) hs"
    "append_leaves X C cfg rs (inner w1, leaf_counter w1) = (Inr hs, inner w', leaf_counter w')"
    using Cons.IH[OF b] by blast
  with r ss show ?case by (intro exI[of _ "r # rs"] exI[of _ "h # hs"]) simp
qed simp

lemma issued_chain_carries:
  "issued_chain X n tracked rs ls \<Longrightarrow> list_all2 (decodes W) as rs \<Longrightarrow> list_all2 (carries W) as ls"
proof (induction X n tracked rs ls arbitrary: as rule: issued_chain.induct)
  case (3 X n tracked r rs l ls)
  then obtain a as' where a: "as = a # as'" "decodes W a r" "list_all2 (decodes W) as' rs"
    by (auto simp: list_all2_Cons2)
  with 3 have "list_all2 (carries W) as' ls" by simp
  moreover have "carries W a l" using a(2) 3(2) by (auto simp: carries_def decodes_def issued_def)
  ultimately show ?case using a(1) by simp
qed auto

lemma issued_chain_hashed:
  "issued_chain X n tracked rs ls \<Longrightarrow> l \<in> set ls \<Longrightarrow> \<exists>bs. leaf_hash l = sha256 X bs"
  by (induction X n tracked rs ls rule: issued_chain.induct) (auto simp: issued_def)


lemma wasm_appends_succeed:
  assumes "list_all2 (decodes W) as rs"
    and "append_leaves X C cfg rs (inner w, leaf_counter w) = (Inr hs, j', n')"
  shows "\<exists>ss w'. wasm_appends X T W C cfg as w = (Inr ss, w')"
  using assms
proof (induction as rs arbitrary: w hs rule: list_all2_induct)
  case (Cons a as r rs)
  obtain h st hs' where h: "append_leaf X C cfg (rq_timestamp r) (rq_parent r) (rq_container r) (rq_data r)
      (inner w, leaf_counter w) = (Inr h, st)" "append_leaves X C cfg rs st = (Inr hs', j', n')"
    using Cons.prems by (auto elim!: try_then_InrE)
  obtain j n where st: "st = (j, n)" by (cases st)
  let ?w = "w\<lparr>inner := j, leaf_counter := n\<rparr>"
  have "wasm_append_leaf X T W C cfg (ja_millis a) (ja_container a) (ja_payload a) w =
      (Inr (hex_encode T (named_hash h)), ?w)"
    using Cons.hyps(1) h(1) st by (cases h) (simp_all add: wasm_append_leaf_def decodes_def)
  moreover obtain ss w' where "wasm_appends X T W C cfg as ?w = (Inr ss, w')"
    using Cons.IH[of ?w hs'] h(2) st by auto
  ultimately show ?case by auto
qed simp

section \<open>Proofs for appended leaves\<close>

text \<open>What the conversions promise: hex is undone, a digest has 32 bytes, a proof serialises.\<close>

definition js_codecs_ok :: "externals \<Rightarrow> turnstile_codecs \<Rightarrow> 'js wasm_codecs \<Rightarrow> bool" where
  "js_codecs_ok X T W \<longleftrightarrow>
     (\<forall>bs. hex_decode T (hex_encode T bs) = Some bs) \<and> (\<forall>bs. length (sha256 X bs) = 32) \<and>
     (\<forall>pr. js_proof W pr \<noteq> None)"

definition js_times_ok :: "'js wasm_codecs \<Rightarrow> js_append list \<Rightarrow> bool" where
  "js_times_ok W as \<longleftrightarrow>
     (\<forall>a\<in>set as. \<forall>t. from_timestamp_millis W (ja_millis a) = Some t \<longrightarrow> 0 \<le> t \<and> in_i64 t)"

lemma decodes_valid: "list_all2 (decodes W) as rs \<Longrightarrow> js_times_ok W as \<Longrightarrow> requests_valid rs"
  by (induction as rs rule: list_all2_induct) (auto simp: requests_valid_def js_times_ok_def decodes_def)

text \<open>What a proof for a leaf hash promises about the pages a caller can get.\<close>

definition proves_leaf :: "externals \<Rightarrow> codecs \<Rightarrow> journal \<Rightarrow> hash \<Rightarrow> leaf_inclusion_proof \<Rightarrow> bool" where
  "proves_leaf X C j h pr \<longleftrightarrow>
     leaf_hash (ip_leaf pr) = h \<and>
     verify_merkle_proof (sha256 X) h (ip_proof pr) (ip_page_merkle_root pr) \<and>
     (\<exists>p. get_page C j (ip_level pr) (ip_page_id pr) = Inr p \<and>
        page_merkle_root p = ip_page_merkle_root pr)"

lemma journal_proof_of_leaf:
  assumes "any.log_ok C X cfg (manager j) ps" and "0 < length (levels cfg)"
    and "l \<in> set (pages_log ps @ active_leaves (manager j))"
  shows "case journal_inclusion_proof X C j (leaf_hash l) of
      Inl e \<Rightarrow> e = InvalidInput \<and> l \<in> set (active_leaves (manager j))
    | Inr pr \<Rightarrow> proves_leaf X C j (leaf_hash l) pr"
proof -
  note I = log_invD[OF assms(1)]
  let ?V = "any_view C (storage (manager j))" and ?h = "leaf_hash l"
  have c: "page_consistent X p" if "k = 0 \<or> None = Some (k, i)" "?V (k, i) = Some p" for k i p
    using inv_stored[OF I(2) assms(2)] that by (auto simp: stored_page_ok_def)
  have load: "get_page C j k i = Inr p" if "?V (k, i) = Some p" for k i p
    using any.load_ok[OF I(1), of k i] that by (simp add: get_page_def load_page_from_storage_def)
  have V: "?V (0, page_id p) = Some p" if "p \<in> set ps" for p
    using I(3) that by (simp add: l0_inv_def)
  have spec: "case get_leaf_inclusion_proof_with_hint X (any_backend C) (manager j) ?h None of
      Inl e \<Rightarrow> e = LeafNotFound ?h \<and> (\<forall>i p. ?V (0, i) = Some p \<longrightarrow> \<not> holds_leaf ?h p)
    | Inr pr \<Rightarrow> proof_ok X ?V ?h pr"
    by (rule any.inclusion_proof_ok[OF I(1)]) (rule c)
  have stored: "\<exists>i p. ?V (0, i) = Some p \<and> holds_leaf ?h p" if "l \<in> set (pages_log ps)"
    using that V by (auto simp: pages_log_def holds_leaf_def)
  show ?thesis
  proof (cases "get_leaf_inclusion_proof_with_hint X (any_backend C) (manager j) ?h None")
    case (Inl e)
    with spec stored assms(3) show ?thesis
      by (auto simp: journal_inclusion_proof_def get_leaf_inclusion_proof_def query_result_def cj_error_new_def)
  next
    case (Inr pr)
    with spec load show ?thesis
      by (auto simp: journal_inclusion_proof_def get_leaf_inclusion_proof_def query_result_def
          proof_ok_def proves_leaf_def)
  qed
qed

section \<open>Properties\<close>

text \<open>
  C32: the text JavaScript gets for a leaf finds its proof. After any sequence of successful
  \<open>append_leaf\<close> calls on a new \<open>WasmJournal\<close>, the log holds one leaf per call with the
  decoded time, container and payload; the calls returned the hexadecimal hashes of these
  leaves; and \<open>get_leaf_inclusion_proof\<close> of such a text gives a proof that verifies the
  leaf's hash against the Merkle root of a page the journal returns, or an error, and the
  error only for a leaf that is still on the active page.
\<close>

theorem wasm_hash_finds_proof:
  assumes "js_codecs_ok X T W" and "js_times_ok W as" and "config_ok cfg"
    and "(4 * length as + 6) * 2 ^ length (levels cfg) \<le> 2 ^ 64"
    and "wasm_new W env disk n q config_toml = Inr (cfg, w)" and "fresh_disk C cfg disk"
    and "wasm_appends X T W C cfg as w = (Inr ss, w')"
  defines "ls \<equiv> journal_log C (inner w')"
  shows "list_all2 (carries W) as ls \<and> ss = map (hex_encode T \<circ> leaf_hash) ls \<and>
    (\<forall>l\<in>set ls. case wasm_inclusion_proof X T W C w' (hex_encode T (leaf_hash l)) of
        Inl e \<Rightarrow> e = JournalError InvalidInput \<and> l \<in> set (active_leaves (manager (inner w')))
      | Inr v \<Rightarrow> \<exists>pr. js_proof W pr = Some v \<and> proves_leaf X C (inner w') (leaf_hash l) pr)"
proof -
  obtain rs hs where rs: "list_all2 (decodes W) as rs" "ss = map (hex_encode T \<circ> named_hash) hs"
    "append_leaves X C cfg rs (inner w, leaf_counter w) = (Inr hs, inner w', leaf_counter w')"
    using wasm_appends_Inr[OF assms(7)] by blast
  have len: "(4 * length rs + 6) * 2 ^ length (levels cfg) \<le> 2 ^ 64"
    using assms(4) list_all2_lengthD[OF rs(1)] by simp
  have j: "journal_new cfg disk = Inr (inner w)"
    using assms(5) by (auto simp: wasm_new_def journal_result_def split: sum.splits elim!: try_pure_InrE)
  obtain ps where chain: "issued_chain X (leaf_counter w) None rs ls" and hs: "hs = map (LeafHash \<circ> leaf_hash) ls"
    and L: "any.log_ok C X cfg (manager (inner w')) ps"
    and ls: "pages_log ps @ active_leaves (manager (inner w')) = ls"
    by (rule journal_run[OF assms(3) decodes_valid[OF rs(1) assms(2)] len j assms(6) rs(3)])
      (simp add: ls_def)
  have N: "0 < length (levels cfg)" using assms(3) by (simp add: config_ok_def)
  have "case wasm_inclusion_proof X T W C w' (hex_encode T (leaf_hash l)) of
        Inl e \<Rightarrow> e = JournalError InvalidInput \<and> l \<in> set (active_leaves (manager (inner w')))
      | Inr v \<Rightarrow> \<exists>pr. js_proof W pr = Some v \<and> proves_leaf X C (inner w') (leaf_hash l) pr"
    if "l \<in> set ls" for l
  proof -
    have "wasm_leaf_hash T (hex_encode T (leaf_hash l)) = Inr (leaf_hash l)"
      using assms(1) issued_chain_hashed[OF chain that] by (auto simp: wasm_leaf_hash_def js_codecs_ok_def)
    note h = this
    show ?thesis
    proof (cases "journal_inclusion_proof X C (inner w') (leaf_hash l)")
      case (Inl e)
      with journal_proof_of_leaf[OF L N, of l] that ls h show ?thesis
        by (simp add: wasm_inclusion_proof_def)
    next
      case (Inr pr)
      obtain v where "js_proof W pr = Some v" using assms(1) unfolding js_codecs_ok_def by blast
      with Inr journal_proof_of_leaf[OF L N, of l] that ls h show ?thesis
        by (auto simp: wasm_inclusion_proof_def)
    qed
  qed
  with issued_chain_carries[OF chain rs(1)] rs(2) hs show ?thesis by simp
qed


definition sample_wasm_codecs :: "leaf_inclusion_proof wasm_codecs" where
  "sample_wasm_codecs =
     \<lparr>config_from_toml = (\<lambda>_. Some memory_config), config_to_toml = (\<lambda>_. Some []),
      from_timestamp_millis = (\<lambda>ms. Some (ms * 1000000)),
      json_from_str = (\<lambda>s. if s = ''true'' then Some (JBool True) else None),
      as_string = (\<lambda>_. None), js_page = (\<lambda>_. None), js_state = (\<lambda>_. None), js_proof = Some,
      js_delta_report = (\<lambda>_. None), js_integrity = (\<lambda>_. None)\<rparr>"

definition two_calls :: "js_append list" where
  "two_calls =
     [\<lparr>ja_millis = 0, ja_container = ''c'', ja_payload = ''true''\<rparr>,
      \<lparr>ja_millis = 86400000, ja_container = ''c'', ja_payload = ''true''\<rparr>]"

lemma two_calls_decode:
  "list_all2 (decodes sample_wasm_codecs) two_calls [request 0, request 86400000000000]"
  by (simp add: two_calls_def decodes_def sample_wasm_codecs_def request_def)

lemma two_calls_facts:
  "js_codecs_ok sample_hashing sample_turnstile_codecs sample_wasm_codecs"
  "js_times_ok sample_wasm_codecs two_calls"
  "(4 * length two_calls + 6) * 2 ^ length (levels memory_config) \<le> 2 ^ 64"
  by (simp_all add: js_codecs_ok_def js_times_ok_def two_calls_def sample_wasm_codecs_def
      sample_turnstile_codecs_def sample_hashing_def str_bytes_def of_char_char_of_unat comp_def in_i64_def
      default_levels_def)

lemma two_calls_run:
  obtains w ss w' where
    "wasm_new sample_wasm_codecs [] sample_disk 0 0 (Some ''memory'') = Inr (memory_config, w)"
    and "wasm_appends sample_hashing sample_turnstile_codecs sample_wasm_codecs sample_codecs memory_config
      two_calls w = (Inr ss, w')"
proof -
  let ?rs = "[request 0, request 86400000000000]"
  have rs: "requests_valid ?rs" "payloads_ok sample_hashing ?rs"
    "(4 * length ?rs + 6) * 2 ^ length (levels memory_config) \<le> 2 ^ 64"
    by (simp_all add: requests_valid_def request_def in_i64_def payloads_ok_def sample_hashing_def
        sample_externals_def default_levels_def)
  obtain j hs j' n' where run: "journal_new memory_config sample_disk = Inr j"
    "append_leaves sample_hashing sample_codecs memory_config ?rs (j, 0) = (Inr hs, j', n')"
    using memory_appends_succeed[OF memory_config_ok memory_config_simps(2) rs] by blast
  let ?w = "\<lparr>inner = j, leaf_counter = 0, page_counter = 0\<rparr>"
  have "wasm_new sample_wasm_codecs [] sample_disk 0 0 (Some ''memory'') = Inr (memory_config, ?w)"
    using run(1) by (simp add: wasm_new_def wasm_config_def sample_wasm_codecs_def)
  moreover obtain ss w' where "wasm_appends sample_hashing sample_turnstile_codecs sample_wasm_codecs
      sample_codecs memory_config two_calls ?w = (Inr ss, w')"
    using wasm_appends_succeed[OF two_calls_decode, of sample_hashing sample_codecs memory_config ?w] run(2)
    by (fastforce simp del: append_leaves.simps)
  ultimately show ?thesis by (rule that)
qed

theorem wasm_hash_finds_proof_witness:
  "\<exists>w ss w'. wasm_new sample_wasm_codecs [] sample_disk 0 0 (Some ''memory'') = Inr (memory_config, w) \<and>
     wasm_appends sample_hashing sample_turnstile_codecs sample_wasm_codecs sample_codecs memory_config
       two_calls w = (Inr ss, w') \<and>
     ss = map (hex_encode sample_turnstile_codecs \<circ> leaf_hash) (journal_log sample_codecs (inner w')) \<and>
     list_all2 (carries sample_wasm_codecs) two_calls (journal_log sample_codecs (inner w'))"
proof -
  obtain w ss w' where r:
    "wasm_new sample_wasm_codecs [] sample_disk 0 0 (Some ''memory'') = Inr (memory_config, w)"
    "wasm_appends sample_hashing sample_turnstile_codecs sample_wasm_codecs sample_codecs memory_config
      two_calls w = (Inr ss, w')"
    by (rule two_calls_run)
  from wasm_hash_finds_proof[OF two_calls_facts(1,2) memory_config_ok two_calls_facts(3) r(1)
      two_requests_facts(5) r(2)] r show ?thesis by blast
qed

end
