(* ===== verification/Tasks.thy ===== *)
theory Tasks
  imports "HOL-Library.Multiset" Cj_Prelude
begin

text \<open>
  Asynchronous tasks over a shared state, and their interleavings.

  A task is what is left of an \<open>async fn\<close>: a result, or its next access to the shared state
  (one \<open>lock().await\<close> scope, one call of the storage backend, one atomic operation), which
  yields the rest of the task and the new state. The access is \<open>None\<close> while the task has to
  wait for a lock. Being a datatype, a task has no infinite runs; the recursion of the code
  is unrolled when the task is built.

  A system is a list of tasks, \<open>None\<close> for a task that was dropped before it was finished,
  and the shared state. One step runs one access of one task, or drops an unfinished task.
\<close>

section \<open>Tasks\<close>

datatype ('m, 'a) task = Done 'a | Step "'m \<Rightarrow> (('m, 'a) task \<times> 'm) option"

primrec then_do :: "('m, 'a) task \<Rightarrow> ('a \<Rightarrow> ('m, 'b) task) \<Rightarrow> ('m, 'b) task" where
  "then_do (Done a) k = k a"
| "then_do (Step f) k = Step (\<lambda>m. map_option (map_prod (\<lambda>t. then_do t k) id) (f m))"

lemma task_induct [case_names Done Step]:
  assumes "\<And>a. P (Done a)" and "\<And>f. (\<And>m t m'. f m = Some (t, m') \<Longrightarrow> P t) \<Longrightarrow> P (Step f)"
  shows "P t"
proof (induction t)
  case (Step f)
  show ?case
  proof (rule assms(2))
    fix m t m' assume "f m = Some (t, m')"
    then show "P t" using Step.IH[OF rangeI[of f m], of "(t, m')" t] by simp
  qed
qed (rule assms(1))

lemma then_do_assoc: "then_do (then_do t k) h = then_do t (\<lambda>a. then_do (k a) h)"
  by (induction t rule: task_induct) (auto simp: fun_eq_iff option.map_comp intro!: option.map_cong)

text \<open>One access with its result; an access that only reads; one that only writes.\<close>

definition access :: "('m \<Rightarrow> 'a \<times> 'm) \<Rightarrow> ('m, 'a) task" where
  "access f = Step (\<lambda>m. case f m of (a, m') \<Rightarrow> Some (Done a, m'))"

definition look :: "('m \<Rightarrow> 'a) \<Rightarrow> ('m, 'a) task" where
  "look f = access (\<lambda>m. (f m, m))"

definition change :: "('m \<Rightarrow> 'm) \<Rightarrow> ('m, unit) task" where
  "change f = access (\<lambda>m. ((), f m))"

text \<open>The question mark.\<close>

definition try_do ::
  "('m, 'e + 'a) task \<Rightarrow> ('a \<Rightarrow> ('m, 'e + 'b) task) \<Rightarrow> ('m, 'e + 'b) task" where
  "try_do t k = then_do t (\<lambda>r. case r of Inl e \<Rightarrow> Done (Inl e) | Inr a \<Rightarrow> k a)"

text \<open>A task over a part of a larger state.\<close>

primrec on_part :: "('n \<Rightarrow> 'm) \<Rightarrow> ('m \<Rightarrow> 'n \<Rightarrow> 'n) \<Rightarrow> ('m, 'a) task \<Rightarrow> ('n, 'a) task" where
  "on_part get put (Done a) = Done a"
| "on_part get put (Step f) =
     Step (\<lambda>n. map_option (\<lambda>(t, m). (t, put m n)) (map_option (map_prod (on_part get put) id) (f (get n))))"

section \<open>A task that runs alone\<close>

text \<open>The result and the final state, or \<open>None\<close> if it waits for ever.\<close>

primrec run_task :: "('m, 'a) task \<Rightarrow> 'm \<Rightarrow> ('a \<times> 'm) option" where
  "run_task (Done a) = (\<lambda>m. Some (a, m))"
| "run_task (Step f) =
     (\<lambda>m. Option.bind (map_option (map_prod run_task id) (f m)) (\<lambda>(go, m'). go m'))"

lemma run_step: "f m = Some (t, m') \<Longrightarrow> run_task (Step f) m = run_task t m'"
  by simp

lemma run_then_do:
  "run_task (then_do t k) m = Option.bind (run_task t m) (\<lambda>(a, m'). run_task (k a) m')"
proof (induction t arbitrary: m rule: task_induct)
  case (Step f)
  then show ?case by (cases "f m") auto
qed simp

lemma run_access [simp]: "run_task (access f) m = Some (f m)"
  by (simp add: access_def split: prod.split)

lemma run_look [simp]: "run_task (look f) m = Some (f m, m)"
  by (simp add: look_def)

lemma run_change [simp]: "run_task (change f) m = Some ((), f m)"
  by (simp add: change_def)

lemma run_try_do:
  assumes "run_task t m = Some (f m)" and "\<And>a m'. run_task (k a) m' = Some (g a m')"
  shows "run_task (try_do t k) m = Some (try_then (f m) g)"
  using assms by (auto simp: try_do_def run_then_do try_then_def split: prod.split sum.split)

lemma run_on_part:
  assumes "\<And>n m. get (put m n) = m" and "\<And>n m m'. put m' (put m n) = put m' n"
    and "\<And>n. put (get n) n = n"
  shows "run_task (on_part get put t) n = map_option (\<lambda>(a, m). (a, put m n)) (run_task t (get n))"
proof (induction t arbitrary: n rule: task_induct)
  case (Step h)
  then show ?case using assms(1,2) by (cases "h (get n)") auto
qed (simp add: assms(3))

lemma try_do_Done [simp]: "try_do (Done (Inr a)) k = k a" "try_do (Done (Inl e)) k = Done (Inl e)"
  by (simp_all add: try_do_def)

subsection \<open>A part of the run\<close>

inductive goes :: "('m, 'a) task \<Rightarrow> 'm \<Rightarrow> ('m, 'a) task \<Rightarrow> 'm \<Rightarrow> bool" where
  stay: "goes t m t m"
| go: "f m = Some (t, m') \<Longrightarrow> goes t m' u n \<Longrightarrow> goes (Step f) m u n"

lemma goes_trans: "goes t m u n \<Longrightarrow> goes u n v k \<Longrightarrow> goes t m v k"
  by (induction rule: goes.induct) (auto intro: go)

lemma goes_run: "run_task t m = Some (a, m') \<Longrightarrow> goes t m (Done a) m'"
proof (induction t arbitrary: m rule: task_induct)
  case (Step f)
  from Step.prems obtain t n where f: "f m = Some (t, n)" by (cases "f m") auto
  from Step.IH[OF f] Step.prems f show ?case by (auto intro: go)
qed (auto intro: stay)

lemma goes_then_do: "goes t m u n \<Longrightarrow> goes (then_do t k) m (then_do u k) n"
  by (induction rule: goes.induct) (auto intro: stay go)

lemma goes_try_do: "goes t m u n \<Longrightarrow> goes (try_do t k) m (try_do u k) n"
  by (simp add: try_do_def goes_then_do)

lemma goes_after: "run_task t m = Some (a, m') \<Longrightarrow> goes (then_do t k) m (k a) m'"
  using goes_then_do[OF goes_run] by fastforce

lemma goes_after_try: "run_task t m = Some (Inr a, m') \<Longrightarrow> goes (try_do t k) m (k a) m'"
  using goes_try_do[OF goes_run] by fastforce

lemma goes_on_part:
  assumes "goes t m u m'" and "get n = m" and "\<And>n m. get (put m n) = m"
    and "\<And>n m m'. put m' (put m n) = put m' n" and "\<And>n. put (get n) n = n"
  shows "goes (on_part get put t) n (on_part get put u) (put m' n)"
  using assms(1,2)
proof (induction arbitrary: n rule: goes.induct)
  case (stay t m)
  then show ?case using assms(5)[of n] by (auto intro: goes.stay)
next
  case (go f m t m' u k)
  then show ?case using go.IH[of "put m' n"] assms(3,4) by (auto intro!: goes.go)
qed

subsection \<open>What the accesses of a task keep\<close>

inductive keeps :: "('m \<Rightarrow> 'v) \<Rightarrow> ('m, 'a) task \<Rightarrow> bool" for view where
  Done [intro]: "keeps view (Done a)"
| Step: "(\<And>m t m'. f m = Some (t, m') \<Longrightarrow> view m' = view m \<and> keeps view t) \<Longrightarrow> keeps view (Step f)"

inductive_simps keeps_Step [simp]: "keeps view (Step f)"

lemma keeps_access: "(\<And>m. view (snd (f m)) = view m) \<Longrightarrow> keeps view (access f)"
  by (auto simp: access_def split: prod.splits) (metis snd_conv)

lemma keeps_change: "(\<And>m. view (f m) = view m) \<Longrightarrow> keeps view (change f)"
  by (simp add: change_def keeps_access)

lemma keeps_then_do:
  assumes "keeps view t" and "\<And>a. keeps view (k a)"
  shows "keeps view (then_do t k)"
  using assms(1) by induction (auto simp: assms(2))

lemma keeps_try_do:
  assumes "keeps view t" and "\<And>a. keeps view (k a)"
  shows "keeps view (try_do t k)"
  unfolding try_do_def using assms by (intro keeps_then_do) (auto split: sum.split)

lemma keeps_on_part:
  assumes "\<And>m n. view (put m n) = view n"
  shows "keeps view (on_part get put t)"
  by (induction t rule: task_induct) (auto simp: assms)

lemma keeps_run: "keeps view t \<Longrightarrow> run_task t m = Some (a, m') \<Longrightarrow> view m' = view m"
proof (induction arbitrary: m rule: keeps.induct)
  case (Step f)
  then show ?case by (cases "f m") fastforce+
qed simp

text \<open>A task that only looks, and never waits.\<close>

inductive only_looks :: "('m, 'a) task \<Rightarrow> bool" where
  Done [intro]: "only_looks (Done a)"
| Step: "(\<And>m. \<exists>t. f m = Some (t, m) \<and> only_looks t) \<Longrightarrow> only_looks (Step f)"

inductive_simps only_looks_Step [simp]: "only_looks (Step f)"

lemma only_looks_then_do:
  assumes "only_looks t" and "\<And>a. only_looks (k a)"
  shows "only_looks (then_do t k)"
  using assms(1)
proof induction
  case (Step f)
  have "\<exists>t. map_option (map_prod (\<lambda>t. then_do t k) id) (f m) = Some (t, m) \<and> only_looks t" for m
    using Step[of m] by force
  then show ?case by simp
qed (simp add: assms(2))

lemma only_looks_look [intro]: "only_looks (look f)"
  by (auto simp: look_def access_def)

section \<open>Systems of tasks\<close>

type_synonym ('m, 'a) system = "('m, 'a) task option list \<times> 'm"

inductive system_step :: "('m, 'a) system \<Rightarrow> ('m, 'a) system \<Rightarrow> bool" where
  run: "i < length ts \<Longrightarrow> ts ! i = Some (Step f) \<Longrightarrow> f m = Some (t, m') \<Longrightarrow>
    system_step (ts, m) (ts[i := Some t], m')"

inductive_cases system_stepE [elim]: "system_step (ts, m) y"

text \<open>With dropped tasks: \<open>cleanup i\<close> is what the drop of task \<open>i\<close> releases.\<close>

inductive drop_step :: "(nat \<Rightarrow> 'm \<Rightarrow> 'm) \<Rightarrow> ('m, 'a) system \<Rightarrow> ('m, 'a) system \<Rightarrow> bool" for cleanup where
  step: "system_step x y \<Longrightarrow> drop_step cleanup x y"
| drop: "i < length ts \<Longrightarrow> ts ! i = Some (Step f) \<Longrightarrow>
    drop_step cleanup (ts, m) (ts[i := None], cleanup i m)"

lemma goes_in_system:
  assumes "goes t m u n" and "i < length ts" and "ts ! i = Some t"
  shows "system_step\<^sup>*\<^sup>* (ts, m) (ts[i := Some u], n)"
  using assms
proof (induction arbitrary: ts rule: goes.induct)
  case (stay t m)
  then have "ts[i := Some t] = ts" by (metis list_update_id)
  then show ?case by simp
next
  case (go f m t m' u n)
  have "system_step (ts, m) (ts[i := Some t], m')" by (rule system_step.run[OF go.prems(1) go.prems(2) go.hyps(1)])
  moreover have "system_step\<^sup>*\<^sup>* (ts[i := Some t], m') (ts[i := Some u], n)"
    using go.IH[of "ts[i := Some t]"] go.prems by simp
  ultimately show ?case by (rule converse_rtranclp_into_rtranclp)
qed

definition finished :: "('m, 'a) system \<Rightarrow> bool" where
  "finished x \<longleftrightarrow> (\<forall>t\<in>set (fst x). \<exists>r. t = Some (Done r) \<or> t = None)"

subsection \<open>Every schedule ends\<close>

definition rest_of :: "(('m, 'a) task option \<times> ('m, 'a) task option) set" where
  "rest_of = {(Some t, Some (Step f)) | f t. \<exists>m m'. f m = Some (t, m')} \<union> {(None, Some (Step f)) | f. True}"

lemma wf_rest_of: "wf rest_of"
proof -
  have n: "None \<in> Wellfounded.acc rest_of" by (rule accI) (auto simp: rest_of_def)
  have "Some t \<in> Wellfounded.acc rest_of" for t
    by (induction t rule: task_induct) (rule accI, use n in \<open>auto simp: rest_of_def\<close>)+
  with n have "\<forall>x. x \<in> Wellfounded.acc rest_of" by (metis option.exhaust)
  then show ?thesis by (rule acc_wfI)
qed

lemma mult1_list_update:
  assumes "i < length ts" and "(u, ts ! i) \<in> r"
  shows "(mset (ts[i := u]), mset ts) \<in> mult1 r"
proof -
  have "mset ts = add_mset (ts ! i) (mset ts - {#ts ! i#})" using assms(1) by simp
  moreover have "mset (ts[i := u]) = (mset ts - {#ts ! i#}) + {#u#}" using assms(1) by (simp add: mset_update)
  ultimately show ?thesis
    unfolding mult1_def using assms(2)
    by (intro CollectI case_prodI exI[of _ "ts ! i"] exI[of _ "mset ts - {#ts ! i#}"] exI[of _ "{#u#}"]) simp
qed

lemma system_step_decreases: "system_step x y \<Longrightarrow> (mset (fst y), mset (fst x)) \<in> mult1 rest_of"
proof (induction rule: system_step.induct)
  case (run i ts f m t m')
  from run(3) have "\<exists>m m'. f m = Some (t, m')" by (intro exI)
  then have "(Some t, ts ! i) \<in> rest_of" unfolding rest_of_def run(2) by blast
  from mult1_list_update[OF run(1) this] show ?case by simp
qed

lemma drop_step_decreases: "drop_step cleanup x y \<Longrightarrow> (mset (fst y), mset (fst x)) \<in> mult1 rest_of"
proof (induction rule: drop_step.induct)
  case (drop i ts f m)
  from drop(2) have "(None, ts ! i) \<in> rest_of" by (simp add: rest_of_def)
  from mult1_list_update[OF drop(1) this] show ?case by simp
qed (rule system_step_decreases)

lemma wf_drop_step: "wf {(y, x). drop_step cleanup x y}"
proof (rule wf_subset)
  show "wf (inv_image (mult1 rest_of) (\<lambda>x. mset (fst x)))"
    by (intro wf_inv_image wf_mult1 wf_rest_of)
qed (auto dest: drop_step_decreases)

end
