(* ===== verification/Guards.thy ===== *)
theory Guards
  imports Tasks
begin

text \<open>
  Programs that take and drop the guards of mutexes. Where a \<open>task\<close> of \<open>Tasks\<close> has one
  access for a whole lock scope, a program here has the acquisition, the accesses inside the
  scope and the drop of the guard as steps of their own. A mutex is not reentrant, as
  \<open>tokio::sync::Mutex\<close>: the acquisition waits as long as any program holds the mutex, the one
  that asks included. Dropping an unfinished program drops all its guards.

  A discipline of programs, judged along an order of the mutexes, rules out deadlock.
\<close>

named_theorems disciplined "judgements of the discipline of guards"

section \<open>Programs\<close>

datatype ('x, 'm, 'a) prog =
    Ret 'a
  | Lock 'x "('x, 'm, 'a) prog"
  | Unlock 'x "('x, 'm, 'a) prog"
  | Do "'m \<Rightarrow> ('x, 'm, 'a) prog \<times> 'm"

primrec and_then ::
  "('x, 'm, 'a) prog \<Rightarrow> ('a \<Rightarrow> ('x, 'm, 'b) prog) \<Rightarrow> ('x, 'm, 'b) prog" where
  "and_then (Ret a) k = k a"
| "and_then (Lock x t) k = Lock x (and_then t k)"
| "and_then (Unlock x t) k = Unlock x (and_then t k)"
| "and_then (Do f) k = Do (\<lambda>m. map_prod (\<lambda>t. and_then t k) id (f m))"

text \<open>A guard that lives to the end of a block, also when the block ends early.\<close>

definition holding :: "'x \<Rightarrow> ('x, 'm, 'a) prog \<Rightarrow> ('x, 'm, 'a) prog" where
  "holding x t = Lock x (and_then t (\<lambda>a. Unlock x (Ret a)))"

definition act :: "('m \<Rightarrow> 'a \<times> 'm) \<Rightarrow> ('x, 'm, 'a) prog" where
  "act f = Do (\<lambda>m. case f m of (a, m') \<Rightarrow> (Ret a, m'))"

definition see :: "('m \<Rightarrow> 'a) \<Rightarrow> ('x, 'm, 'a) prog" where
  "see f = act (\<lambda>m. (f m, m))"

definition upd :: "('m \<Rightarrow> 'm) \<Rightarrow> ('x, 'm, unit) prog" where
  "upd f = act (\<lambda>m. ((), f m))"

definition and_try ::
  "('x, 'm, 'e + 'a) prog \<Rightarrow> ('a \<Rightarrow> ('x, 'm, 'e + 'b) prog) \<Rightarrow> ('x, 'm, 'e + 'b) prog" where
  "and_try t k = and_then t (\<lambda>r. case r of Inl e \<Rightarrow> Ret (Inl e) | Inr a \<Rightarrow> k a)"

primrec over_part ::
  "('n \<Rightarrow> 'm) \<Rightarrow> ('m \<Rightarrow> 'n \<Rightarrow> 'n) \<Rightarrow> ('x, 'm, 'a) prog \<Rightarrow> ('x, 'n, 'a) prog" where
  "over_part get put (Ret a) = Ret a"
| "over_part get put (Lock x t) = Lock x (over_part get put t)"
| "over_part get put (Unlock x t) = Unlock x (over_part get put t)"
| "over_part get put (Do f) =
     Do (\<lambda>n. map_prod id (\<lambda>m. put m n) (map_prod (over_part get put) id (f (get n))))"

lemma prog_induct [case_names Ret Lock Unlock Do]:
  assumes "\<And>a. P (Ret a)" and "\<And>x t. P t \<Longrightarrow> P (Lock x t)" and "\<And>x t. P t \<Longrightarrow> P (Unlock x t)"
    and "\<And>f. (\<And>m. P (fst (f m))) \<Longrightarrow> P (Do f)"
  shows "P t"
proof (induction t)
  case (Do f)
  show ?case
  proof (rule assms(4))
    show "P (fst (f m))" for m using Do[OF rangeI[of f m], of "fst (f m)"] by (cases "f m") simp
  qed
qed (rule assms(1-3); assumption)+

subsection \<open>Without the guards\<close>

text \<open>The task that is left when every lock scope counts as one access.\<close>

primrec erase :: "('x, 'm, 'a) prog \<Rightarrow> ('m, 'a) task" where
  "erase (Ret a) = Done a"
| "erase (Lock x t) = erase t"
| "erase (Unlock x t) = erase t"
| "erase (Do f) = Step (\<lambda>m. Some (map_prod erase id (f m)))"

lemma then_do_Done [simp]: "then_do t Done = t"
  by (induction t rule: task_induct)
    (auto simp: fun_eq_iff map_prod_def split_def intro!: option.map_ident_strong)

lemma erase_and_then [simp]: "erase (and_then t k) = then_do (erase t) (\<lambda>a. erase (k a))"
  by (induction t rule: prog_induct) (auto simp: fun_eq_iff map_prod_def split_def)

lemma erase_holding [simp]: "erase (holding x t) = erase t"
  by (simp add: holding_def)

lemma erase_act [simp]: "erase (act f) = access f"
  by (simp add: act_def access_def fun_eq_iff split: prod.split)

lemma erase_see [simp]: "erase (see f) = look f"
  by (simp add: see_def look_def)

lemma erase_upd [simp]: "erase (upd f) = change f"
  by (simp add: upd_def change_def)

lemma erase_and_try [simp]: "erase (and_try t k) = try_do (erase t) (\<lambda>a. erase (k a))"
  by (simp add: and_try_def try_do_def sum.case_distrib[of erase] cong: sum.case_cong)

lemma erase_over_part [simp]: "erase (over_part get put t) = on_part get put (erase t)"
  by (induction t rule: prog_induct) (auto simp: fun_eq_iff map_prod_def split_def)

section \<open>The discipline\<close>

text \<open>
  \<open>obeys rank H t H'\<close>: a program that holds the mutexes \<open>H\<close> asks only for mutexes above all
  it holds, drops only guards it has, and holds \<open>H'\<close> when it returns.
\<close>

inductive obeys :: "('x \<Rightarrow> nat) \<Rightarrow> 'x set \<Rightarrow> ('x, 'm, 'a) prog \<Rightarrow> 'x set \<Rightarrow> bool" for rank where
  Ret: "obeys rank H (Ret a) H"
| Lock: "\<forall>y\<in>H. rank y < rank x \<Longrightarrow> obeys rank (insert x H) t H' \<Longrightarrow> obeys rank H (Lock x t) H'"
| Unlock: "x \<in> H \<Longrightarrow> obeys rank (H - {x}) t H' \<Longrightarrow> obeys rank H (Unlock x t) H'"
| Do: "(\<And>m. obeys rank H (fst (f m)) H') \<Longrightarrow> obeys rank H (Do f) H'"

inductive_cases obeys_RetE [elim!]: "obeys rank H (Ret a) H'"
inductive_cases obeys_LockE [elim!]: "obeys rank H (Lock x t) H'"
inductive_cases obeys_UnlockE [elim!]: "obeys rank H (Unlock x t) H'"
inductive_cases obeys_DoE [elim!]: "obeys rank H (Do f) H'"

declare obeys.Ret [disciplined]

lemma obeys_act [disciplined]: "obeys rank H (act f) H"
  by (auto simp: act_def split_def intro!: obeys.intros)

lemma obeys_see [disciplined]: "obeys rank H (see f) H"
  by (simp add: see_def disciplined)

lemma obeys_upd [disciplined]: "obeys rank H (upd f) H"
  by (simp add: upd_def disciplined)

lemma obeys_and_then:
  "obeys rank H t H' \<Longrightarrow> (\<And>a. obeys rank H' (k a) H'') \<Longrightarrow> obeys rank H (and_then t k) H''"
  by (induction rule: obeys.induct) (auto intro: obeys.intros)

lemma obeys_block [disciplined]:
  "obeys rank H t H \<Longrightarrow> (\<And>a. obeys rank H (k a) H) \<Longrightarrow> obeys rank H (and_then t k) H"
  by (rule obeys_and_then)

lemma obeys_and_try [disciplined]:
  "obeys rank H t H \<Longrightarrow> (\<And>a. obeys rank H (k a) H) \<Longrightarrow> obeys rank H (and_try t k) H"
  unfolding and_try_def by (rule obeys_block) (auto intro: disciplined split: sum.split)

lemma obeys_holding [disciplined]:
  assumes "\<forall>y\<in>H. rank y < rank x" and "obeys rank (insert x H) t (insert x H)"
  shows "obeys rank H (holding x t) H"
proof -
  have "x \<notin> H" using assms(1) by auto
  then have "obeys rank (insert x H) (Unlock x (Ret a)) H" for a :: 'c
    by (intro obeys.Unlock) (simp_all add: obeys.Ret)
  then show ?thesis
    unfolding holding_def by (intro obeys.Lock[OF assms(1)] obeys_and_then[OF assms(2)])
qed

lemma obeys_over_part [disciplined]:
  "obeys rank H t H' \<Longrightarrow> obeys rank H (over_part get put t) H'"
  by (induction rule: obeys.induct) (auto intro: obeys.intros)

section \<open>Systems of programs\<close>

text \<open>The programs, the owner of every mutex, and the shared state.\<close>

type_synonym ('x, 'm, 'a) guarded_system =
  "('x, 'm, 'a) prog option list \<times> ('x \<Rightarrow> nat option) \<times> 'm"

inductive guard_step ::
  "('x, 'm, 'a) guarded_system \<Rightarrow> ('x, 'm, 'a) guarded_system \<Rightarrow> bool" where
  lock: "i < length ts \<Longrightarrow> ts ! i = Some (Lock x t) \<Longrightarrow> own x = None \<Longrightarrow>
    guard_step (ts, own, m) (ts[i := Some t], own(x \<mapsto> i), m)"
| unlock: "i < length ts \<Longrightarrow> ts ! i = Some (Unlock x t) \<Longrightarrow> own x = Some i \<Longrightarrow>
    guard_step (ts, own, m) (ts[i := Some t], own(x := None), m)"
| act: "i < length ts \<Longrightarrow> ts ! i = Some (Do f) \<Longrightarrow> f m = (t, m') \<Longrightarrow>
    guard_step (ts, own, m) (ts[i := Some t], own, m')"

definition drop_guards :: "nat \<Rightarrow> ('x \<Rightarrow> nat option) \<Rightarrow> 'x \<Rightarrow> nat option" where
  "drop_guards i own x = (if own x = Some i then None else own x)"

inductive guard_drop_step ::
  "('x, 'm, 'a) guarded_system \<Rightarrow> ('x, 'm, 'a) guarded_system \<Rightarrow> bool" where
  step: "guard_step s s' \<Longrightarrow> guard_drop_step s s'"
| drop: "i < length ts \<Longrightarrow> ts ! i = Some t \<Longrightarrow>
    guard_drop_step (ts, own, m) (ts[i := None], drop_guards i own, m)"

definition ended :: "('x, 'm, 'a) guarded_system \<Rightarrow> bool" where
  "ended s \<longleftrightarrow> (\<forall>t\<in>set (fst s). \<forall>u. t = Some u \<longrightarrow> (\<exists>a. u = Ret a))"

subsection \<open>Every schedule is finite\<close>

definition prog_rest :: "(('x, 'm, 'a) prog option \<times> ('x, 'm, 'a) prog option) set" where
  "prog_rest = {(Some t, Some (Lock x t)) | x t. True} \<union> {(Some t, Some (Unlock x t)) | x t. True} \<union>
     {(Some (fst (f m)), Some (Do f)) | f m. True}"

lemma wf_prog_rest: "wf prog_rest"
proof -
  have n: "None \<in> Wellfounded.acc prog_rest" by (rule accI) (auto simp: prog_rest_def)
  have "Some t \<in> Wellfounded.acc prog_rest" for t
    by (induction t rule: prog_induct) (rule accI, auto simp: prog_rest_def)+
  with n have "\<forall>x. x \<in> Wellfounded.acc prog_rest" by (metis option.exhaust)
  then show ?thesis by (rule acc_wfI)
qed

lemma guard_step_decreases: "guard_step s s' \<Longrightarrow> (mset (fst s'), mset (fst s)) \<in> mult1 prog_rest"
proof (induction rule: guard_step.induct)
  case (lock i ts x t own m)
  then have "(Some t, ts ! i) \<in> prog_rest" by (auto simp: prog_rest_def)
  from mult1_list_update[OF lock(1) this] show ?case by simp
next
  case (unlock i ts x t own m)
  then have "(Some t, ts ! i) \<in> prog_rest" by (auto simp: prog_rest_def)
  from mult1_list_update[OF unlock(1) this] show ?case by simp
next
  case (act i ts f m t m' own)
  then have "(Some t, ts ! i) \<in> prog_rest"
    by (auto simp: prog_rest_def intro!: exI[of _ f] exI[of _ m])
  from mult1_list_update[OF act(1) this] show ?case by simp
qed

lemma wf_guard_step: "wf {(s', s). guard_step s s'}"
proof (rule wf_subset)
  show "wf (inv_image (mult1 prog_rest) (\<lambda>s. mset (fst s)))"
    by (intro wf_inv_image wf_mult1 wf_prog_rest)
qed (auto dest: guard_step_decreases)

section \<open>No deadlock\<close>

definition held :: "('x \<Rightarrow> nat option) \<Rightarrow> nat \<Rightarrow> 'x set" where
  "held own i = {x. own x = Some i}"

text \<open>Every program obeys from the guards it has, and only programs of the system have guards.\<close>

definition well_guarded :: "('x \<Rightarrow> nat) \<Rightarrow> ('x, 'm, 'a) guarded_system \<Rightarrow> bool" where
  "well_guarded rank s \<longleftrightarrow> (case s of (ts, own, m) \<Rightarrow>
     (\<forall>i<length ts. case ts ! i of None \<Rightarrow> held own i = {} | Some t \<Rightarrow> obeys rank (held own i) t {}) \<and>
     (\<forall>x i. own x = Some i \<longrightarrow> i < length ts))"

lemma well_guardedD:
  assumes "well_guarded rank (ts, own, m)"
  shows "i < length ts \<Longrightarrow> ts ! i = Some t \<Longrightarrow> obeys rank (held own i) t {}"
    and "i < length ts \<Longrightarrow> ts ! i = None \<Longrightarrow> held own i = {}"
    and "own x = Some i \<Longrightarrow> i < length ts"
  using assms by (auto simp: well_guarded_def split: option.splits)

lemma well_guarded_update:
  assumes "well_guarded rank (ts, own, m)" and "i < length ts"
    and "\<And>j. j \<noteq> i \<Longrightarrow> held own' j = held own j"
    and "case u of None \<Rightarrow> held own' i = {} | Some t \<Rightarrow> obeys rank (held own' i) t {}"
  shows "well_guarded rank (ts[i := u], own', m')"
proof -
  have "j < length ts" if "own' x = Some j" for x j
  proof (cases "j = i")
    case False
    then have "own x = Some j" using that assms(3)[of j] by (auto simp: held_def)
    then show ?thesis by (rule well_guardedD(3)[OF assms(1)])
  qed (use assms(2) in simp)
  moreover have "case ts[i := u] ! j of None \<Rightarrow> held own' j = {} | Some t \<Rightarrow> obeys rank (held own' j) t {}"
    if j: "j < length ts" for j
  proof (cases "j = i")
    case False
    have "case ts ! j of None \<Rightarrow> held own j = {} | Some t \<Rightarrow> obeys rank (held own j) t {}"
      using assms(1) j by (simp add: well_guarded_def)
    with assms(3)[OF False] False show ?thesis by (auto split: option.splits)
  next
    case True
    with assms(2,4) show ?thesis by (auto split: option.splits)
  qed
  ultimately show ?thesis by (auto simp: well_guarded_def)
qed

lemma well_guarded_step:
  assumes "guard_step s s'" and "well_guarded rank s"
  shows "well_guarded rank s'"
  using assms
proof (induction rule: guard_step.induct)
  case (lock i ts x t own m)
  have "obeys rank (held own i) (Lock x t) {}" by (rule well_guardedD(1)[OF lock(4,1,2)])
  moreover have "held (own(x \<mapsto> i)) i = insert x (held own i)" by (auto simp: held_def)
  moreover have "held (own(x \<mapsto> i)) j = held own j" if "j \<noteq> i" for j
    using that lock(3) by (auto simp: held_def)
  ultimately show ?case by (intro well_guarded_update[OF lock(4,1)]) auto
next
  case (unlock i ts x t own m)
  have "obeys rank (held own i) (Unlock x t) {}" by (rule well_guardedD(1)[OF unlock(4,1,2)])
  moreover have "held (own(x := None)) i = held own i - {x}" by (auto simp: held_def)
  moreover have "held (own(x := None)) j = held own j" if "j \<noteq> i" for j
    using that unlock(3) by (auto simp: held_def)
  ultimately show ?case by (intro well_guarded_update[OF unlock(4,1)]) auto
next
  case (act i ts f m t m' own)
  have "obeys rank (held own i) (Do f) {}" by (rule well_guardedD(1)[OF act(4,1,2)])
  then have "obeys rank (held own i) t {}" using act(3) by (metis fst_conv obeys_DoE)
  then show ?case by (intro well_guarded_update[OF act(4,1)]) simp_all
qed

lemma well_guarded_drop_step:
  assumes "guard_drop_step s s'" and "well_guarded rank s"
  shows "well_guarded rank s'"
  using assms
proof (induction rule: guard_drop_step.induct)
  case (drop i ts t own m)
  then show ?case
    by (intro well_guarded_update[OF drop(3,1)]) (auto simp: held_def drop_guards_def)
qed (rule well_guarded_step)

lemma well_guarded_reachable:
  "guard_drop_step\<^sup>*\<^sup>* s s' \<Longrightarrow> well_guarded rank s \<Longrightarrow> well_guarded rank s'"
  by (induction rule: rtranclp_induct) (auto intro: well_guarded_drop_step)

lemma well_guarded_start:
  assumes "\<And>t. t \<in> set ts \<Longrightarrow> obeys rank {} t {}"
  shows "well_guarded rank (map Some ts, Map.empty, m)"
  using assms by (auto simp: well_guarded_def held_def)

text \<open>
  Along an order of the mutexes some program can always go on: one that holds the highest
  mutex that is held, or any one when none is held.
\<close>

locale mutex_order =
  fixes rank :: "'x \<Rightarrow> nat" and top :: nat
  assumes below_top: "rank x \<le> top"
begin

lemma program_steps:
  assumes "well_guarded rank (ts, own, m)" and "i < length ts" and "ts ! i = Some t" and "\<nexists>a. t = Ret a"
    and "\<And>x u. t = Lock x u \<Longrightarrow> own x = None"
  shows "\<exists>s. guard_step (ts, own, m) s"
proof (cases t)
  case (Lock x u)
  with assms show ?thesis by (blast intro: guard_step.lock)
next
  case (Unlock x u)
  have "obeys rank (held own i) t {}" by (rule well_guardedD(1)[OF assms(1-3)])
  with Unlock have "own x = Some i" by (auto simp: held_def)
  with assms(2,3) Unlock show ?thesis by (blast intro: guard_step.unlock)
next
  case (Do f)
  obtain u m' where "f m = (u, m')" by (cases "f m")
  with assms(2,3) Do show ?thesis by (blast intro: guard_step.act)
qed (use assms(4) in blast)

lemma progress:
  assumes "well_guarded rank s" and "\<not> ended s"
  shows "\<exists>s'. guard_step s s'"
proof -
  obtain ts own m where s: "s = (ts, own, m)" by (cases s)
  note W = assms(1)[unfolded s]
  show ?thesis
  proof (cases "\<exists>x. own x \<noteq> None")
    case False
    obtain t where "Some t \<in> set ts" "\<nexists>a. t = Ret a" using assms(2) by (auto simp: ended_def s)
    moreover from this(1) obtain i where "i < length ts" "ts ! i = Some t" by (metis in_set_conv_nth)
    moreover have "own x = None" for x using False by simp
    ultimately show ?thesis unfolding s by (intro program_steps[OF W])
  next
    case True
    then obtain z where "own z \<noteq> None" by blast
    from ex_has_greatest_nat[where P = "\<lambda>x. own x \<noteq> None", OF this, of rank "Suc top"] below_top
    obtain x where x: "own x \<noteq> None" "\<And>y. own y \<noteq> None \<Longrightarrow> rank y \<le> rank x"
      by (auto simp: less_Suc_eq_le)
    then obtain i where i: "own x = Some i" by blast
    have len: "i < length ts" by (rule well_guardedD(3)[OF W i])
    have h: "x \<in> held own i" using i by (simp add: held_def)
    then obtain t where t: "ts ! i = Some t" using well_guardedD(2)[OF W len] by (cases "ts ! i") auto
    note O = well_guardedD(1)[OF W len t]
    have "\<nexists>a. t = Ret a" using O h by auto
    moreover have "own y = None" if "t = Lock y u" for y u
    proof (rule ccontr)
      assume "own y \<noteq> None"
      then have "rank y \<le> rank x" by (rule x(2))
      moreover have "rank x < rank y" using O h that by auto
      ultimately show False by simp
    qed
    ultimately show ?thesis unfolding s by (intro program_steps[OF W len t])
  qed
qed

lemma ends:
  assumes "well_guarded rank s"
  shows "\<exists>s'. guard_step\<^sup>*\<^sup>* s s' \<and> ended s'"
  using wf_guard_step assms
proof (induction s rule: wf_induct_rule)
  case (less s)
  show ?case
  proof (cases "ended s")
    case False
    then obtain z where z: "guard_step s z" using progress[OF less.prems] by blast
    then obtain w where "guard_step\<^sup>*\<^sup>* z w" "ended w"
      using less.IH[of z] well_guarded_step[OF z less.prems] by auto
    with z show ?thesis by (meson converse_rtranclp_into_rtranclp)
  qed blast
qed

lemma all_free:
  assumes "well_guarded rank (ts, own, m)" and "ended (ts, own, m)"
  shows "own = Map.empty"
proof
  fix x
  show "own x = None"
  proof (cases "own x")
    case (Some i)
    have len: "i < length ts" by (rule well_guardedD(3)[OF assms(1) Some])
    have h: "x \<in> held own i" using Some by (simp add: held_def)
    then obtain t where t: "ts ! i = Some t" using well_guardedD(2)[OF assms(1) len] by (cases "ts ! i") auto
    moreover from this obtain a where "t = Ret a" using assms(2) len by (auto simp: ended_def dest: nth_mem)
    ultimately show ?thesis using well_guardedD(1)[OF assms(1) len t] h by auto
  qed
qed

end

end
