(* ===== verification/Async_Journal.thy ===== *)
theory Async_Journal
  imports Tasks Journal_Api
begin

text \<open>
  The asynchronous journal at the granularity of its accesses to shared state: every
  \<open>lock().await\<close> scope of \<open>src/core/time_manager.rs\<close> and \<open>src/api/async_api.rs\<close> and every
  call of the storage backend is one access of a task. \<open>add_leaf_task\<close> and the functions it
  calls are the same code as \<open>Time_Manager\<close> has, cut at these points, and running one alone
  gives what \<open>Time_Manager\<close> computes. A call of the storage backend is one access, so the
  write of a page file is not torn.

  The shared state adds the lock of \<open>last_leaf_hash\<close>, with the task that holds it, and the
  counter \<open>NEXT_LEAF_ID\<close>. \<open>append_leaf\<close> holds the lock to its end; the other operations do
  not take it. The mutexes of the manager guard single accesses here and never make a task
  wait; \<open>Async_Guards\<close> has the same functions with these guards held as long as in the code,
  and shows that their runs are schedules of the tasks below.
\<close>

section \<open>Accesses of the manager\<close>

definition track_id :: "nat \<Rightarrow> journal_page \<Rightarrow> 's manager \<Rightarrow> 's manager" where
  "track_id l p m =
     m\<lparr>last_finalized_page_ids := (last_finalized_page_ids m)(l \<mapsto> page_id p)\<rparr>"

definition track_hash :: "nat \<Rightarrow> journal_page \<Rightarrow> 's manager \<Rightarrow> 's manager" where
  "track_hash l p m =
     m\<lparr>last_finalized_page_hashes := (last_finalized_page_hashes m)(l \<mapsto> page_hash p)\<rparr>"

lemma track_both: "track_hash l p (track_id l p m) = track_finalized l p m"
  by (simp add: track_hash_def track_id_def track_finalized_def)

text \<open>Store a page, then track it: three accesses.\<close>

definition store_task ::
  "'s storage_backend \<Rightarrow> nat \<Rightarrow> journal_page \<Rightarrow> ('s manager, cj_error + unit) task" where
  "store_task B l p =
     try_do (access (store_in B p)) (\<lambda>_.
       then_do (change (track_id l p)) (\<lambda>_.
       then_do (change (track_hash l p)) (\<lambda>_. Done (Inr ()))))"

definition last_hash_task ::
  "'s storage_backend \<Rightarrow> nat \<Rightarrow> ('s manager, cj_error + hash option) task" where
  "last_hash_task B l =
     then_do (look (\<lambda>m. last_finalized_page_ids m l)) (\<lambda>last.
       case last of
         None \<Rightarrow> Done (Inr None)
       | Some i \<Rightarrow> then_do (look (\<lambda>m. load_page B (storage m) l i)) (\<lambda>r.
           Done (try_pure r (\<lambda>po. Inr (map_option page_hash po)))))"

section \<open>Rollup\<close>

text \<open>The scope of the lock in \<open>get_or_create_active_parent_page\<close>.\<close>

definition usable_parent :: "nat \<Rightarrow> nat \<Rightarrow> timestamp \<Rightarrow> 's manager \<Rightarrow> journal_page option" where
  "usable_parent max_items pl ts m =
     (case active_pages m pl of
        None \<Rightarrow> None
      | Some p \<Rightarrow>
          if creation_timestamp p \<le> ts \<and> ts < end_time p \<and> content_len p < max_items
          then Some p else None)"

definition parent_task ::
  "externals \<Rightarrow> 's storage_backend \<Rightarrow> config \<Rightarrow> nat \<Rightarrow> timestamp \<Rightarrow>
    ('s manager, cj_error + journal_page) task" where
  "parent_task X B cfg pl ts =
     (case get_page_window cfg pl ts of
        Inl e \<Rightarrow> Done (Inl e)
      | Inr (wstart, _) \<Rightarrow>
        (case level_at cfg pl of
           None \<Rightarrow> Done (Inl (ConfigError ValidationError))
         | Some level_config \<Rightarrow>
           let max_items = max_items_per_page (rollup_config level_config) in
           then_do (look (usable_parent max_items pl ts)) (\<lambda>usable.
             case usable of
               Some p \<Rightarrow> Done (Inr p)
             | None \<Rightarrow>
               then_do (look (\<lambda>m. last_finalized_page_hashes m pl)) (\<lambda>prev.
               then_do (look (\<lambda>m. last_finalized_page_ids m pl)) (\<lambda>last.
                 case last of
                   None \<Rightarrow> access (create_page X cfg pl prev wstart)
                 | Some last_page_id \<Rightarrow>
                   then_do (look (\<lambda>m. load_page B (storage m) pl last_page_id)) (\<lambda>r.
                     case r of
                       Inl e \<Rightarrow> Done (Inl e)
                     | Inr None \<Rightarrow> access (create_page X cfg pl prev wstart)
                     | Inr (Some loaded) \<Rightarrow>
                         if creation_timestamp loaded = wstart \<and>
                            end_time loaded = wstart + nanos (int (duration_seconds level_config)) \<and>
                            content_len loaded < max_items
                         then Done (Inr loaded)
                         else access (create_page X cfg pl (Some (page_hash loaded)) wstart)))))))"

text \<open>A stale active parent is taken out of the map in one access.\<close>

definition take_stale :: "nat \<Rightarrow> timestamp \<Rightarrow> 's manager \<Rightarrow> journal_page option \<times> 's manager" where
  "take_stale pl ts m =
     (case active_pages m pl of
        None \<Rightarrow> (None, m)
      | Some existing \<Rightarrow>
          if end_time existing \<le> ts then (Some existing, set_active pl None m) else (None, m))"

definition stale_task ::
  "externals \<Rightarrow> 's storage_backend \<Rightarrow> nat \<Rightarrow> timestamp \<Rightarrow>
    ('s manager, cj_error + hash option) task" where
  "stale_task X B pl ts =
     then_do (access (take_stale pl ts)) (\<lambda>stale.
       case stale of
         None \<Rightarrow> Done (Inr None)
       | Some existing \<Rightarrow>
           if is_content_empty existing then Done (Inr None)
           else let page = recalculate X existing in
             try_do (store_task B pl page) (\<lambda>_. Done (Inr (Some (page_hash page)))))"

text \<open>What the lock scope after the child was attached decides.\<close>

datatype parent_fate = Discard | Keep | Finalize

definition fate_of :: "time_level \<Rightarrow> journal_page \<Rightarrow> timestamp \<Rightarrow> parent_fate" where
  "fate_of parent_cfg parent ts =
     (let age_seconds = trunc_div (ts - creation_timestamp parent) 1000000000;
          is_full = max_items_per_page (rollup_config parent_cfg) \<le> content_len parent;
          is_over_age = as_i64 (int (max_page_age_seconds (rollup_config parent_cfg))) \<le> age_seconds
      in if is_content_empty parent then if is_over_age then Discard else Keep
         else if is_full \<or> is_over_age then Finalize else Keep)"

definition settle_task ::
  "'s storage_backend \<Rightarrow> nat \<Rightarrow> time_level \<Rightarrow> journal_page \<Rightarrow> timestamp \<Rightarrow>
    ('s manager, cj_error + hash option) task" where
  "settle_task B pl parent_cfg parent ts =
     (case fate_of parent_cfg parent ts of
        Discard \<Rightarrow>
          then_do (change (set_active pl None)) (\<lambda>_.
          then_do (change (\<lambda>m. m\<lparr>page_id_gen := id_revert (page_id parent) (page_id_gen m)\<rparr>)) (\<lambda>_.
            Done (Inr None)))
      | Keep \<Rightarrow> then_do (change (set_active pl (Some parent))) (\<lambda>_. Done (Inr None))
      | Finalize \<Rightarrow>
          then_do (change (set_active pl None)) (\<lambda>_.
            try_do (store_task B pl parent) (\<lambda>_. Done (Inr (Some (page_hash parent))))))"

definition attach_task ::
  "externals \<Rightarrow> 's storage_backend \<Rightarrow> config \<Rightarrow> nat \<Rightarrow> time_level \<Rightarrow> journal_page \<Rightarrow> timestamp \<Rightarrow>
    ('s manager, cj_error + hash option) task" where
  "attach_task X B cfg pl parent_cfg child ts =
     try_do (parent_task X B cfg pl ts) (\<lambda>parent.
       if length (levels cfg) \<le> page_level child then Done (Inl Panicked)
       else case add_child_content (content_type (rollup_config parent_cfg)) parent child of
         Inl e \<Rightarrow> Done (Inl e)
       | Inr parent \<Rightarrow> settle_task B pl parent_cfg (recalculate X parent) ts)"

function rollup_task ::
  "externals \<Rightarrow> 's storage_backend \<Rightarrow> config \<Rightarrow> nat \<Rightarrow> hash \<Rightarrow> timestamp \<Rightarrow>
    ('s manager, cj_error + unit) task" where
  "rollup_task X B cfg finalized_level finalized_hash ts =
     (if 255 \<le> finalized_level then Done (Inl Panicked)
      else then_do (look (\<lambda>m. load_page_by_hash B (storage m) finalized_hash)) (\<lambda>r. case r of
        Inl e \<Rightarrow> Done (Inl e)
      | Inr None \<Rightarrow> Done (Inl StorageError)
      | Inr (Some child) \<Rightarrow>
        (case level_at cfg (finalized_level + 1) of
           None \<Rightarrow> Done (Inr ())
         | Some parent_cfg \<Rightarrow>
           try_do (stale_task X B (finalized_level + 1) ts) (\<lambda>stale.
           try_do (case stale of
                     None \<Rightarrow> Done (Inr ())
                   | Some h \<Rightarrow> rollup_task X B cfg (finalized_level + 1) h ts) (\<lambda>_.
           try_do (attach_task X B cfg (finalized_level + 1) parent_cfg child ts) (\<lambda>finalized.
           case finalized of
             None \<Rightarrow> Done (Inr ())
           | Some h \<Rightarrow> rollup_task X B cfg (finalized_level + 1) h ts))))))"
  by pat_completeness auto
termination
  by (relation "measure (\<lambda>(X, B, cfg, l, h, ts). length (levels cfg) - l)")
    (auto dest: level_at_less)

declare rollup_task.simps [simp del]


section \<open>Adding a leaf\<close>

definition finalize_task ::
  "externals \<Rightarrow> 's storage_backend \<Rightarrow> config \<Rightarrow> journal_page \<Rightarrow> timestamp \<Rightarrow>
    ('s manager, cj_error + unit) task" where
  "finalize_task X B cfg p ts =
     (if is_content_empty p then
        then_do (change (\<lambda>m. m\<lparr>page_id_gen := id_revert (page_id p) (page_id_gen m)\<rparr>)) (\<lambda>_. Done (Inr ()))
      else
        let p = recalculate X p in
        try_do (store_task B (page_level p) p) (\<lambda>_.
          rollup_task X B cfg (page_level p) (page_hash p) ts))"

definition fresh_task ::
  "externals \<Rightarrow> 's storage_backend \<Rightarrow> config \<Rightarrow> timestamp \<Rightarrow>
    ('s manager, cj_error + journal_page) task" where
  "fresh_task X B cfg wstart =
     try_do (last_hash_task B 0) (\<lambda>prev.
       case prev of
         Some h \<Rightarrow> access (create_page X cfg 0 (Some h) wstart)
       | None \<Rightarrow> try_do (last_hash_task B 0) (\<lambda>prev. access (create_page X cfg 0 prev wstart)))"

text \<open>
  The lock scope that looks at the active page of level 0: the page can take the leaf, or is
  removed to be finalised, or there is none.
\<close>

datatype leaf_place = Usable journal_page | Detached journal_page timestamp | NoPage timestamp

definition place_leaf ::
  "config \<Rightarrow> journal_leaf \<Rightarrow> 's manager \<Rightarrow> (cj_error + leaf_place) \<times> 's manager" where
  "place_leaf cfg leaf m =
     (case get_page_window cfg 0 (leaf_timestamp leaf) of
        Inl e \<Rightarrow> (Inl e, m)
      | Inr (wstart, _) \<Rightarrow>
        (case active_pages m 0 of
           None \<Rightarrow> (Inr (NoPage wstart), m)
         | Some p \<Rightarrow>
             if creation_timestamp p \<le> leaf_timestamp leaf \<and> leaf_timestamp leaf < end_time p \<and>
                content_len p < max_items_per_page (rollup_config (levels cfg ! 0))
             then (Inr (Usable p), m)
             else (Inr (Detached p wstart), set_active 0 None m)))"

definition page_task ::
  "externals \<Rightarrow> 's storage_backend \<Rightarrow> config \<Rightarrow> journal_leaf \<Rightarrow>
    ('s manager, cj_error + journal_page) task" where
  "page_task X B cfg leaf =
     try_do (access (place_leaf cfg leaf)) (\<lambda>place.
       case place of
         Usable p \<Rightarrow> Done (Inr p)
       | Detached p wstart \<Rightarrow>
           try_do (finalize_task X B cfg p (leaf_timestamp leaf)) (\<lambda>_. fresh_task X B cfg wstart)
       | NoPage wstart \<Rightarrow> fresh_task X B cfg wstart)"

definition close_task ::
  "externals \<Rightarrow> 's storage_backend \<Rightarrow> config \<Rightarrow> journal_page \<Rightarrow> timestamp \<Rightarrow>
    ('s manager, cj_error + unit) task" where
  "close_task X B cfg p ts =
     (let p = recalculate X p in
      try_do (store_task B (page_level p) p) (\<lambda>_.
        then_do (change (set_active (page_level p) None)) (\<lambda>_.
          rollup_task X B cfg (page_level p) (page_hash p) ts)))"

definition insert_task ::
  "externals \<Rightarrow> 's storage_backend \<Rightarrow> config \<Rightarrow> time_level \<Rightarrow> journal_leaf \<Rightarrow> timestamp \<Rightarrow> journal_page \<Rightarrow>
    ('s manager, cj_error + unit) task" where
  "insert_task X B cfg lc leaf operation_time page =
     (case page_add_leaf page leaf of
        Inl e \<Rightarrow> Done (Inl e)
      | Inr page \<Rightarrow>
          let (full_or_old, outside) = leaf_finalize lc page (leaf_timestamp leaf) operation_time in
          if full_or_old \<or> outside then close_task X B cfg page (leaf_timestamp leaf)
          else then_do (change (set_active (page_level page) (Some page))) (\<lambda>_. Done (Inr ())))"

definition add_leaf_task ::
  "externals \<Rightarrow> 's storage_backend \<Rightarrow> config \<Rightarrow> journal_leaf \<Rightarrow> timestamp \<Rightarrow>
    ('s manager, cj_error + nat) task" where
  "add_leaf_task X B cfg leaf operation_time =
     try_do (page_task X B cfg leaf) (\<lambda>page.
       case level_at cfg (page_level page) of
         None \<Rightarrow> Done (Inl Panicked)
       | Some lc \<Rightarrow>
         let original_page_id = page_id page in
         try_do
           (if fst (leaf_finalize lc page (leaf_timestamp leaf) operation_time) \<and>
               leaf_timestamp leaf < operation_time \<and> \<not> is_content_empty page
            then try_do (close_task X B cfg page (leaf_timestamp leaf)) (\<lambda>_. page_task X B cfg leaf)
            else Done (Inr page))
           (\<lambda>page.
         try_do (insert_task X B cfg lc leaf operation_time page) (\<lambda>_. Done (Inr original_page_id))))"

section \<open>The journal's operations as tasks\<close>

record shared =
  sh_journal :: journal
  sh_next_leaf_id :: nat
  sh_lock :: "nat option"

definition on_manager :: "(any_storage manager, 'a) task \<Rightarrow> (shared, 'a) task" where
  "on_manager = on_part (\<lambda>M. manager (sh_journal M))
     (\<lambda>m M. M\<lparr>sh_journal := (sh_journal M)\<lparr>manager := m\<rparr>\<rparr>)"

text \<open>\<open>last_leaf_hash.lock().await\<close> by task \<open>i\<close>, and the drop of the guard.\<close>

definition lock_task :: "nat \<Rightarrow> (shared, unit) task" where
  "lock_task i =
     Step (\<lambda>M. if sh_lock M = None then Some (Done (), M\<lparr>sh_lock := Some i\<rparr>) else None)"

definition unlock :: "nat \<Rightarrow> shared \<Rightarrow> shared" where
  "unlock i M = (if sh_lock M = Some i then M\<lparr>sh_lock := None\<rparr> else M)"

text \<open>\<open>JournalLeaf::new\<close> with the hash the guard holds.\<close>

definition new_leaf ::
  "externals \<Rightarrow> timestamp \<Rightarrow> page_content_hash option \<Rightarrow> string \<Rightarrow> json \<Rightarrow> shared \<Rightarrow>
    (cj_error + journal_leaf) \<times> shared" where
  "new_leaf X ts parent_hash cid data M =
     (case leaf_new X ts (previous_hash parent_hash (last_leaf_hash (sh_journal M))) cid data
             (sh_next_leaf_id M) of
        (r, n) \<Rightarrow> (r, M\<lparr>sh_next_leaf_id := n\<rparr>))"

definition set_last_hash :: "hash \<Rightarrow> shared \<Rightarrow> shared" where
  "set_last_hash h M = M\<lparr>sh_journal := (sh_journal M)\<lparr>last_leaf_hash := Some h\<rparr>\<rparr>"

definition locked_append ::
  "externals \<Rightarrow> codecs \<Rightarrow> config \<Rightarrow> timestamp \<Rightarrow> page_content_hash option \<Rightarrow> string \<Rightarrow> json \<Rightarrow>
    (shared, cj_error + page_content_hash) task" where
  "locked_append X C cfg ts parent_hash cid data =
     try_do (access (new_leaf X ts parent_hash cid data)) (\<lambda>leaf.
     try_do (on_manager (add_leaf_task X (any_backend C) cfg leaf ts)) (\<lambda>_.
     then_do (change (set_last_hash (leaf_hash leaf))) (\<lambda>_.
       Done (Inr (LeafHash (leaf_hash leaf))))))"

definition append_leaf_task ::
  "externals \<Rightarrow> codecs \<Rightarrow> config \<Rightarrow> nat \<Rightarrow> timestamp \<Rightarrow> page_content_hash option \<Rightarrow> string \<Rightarrow> json \<Rightarrow>
    (shared, cj_error + page_content_hash) task" where
  "append_leaf_task X C cfg i ts parent_hash cid data =
     then_do (lock_task i) (\<lambda>_.
     then_do (locked_append X C cfg ts parent_hash cid data) (\<lambda>r.
     then_do (change (unlock i)) (\<lambda>_. Done r)))"

definition get_page_task ::
  "codecs \<Rightarrow> nat \<Rightarrow> nat \<Rightarrow> (shared, cj_error + journal_page) task" where
  "get_page_task C l i =
     then_do (look (\<lambda>M. load_page_from_storage (any_backend C) (manager (sh_journal M)) l i)) (\<lambda>r.
       case r of
         Inr (Some page) \<Rightarrow> Done (Inr page)
       | Inr None \<Rightarrow>
           then_do (look (\<lambda>M. get_active_page_by_id (manager (sh_journal M)) l i)) (\<lambda>a.
             case a of
               Some active \<Rightarrow> Done (Inr active)
             | None \<Rightarrow> Done (Inl (PageNotFound l i)))
       | Inl e \<Rightarrow> Done (Inl StorageError))"

end
