(* ===== verification/Async_Properties.thy ===== *)
theory Async_Properties
  imports Async_Journal Journal_Properties
begin

text \<open>
  The asynchronous journal under any schedule of its tasks. A task that runs alone computes
  what the sequential model computes; appends that run together give the journal that some
  order of them, one after the other, gives; and a page that is being finalised is for a
  while in neither place where a concurrent reader looks.
\<close>

section \<open>A task alone computes the sequential operation\<close>

lemma run_store_task:
  "run_task (store_task B l p) m = Some (try_then (store_in B p m) (\<lambda>_ m. (Inr (), track_finalized l p m)))"
  unfolding store_task_def by (intro run_try_do run_access) (simp add: run_then_do track_both)

lemma run_last_hash_task: "run_task (last_hash_task B l) m = Some (last_stored_hash B l m, m)"
  by (simp add: last_hash_task_def last_stored_hash_def run_then_do split: option.split)

lemma run_parent_task:
  "run_task (parent_task X B cfg pl ts) m = Some (get_or_create_active_parent_page X B cfg pl ts m)"
  by (simp add: parent_task_def get_or_create_active_parent_page_def usable_parent_def run_then_do Let_def
      split: sum.split option.split prod.split)

lemma run_stale_task: "run_task (stale_task X B pl ts) m = Some (stale_parent_step X B pl ts m)"
proof -
  have s: "run_task (try_do (store_task B pl q) (\<lambda>_. Done (Inr (Some (page_hash q))))) m =
      Some (try_then (store_in B q m) (\<lambda>_ m. (Inr (Some (page_hash q)), track_finalized pl q m)))" for q m
    by (auto simp: try_do_def run_then_do run_store_task try_then_def split: prod.split sum.split)
  show ?thesis
    by (simp add: stale_task_def stale_parent_step_def take_stale_def run_then_do s Let_def split: option.split)
qed

lemma run_settle_task: "run_task (settle_task B pl lc p ts) m = Some (settle_parent B pl lc p ts m)"
proof -
  have s: "run_task (try_do (store_task B pl q) (\<lambda>_. Done (Inr (Some (page_hash q))))) m =
      Some (try_then (store_in B q m) (\<lambda>_ m. (Inr (Some (page_hash q)), track_finalized pl q m)))" for q m
    by (auto simp: try_do_def run_then_do run_store_task try_then_def split: prod.split sum.split)
  show ?thesis
    by (simp add: settle_task_def settle_parent_def fate_of_def run_then_do s Let_def)
qed

lemma run_attach_task:
  "run_task (attach_task X B cfg pl lc child ts) m = Some (attach_child_step X B cfg pl lc child ts m)"
  unfolding attach_task_def attach_child_step_def
  by (intro run_try_do run_parent_task) (simp add: run_settle_task split: sum.split)

lemma run_rollup_task: "run_task (rollup_task X B cfg l h ts) m = Some (perform_rollup X B cfg l h ts m)"
proof (induction X B cfg l h ts arbitrary: m rule: rollup_task.induct)
  case (1 X B cfg l h ts)
  note unfold = rollup_task.simps[of X B cfg l h ts] perform_rollup.simps[of X B cfg l h ts m]
  show ?case
  proof (cases "255 \<le> l")
    case False
    have r: "run_task (case s of None \<Rightarrow> Done (Inr ()) | Some h \<Rightarrow> rollup_task X B cfg i h ts) k =
        Some (case s of None \<Rightarrow> (Inr (), k) | Some h \<Rightarrow> perform_rollup X B cfg j h ts k)"
      if "level_at cfg (Suc l) = Some lc" "i = Suc l" "j = Suc l" for s k lc i j
      using 1(1)[OF False, of lc] that by (cases s) simp_all
    show ?thesis
      by (simp add: unfold False run_then_do split: sum.split option.split)
        (auto intro!: run_try_do run_stale_task run_attach_task r)
  qed (simp add: unfold)
qed

lemma run_finalize_task:
  "run_task (finalize_task X B cfg p ts) m = Some (finalize_and_rollup_page X B cfg p ts m)"
proof (cases "is_content_empty p")
  case False
  let ?q = "recalculate X p"
  have "run_task (try_do (store_task B (page_level ?q) ?q) (\<lambda>_. rollup_task X B cfg (page_level ?q) (page_hash ?q) ts)) m =
      Some (try_then (try_then (store_in B ?q m) (\<lambda>_ m. (Inr (), track_finalized (page_level ?q) ?q m)))
        (\<lambda>_. perform_rollup X B cfg (page_level ?q) (page_hash ?q) ts))"
    by (intro run_try_do run_store_task run_rollup_task)
  with False show ?thesis
    by (simp add: finalize_task_def finalize_and_rollup_page_def Let_def try_then_def split: prod.split sum.split)
qed (simp add: finalize_task_def finalize_and_rollup_page_def run_then_do)

lemma run_fresh_task: "run_task (fresh_task X B cfg ws) m = Some (fresh_leaf_page X B cfg ws m)"
  by (auto simp: fresh_task_def fresh_leaf_page_def try_do_def run_then_do run_last_hash_task
      split: sum.split option.split)

lemma run_page_task:
  "run_task (page_task X B cfg leaf) m = Some (get_or_create_active_page_for_leaf X B cfg leaf m)"
proof -
  have f: "run_task (try_do (finalize_task X B cfg p ts) (\<lambda>_. fresh_task X B cfg ws)) k =
      Some (try_then (finalize_and_rollup_page X B cfg p ts k) (\<lambda>_ m. fresh_leaf_page X B cfg ws m))" for p ts ws k
    by (intro run_try_do run_finalize_task run_fresh_task)
  show ?thesis
    by (auto simp: page_task_def get_or_create_active_page_for_leaf_def place_leaf_def try_do_def[of "access _"]
        run_then_do run_fresh_task f split: sum.split option.split prod.split)
qed

lemma run_close_task: "run_task (close_task X B cfg p ts) m = Some (close_page X B cfg p ts m)"
proof -
  let ?q = "recalculate X p" and ?k = "\<lambda>_. then_do (change (set_active (page_level (recalculate X p)) None))
      (\<lambda>_. rollup_task X B cfg (page_level (recalculate X p)) (page_hash (recalculate X p)) ts)"
  have "run_task (try_do (store_task B (page_level ?q) ?q) ?k) m =
      Some (try_then (try_then (store_in B ?q m) (\<lambda>_ m. (Inr (), track_finalized (page_level ?q) ?q m)))
        (\<lambda>_ m. perform_rollup X B cfg (page_level ?q) (page_hash ?q) ts (set_active (page_level ?q) None m)))"
    by (intro run_try_do run_store_task) (simp add: run_then_do run_rollup_task)
  then show ?thesis
    by (simp add: close_task_def close_page_def Let_def try_then_def split: prod.split sum.split)
qed

lemma run_insert_task:
  "run_task (insert_task X B cfg lc leaf t page) m = Some (insert_leaf X B cfg lc leaf t page m)"
  by (simp add: insert_task_def insert_leaf_def Let_def run_then_do run_close_task split: sum.split prod.split)

lemma run_add_leaf_task: "run_task (add_leaf_task X B cfg leaf t) m = Some (add_leaf X B cfg leaf t m)"
proof -
  have i: "run_task (try_do (insert_task X B cfg lc leaf t page) (\<lambda>_. Done (Inr i))) k =
      Some (try_then (insert_leaf X B cfg lc leaf t page k) (\<lambda>_ m. (Inr i, m)))" for lc page i k
    by (intro run_try_do run_insert_task) simp
  have c: "run_task (if b then try_do (close_task X B cfg page ts) (\<lambda>_. page_task X B cfg leaf) else Done (Inr page)) k =
      Some (if b then try_then (close_page X B cfg page ts k) (\<lambda>_ m. get_or_create_active_page_for_leaf X B cfg leaf m)
        else (Inr page, k))" for b page ts k
    by (auto simp: try_do_def run_then_do run_close_task run_page_task try_then_def split: prod.split sum.split)
  show ?thesis
    unfolding add_leaf_task_def add_leaf_def Let_def
    by (intro run_try_do run_page_task, split option.split, intro conjI allI impI)
      (simp, simp only: option.case, intro run_try_do c i)
qed


section \<open>One append under the lock\<close>

text \<open>What an append of the sequential model makes of the shared state.\<close>

definition put_result :: "'a \<times> journal \<times> nat \<Rightarrow> shared \<Rightarrow> 'a \<times> shared" where
  "put_result x M = (case x of (r, j, n) \<Rightarrow> (r, M\<lparr>sh_journal := j, sh_next_leaf_id := n\<rparr>))"

lemma run_on_manager:
  "run_task (on_manager t) M =
     map_option (\<lambda>(a, m). (a, M\<lparr>sh_journal := (sh_journal M)\<lparr>manager := m\<rparr>\<rparr>)) (run_task t (manager (sh_journal M)))"
  unfolding on_manager_def by (rule run_on_part) simp_all

lemma run_locked_append:
  "run_task (locked_append X C cfg ts ph cid data) M =
     Some (put_result (append_leaf X C cfg ts ph cid data (sh_journal M, sh_next_leaf_id M)) M)"
  by (simp add: locked_append_def append_leaf_def put_result_def try_do_def run_then_do new_leaf_def
      run_on_manager run_add_leaf_task set_last_hash_def split: sum.split prod.split)

lemma keeps_locked_append: "keeps sh_lock (locked_append X C cfg ts ph cid data)"
  unfolding locked_append_def on_manager_def
  by (intro keeps_try_do keeps_then_do keeps_access keeps_on_part keeps_change keeps.Done)
    (simp_all add: new_leaf_def set_last_hash_def split: prod.split)

lemma only_looks_get_page: "only_looks (get_page_task C l i)"
  unfolding get_page_task_def
  by (intro only_looks_then_do only_looks_look)
    (auto intro!: only_looks_then_do only_looks_look split: sum.split option.split)

lemma get_page_task_alone:
  "run_task (get_page_task C l i) M = Some (get_page C (sh_journal M) l i, M)"
  by (simp add: get_page_task_def get_page_def run_then_do split: sum.split option.split)

section \<open>Appends and reads in any schedule\<close>

datatype operation = AppendOp append_request | GetPageOp nat nat

datatype op_result = Appended "cj_error + page_content_hash" | Got "cj_error + journal_page"

definition op_task ::
  "externals \<Rightarrow> codecs \<Rightarrow> config \<Rightarrow> nat \<Rightarrow> operation \<Rightarrow> (shared, op_result) task" where
  "op_task X C cfg i op =
     (case op of
        AppendOp r \<Rightarrow>
          then_do (append_leaf_task X C cfg i (rq_timestamp r) (rq_parent r) (rq_container r) (rq_data r))
            (\<lambda>x. Done (Appended x))
      | GetPageOp l k \<Rightarrow> then_do (get_page_task C l k) (\<lambda>x. Done (Got x)))"

definition start :: "externals \<Rightarrow> codecs \<Rightarrow> config \<Rightarrow> operation list \<Rightarrow> (shared, op_result) task option list" where
  "start X C cfg ops = map (\<lambda>i. Some (op_task X C cfg i (ops ! i))) [0..<length ops]"

definition appends :: "operation list \<Rightarrow> nat set" where
  "appends ops = {i. i < length ops \<and> (\<exists>r. ops ! i = AppendOp r)}"

text \<open>The same appends one after the other, also after one that failed.\<close>

definition append_request ::
  "externals \<Rightarrow> codecs \<Rightarrow> config \<Rightarrow> append_request \<Rightarrow> journal \<times> nat \<Rightarrow>
    (cj_error + page_content_hash) \<times> journal \<times> nat" where
  "append_request X C cfg r st =
     append_leaf X C cfg (rq_timestamp r) (rq_parent r) (rq_container r) (rq_data r) st"

fun append_all ::
  "externals \<Rightarrow> codecs \<Rightarrow> config \<Rightarrow> append_request list \<Rightarrow> journal \<times> nat \<Rightarrow>
    (cj_error + page_content_hash) list \<times> journal \<times> nat" where
  "append_all X C cfg [] st = ([], st)"
| "append_all X C cfg (r # rs) st =
     (case append_request X C cfg r st of (x, st) \<Rightarrow>
        case append_all X C cfg rs st of (xs, st) \<Rightarrow> (x # xs, st))"

lemma append_all_snoc:
  "append_all X C cfg (rs @ [r]) st =
     (case append_all X C cfg rs st of (xs, st) \<Rightarrow>
        case append_request X C cfg r st of (x, st) \<Rightarrow> (xs @ [x], st))"
  by (induction rs arbitrary: st) (auto split: prod.split)

lemma length_append_all: "length (fst (append_all X C cfg rs st)) = length rs"
proof (induction rs arbitrary: st)
  case (Cons r rs)
  show ?case
    using Cons.IH[of "snd (append_request X C cfg r st)"] by (auto split: prod.split)
qed simp

text \<open>The end of an append: the guard is dropped with the result.\<close>

definition release :: "nat \<Rightarrow> (shared, cj_error + page_content_hash) task \<Rightarrow> (shared, op_result) task" where
  "release i t = then_do t (\<lambda>r. then_do (change (unlock i)) (\<lambda>_. Done (Appended r)))"


lemma op_task_append:
  "op_task X C cfg i (AppendOp r) = then_do (lock_task i) (\<lambda>_. release i
     (locked_append X C cfg (rq_timestamp r) (rq_parent r) (rq_container r) (rq_data r)))"
  by (simp add: op_task_def append_leaf_task_def release_def then_do_assoc)

text \<open>The appends served so far, in the order in which they took the lock.\<close>

definition served ::
  "externals \<Rightarrow> codecs \<Rightarrow> config \<Rightarrow> operation list \<Rightarrow> shared \<Rightarrow> nat list \<Rightarrow> append_request list \<Rightarrow>
    (cj_error + page_content_hash) list \<Rightarrow> journal \<times> nat \<Rightarrow> bool" where
  "served X C cfg ops M0 order rs xs st \<longleftrightarrow>
     distinct order \<and> list_all2 (\<lambda>i r. i < length ops \<and> ops ! i = AppendOp r) order rs \<and>
     append_all X C cfg rs (sh_journal M0, sh_next_leaf_id M0) = (xs, st)"

text \<open>Who holds the lock will leave what the next append in order makes.\<close>

definition holder_ok ::
  "externals \<Rightarrow> codecs \<Rightarrow> config \<Rightarrow> operation list \<Rightarrow> nat list \<Rightarrow> journal \<times> nat \<Rightarrow>
    (shared, op_result) task option list \<Rightarrow> shared \<Rightarrow> nat \<Rightarrow> bool" where
  "holder_ok X C cfg ops order st ts M i \<longleftrightarrow>
     i \<notin> set order \<and> i < length ops \<and>
     (\<exists>r t M'. ops ! i = AppendOp r \<and> ts ! i = Some (release i t) \<and> keeps sh_lock t \<and>
        run_task t M = Some (fst (append_request X C cfg r st), M') \<and>
        (sh_journal M', sh_next_leaf_id M') = snd (append_request X C cfg r st))"

lemma holder_ok_cong:
  "holder_ok X C cfg ops order st ts M i \<Longrightarrow> ts' ! i = ts ! i \<Longrightarrow> holder_ok X C cfg ops order st ts' M i"
  by (simp add: holder_ok_def)

definition schedule_inv ::
  "externals \<Rightarrow> codecs \<Rightarrow> config \<Rightarrow> operation list \<Rightarrow> shared \<Rightarrow> nat list \<Rightarrow> append_request list \<Rightarrow>
    (cj_error + page_content_hash) list \<Rightarrow> journal \<times> nat \<Rightarrow>
    (shared, op_result) task option list \<Rightarrow> shared \<Rightarrow> bool" where
  "schedule_inv X C cfg ops M0 order rs xs st ts M \<longleftrightarrow>
     length ts = length ops \<and> served X C cfg ops M0 order rs xs st \<and>
     (\<forall>i<length ops. \<forall>l k. ops ! i = GetPageOp l k \<longrightarrow> (\<exists>t. ts ! i = Some t \<and> only_looks t)) \<and>
     (\<forall>k<length order. ts ! (order ! k) = Some (Done (Appended (xs ! k)))) \<and>
     (\<forall>i<length ops. \<forall>r. ops ! i = AppendOp r \<longrightarrow> i \<notin> set order \<longrightarrow> sh_lock M \<noteq> Some i \<longrightarrow>
        ts ! i = Some (op_task X C cfg i (AppendOp r))) \<and>
     (case sh_lock M of
        None \<Rightarrow> (sh_journal M, sh_next_leaf_id M) = st
      | Some i \<Rightarrow> holder_ok X C cfg ops order st ts M i)"

lemma schedule_invD:
  assumes "schedule_inv X C cfg ops M0 order rs xs st ts M"
  shows "length ts = length ops" and "served X C cfg ops M0 order rs xs st"
    and "i < length ops \<Longrightarrow> ops ! i = GetPageOp l k \<Longrightarrow> \<exists>t. ts ! i = Some t \<and> only_looks t"
    and "n < length order \<Longrightarrow> ts ! (order ! n) = Some (Done (Appended (xs ! n)))"
    and "i < length ops \<Longrightarrow> ops ! i = AppendOp r \<Longrightarrow> i \<notin> set order \<Longrightarrow> sh_lock M \<noteq> Some i \<Longrightarrow>
      ts ! i = Some (op_task X C cfg i (AppendOp r))"
    and "sh_lock M = None \<Longrightarrow> (sh_journal M, sh_next_leaf_id M) = st"
    and "sh_lock M = Some i \<Longrightarrow> holder_ok X C cfg ops order st ts M i"
  using assms by (simp_all add: schedule_inv_def)

lemma served_nil: "served X C cfg ops M0 [] [] [] (sh_journal M0, sh_next_leaf_id M0)"
  by (simp add: served_def)

lemma served_snoc:
  assumes "served X C cfg ops M0 order rs xs st" and "i \<notin> set order" and "i < length ops"
    and "ops ! i = AppendOp r"
  shows "served X C cfg ops M0 (order @ [i]) (rs @ [r]) (xs @ [fst (append_request X C cfg r st)])
    (snd (append_request X C cfg r st))"
  using assms by (simp add: served_def append_all_snoc list_all2_appendI case_prod_unfold)

lemma served_length:
  assumes "served X C cfg ops M0 order rs xs st"
  shows "length xs = length order"
proof -
  have "length xs = length rs"
    using assms length_append_all[of X C cfg rs "(sh_journal M0, sh_next_leaf_id M0)"] by (simp add: served_def)
  moreover have "length order = length rs"
    using assms list_all2_lengthD unfolding served_def by blast
  ultimately show ?thesis by simp
qed

lemma served_ops:
  assumes "served X C cfg ops M0 order rs xs st" and "i \<in> set order"
  shows "i < length ops \<and> (\<exists>r. ops ! i = AppendOp r)"
proof -
  obtain k where k: "k < length order" "order ! k = i" using assms(2) by (meson in_set_conv_nth)
  have "list_all2 (\<lambda>i r. i < length ops \<and> ops ! i = AppendOp r) order rs"
    using assms(1) by (simp add: served_def)
  from list_all2_nthD[OF this k(1)] k(2) show ?thesis by auto
qed

lemma op_task_reads: "only_looks (op_task X C cfg i (GetPageOp l k))"
  by (simp add: op_task_def) (intro only_looks_then_do only_looks_get_page only_looks.Done)

lemma schedule_inv_start:
  assumes "sh_lock M0 = None"
  shows "schedule_inv X C cfg ops M0 [] [] [] (sh_journal M0, sh_next_leaf_id M0) (start X C cfg ops) M0"
  using assms served_nil[of X C cfg ops M0] op_task_reads[of X C cfg]
  by (simp add: schedule_inv_def start_def)

lemma schedule_inv_read:
  assumes inv: "schedule_inv X C cfg ops M0 order rs xs st ts M" and i: "i < length ts"
    and op: "ops ! i = GetPageOp l k" and ti: "ts ! i = Some (Step f)" and f: "f M = Some (t', M')"
  shows "schedule_inv X C cfg ops M0 order rs xs st (ts[i := Some t']) M'"
proof -
  note I = schedule_invD[OF inv]
  have "only_looks (Step f)" using I(1) I(3)[of i] i op ti by simp
  with f have t': "only_looks t'" and M': "M' = M" by (metis only_looks_Step option.inject prod.inject)+
  have j: "ts[i := Some t'] ! j = ts ! j" if "ops ! j = AppendOp r" for j r
    using that op by (cases "j = i") auto
  have "ts[i := Some t'] ! (order ! n) = Some (Done (Appended (xs ! n)))" if "n < length order" for n
    using I(4)[OF that] served_ops[OF I(2), of "order ! n"] that by (auto simp: j)
  moreover have "\<exists>t. ts[i := Some t'] ! a = Some t \<and> only_looks t" if "a < length ops" "ops ! a = GetPageOp l k" for a l k
    using I(1) I(3)[OF that] t' that by (cases "a = i") auto
  moreover have "holder_ok X C cfg ops order st (ts[i := Some t']) M a" if "sh_lock M = Some a" for a
  proof -
    note h = I(7)[OF that]
    obtain r where "ops ! a = AppendOp r" using h by (auto simp: holder_ok_def)
    then show ?thesis using holder_ok_cong[OF h] j by simp
  qed
  ultimately show ?thesis
    using inv by (simp add: schedule_inv_def M' j split: option.splits)
qed

lemma release_Step: "release i (Step f) = Step (\<lambda>m. map_option (map_prod (release i) id) (f m))"
  by (simp add: release_def[abs_def])

lemma release_Done: "release i (Done r) = Step (\<lambda>M. Some (Done (Appended r), unlock i M))"
  by (simp add: release_def change_def access_def)

text \<open>A waiting append takes the lock.\<close>

lemma schedule_inv_lock:
  assumes inv: "schedule_inv X C cfg ops M0 order rs xs st ts M" and i: "i < length ts"
    and op: "ops ! i = AppendOp r" and n: "i \<notin> set order" "sh_lock M \<noteq> Some i"
    and ti: "ts ! i = Some (Step f)" and f: "f M = Some (t', M')"
  shows "schedule_inv X C cfg ops M0 order rs xs st (ts[i := Some t']) M'"
proof -
  note I = schedule_invD[OF inv]
  let ?t = "locked_append X C cfg (rq_timestamp r) (rq_parent r) (rq_container r) (rq_data r)"
  have "Step f = op_task X C cfg i (AppendOp r)" using I(1) I(5)[OF _ op n] i ti by simp
  then have L: "sh_lock M = None" "M' = M\<lparr>sh_lock := Some i\<rparr>" "t' = release i ?t"
    using f by (auto simp: op_task_append lock_task_def split: if_splits)
  have st: "st = (sh_journal M, sh_next_leaf_id M)" using I(6)[OF L(1)] by simp
  let ?x = "append_request X C cfg r st"
  have run: "run_task ?t M' = Some (put_result ?x M')"
    by (simp add: run_locked_append append_request_def st L(2))
  obtain a j k where x: "?x = (a, j, k)" by (cases ?x)
  have "holder_ok X C cfg ops order st (ts[i := Some t']) M' i"
    unfolding holder_ok_def
    using n(1) i I(1) op L(3) keeps_locked_append run x
    by (intro conjI exI[of _ r] exI[of _ ?t] exI[of _ "M'\<lparr>sh_journal := j, sh_next_leaf_id := k\<rparr>"])
      (simp_all add: put_result_def)
  moreover have "ts[i := Some t'] ! (order ! m) = Some (Done (Appended (xs ! m)))" if "m < length order" for m
    using I(4)[OF that] n(1) that by (metis nth_list_update_neq nth_mem)
  moreover have "\<exists>t. ts[i := Some t'] ! a = Some t \<and> only_looks t" if "a < length ops" "ops ! a = GetPageOp l k" for a l k
    using I(3)[OF that] op that by (cases "a = i") auto
  ultimately show ?thesis
    using inv by (simp add: schedule_inv_def L(1,2))
qed


text \<open>The holder makes one more access, or drops the guard and returns.\<close>

lemma schedule_inv_hold:
  assumes inv: "schedule_inv X C cfg ops M0 order rs xs st ts M" and i: "i < length ts"
    and hold: "sh_lock M = Some i" and ti: "ts ! i = Some (Step f)" and f: "f M = Some (t', M')"
  shows "\<exists>order rs xs st. schedule_inv X C cfg ops M0 order rs xs st (ts[i := Some t']) M'"
proof -
  note I = schedule_invD[OF inv]
  obtain r t M2 where H: "i \<notin> set order" "ops ! i = AppendOp r" "ts ! i = Some (release i t)" "keeps sh_lock t"
    "run_task t M = Some (fst (append_request X C cfg r st), M2)"
    "(sh_journal M2, sh_next_leaf_id M2) = snd (append_request X C cfg r st)"
    using I(7)[OF hold] by (auto simp: holder_ok_def)
  have il: "i < length ops" using i I(1) by simp
  have rel: "Step f = release i t" using H(3) ti by simp
  have other: "ts[i := Some t'] ! j = ts ! j" if "j \<noteq> i" for j using that by simp
  have reads: "\<exists>t. ts[i := Some t'] ! a = Some t \<and> only_looks t" if "a < length ops" "ops ! a = GetPageOp l k" for a l k
    using I(3)[OF that] H(2) that by (cases "a = i") auto
  have dones: "ts[i := Some t'] ! (order ! m) = Some (Done (Appended (xs ! m)))" if "m < length order" for m
    using I(4)[OF that] H(1) that by (metis nth_list_update_neq nth_mem)
  show ?thesis
  proof (cases t)
    case (Done x)
    let ?st = "snd (append_request X C cfg r st)"
    have f': "t' = Done (Appended x)" "M' = unlock i M" using rel f Done by (auto simp: release_Done)
    have x: "x = fst (append_request X C cfg r st)" "(sh_journal M, sh_next_leaf_id M) = ?st"
      using H(5,6) Done by auto
    have M': "sh_lock M' = None" "(sh_journal M', sh_next_leaf_id M') = ?st"
      using f'(2) hold x(2) by (simp_all add: unlock_def)
    have "ts[i := Some t'] ! ((order @ [i]) ! m) = Some (Done (Appended ((xs @ [x]) ! m)))"
      if "m < length (order @ [i])" for m
      using that dones i f'(1) served_length[OF I(2)] by (cases "m < length order") (auto simp: nth_append)
    then have "schedule_inv X C cfg ops M0 (order @ [i]) (rs @ [r]) (xs @ [x]) ?st (ts[i := Some t']) M'"
      using I(1) served_snoc[OF I(2) H(1) il H(2)] reads I(5) M' hold x(1) unfolding schedule_inv_def by simp
    then show ?thesis by blast
  next
    case (Step g)
    obtain t1 where g: "g M = Some (t1, M')" "t' = release i t1"
      using rel f Step by (auto simp: release_Step)
    have k: "keeps sh_lock t1" "sh_lock M' = Some i" using H(4) Step g(1) hold by auto
    have "run_task t1 M' = Some (fst (append_request X C cfg r st), M2)" using H(5) Step g(1) by simp
    then have "holder_ok X C cfg ops order st (ts[i := Some t']) M' i"
      using H(1,2,6) il i k(1) g(2) unfolding holder_ok_def
      by (intro conjI exI[of _ r] exI[of _ t1] exI[of _ M2]) simp_all
    then have "schedule_inv X C cfg ops M0 order rs xs st (ts[i := Some t']) M'"
      using I(1,2) reads dones I(5) hold k(2) unfolding schedule_inv_def by simp
    then show ?thesis by blast
  qed
qed

lemma schedule_inv_step:
  assumes "system_step (ts, M) (ts', M')" and "schedule_inv X C cfg ops M0 order rs xs st ts M"
  shows "\<exists>order rs xs st. schedule_inv X C cfg ops M0 order rs xs st ts' M'"
proof -
  from assms(1) obtain i f t' where i: "i < length ts" "ts ! i = Some (Step f)" "f M = Some (t', M')"
    "ts' = ts[i := Some t']"
    by auto
  note I = schedule_invD[OF assms(2)]
  show ?thesis
  proof (cases "ops ! i")
    case (GetPageOp l k)
    from schedule_inv_read[OF assms(2) i(1) this i(2,3)] show ?thesis using i(4) by blast
  next
    case (AppendOp r)
    show ?thesis
    proof (cases "sh_lock M = Some i")
      case True
      from schedule_inv_hold[OF assms(2) i(1) True i(2,3)] show ?thesis using i(4) by simp
    next
      case False
      have "i \<notin> set order"
      proof
        assume "i \<in> set order"
        then obtain n where "n < length order" "order ! n = i" by (meson in_set_conv_nth)
        with I(4) i(2) show False by auto
      qed
      from schedule_inv_lock[OF assms(2) i(1) AppendOp this False i(2,3)] show ?thesis using i(4) by blast
    qed
  qed
qed

lemma schedule_inv_reachable:
  assumes "system_step\<^sup>*\<^sup>* (start X C cfg ops, M0) x" and "sh_lock M0 = None"
  shows "\<exists>order rs xs st. schedule_inv X C cfg ops M0 order rs xs st (fst x) (snd x)"
  using assms(1)
proof (induction rule: rtranclp_induct)
  case base
  show ?case using schedule_inv_start[OF assms(2)] unfolding fst_conv snd_conv by blast
next
  case (step y z)
  then show ?case
    using schedule_inv_step[of "fst y" "snd y" "fst z" "snd z" X C cfg ops M0] by (simp, blast)
qed


lemma unfinished_steps:
  assumes inv: "schedule_inv X C cfg ops M0 order rs xs st ts M" and "\<not> finished (ts, M)"
  shows "\<exists>y. system_step (ts, M) y"
proof -
  note I = schedule_invD[OF inv]
  have go: "\<exists>y. system_step (ts, M) y" if c: "i < length ts" "ts ! i = Some (Step f)" "f M \<noteq> None" for i f
  proof -
    obtain t' M' where "f M = Some (t', M')" using c(3) by auto
    with c(1,2) show ?thesis by (blast intro: system_step.run)
  qed
  show ?thesis
  proof (cases "sh_lock M")
    case (Some i)
    obtain t where t: "i < length ts" "ts ! i = Some (release i t)" "run_task t M \<noteq> None"
      using I(7)[OF Some] I(1) by (auto simp: holder_ok_def)
    show ?thesis
    proof (cases t)
      case (Step g)
      then have "g M \<noteq> None" using t(3) by (cases "g M") simp_all
      then show ?thesis using t(2) Step by (intro go[OF t(1)]) (auto simp: release_Step)
    next
      case (Done r)
      with t(2) have "ts ! i = Some (Step (\<lambda>M. Some (Done (Appended r), unlock i M)))"
        by (simp add: release_Done)
      from go[OF t(1) this] show ?thesis by simp
    qed
  next
    case None
    obtain i u where i: "i < length ts" "ts ! i = u" "\<forall>r. u \<noteq> Some (Done r)" "u \<noteq> None"
      using assms(2) by (auto simp: finished_def in_set_conv_nth)
    then obtain f where f: "ts ! i = Some (Step f)" by (metis option.exhaust task.exhaust)
    show ?thesis
    proof (cases "ops ! i")
      case (GetPageOp l k)
      then have "only_looks (Step f)" using I(3)[of i] I(1) i(1) f by auto
      then show ?thesis by (intro go[OF i(1) f]) (metis only_looks_Step option.distinct(1))
    next
      case (AppendOp r)
      have "i \<notin> set order"
      proof
        assume "i \<in> set order"
        then obtain n where "n < length order" "order ! n = i" by (meson in_set_conv_nth)
        with I(4) f show False by auto
      qed
      then have "Step f = op_task X C cfg i (AppendOp r)" using I(1) I(5)[OF _ AppendOp] i(1) None f by simp
      then show ?thesis using None by (intro go[OF i(1) f]) (auto simp: op_task_append lock_task_def)
    qed
  qed
qed

lemma never_dropped:
  assumes "schedule_inv X C cfg ops M0 order rs xs st ts M" and "i < length ts"
  shows "ts ! i \<noteq> None"
proof (cases "ops ! i")
  case (GetPageOp l k)
  then show ?thesis using schedule_invD(1,3)[OF assms(1)] assms(2) by fastforce
next
  case (AppendOp r)
  note I = schedule_invD[OF assms(1)]
  consider n where "n < length order" "order ! n = i" | "i \<notin> set order" "sh_lock M = Some i"
    | "i \<notin> set order" "sh_lock M \<noteq> Some i"
    by (meson in_set_conv_nth)
  then show ?thesis
    by cases (use I AppendOp assms(2) in \<open>auto simp: holder_ok_def\<close>)
qed

lemma schedule_finished:
  assumes "schedule_inv X C cfg ops M0 order rs xs st ts M" and "finished (ts, M)"
  shows "sh_lock M = None" and "set order = appends ops" and "(sh_journal M, sh_next_leaf_id M) = st"
proof -
  note I = schedule_invD[OF assms(1)]
  have ends: "\<exists>r. ts ! i = Some (Done r)" if "i < length ts" for i
    using assms(2) never_dropped[OF assms(1) that] nth_mem[OF that] unfolding finished_def by fastforce
  have "release i t \<noteq> Done r" for i t r by (cases t) (simp_all add: release_Step release_Done)
  note rel = this
  show l: "sh_lock M = None"
  proof (cases "sh_lock M")
    case (Some i)
    then obtain t where "i < length ts" "ts ! i = Some (release i t)"
      using I(7)[of i] I(1) by (auto simp: holder_ok_def)
    with ends[of i] rel[of i t] show ?thesis by auto
  qed simp
  have "i \<in> set order" if "i < length ops" "ops ! i = AppendOp r" for i r
  proof (rule ccontr)
    assume "i \<notin> set order"
    then have "ts ! i = Some (op_task X C cfg i (AppendOp r))" using I(5)[OF that] l by simp
    with ends[of i] that(1) I(1) show False by (auto simp: op_task_append lock_task_def)
  qed
  then show "set order = appends ops" using served_ops[OF I(2)] by (auto simp: appends_def)
  show "(sh_journal M, sh_next_leaf_id M) = st" by (rule I(6)[OF l])
qed


lemma reachable_steps:
  assumes "system_step\<^sup>*\<^sup>* (start X C cfg ops, M0) x" and "sh_lock M0 = None" and "\<not> finished x"
  shows "\<exists>y. system_step x y"
  using schedule_inv_reachable[OF assms(1,2)] unfinished_steps[of X C cfg ops M0 _ _ _ _ "fst x" "snd x"]
    assms(3) by auto

lemma wf_system_step: "wf {(z, y). system_step y z}"
  by (rule wf_subset[OF wf_drop_step]) (auto intro: drop_step.step)

lemma reachable_ends:
  assumes "system_step\<^sup>*\<^sup>* (start X C cfg ops, M0) x" and "sh_lock M0 = None"
  shows "\<exists>y. system_step\<^sup>*\<^sup>* x y \<and> finished y"
  using wf_system_step assms(1)
proof (induction x rule: wf_induct_rule)
  case (less x)
  show ?case
  proof (cases "finished x")
    case False
    then obtain z where z: "system_step x z" using reachable_steps[OF less.prems assms(2)] by blast
    then obtain w where "system_step\<^sup>*\<^sup>* z w" "finished w"
      using less.IH[of z] less.prems by (auto intro: rtranclp.rtrancl_into_rtrancl)
    with z show ?thesis by (meson converse_rtranclp_into_rtranclp)
  qed blast
qed

section \<open>Properties\<close>

text \<open>
  C7: concurrent appends take effect one after the other. When any number of \<open>append_leaf\<close>
  and \<open>get_page\<close> calls run as tasks of one journal, interleaved at every lock scope and
  storage call, and all have ended, there is an order of the appends such that the journal and the leaf counter are those of the sequential
  model after the appends in that order, failed ones included, and each call returned what
  it returns there. The lock is free again.
\<close>

theorem concurrent_appends_serialise:
  assumes "system_step\<^sup>*\<^sup>* (start X C cfg ops, M0) (ts, M)" and "sh_lock M0 = None"
    and "finished (ts, M)"
  shows "\<exists>order rs. distinct order \<and> set order = appends ops \<and>
    list_all2 (\<lambda>i r. ops ! i = AppendOp r) order rs \<and>
    (case append_all X C cfg rs (sh_journal M0, sh_next_leaf_id M0) of
       (results, j, n) \<Rightarrow> sh_journal M = j \<and> sh_next_leaf_id M = n \<and>
         (\<forall>k<length order. ts ! (order ! k) = Some (Done (Appended (results ! k))))) \<and>
    sh_lock M = None"
proof -
  obtain order rs xs st where inv: "schedule_inv X C cfg ops M0 order rs xs st ts M"
    using schedule_inv_reachable[OF assms(1,2)] by auto
  note I = schedule_invD[OF inv] and F = schedule_finished[OF inv assms(3)]
  have S: "distinct order" "list_all2 (\<lambda>i r. i < length ops \<and> ops ! i = AppendOp r) order rs"
    "append_all X C cfg rs (sh_journal M0, sh_next_leaf_id M0) = (xs, sh_journal M, sh_next_leaf_id M)"
    using I(2) unfolding F(3)[symmetric] served_def by blast+
  have "list_all2 (\<lambda>i r. ops ! i = AppendOp r) order rs" using S(2) by (rule list_all2_mono) simp
  with S F(1,2) I(4) show ?thesis by (intro exI[of _ order] exI[of _ rs]) simp
qed

text \<open>The appends of an operation list, and the sequential model when none of them fails.\<close>

definition op_requests :: "operation list \<Rightarrow> append_request list" where
  "op_requests ops = List.map_filter (\<lambda>op. case op of AppendOp r \<Rightarrow> Some r | GetPageOp l k \<Rightarrow> None) ops"

lemma op_requests_set: "set (op_requests ops) = {r. AppendOp r \<in> set ops}"
  by (force simp: op_requests_def List.map_filter_def split: operation.splits)

lemma append_all_succeed:
  "append_leaves X C cfg rs st = (Inr hs, st') \<Longrightarrow> append_all X C cfg rs st = (map Inr hs, st')"
proof (induction rs arbitrary: st hs)
  case (Cons r rs)
  obtain h st1 ks where "append_request X C cfg r st = (Inr h, st1)" "append_leaves X C cfg rs st1 = (Inr ks, st')"
    "hs = h # ks"
    using Cons.prems by (auto simp: append_request_def elim!: try_then_InrE)
  with Cons.IH show ?case by simp
qed simp

lemma order_requests:
  assumes "distinct order" and "set order = appends ops"
    and "list_all2 (\<lambda>i r. ops ! i = AppendOp r) order rs"
  shows "set rs \<subseteq> set (op_requests ops)" and "length rs \<le> length ops" and "length order = length rs"
proof -
  show l: "length order = length rs" by (rule list_all2_lengthD[OF assms(3)])
  have "r \<in> set (op_requests ops)" if r: "r \<in> set rs" for r
  proof -
    obtain k where k: "k < length order" "rs ! k = r" using r l by (metis in_set_conv_nth)
    then have "ops ! (order ! k) = AppendOp r" using list_all2_nthD[OF assms(3)] by auto
    moreover have "order ! k < length ops" using nth_mem[OF k(1)] assms(2) by (simp add: appends_def)
    ultimately show ?thesis unfolding op_requests_set by (metis mem_Collect_eq nth_mem)
  qed
  then show "set rs \<subseteq> set (op_requests ops)" by blast
  have "card (set order) \<le> card {..<length ops}"
    by (rule card_mono) (auto simp: assms(2) appends_def)
  then show "length rs \<le> length ops" using assms(1) l by (simp add: distinct_card)
qed


definition fresh_shared :: "journal \<Rightarrow> nat \<Rightarrow> shared" where
  "fresh_shared j n = \<lparr>sh_journal = j, sh_next_leaf_id = n, sh_lock = None\<rparr>"

text \<open>
  C6: concurrent appends still form one hash chain. A fresh journal in memory that takes
  \<open>append_leaf\<close> calls, whose payloads serialise, and \<open>get_page\<close> calls as concurrent tasks, in
  any schedule, refuses none of the appends: when all calls have ended, its log holds exactly one leaf per append, in an
  order of the appends, each leaf linked to the hash of the one before it unless its call
  named a parent, and every call returned the hash of its own leaf.
\<close>

theorem concurrent_appends_chain:
  assumes "config_ok cfg" and "storage_type (storage_cfg cfg) = MemoryType"
    and "requests_valid (op_requests ops)" and "payloads_ok X (op_requests ops)"
    and "(4 * length ops + 6) * 2 ^ length (levels cfg) \<le> 2 ^ 64"
    and "journal_new cfg disk = Inr j"
    and "system_step\<^sup>*\<^sup>* (start X C cfg ops, fresh_shared j n) (ts, M)" and "finished (ts, M)"
  defines "ls \<equiv> journal_log C (sh_journal M)"
  shows "\<exists>order rs. distinct order \<and> set order = appends ops \<and>
    list_all2 (\<lambda>i r. ops ! i = AppendOp r) order rs \<and> issued_chain X n None rs ls \<and>
    (\<forall>k<length order. ts ! (order ! k) = Some (Done (Appended (Inr (LeafHash (leaf_hash (ls ! k)))))))"
proof -
  have free: "sh_lock (fresh_shared j n) = None" by (simp add: fresh_shared_def)
  obtain order rs xs st where inv: "schedule_inv X C cfg ops (fresh_shared j n) order rs xs st ts M"
    using schedule_inv_reachable[OF assms(7) free] by auto
  note I = schedule_invD[OF inv] and F = schedule_finished[OF inv assms(8)]
  have O: "distinct order" "list_all2 (\<lambda>i r. ops ! i = AppendOp r) order rs"
    using I(2) by (auto simp: served_def elim: list_all2_mono)
  note R = order_requests[OF O(1) F(2) O(2)]
  have v: "requests_valid rs" "payloads_ok X rs"
    using assms(3,4) R(1) unfolding requests_valid_def payloads_ok_def by blast+
  have "(4 * length rs + 6) * 2 ^ length (levels cfg) \<le> (4 * length ops + 6) * 2 ^ length (levels cfg)"
    using R(2) by (intro mult_right_mono) simp_all
  then have b: "(4 * length rs + 6) * 2 ^ length (levels cfg) \<le> 2 ^ 64" using assms(5) by linarith
  obtain hs j' n' where run: "append_leaves X C cfg rs (j, n) = (Inr hs, j', n')"
    using memory_appends_succeed[OF assms(1,2) v b] assms(6) by (metis Inr_inject)
  have "fresh_disk C cfg disk" using assms(2) by (simp add: fresh_disk_def)
  from journal_run[OF assms(1) v(1) b assms(6) this run] obtain ls' where
    L: "issued_chain X n None rs ls'" "hs = map (LeafHash \<circ> leaf_hash) ls'" "journal_log C j' = ls'"
    by metis
  have "(xs, sh_journal M, sh_next_leaf_id M) = (map Inr hs, j', n')"
    using I(2) append_all_succeed[OF run] F(3) by (simp add: served_def fresh_shared_def)
  then have e: "xs = map Inr hs" "ls = ls'" using L(3) by (simp_all add: ls_def)
  have "length ls' = length order" using issued_chain_valid[OF L(1) v(1)] R(3) by simp
  then have "xs ! k = Inr (LeafHash (leaf_hash (ls ! k)))" if "k < length order" for k
    using that e L(2) by simp
  with O F(2) L(1) e(2) I(4) show ?thesis by (intro exI[of _ order] exI[of _ rs]) simp
qed

definition three_calls :: "operation list" where
  "three_calls = [AppendOp (request 86400000000007), GetPageOp 0 0, AppendOp (request 5)]"

lemma three_calls_facts:
  "requests_valid (op_requests three_calls)" "payloads_ok sample_hashing (op_requests three_calls)"
  "(4 * length three_calls + 6) * 2 ^ length (levels memory_config) \<le> 2 ^ 64"
  "appends three_calls = {0, 2}"
proof -
  have r: "op_requests three_calls = [request 86400000000007, request 5]"
    by (simp add: op_requests_def three_calls_def List.map_filter_def)
  show "requests_valid (op_requests three_calls)" "payloads_ok sample_hashing (op_requests three_calls)"
    "(4 * length three_calls + 6) * 2 ^ length (levels memory_config) \<le> 2 ^ 64"
    unfolding r by (simp_all add: three_calls_def requests_valid_def request_def in_i64_def payloads_ok_def
        sample_hashing_def sample_externals_def default_levels_def)
  show "appends three_calls = {0, 2}"
    by (auto simp: appends_def three_calls_def nth_Cons' less_Suc_eq numeral_3_eq_3 split: if_splits)
qed

lemma three_calls_run:
  obtains j ts M where "journal_new memory_config sample_disk = Inr j"
    and "system_step\<^sup>*\<^sup>* (start sample_hashing sample_codecs memory_config three_calls, fresh_shared j 0) (ts, M)"
    and "finished (ts, M)"
proof -
  obtain j where j: "journal_new memory_config sample_disk = Inr j"
    by (simp add: journal_new_def create_storage_backend_def)
  have "sh_lock (fresh_shared j 0) = None" by (simp add: fresh_shared_def)
  from reachable_ends[OF rtranclp.rtrancl_refl this] j show ?thesis by (metis surj_pair that)
qed

theorem concurrent_appends_chain_witness:
  "\<exists>j ts M l1 l2. journal_new memory_config sample_disk = Inr j \<and>
     system_step\<^sup>*\<^sup>* (start sample_hashing sample_codecs memory_config three_calls, fresh_shared j 0) (ts, M) \<and>
     journal_log sample_codecs (sh_journal M) = [l1, l2] \<and> leaf_prev_hash l2 = Some (leaf_hash l1)"
proof -
  obtain j ts M where r: "journal_new memory_config sample_disk = Inr j"
    "system_step\<^sup>*\<^sup>* (start sample_hashing sample_codecs memory_config three_calls, fresh_shared j 0) (ts, M)"
    "finished (ts, M)"
    by (rule three_calls_run)
  obtain order rs where o: "distinct order" "set order = {0, 2}"
    "list_all2 (\<lambda>i r. three_calls ! i = AppendOp r) order rs"
    "issued_chain sample_hashing 0 None rs (journal_log sample_codecs (sh_journal M))"
    using concurrent_appends_chain[OF memory_config_ok memory_config_simps(2) three_calls_facts(1-3) r]
      three_calls_facts(4) by auto
  have "length order = 2" using o(1,2) distinct_card[of order] by simp
  then obtain r1 r2 where rs: "rs = [r1, r2]"
    using list_all2_lengthD[OF o(3)] by (auto simp: length_Suc_conv numeral_2_eq_2)
  obtain i1 i2 where "order = [i1, i2]" "three_calls ! i2 = AppendOp r2"
    using o(3) rs by (auto simp: list_all2_Cons2)
  moreover from this have "i2 \<in> {0, 2}" using o(2) by auto
  ultimately have "\<exists>i\<in>{0, 2}. three_calls ! i = AppendOp r2" by blast
  then have p: "rq_parent r2 = None" by (auto simp: three_calls_def request_def)
  obtain l1 l2 where l: "journal_log sample_codecs (sh_journal M) = [l1, l2]"
    using o(4) rs by (cases "journal_log sample_codecs (sh_journal M)") (auto elim!: issued_chain.elims)
  then have "issued sample_hashing 1 (Some (leaf_hash l1)) r2 l2" using o(4) rs by simp
  then have "leaf_prev_hash l2 = Some (leaf_hash l1)" using p by (auto simp: issued_def predecessor_def)
  with r l show ?thesis by blast
qed

theorem concurrent_appends_serialise_witness:
  "\<exists>j ts M order. journal_new memory_config sample_disk = Inr j \<and>
     system_step\<^sup>*\<^sup>* (start sample_hashing sample_codecs memory_config three_calls, fresh_shared j 0) (ts, M) \<and>
     distinct order \<and> set order = {0, 2} \<and>
     (\<forall>k<length order. \<exists>x. ts ! (order ! k) = Some (Done (Appended x))) \<and> sh_lock M = None"
proof -
  obtain j ts M where r: "journal_new memory_config sample_disk = Inr j"
    "system_step\<^sup>*\<^sup>* (start sample_hashing sample_codecs memory_config three_calls, fresh_shared j 0) (ts, M)"
    "finished (ts, M)"
    by (rule three_calls_run)
  have "sh_lock (fresh_shared j 0) = None" by (simp add: fresh_shared_def)
  from concurrent_appends_serialise[OF r(2) this r(3)] obtain order where
    "distinct order" "set order = {0, 2}" "sh_lock M = None"
    "\<forall>k<length order. \<exists>x. ts ! (order ! k) = Some (Done (Appended x))"
    unfolding three_calls_facts(4) by (elim exE conjE) (auto split: prod.splits)
  with r(1,2) show ?thesis by blast
qed

lemma release_is_Step: "\<exists>f. release i t = Step f"
  by (cases t) (simp_all add: release_Step release_Done)

text \<open>The first accesses of an append: it takes the lock and makes its leaf.\<close>

lemma append_enters:
  assumes "sh_lock M = None" and "issued X (sh_next_leaf_id M) (last_leaf_hash (sh_journal M)) r leaf"
  shows "goes (op_task X C cfg i (AppendOp r)) M
    (release i (try_do (on_manager (add_leaf_task X (any_backend C) cfg leaf (rq_timestamp r)))
      (\<lambda>_. then_do (change (set_last_hash (leaf_hash leaf))) (\<lambda>_. Done (Inr (LeafHash (leaf_hash leaf)))))))
    (M\<lparr>sh_lock := Some i, sh_next_leaf_id := (sh_next_leaf_id M + 1) mod 2 ^ 64\<rparr>)"
proof -
  let ?M1 = "M\<lparr>sh_lock := Some i\<rparr>"
  have "run_task (lock_task i) M = Some ((), ?M1)" using assms(1) by (simp add: lock_task_def)
  note lock = goes_after[OF this]
  have "leaf_new X (rq_timestamp r) (previous_hash (rq_parent r) (last_leaf_hash (sh_journal M)))
      (rq_container r) (rq_data r) (sh_next_leaf_id M) = (Inr leaf, (sh_next_leaf_id M + 1) mod 2 ^ 64)"
    using assms(2) by (simp add: leaf_new_issued)
  then have "run_task (access (new_leaf X (rq_timestamp r) (rq_parent r) (rq_container r) (rq_data r))) ?M1 =
      Some (Inr leaf, ?M1\<lparr>sh_next_leaf_id := (sh_next_leaf_id M + 1) mod 2 ^ 64\<rparr>)"
    by (simp add: new_leaf_def)
  note leaf = goes_then_do[OF goes_after_try[OF this]]
  show ?thesis
    unfolding op_task_append by (rule goes_trans[OF lock]) (use leaf in \<open>simp add: locked_append_def release_def\<close>)
qed

text \<open>A leaf that does not fit the active page: the page is taken out of the map.\<close>

lemma add_leaf_detaches:
  assumes "place_leaf cfg leaf m = (Inr (Detached p ws), m0)"
  shows "\<exists>rest. goes (add_leaf_task X B cfg leaf ot) m
    (try_do (try_do (finalize_task X B cfg p (leaf_timestamp leaf)) (\<lambda>_. fresh_task X B cfg ws)) rest) m0"
proof -
  have "run_task (access (place_leaf cfg leaf)) m = Some (Inr (Detached p ws), m0)" using assms by simp
  note place = goes_after_try[OF this]
  have "goes (page_task X B cfg leaf) m
      (try_do (finalize_task X B cfg p (leaf_timestamp leaf)) (\<lambda>_. fresh_task X B cfg ws)) m0"
    unfolding page_task_def by (rule goes_trans[OF place]) (simp add: goes.stay)
  then show ?thesis unfolding add_leaf_task_def by (blast intro: goes_try_do)
qed

lemma goes_on_manager:
  assumes "goes t (manager (sh_journal M)) u m"
  shows "goes (on_manager t) M (on_manager u) (M\<lparr>sh_journal := (sh_journal M)\<lparr>manager := m\<rparr>\<rparr>)"
  unfolding on_manager_def by (rule goes_on_part[OF assms]) simp_all

text \<open>An append that goes on with \<open>add_leaf\<close> as far as a given access.\<close>

lemma append_goes:
  assumes "sh_lock M = None" and "issued X (sh_next_leaf_id M) (last_leaf_hash (sh_journal M)) r leaf"
    and "goes (add_leaf_task X (any_backend C) cfg leaf (rq_timestamp r)) (manager (sh_journal M)) t m"
  obtains k M' where "goes (op_task X C cfg i (AppendOp r)) M (release i (try_do (on_manager t) k)) M'"
    and "sh_lock M' = Some i" and "sh_journal M' = (sh_journal M)\<lparr>manager := m\<rparr>"
proof -
  let ?M = "M\<lparr>sh_lock := Some i, sh_next_leaf_id := (sh_next_leaf_id M + 1) mod 2 ^ 64\<rparr>"
  let ?k = "\<lambda>_. then_do (change (set_last_hash (leaf_hash leaf))) (\<lambda>_. Done (Inr (LeafHash (leaf_hash leaf))))"
  have "goes (on_manager (add_leaf_task X (any_backend C) cfg leaf (rq_timestamp r))) ?M
      (on_manager t) (?M\<lparr>sh_journal := (sh_journal ?M)\<lparr>manager := m\<rparr>\<rparr>)"
    by (rule goes_on_manager) (use assms(3) in simp)
  then have "goes (release i (try_do (on_manager (add_leaf_task X (any_backend C) cfg leaf (rq_timestamp r))) ?k)) ?M
      (release i (try_do (on_manager t) ?k)) (?M\<lparr>sh_journal := (sh_journal ?M)\<lparr>manager := m\<rparr>\<rparr>)"
    unfolding release_def by (intro goes_then_do goes_try_do)
  from that[OF goes_trans[OF append_enters[OF assms(1,2)] this]] show ?thesis by simp
qed

lemma place_outside:
  assumes "get_page_window cfg 0 (leaf_timestamp leaf) = Inr (ws, we)"
    and "active_pages m 0 = Some p" and "\<not> in_window p (leaf_timestamp leaf)"
  shows "place_leaf cfg leaf m = (Inr (Detached p ws), set_active 0 None m)"
  using assms by (auto simp: place_leaf_def in_window_def)

text \<open>A reader that finds the page in neither place.\<close>

lemma reader_misses:
  assumes "load_page (any_backend C) (storage (manager (sh_journal M))) l i = Inr None"
    and "get_active_page_by_id (manager (sh_journal M)) l i = None"
    and "k < length ts" and "ts ! k = Some (op_task X C cfg k (GetPageOp l i))"
  shows "system_step\<^sup>*\<^sup>* (ts, M) (ts[k := Some (Done (Got (Inl (PageNotFound l i))))], M)"
proof -
  have "run_task (op_task X C cfg k (GetPageOp l i)) M = Some (Got (Inl (PageNotFound l i)), M)"
    using assms(1,2) by (simp add: op_task_def run_then_do get_page_task_alone get_page_def load_page_from_storage_def)
  from goes_in_system[OF goes_run[OF this] assms(3,4)] show ?thesis .
qed

text \<open>
  C9: a page that is being finalised can be read nowhere, and dropping the append loses it.
  In a journal that has served any appends, let an append arrive whose time lies outside the
  window of the active L0 page. There is a schedule in which, right after the append has
  taken the page out of the map of active pages, a concurrent \<open>get_page\<close> for that page
  reports \<open>PageNotFound\<close>, although every leaf on it was acknowledged; and if the append's future is dropped at this point, by a timeout or a
  cancelled task, the lock is free again and all leaves of the page are gone from the log.
\<close>

theorem dropped_append_loses_page:
  assumes "config_ok cfg" and "requests_valid (r # rs)" and "payloads_ok X [r]"
    and "(4 * length rs + 6) * 2 ^ length (levels cfg) \<le> 2 ^ 64"
    and "journal_new cfg disk = Inr j" and "fresh_disk C cfg disk"
    and "append_leaves X C cfg rs (j, n) = (Inr hs, j', n')"
    and "get_active_page (manager j') 0 = Some p" and "\<not> in_window p (rq_timestamp r)"
  defines "ops \<equiv> [AppendOp r, GetPageOp 0 (page_id p)]"
  shows "get_page C j' 0 (page_id p) = Inr p \<and> leaves_of p \<noteq> [] \<and>
    (\<exists>ts M M'. system_step\<^sup>*\<^sup>* (start X C cfg ops, fresh_shared j' n') (ts, M) \<and>
       ts ! 1 = Some (Done (Got (Inl (PageNotFound 0 (page_id p))))) \<and>
       drop_step unlock (ts, M) ([None, ts ! 1], M') \<and> sh_lock M' = None \<and>
       get_page C (sh_journal M') 0 (page_id p) = Inl (PageNotFound 0 (page_id p)) \<and>
       journal_log C j' = journal_log C (sh_journal M') @ leaves_of p)"
proof -
  have v: "requests_valid rs" using assms(2) by (simp add: requests_valid_def)
  obtain ls ps where L: "any.log_ok C X cfg (manager j') ps" and log: "journal_log C j' = ls"
    and ls: "pages_log ps @ active_leaves (manager j') = ls"
    by (rule journal_run[OF assms(1) v assms(4-7)])
  have act: "active_pages (manager j') 0 = Some p" using assms(8) by (simp add: get_active_page_def)
  note I = log_invD[OF L]
  have ne: "leaves_of p \<noteq> []" using I(3) act by (simp add: l0_inv_def leaf_page_ok_def)
  have load: "load_page (any_backend C) (storage (manager j')) 0 (page_id p) = Inr None"
    by (rule any.active_not_stored[OF L act])
  have get: "get_page C j' 0 (page_id p) = Inr p"
    using load act by (simp add: get_page_def load_page_from_storage_def get_active_page_by_id_def)
  obtain leaf where leaf: "issued X n' (last_leaf_hash j') r leaf"
    using assms(3) by (auto simp: payloads_ok_def issued_def)
  obtain ws where w: "get_page_window cfg 0 (rq_timestamp r) = Inr (ws, page_end_time cfg 0 ws)"
    using any.level0_window[OF assms(1)] assms(2) by (metis requests_valid_def list.set_intros(1))
  let ?ts = "start X C cfg ops" and ?M = "fresh_shared j' n'"
  have ts: "length ?ts = 2" "?ts \<noteq> []" "?ts ! 0 = Some (op_task X C cfg 0 (AppendOp r))"
    "?ts ! 1 = Some (op_task X C cfg 1 (GetPageOp 0 (page_id p)))"
    by (simp_all add: start_def ops_def)
  have "leaf_timestamp leaf = rq_timestamp r" by (rule issued_timestamp[OF leaf])
  then obtain rest where add: "goes (add_leaf_task X (any_backend C) cfg leaf (rq_timestamp r)) (manager j')
      rest (set_active 0 None (manager j'))"
    using add_leaf_detaches[OF place_outside[of cfg leaf ws _ "manager j'" p]] w act assms(9) by metis
  obtain t M where goes: "goes (op_task X C cfg 0 (AppendOp r)) ?M (release 0 t) M" and M: "sh_lock M = Some 0"
    "manager (sh_journal M) = set_active 0 None (manager j')"
    by (rule append_goes[of ?M X r leaf C cfg rest "set_active 0 None (manager j')" 0])
      (use leaf add in \<open>auto simp: fresh_shared_def\<close>)
  have s1: "system_step\<^sup>*\<^sup>* (?ts, ?M) (?ts[0 := Some (release 0 t)], M)"
    by (rule goes_in_system[OF goes _ ts(3)]) (simp add: ts(1))
  have miss: "load_page (any_backend C) (storage (manager (sh_journal M))) 0 (page_id p) = Inr None"
    "get_active_page_by_id (manager (sh_journal M)) 0 (page_id p) = None"
    using load by (simp_all add: M(2) get_active_page_by_id_def)
  let ?ts2 = "[Some (release 0 t), Some (Done (Got (Inl (PageNotFound 0 (page_id p)))))]"
  have "?ts[0 := Some (release 0 t), 1 := Some (Done (Got (Inl (PageNotFound 0 (page_id p)))))] = ?ts2"
    using ts(1) by (simp add: start_def ops_def)
  with reader_misses[OF miss, of 1 "?ts[0 := Some (release 0 t)]" X cfg] ts
  have "system_step\<^sup>*\<^sup>* (?ts[0 := Some (release 0 t)], M) (?ts2, M)" by simp
  with s1 have s2: "system_step\<^sup>*\<^sup>* (?ts, ?M) (?ts2, M)" by (rule rtranclp_trans)
  have d: "drop_step unlock (?ts2, M) ([None, ?ts2 ! 1], unlock 0 M)"
    using release_is_Step[of 0 t] drop_step.drop[of 0 ?ts2 _ unlock M] by auto
  have M': "sh_lock (unlock 0 M) = None" "manager (sh_journal (unlock 0 M)) = set_active 0 None (manager j')"
    using M by (simp_all add: unlock_def)
  then have "get_page C (sh_journal (unlock 0 M)) 0 (page_id p) = Inl (PageNotFound 0 (page_id p))"
    using miss by (simp add: get_page_def load_page_from_storage_def M(2))
  moreover have "journal_log C j' = journal_log C (sh_journal (unlock 0 M)) @ leaves_of p"
    using act by (simp add: journal_log_def l0_log_def M'(2) active_leaves_def split: sum.split)
  ultimately show ?thesis using get ne s2 d M'(1) by (intro conjI exI[of _ ?ts2] exI[of _ M] exI[of _ "unlock 0 M"]) simp_all
qed

text \<open>A fresh journal in memory after one append.\<close>

lemma first_request:
  assumes "window_level cfg" and "storage_type (storage_cfg cfg) = MemoryType"
    and "requests_valid [r]" and "payloads_ok X [r]" and "10 * 2 ^ length (levels cfg) \<le> (2 ^ 64 :: nat)"
  obtains j hs j' n' q ws where "journal_new cfg disk = Inr j"
    and "append_leaves X C cfg [r] (j, n) = (Inr hs, j', n')"
    and "manager j' = set_active 0 (Some q) ((manager_new (MemoryState mem_new))\<lparr>page_id_gen := 1\<rparr>)"
    and "get_page_window cfg 0 (rq_timestamp r) = Inr (ws, end_time q)"
    and "in_window q = (\<lambda>u. ws \<le> u \<and> u < end_time q)" and "length (journal_log C j') = 1"
proof -
  note W = window_levelD(1)[OF assms(1)]
  have b: "(4 * length [r] + 6) * 2 ^ length (levels cfg) \<le> 2 ^ 64" using assms(5) by simp
  obtain j hs j' n' where j: "journal_new cfg disk = Inr j"
    and run: "append_leaves X C cfg [r] (j, n) = (Inr hs, j', n')"
    using memory_appends_succeed[OF W assms(2-4) b] by blast
  have j_eq: "j = \<lparr>manager = manager_new (MemoryState mem_new), last_leaf_hash = None\<rparr>"
    using j assms(2) by (simp add: journal_new_def create_storage_backend_def)
  obtain ls "is" where ls: "issued_chain X n (last_leaf_hash j) [r] ls"
    "add_leaves X (any_backend C) cfg (map at_its_time ls) (manager j) = (Inr is, manager j')"
    using append_leaves_manager[OF run] by blast
  then obtain l where l: "ls = [l]" "leaf_timestamp l = rq_timestamp r"
    using issued_timestamp by (cases ls; cases "tl ls") auto
  then have t: "0 \<le> leaf_timestamp l" "in_i64 (leaf_timestamp l)" using assms(3) by (simp_all add: requests_valid_def)
  have g: "any_good C (MemoryState mem_new)" by (simp add: mem_good_new)
  obtain q ws we where q: "add_leaf X (any_backend C) cfg l (leaf_timestamp l) (manager j) =
      (Inr 0, set_active 0 (Some q) ((manager_new (MemoryState mem_new))\<lparr>page_id_gen := 1\<rparr>))"
    and new: "page_add_leaf (new_with_id X cfg 0 0 None ws) l = Inr q"
    and w: "get_page_window cfg 0 (leaf_timestamp l) = Inr (ws, we)" and iw: "in_window q = (\<lambda>u. ws \<le> u \<and> u < we)"
    unfolding j_eq journal.select_convs
    by (rule any.reopened_first_leaf[OF g assms(1) t, where X = X and t = "leaf_timestamp l"])
  have m': "manager j' = set_active 0 (Some q) ((manager_new (MemoryState mem_new))\<lparr>page_id_gen := 1\<rparr>)"
    using ls(2) q by (simp add: l(1))
  obtain ws' where "get_page_window cfg 0 (leaf_timestamp l) = Inr (ws', page_end_time cfg 0 ws')"
    by (rule any.level0_window[OF W t])
  with w new have we: "we = end_time q" by (auto simp: page_add_leaf_def split: page_content.splits)
  have "fresh_disk C cfg disk" using assms(2) by (simp add: fresh_disk_def)
  from journal_run[OF W assms(3) b j this run] obtain ls' where "issued_chain X n None [r] ls'" "journal_log C j' = ls'"
    by metis
  with issued_chain_valid[OF this(1) assms(3)] have "length (journal_log C j') = 1" by simp
  with that j run m' w iw show ?thesis unfolding we l(2) by blast
qed

definition memory_day :: config where
  "memory_day = memory_config\<lparr>levels := [hd default_levels]\<rparr>"

lemma memory_day_facts:
  "window_level memory_day" "storage_type (storage_cfg memory_day) = MemoryType"
  "get_page_window memory_day 0 5 = Inr (0, 86400000000000)"
  using day_only_facts(1) day_only_window(1)
  by (simp_all add: window_level_def config_ok_def get_page_window_def level_at_def leaf_limit_def leaf_max_age_def
      day_only_def memory_day_def default_config_def)

theorem dropped_append_loses_page_witness:
  "\<exists>j hs j' n' p ts M M'. journal_new memory_day sample_disk = Inr j \<and>
     append_leaves sample_hashing sample_codecs memory_day [request 5] (j, 0) = (Inr hs, j', n') \<and>
     journal_log sample_codecs j' = leaves_of p \<and> leaves_of p \<noteq> [] \<and>
     ts ! 1 = Some (Done (Got (Inl (PageNotFound 0 (page_id p))))) \<and>
     drop_step unlock (ts, M) ([None, ts ! 1], M') \<and> journal_log sample_codecs (sh_journal M') = []"
proof -
  have v: "requests_valid [request 86400000000007, request 5]" "payloads_ok sample_hashing [request 86400000000007]"
    "requests_valid [request 5]" "payloads_ok sample_hashing [request 5]"
    using two_requests_facts(1,2) by (simp_all add: two_requests_def requests_valid_def payloads_ok_def request_def)
  have b: "10 * 2 ^ length (levels memory_day) \<le> (2 ^ 64 :: nat)"
    "(4 * length [request 5] + 6) * 2 ^ length (levels memory_day) \<le> 2 ^ 64"
    by (simp_all add: memory_day_def)
  note W = window_levelD(1)[OF memory_day_facts(1)]
  have fd: "fresh_disk sample_codecs memory_day sample_disk" using memory_day_facts(2) by (simp add: fresh_disk_def)
  obtain j hs j' n' q ws where j: "journal_new memory_day sample_disk = Inr j"
    and run: "append_leaves sample_hashing sample_codecs memory_day [request 5] (j, 0) = (Inr hs, j', n')"
    and m': "manager j' = set_active 0 (Some q) ((manager_new (MemoryState mem_new))\<lparr>page_id_gen := 1\<rparr>)"
    and w: "get_page_window memory_day 0 (rq_timestamp (request 5)) = Inr (ws, end_time q)"
      "in_window q = (\<lambda>u. ws \<le> u \<and> u < end_time q)" and one: "length (journal_log sample_codecs j') = 1"
    by (rule first_request[OF memory_day_facts(1,2) v(3,4) b(1)])
  have act: "get_active_page (manager j') 0 = Some q" by (simp add: m' get_active_page_def)
  have "\<not> in_window q (rq_timestamp (request 86400000000007))"
    using w memory_day_facts(3) by (simp add: request_def)
  note lost = dropped_append_loses_page[OF W v(1,2) b(2) j fd run act this]
  then obtain ts M M' where r: "ts ! 1 = Some (Done (Got (Inl (PageNotFound 0 (page_id q)))))"
    and d: "drop_step unlock (ts, M) ([None, ts ! 1], M')"
    and log: "journal_log sample_codecs j' = journal_log sample_codecs (sh_journal M') @ leaves_of q"
    by blast
  with lost one have e: "journal_log sample_codecs (sh_journal M') = []" by (cases "leaves_of q") auto
  with log lost j run d r show ?thesis by (intro exI[of _ j] exI[of _ hs] exI[of _ j'] exI[of _ n'] exI[of _ q] exI[of _ ts] exI[of _ M] exI[of _ M']) simp
qed

end
