(* ===== verification/Async_Retention.thy ===== *)
theory Async_Retention
  imports Async_Properties
begin

text \<open>
  \<open>apply_retention_policies\<close> of \<open>src/core/time_manager.rs\<close> as a task: every call of the
  storage backend is one access. It takes no lock, so it can run between any two accesses of
  an append. Alone it computes what \<open>Retention\<close> computes; beside an append it can delete the
  page that the append has stored and is about to roll up.
\<close>

section \<open>Retention as a task\<close>

text \<open>An error of a deletion is logged and the loop goes on.\<close>

primrec delete_task ::
  "'s storage_backend \<Rightarrow> nat \<Rightarrow> page_summary list \<Rightarrow> ('s manager, unit) task" where
  "delete_task B l [] = Done ()"
| "delete_task B l (x # xs) =
     then_do (change (\<lambda>m. m\<lparr>storage := snd (delete_page B (storage m) l (sum_page_id x))\<rparr>))
       (\<lambda>_. delete_task B l xs)"

text \<open>A level that cannot be listed is skipped.\<close>

definition listed_task ::
  "'s storage_backend \<Rightarrow> nat \<Rightarrow> (page_summary list \<Rightarrow> page_summary list) \<Rightarrow>
    ('s manager, unit) task" where
  "listed_task B l select =
     then_do (look (\<lambda>m. list_finalized_pages_summary B (storage m) l)) (\<lambda>r.
       case r of Inl e \<Rightarrow> Done () | Inr sums \<Rightarrow> delete_task B l (select sums))"

definition policy_task ::
  "(page_summary list \<Rightarrow> page_summary list) \<Rightarrow> 's storage_backend \<Rightarrow> timestamp \<Rightarrow> nat \<Rightarrow>
    rollup_retention_policy \<Rightarrow> ('s manager, unit) task" where
  "policy_task U B now l policy =
     (case policy of
        DeleteAfterSecs secs \<Rightarrow>
          if secs = 0 then Done ()
          else listed_task B l (filter (\<lambda>x. too_old now secs (sum_end_time x)))
      | KeepNPages n \<Rightarrow>
          if n = 0 then listed_task B l id
          else listed_task B l (\<lambda>sums.
            if length sums \<le> n then [] else take (length sums - n) (U sums))
      | KeepIndefinitely \<Rightarrow> Done ())"

primrec levels_task ::
  "(page_summary list \<Rightarrow> page_summary list) \<Rightarrow> 's storage_backend \<Rightarrow> config \<Rightarrow> timestamp \<Rightarrow>
    (nat \<times> time_level) list \<Rightarrow> ('s manager, cj_error + unit) task" where
  "levels_task U B cfg now [] = Done (Inr ())"
| "levels_task U B cfg now (x # xs) =
     then_do (policy_task U B now (fst x mod 256) (effective_policy cfg (snd x)))
       (\<lambda>_. levels_task U B cfg now xs)"

definition retention_task ::
  "(page_summary list \<Rightarrow> page_summary list) \<Rightarrow> codecs \<Rightarrow> config \<Rightarrow> timestamp \<Rightarrow>
    (shared, cj_error + unit) task" where
  "retention_task U C cfg now =
     on_manager (levels_task U (any_backend C) cfg now (List.enumerate 0 (levels cfg)))"

section \<open>Retention alone\<close>

lemma run_delete_task: "run_task (delete_task B l xs) m = Some ((), m\<lparr>storage := delete_pages B l xs (storage m)\<rparr>)"
  by (induction xs arbitrary: m) (simp_all add: delete_pages_def run_then_do)

lemma run_policy_task:
  "run_task (policy_task U B now l policy) m =
     Some ((), m\<lparr>storage := apply_level_policy U B now l policy (storage m)\<rparr>)"
  by (simp add: policy_task_def listed_task_def apply_level_policy_def run_then_do run_delete_task delete_pages_def
      split: rollup_retention_policy.split sum.split)

lemma run_levels_task:
  "run_task (levels_task U B cfg now xs) m =
     Some (Inr (), m\<lparr>storage :=
       fold (\<lambda>(l, lc). apply_level_policy U B now (l mod 256) (effective_policy cfg lc)) xs (storage m)\<rparr>)"
  by (induction xs arbitrary: m) (auto simp: run_then_do run_policy_task)

lemma run_retention_task:
  "run_task (retention_task U C cfg now) M =
     (case journal_apply_retention U C cfg now (sh_journal M) of
        (r, j) \<Rightarrow> Some (r, M\<lparr>sh_journal := j\<rparr>))"
  by (simp add: retention_task_def run_on_manager run_levels_task journal_apply_retention_def
      apply_retention_policies_def)

section \<open>Retention between the store and the rollup of a page\<close>

text \<open>
  An \<open>add_leaf\<close> that finds the active page full or left behind stores it and looks it up
  again by its hash. If it is gone by then, the leaf is refused.
\<close>

lemma add_leaf_stores:
  assumes "place_leaf cfg leaf m = (Inr (Detached p ws), m0)" and "\<not> is_content_empty p"
    and "store_in B (recalculate X p) m0 = (Inr (), m1)" and "page_level p < 255"
  obtains t where "goes (add_leaf_task X B cfg leaf ot) m t (track_finalized (page_level p) (recalculate X p) m1)"
    and "\<And>m2. load_page_by_hash B (storage m2) (page_hash (recalculate X p)) = Inr None \<Longrightarrow>
           run_task t m2 = Some (Inl StorageError, m2)"
proof -
  let ?q = "recalculate X p"
  let ?rollup = "rollup_task X B cfg (page_level p) (page_hash ?q) (leaf_timestamp leaf)"
  obtain rest where "goes (add_leaf_task X B cfg leaf ot) m
    (try_do (try_do (finalize_task X B cfg p (leaf_timestamp leaf)) (\<lambda>_. fresh_task X B cfg ws)) rest) m0"
    using add_leaf_detaches[OF assms(1)] by blast
  moreover have "run_task (store_task B (page_level p) ?q) m0 = Some (Inr (), track_finalized (page_level p) ?q m1)"
    by (simp add: run_store_task assms(3))
  from goes_after_try[OF this] have "goes (finalize_task X B cfg p (leaf_timestamp leaf)) m0 ?rollup
      (track_finalized (page_level p) ?q m1)"
    using assms(2) by (simp add: finalize_task_def Let_def)
  then have "goes (try_do (try_do (finalize_task X B cfg p (leaf_timestamp leaf)) (\<lambda>_. fresh_task X B cfg ws)) rest) m0
      (try_do (try_do ?rollup (\<lambda>_. fresh_task X B cfg ws)) rest) (track_finalized (page_level p) ?q m1)"
    by (intro goes_try_do)
  ultimately have "goes (add_leaf_task X B cfg leaf ot) m
      (try_do (try_do ?rollup (\<lambda>_. fresh_task X B cfg ws)) rest) (track_finalized (page_level p) ?q m1)"
    by (rule goes_trans)
  moreover have "run_task (try_do (try_do ?rollup (\<lambda>_. fresh_task X B cfg ws)) rest) m2 = Some (Inl StorageError, m2)"
    if "load_page_by_hash B (storage m2) (page_hash ?q) = Inr None" for m2
    using assms(4) that by (simp add: rollup_task.simps try_do_def run_then_do)
  ultimately show ?thesis by (rule that)
qed

lemma append_stores:
  assumes "sh_lock M = None" and "issued X (sh_next_leaf_id M) (last_leaf_hash (sh_journal M)) r leaf"
    and "place_leaf cfg leaf (manager (sh_journal M)) = (Inr (Detached p ws), m0)" and "\<not> is_content_empty p"
    and "store_in (any_backend C) (recalculate X p) m0 = (Inr (), m1)" and "page_level p < 255"
  obtains t M' where "goes (op_task X C cfg i (AppendOp r)) M t M'" and "sh_lock M' = Some i"
    and "manager (sh_journal M') = track_finalized (page_level p) (recalculate X p) m1"
    and "\<And>M2. load_page_by_hash (any_backend C) (storage (manager (sh_journal M2)))
             (page_hash (recalculate X p)) = Inr None \<Longrightarrow>
           run_task t M2 = Some (Appended (Inl StorageError), unlock i M2)"
proof -
  obtain t where t: "goes (add_leaf_task X (any_backend C) cfg leaf (rq_timestamp r)) (manager (sh_journal M)) t
      (track_finalized (page_level p) (recalculate X p) m1)"
    and f: "\<And>m2. load_page_by_hash (any_backend C) (storage m2) (page_hash (recalculate X p)) = Inr None \<Longrightarrow>
           run_task t m2 = Some (Inl StorageError, m2)"
    using add_leaf_stores[OF assms(3-6), where ot = "rq_timestamp r"] by blast
  obtain k M' where "goes (op_task X C cfg i (AppendOp r)) M (release i (try_do (on_manager t) k)) M'"
    "sh_lock M' = Some i" "sh_journal M' = (sh_journal M)\<lparr>manager := track_finalized (page_level p) (recalculate X p) m1\<rparr>"
    by (rule append_goes[OF assms(1,2) t])
  moreover have "run_task (release i (try_do (on_manager t) k)) M2 = Some (Appended (Inl StorageError), unlock i M2)"
    if "load_page_by_hash (any_backend C) (storage (manager (sh_journal M2))) (page_hash (recalculate X p)) = Inr None" for M2
    using f[OF that] by (simp add: release_def try_do_def run_then_do run_on_manager)
  ultimately show ?thesis by (intro that[of "release i (try_do (on_manager t) k)" M']) simp_all
qed

text \<open>What retention leaves is what was there before.\<close>

lemma kept_subset: "kept V V' l P \<Longrightarrow> V' (l, i) = Some p \<Longrightarrow> V (l, i) = Some p"
  unfolding kept_def by (drule spec[of _ i]) (auto split: option.splits if_splits)

lemma policy_result_subset: "policy_result now P V V' l \<Longrightarrow> V' (l, i) = Some p \<Longrightarrow> V (l, i) = Some p"
  by (cases P) (auto dest: kept_subset)

context reliable_storage
begin

lemma retention_only_deletes:
  assumes "good (storage m)" and "reliable (storage m)" and "unstable_ok U" and "length (levels cfg) \<le> 256"
    and "apply_retention_policies U B cfg now m = (r, m')"
  shows "pages (storage m') \<subseteq>\<^sub>m pages (storage m)"
proof -
  have "pages (storage m) x = Some p" if x: "pages (storage m') x = Some p" for x p
  proof -
    obtain l i where li: "x = (l, i)" by (cases x)
    show ?thesis
      using retention_result[OF assms] x policy_result_subset[of now _ "pages (storage m)" "pages (storage m')" l i p]
      by (cases "l < length (levels cfg)") (auto simp: li)
  qed
  then show ?thesis by (auto simp: map_le_def)
qed

text \<open>The leaves of the base level, wherever they are.\<close>

lemma l0_log_set:
  assumes "good (storage m)"
  shows "set (l0_log B m) = (\<Union>p\<in>pages_at (pages (storage m)) 0. set (leaves_of p)) \<union> set (active_leaves m)"
proof -
  obtain ss where ss: "list_finalized_pages_summary B (storage m) 0 = Inr ss"
    "distinct (map sum_page_id ss)"
    "\<And>x. x \<in> set ss \<longleftrightarrow> (\<exists>p. pages (storage m) (0, sum_page_id x) = Some p \<and> x = summary_of p)"
    using list_summaries[OF assms, where l = 0] by blast
  have k: "keyed (pages (storage m))" by (rule keyed_pages[OF assms])
  have "i \<in> sum_page_id ` set ss" if "pages (storage m) (0, i) = Some p" for i p
  proof -
    have "page_id p = i" using k that by (simp add: keyed_def)
    then have "sum_page_id (summary_of p) = i" by simp
    moreover from this that have "summary_of p \<in> set ss" unfolding ss(3) by blast
    ultimately show ?thesis by blast
  qed
  moreover have "pages (storage m) (0, i) \<noteq> None" if "i \<in> sum_page_id ` set ss" for i
    using that ss(3) by blast
  ultimately have ids: "sum_page_id ` set ss = {i. pages (storage m) (0, i) \<noteq> None}" by blast
  have "set (l0_log B m) = (\<Union>i\<in>sum_page_id ` set ss. set (stored_leaves B (storage m) i)) \<union> set (active_leaves m)"
    by (simp add: l0_log_def ss(1))
  moreover have "stored_leaves B (storage m) i = (case pages (storage m) (0, i) of Some p \<Rightarrow> leaves_of p | None \<Rightarrow> [])" for i
    by (simp add: stored_leaves_def load_ok[OF assms])
  then have "(\<Union>i\<in>sum_page_id ` set ss. set (stored_leaves B (storage m) i)) =
      (\<Union>p\<in>pages_at (pages (storage m)) 0. set (leaves_of p))"
    unfolding ids by (auto simp: pages_at_def)
  ultimately show ?thesis by simp
qed

end

section \<open>An append beside retention\<close>

datatype call = OpCall operation | RetentionCall timestamp

definition call_task ::
  "externals \<Rightarrow> (page_summary list \<Rightarrow> page_summary list) \<Rightarrow> codecs \<Rightarrow> config \<Rightarrow> nat \<Rightarrow> call \<Rightarrow>
    (shared, op_result + (cj_error + unit)) task" where
  "call_task X U C cfg i c =
     (case c of
        OpCall op \<Rightarrow> then_do (op_task X C cfg i op) (\<lambda>x. Done (Inl x))
      | RetentionCall now \<Rightarrow> then_do (retention_task U C cfg now) (\<lambda>x. Done (Inr x)))"

definition start_calls ::
  "externals \<Rightarrow> (page_summary list \<Rightarrow> page_summary list) \<Rightarrow> codecs \<Rightarrow> config \<Rightarrow> call list \<Rightarrow>
    (shared, op_result + (cj_error + unit)) task option list" where
  "start_calls X U C cfg cs = map (\<lambda>i. Some (call_task X U C cfg i (cs ! i))) [0..<length cs]"

text \<open>What is in storage after the page \<open>p\<close> was stored and retention has deleted it.\<close>

lemma stored_and_deleted:
  assumes "any_good C s" and "any_reliable s" and "config_ok cfg" and "unstable_ok U"
    and "effective_policy cfg (levels cfg ! 0) = DeleteAfterSecs secs" and "0 < secs"
    and "too_old now secs (end_time q)" and "page_level q = 0"
    and "load_page_by_hash (any_backend C) s (page_hash q) = Inr None"
    and "store_page (any_backend C) s q = (Inr (), storage m)"
    and "apply_retention_policies U (any_backend C) cfg now m = (r, m')"
  shows "any_good C (storage m')" and "any_view C (storage m') \<subseteq>\<^sub>m any_view C s"
    and "load_page_by_hash (any_backend C) (storage m') (page_hash q) = Inr None"
proof -
  let ?V = "any_view C"
  obtain s1 where "store_page (any_backend C) s q = (Inr (), s1)" "any_good C s1" "any_reliable s1"
    "?V s1 = (?V s)((page_level q, page_id q) \<mapsto> q)"
    by (rule any.store_total_pages[OF assms(1,2)])
  with assms(8,10) have s1: "any_good C (storage m)" "any_reliable (storage m)"
    "?V (storage m) = (?V s)((0, page_id q) \<mapsto> q)"
    by simp_all
  have n: "length (levels cfg) \<le> 256" "0 < length (levels cfg)" using assms(3) by (auto simp: config_ok_def)
  note R = any.retention_result[OF s1(1,2) assms(4) n(1) assms(11)]
  then show g: "any_good C (storage m')" by simp
  have "policy_result now (DeleteAfterSecs secs) (?V (storage m)) (?V (storage m')) 0"
    using R n(2) assms(5) by metis
  then have gone: "?V (storage m') (0, page_id q) = None"
    using s1(3) assms(6,7) by (simp add: kept_def)
  have "?V (storage m') \<subseteq>\<^sub>m ?V (storage m)"
    by (rule any.retention_only_deletes[OF s1(1,2) assms(4) n(1) assms(11)])
  then have "?V s x = Some y" if "?V (storage m') x = Some y" for x y
    using that gone s1(3) by (cases "x = (0, page_id q)") (simp, metis domI fun_upd_other map_le_def)
  then show sub: "?V (storage m') \<subseteq>\<^sub>m ?V s" by (auto simp: map_le_def)
  obtain x where x: "load_page_by_hash (any_backend C) (storage m') (page_hash q) = Inr x"
    "case x of None \<Rightarrow> \<forall>p\<in>ran (?V (storage m')). page_hash p \<noteq> page_hash q
     | Some p \<Rightarrow> p \<in> ran (?V (storage m')) \<and> page_hash p = page_hash q"
    using any.by_hash_ok[OF g] by blast
  have "\<forall>p\<in>ran (?V s). page_hash p \<noteq> page_hash q"
    using any.by_hash_ok[OF assms(1), of "page_hash q"] assms(9) by auto
  moreover have "ran (?V (storage m')) \<subseteq> ran (?V s)"
    using sub by (auto simp: ran_def) (metis domI map_le_def)
  ultimately show "load_page_by_hash (any_backend C) (storage m') (page_hash q) = Inr None"
    using x by (cases x) auto
qed

text \<open>A journal in memory that has served appends takes another one when it runs alone.\<close>

lemma memory_journal_ready:
  assumes "config_ok cfg" and "storage_type (storage_cfg cfg) = MemoryType" and "requests_valid rs"
    and "(4 * length rs + 6) * 2 ^ length (levels cfg) \<le> 2 ^ 64" and "journal_new cfg disk = Inr j"
    and "append_leaves X C cfg rs (j, n) = (Inr hs, j', n')"
  obtains ps where "any.ready C X cfg (manager j') ps"
proof -
  have "fresh_disk C cfg disk" using assms(2) by (simp add: fresh_disk_def)
  note J = journal_new_fresh[OF assms(5) this]
  obtain ls "is" where ls: "issued_chain X n None rs ls"
    and add: "add_leaves X (any_backend C) cfg (map at_its_time ls) (manager j) = (Inr is, manager j')"
    using append_leaves_manager[OF assms(6)] J(2) by auto
  have v: "leaves_valid (map at_its_time ls)" "length ls = length rs"
    using issued_chain_valid[OF ls assms(3)] by simp_all
  have "page_id_gen (manager j) + (4 * length (map at_its_time ls) + 6) * 2 ^ length (levels cfg) \<le> 2 ^ 64"
    using assms(4) v(2) J(3) by simp
  then obtain ks m' ps where "add_leaves X (any_backend C) cfg (map at_its_time ls) (manager j) = (Inr ks, m')"
    "any.ready C X cfg m' ps"
    using any.add_leaves_ready[OF J(4)[OF assms(2)] assms(1) v(1)] by blast
  with add that show ?thesis by simp
qed

lemma next_append_succeeds:
  assumes "config_ok cfg" and "storage_type (storage_cfg cfg) = MemoryType"
    and "requests_valid (rs @ [r])" and "payloads_ok X (rs @ [r])"
    and "(4 * length (rs @ [r]) + 6) * 2 ^ length (levels cfg) \<le> 2 ^ 64"
    and "journal_new cfg disk = Inr j" and "append_leaves X C cfg rs (j, n) = (Inr hs, j', n')"
  shows "\<exists>h. fst (append_request X C cfg r (j', n')) = Inr h"
proof -
  obtain ks st where "append_leaves X C cfg (rs @ [r]) (j, n) = (Inr ks, st)"
    using memory_appends_succeed[OF assms(1-5), of disk C n] assms(6) by (metis Inr_inject)
  note all = append_all_succeed[OF this] and before = append_all_succeed[OF assms(7)]
  obtain x st' where x: "append_request X C cfg r (j', n') = (x, st')" by (metis surj_pair)
  with all before have "map Inr hs @ [x] = map Inr ks" by (simp add: append_all_snoc)
  then have "x \<in> Inr ` set ks" by (metis in_set_conv_decomp list.set_map)
  with x show ?thesis by auto
qed

text \<open>The schedule: the append stores the page, retention runs, the append looks for the page.\<close>

text \<open>A schedule of two calls: the first one goes to a point, the retention runs, the first ends.\<close>

lemma op_around_retention:
  assumes "goes (op_task X C cfg 0 op) M0 t M1"
    and "run_task (retention_task U C cfg now) M1 = Some (r, M2)" and "run_task t M2 = Some (x, M3)"
  shows "system_step\<^sup>*\<^sup>* (start_calls X U C cfg [OpCall op, RetentionCall now], M0)
    ([Some (Done (Inl x)), Some (Done (Inr r))], M3)"
proof -
  let ?inl = "\<lambda>x. Done (Inl x)"
  let ?ts = "start_calls X U C cfg [OpCall op, RetentionCall now]"
  have "system_step\<^sup>*\<^sup>* (?ts, M0) (?ts[0 := Some (then_do t ?inl)], M1)"
    by (rule goes_in_system[OF goes_then_do[OF assms(1)]]) (simp_all add: start_calls_def call_task_def)
  moreover have "system_step\<^sup>*\<^sup>* (?ts[0 := Some (then_do t ?inl)], M1)
      (?ts[0 := Some (then_do t ?inl), 1 := Some (Done (Inr r))], M2)"
    by (rule goes_in_system[OF goes_after[OF assms(2)]]) (simp_all add: start_calls_def call_task_def)
  moreover have "system_step\<^sup>*\<^sup>* (?ts[0 := Some (then_do t ?inl), 1 := Some (Done (Inr r))], M2)
      (?ts[0 := Some (then_do t ?inl), 1 := Some (Done (Inr r)), 0 := Some (Done (Inl x))], M3)"
    by (rule goes_in_system[OF goes_after[OF assms(3)]]) (simp_all add: start_calls_def call_task_def)
  ultimately show ?thesis by (simp add: start_calls_def call_task_def)
qed

lemma retention_race:
  assumes "any.ready C X cfg (manager j) ps" and "config_ok cfg" and "requests_valid [r]"
    and "payloads_ok X [r]" and "active_pages (manager j) 0 = Some p" and "\<not> in_window p (rq_timestamp r)"
    and "unstable_ok U" and "effective_policy cfg (levels cfg ! 0) = DeleteAfterSecs secs" and "0 < secs"
    and "too_old now secs (end_time p)"
    and "load_page_by_hash (any_backend C) (storage (manager j)) (page_hash (recalculate X p)) = Inr None"
  obtains M where "system_step\<^sup>*\<^sup>* (start_calls X U C cfg [OpCall (AppendOp r), RetentionCall now], fresh_shared j n)
      ([Some (Done (Inl (Appended (Inl StorageError)))), Some (Done (Inr (Inr ())))], M)"
    and "sh_lock M = None" and "active_pages (manager (sh_journal M)) 0 = None"
    and "any_good C (storage (manager (sh_journal M)))"
    and "any_view C (storage (manager (sh_journal M))) \<subseteq>\<^sub>m any_view C (storage (manager j))"
proof -
  let ?q = "recalculate X p" and ?M0 = "fresh_shared j n" and ?m0 = "set_active 0 None (manager j)"
  have L: "any.log_ok C X cfg (manager j) ps" and rel: "any_reliable (storage (manager j))"
    using assms(1) by (simp_all add: any.ready_def)
  note I = log_invD[OF L]
  have p: "page_level p = 0" "leaves_of p \<noteq> []"
    using I(2,3) assms(5) by (auto simp: manager_inv_def active_ok_def page_fits_def l0_inv_def leaf_page_ok_def)
  then have ne: "\<not> is_content_empty p" by (auto simp: leaves_of_def is_content_empty_def split: page_content.splits)
  obtain leaf where leaf: "issued X n (last_leaf_hash j) r leaf"
    using assms(4) by (auto simp: payloads_ok_def issued_def)
  obtain ws where "get_page_window cfg 0 (rq_timestamp r) = Inr (ws, page_end_time cfg 0 ws)"
    using any.level0_window[OF assms(2)] assms(3) by (metis requests_valid_def list.set_intros(1))
  then have place: "place_leaf cfg leaf (manager j) = (Inr (Detached p ws), ?m0)"
    using place_outside[of cfg leaf ws "page_end_time cfg 0 ws" "manager j" p] assms(5,6) issued_timestamp[OF leaf] by simp
  obtain s where store: "store_in (any_backend C) ?q ?m0 = (Inr (), ?m0\<lparr>storage := s\<rparr>)"
    using any.store_in_total[of C ?m0 ?q] I(1) rel by auto
  obtain t M1 where t: "goes (op_task X C cfg 0 (AppendOp r)) ?M0 t M1" and M1: "sh_lock M1 = Some 0"
    "manager (sh_journal M1) = track_finalized 0 ?q (?m0\<lparr>storage := s\<rparr>)"
    and fails: "\<And>M2. load_page_by_hash (any_backend C) (storage (manager (sh_journal M2))) (page_hash ?q) = Inr None \<Longrightarrow>
      run_task t M2 = Some (Appended (Inl StorageError), unlock 0 M2)"
    using append_stores[of ?M0 X r leaf cfg p ws ?m0 C "?m0\<lparr>storage := s\<rparr>" 0] leaf place ne store p(1)
    by (simp add: fresh_shared_def) metis
  obtain m2 where ret: "apply_retention_policies U (any_backend C) cfg now (manager (sh_journal M1)) = (Inr (), m2)"
    and m2: "active_pages m2 = active_pages (manager (sh_journal M1))"
    by (simp add: apply_retention_policies_def)
  define M2 where "M2 = M1\<lparr>sh_journal := (sh_journal M1)\<lparr>manager := m2\<rparr>\<rparr>"
  have run: "run_task (retention_task U C cfg now) M1 = Some (Inr (), M2)"
    by (simp add: run_retention_task journal_apply_retention_def ret M2_def)
  have s: "store_page (any_backend C) (storage (manager j)) ?q = (Inr (), storage (manager (sh_journal M1)))"
    using store by (auto simp: M1(2) store_in_def track_finalized_def split: prod.splits dest: arg_cong[where f = storage])
  note S = stored_and_deleted[OF I(1) rel assms(2,7-9) _ _ assms(11) s ret]
  have gone: "load_page_by_hash (any_backend C) (storage (manager (sh_journal M2))) (page_hash ?q) = Inr None"
    using S(3) assms(10) p(1) by (simp add: M2_def)
  have "system_step\<^sup>*\<^sup>* (start_calls X U C cfg [OpCall (AppendOp r), RetentionCall now], ?M0)
      ([Some (Done (Inl (Appended (Inl StorageError)))), Some (Done (Inr (Inr ())))], unlock 0 M2)"
    by (rule op_around_retention[OF t run fails[OF gone]])
  moreover have "sh_lock M2 = Some 0" "sh_journal (unlock 0 M2) = sh_journal M2"
    using M1(1) by (simp_all add: M2_def unlock_def)
  moreover have "active_pages (manager (sh_journal M2)) 0 = None"
    by (simp add: M2_def m2 M1(2) track_finalized_def)
  ultimately show ?thesis using S(1,2) assms(10) p(1)
    by (intro that[of "unlock 0 M2"]) (simp_all add: unlock_def M2_def)
qed

text \<open>
  C10: retention that runs beside an append can make it fail. In a journal in memory that has
  served any appends, let an append arrive whose time lies outside the active L0 page, and
  let the retention policy of level 0 delete pages as old as that page. Alone the append
  succeeds; yet there is a schedule of the append and \<open>apply_retention_policies\<close>, run as two
  tasks, in which both end, retention reports success, and the append reports a storage
  error: retention deletes the page after the append has stored it and before it is rolled
  up. Nothing was added to the log, and no active L0 page is left. (The hash of the page is
  taken not to be that of a page stored before.)
\<close>

theorem retention_breaks_append:
  assumes "config_ok cfg" and "storage_type (storage_cfg cfg) = MemoryType"
    and "requests_valid (rs @ [r])" and "payloads_ok X (rs @ [r])"
    and "(4 * length (rs @ [r]) + 6) * 2 ^ length (levels cfg) \<le> 2 ^ 64"
    and "journal_new cfg disk = Inr j" and "append_leaves X C cfg rs (j, n) = (Inr hs, j', n')"
    and "get_active_page (manager j') 0 = Some p" and "\<not> in_window p (rq_timestamp r)"
    and "unstable_ok U" and "effective_policy cfg (levels cfg ! 0) = DeleteAfterSecs secs" and "0 < secs"
    and "too_old now secs (end_time p)"
    and "load_page_by_hash (any_backend C) (storage (manager j')) (page_hash (recalculate X p)) = Inr None"
  shows "(\<exists>h. fst (append_request X C cfg r (j', n')) = Inr h) \<and>
    (\<exists>M. system_step\<^sup>*\<^sup>* (start_calls X U C cfg [OpCall (AppendOp r), RetentionCall now], fresh_shared j' n')
        ([Some (Done (Inl (Appended (Inl StorageError)))), Some (Done (Inr (Inr ())))], M) \<and>
      sh_lock M = None \<and> get_active_page (manager (sh_journal M)) 0 = None \<and>
      set (journal_log C (sh_journal M)) \<subseteq> set (journal_log C j'))"
proof -
  have v: "requests_valid rs" "requests_valid [r]" "payloads_ok X [r]"
    using assms(3,4) by (auto simp: requests_valid_def payloads_ok_def)
  have "(4 * length rs + 6) * 2 ^ length (levels cfg) \<le> (4 * length (rs @ [r]) + 6) * 2 ^ length (levels cfg)"
    by (intro mult_right_mono) simp_all
  then have b: "(4 * length rs + 6) * 2 ^ length (levels cfg) \<le> 2 ^ 64" using assms(5) by linarith
  obtain ps where R: "any.ready C X cfg (manager j') ps"
    by (rule memory_journal_ready[OF assms(1,2) v(1) b assms(6,7)])
  have act: "active_pages (manager j') 0 = Some p" using assms(8) by (simp add: get_active_page_def)
  obtain M where M: "system_step\<^sup>*\<^sup>* (start_calls X U C cfg [OpCall (AppendOp r), RetentionCall now], fresh_shared j' n')
      ([Some (Done (Inl (Appended (Inl StorageError)))), Some (Done (Inr (Inr ())))], M)"
    "sh_lock M = None" "active_pages (manager (sh_journal M)) 0 = None"
    "any_good C (storage (manager (sh_journal M)))"
    "any_view C (storage (manager (sh_journal M))) \<subseteq>\<^sub>m any_view C (storage (manager j'))"
    by (rule retention_race[OF R assms(1) v(2,3) act assms(9-14)])
  have "any_good C (storage (manager j'))" using R by (simp add: any.ready_def log_inv_def)
  moreover have "pages_at (any_view C (storage (manager (sh_journal M)))) 0 \<subseteq> pages_at (any_view C (storage (manager j'))) 0"
    using M(5) by (auto simp: pages_at_def) (metis domI map_le_def)
  ultimately have "set (journal_log C (sh_journal M)) \<subseteq> set (journal_log C j')"
    using M(3,4) by (auto simp: journal_log_def any.l0_log_set active_leaves_def)
  with M next_append_succeeds[OF assms(1-7)] show ?thesis by (auto simp: get_active_page_def)
qed

definition expiring_day :: config where
  "expiring_day = memory_day\<lparr>levels := [(hd default_levels)\<lparr>retention_policy := Some (DeleteAfterSecs 1)\<rparr>]\<rparr>"

lemma expiring_day_facts:
  "window_level expiring_day" "storage_type (storage_cfg expiring_day) = MemoryType"
  "get_page_window expiring_day 0 5 = Inr (0, 86400000000000)"
  "effective_policy expiring_day (levels expiring_day ! 0) = DeleteAfterSecs 1"
  using memory_day_facts
  by (simp_all add: window_level_def config_ok_def get_page_window_def level_at_def leaf_limit_def leaf_max_age_def
      level_ok_def memory_day_def expiring_day_def effective_policy_def)

theorem retention_breaks_append_witness:
  "\<exists>j hs j' n' M. journal_new expiring_day sample_disk = Inr j \<and>
     append_leaves sample_hashing sample_codecs expiring_day [request 5] (j, 0) = (Inr hs, j', n') \<and>
     system_step\<^sup>*\<^sup>* (start_calls sample_hashing (sort_key sum_end_time) sample_codecs expiring_day
         [OpCall (AppendOp (request 86400000000007)), RetentionCall 86402000000000], fresh_shared j' n')
       ([Some (Done (Inl (Appended (Inl StorageError)))), Some (Done (Inr (Inr ())))], M) \<and>
     set (journal_log sample_codecs (sh_journal M)) \<subseteq> set (journal_log sample_codecs j')"
proof -
  have v: "requests_valid ([request 5] @ [request 86400000000007])"
    "payloads_ok sample_hashing ([request 5] @ [request 86400000000007])"
    "requests_valid [request 5]" "payloads_ok sample_hashing [request 5]"
    using two_requests_facts(1,2) by (simp_all add: two_requests_def requests_valid_def payloads_ok_def request_def)
  have b: "10 * 2 ^ length (levels expiring_day) \<le> (2 ^ 64 :: nat)"
    "(4 * length ([request 5] @ [request 86400000000007]) + 6) * 2 ^ length (levels expiring_day) \<le> 2 ^ 64"
    by (simp_all add: expiring_day_def)
  note W = window_levelD(1)[OF expiring_day_facts(1)]
  obtain j hs j' n' q ws where j: "journal_new expiring_day sample_disk = Inr j"
    and run: "append_leaves sample_hashing sample_codecs expiring_day [request 5] (j, 0) = (Inr hs, j', n')"
    and m': "manager j' = set_active 0 (Some q) ((manager_new (MemoryState mem_new))\<lparr>page_id_gen := 1\<rparr>)"
    and w: "get_page_window expiring_day 0 (rq_timestamp (request 5)) = Inr (ws, end_time q)"
      "in_window q = (\<lambda>u. ws \<le> u \<and> u < end_time q)"
    by (rule first_request[OF expiring_day_facts(1,2) v(3,4) b(1)])
  have act: "get_active_page (manager j') 0 = Some q" by (simp add: m' get_active_page_def)
  have e: "end_time q = 86400000000000" using w(1) expiring_day_facts(3) by (simp add: request_def)
  then have out: "\<not> in_window q (rq_timestamp (request 86400000000007))" using w(2) by (simp add: request_def)
  have old: "too_old 86402000000000 1 (end_time q)" by (simp add: too_old_def e nanos_def as_i64_def)
  have none: "load_page_by_hash (any_backend sample_codecs) (storage (manager j')) (page_hash (recalculate sample_hashing q)) = Inr None"
    by (simp add: m' manager_new_def set_active_def mem_load_page_by_hash_def mem_new_def)
  from retention_breaks_append[OF W expiring_day_facts(2) v(1,2) b(2) j run act out sort_key_unstable_ok
      expiring_day_facts(4) _ old none] j run
  show ?thesis by auto
qed

end
