(* ===== verification/Async_Guards.thy ===== *)
theory Async_Guards
  imports Guards Async_Retention
begin

text \<open>
  The asynchronous journal with the guards of its four \<open>tokio\<close> mutexes: \<open>last_leaf_hash\<close> of
  \<open>src/api/async_api.rs\<close> and \<open>active_pages\<close>, \<open>last_finalized_page_ids\<close> and
  \<open>last_finalized_page_hashes\<close> of \<open>src/core/time_manager.rs\<close>. Every \<open>lock().await\<close> is a step
  that may wait, and every guard lives as long as in the code: to its \<open>drop\<close>, to the end of
  its block, or, in the head of an \<open>if let\<close> (edition 2021), to the end of the \<open>if let\<close>, so
  that \<open>last_finalized_page_ids\<close> is held across the load of the last finalised page.

  Without the guards these programs are the tasks of \<open>Async_Journal\<close> and \<open>Async_Retention\<close>
  (the lemmas \<open>erase_\<dots>\<close>), and every run of them is a schedule of those tasks.
\<close>

datatype mutex = LastLeafHash | ActivePages | FinalizedIds | FinalizedHashes

text \<open>\<open>last_leaf_hash\<close> is taken first; the mutexes of the manager are never taken together.\<close>

definition mutex_rank :: "mutex \<Rightarrow> nat" where
  "mutex_rank x = (case x of LastLeafHash \<Rightarrow> 0 | _ \<Rightarrow> 1)"

lemma mutex_rank_simps [simp]:
  "mutex_rank LastLeafHash = 0" "mutex_rank ActivePages = 1" "mutex_rank FinalizedIds = 1"
  "mutex_rank FinalizedHashes = 1"
  by (simp_all add: mutex_rank_def)

interpretation journal_mutexes: mutex_order mutex_rank 1
  by unfold_locales (simp add: mutex_rank_def split: mutex.split)

type_synonym ('m, 'a) guarded = "(mutex, 'm, 'a) prog"

section \<open>The manager\<close>

definition store_prog ::
  "'s storage_backend \<Rightarrow> nat \<Rightarrow> journal_page \<Rightarrow> ('s manager, cj_error + unit) guarded" where
  "store_prog B l p =
     and_try (act (store_in B p)) (\<lambda>_.
       and_then (holding FinalizedIds (upd (track_id l p))) (\<lambda>_.
       and_then (holding FinalizedHashes (upd (track_hash l p))) (\<lambda>_. Ret (Inr ()))))"

definition last_hash_prog ::
  "'s storage_backend \<Rightarrow> nat \<Rightarrow> ('s manager, cj_error + hash option) guarded" where
  "last_hash_prog B l =
     holding FinalizedIds (and_then (see (\<lambda>m. last_finalized_page_ids m l)) (\<lambda>last.
       case last of
         None \<Rightarrow> Ret (Inr None)
       | Some i \<Rightarrow> and_then (see (\<lambda>m. load_page B (storage m) l i)) (\<lambda>r.
           Ret (try_pure r (\<lambda>po. Inr (map_option page_hash po))))))"

text \<open>What the \<open>if let\<close> over the last finalised parent page gives: its page, if it has one.\<close>

definition last_parent_prog ::
  "'s storage_backend \<Rightarrow> nat \<Rightarrow> ('s manager, (cj_error + journal_page option) option) guarded" where
  "last_parent_prog B pl =
     holding FinalizedIds (and_then (see (\<lambda>m. last_finalized_page_ids m pl)) (\<lambda>last.
       case last of
         None \<Rightarrow> Ret None
       | Some i \<Rightarrow> and_then (see (\<lambda>m. load_page B (storage m) pl i)) (\<lambda>r. Ret (Some r))))"

definition parent_prog ::
  "externals \<Rightarrow> 's storage_backend \<Rightarrow> config \<Rightarrow> nat \<Rightarrow> timestamp \<Rightarrow>
    ('s manager, cj_error + journal_page) guarded" where
  "parent_prog X B cfg pl ts =
     (case get_page_window cfg pl ts of
        Inl e \<Rightarrow> Ret (Inl e)
      | Inr (wstart, _) \<Rightarrow>
        (case level_at cfg pl of
           None \<Rightarrow> Ret (Inl (ConfigError ValidationError))
         | Some level_config \<Rightarrow>
           let max_items = max_items_per_page (rollup_config level_config) in
           and_then (holding ActivePages (see (usable_parent max_items pl ts))) (\<lambda>usable.
             case usable of
               Some p \<Rightarrow> Ret (Inr p)
             | None \<Rightarrow>
               and_then (holding FinalizedHashes (see (\<lambda>m. last_finalized_page_hashes m pl))) (\<lambda>prev.
               and_then (last_parent_prog B pl) (\<lambda>last.
                 case last of
                   None \<Rightarrow> act (create_page X cfg pl prev wstart)
                 | Some (Inl e) \<Rightarrow> Ret (Inl e)
                 | Some (Inr None) \<Rightarrow> act (create_page X cfg pl prev wstart)
                 | Some (Inr (Some loaded)) \<Rightarrow>
                     if creation_timestamp loaded = wstart \<and>
                        end_time loaded = wstart + nanos (int (duration_seconds level_config)) \<and>
                        content_len loaded < max_items
                     then Ret (Inr loaded)
                     else act (create_page X cfg pl (Some (page_hash loaded)) wstart))))))"

definition stale_prog ::
  "externals \<Rightarrow> 's storage_backend \<Rightarrow> nat \<Rightarrow> timestamp \<Rightarrow>
    ('s manager, cj_error + hash option) guarded" where
  "stale_prog X B pl ts =
     and_then (holding ActivePages (act (take_stale pl ts))) (\<lambda>stale.
       case stale of
         None \<Rightarrow> Ret (Inr None)
       | Some existing \<Rightarrow>
           if is_content_empty existing then Ret (Inr None)
           else let page = recalculate X existing in
             and_try (store_prog B pl page) (\<lambda>_. Ret (Inr (Some (page_hash page)))))"

definition settle_prog ::
  "'s storage_backend \<Rightarrow> nat \<Rightarrow> time_level \<Rightarrow> journal_page \<Rightarrow> timestamp \<Rightarrow>
    ('s manager, cj_error + hash option) guarded" where
  "settle_prog B pl parent_cfg parent ts =
     (case fate_of parent_cfg parent ts of
        Discard \<Rightarrow>
          and_then (holding ActivePages (upd (set_active pl None))) (\<lambda>_.
          and_then (upd (\<lambda>m. m\<lparr>page_id_gen := id_revert (page_id parent) (page_id_gen m)\<rparr>)) (\<lambda>_.
            Ret (Inr None)))
      | Keep \<Rightarrow>
          and_then (holding ActivePages (upd (set_active pl (Some parent)))) (\<lambda>_. Ret (Inr None))
      | Finalize \<Rightarrow>
          and_then (holding ActivePages (upd (set_active pl None))) (\<lambda>_.
            and_try (store_prog B pl parent) (\<lambda>_. Ret (Inr (Some (page_hash parent))))))"

definition attach_prog ::
  "externals \<Rightarrow> 's storage_backend \<Rightarrow> config \<Rightarrow> nat \<Rightarrow> time_level \<Rightarrow> journal_page \<Rightarrow> timestamp \<Rightarrow>
    ('s manager, cj_error + hash option) guarded" where
  "attach_prog X B cfg pl parent_cfg child ts =
     and_try (parent_prog X B cfg pl ts) (\<lambda>parent.
       if length (levels cfg) \<le> page_level child then Ret (Inl Panicked)
       else case add_child_content (content_type (rollup_config parent_cfg)) parent child of
         Inl e \<Rightarrow> Ret (Inl e)
       | Inr parent \<Rightarrow> settle_prog B pl parent_cfg (recalculate X parent) ts)"

function rollup_prog ::
  "externals \<Rightarrow> 's storage_backend \<Rightarrow> config \<Rightarrow> nat \<Rightarrow> hash \<Rightarrow> timestamp \<Rightarrow>
    ('s manager, cj_error + unit) guarded" where
  "rollup_prog X B cfg finalized_level finalized_hash ts =
     (if 255 \<le> finalized_level then Ret (Inl Panicked)
      else and_then (see (\<lambda>m. load_page_by_hash B (storage m) finalized_hash)) (\<lambda>r. case r of
        Inl e \<Rightarrow> Ret (Inl e)
      | Inr None \<Rightarrow> Ret (Inl StorageError)
      | Inr (Some child) \<Rightarrow>
        (case level_at cfg (finalized_level + 1) of
           None \<Rightarrow> Ret (Inr ())
         | Some parent_cfg \<Rightarrow>
           and_try (stale_prog X B (finalized_level + 1) ts) (\<lambda>stale.
           and_try (case stale of
                      None \<Rightarrow> Ret (Inr ())
                    | Some h \<Rightarrow> rollup_prog X B cfg (finalized_level + 1) h ts) (\<lambda>_.
           and_try (attach_prog X B cfg (finalized_level + 1) parent_cfg child ts) (\<lambda>finalized.
           case finalized of
             None \<Rightarrow> Ret (Inr ())
           | Some h \<Rightarrow> rollup_prog X B cfg (finalized_level + 1) h ts))))))"
  by pat_completeness auto
termination
  by (relation "measure (\<lambda>(X, B, cfg, l, h, ts). length (levels cfg) - l)")
    (auto dest: level_at_less)

declare rollup_prog.simps [simp del]

definition finalize_prog ::
  "externals \<Rightarrow> 's storage_backend \<Rightarrow> config \<Rightarrow> journal_page \<Rightarrow> timestamp \<Rightarrow>
    ('s manager, cj_error + unit) guarded" where
  "finalize_prog X B cfg p ts =
     (if is_content_empty p then
        and_then (upd (\<lambda>m. m\<lparr>page_id_gen := id_revert (page_id p) (page_id_gen m)\<rparr>)) (\<lambda>_. Ret (Inr ()))
      else
        let p = recalculate X p in
        and_try (store_prog B (page_level p) p) (\<lambda>_.
          rollup_prog X B cfg (page_level p) (page_hash p) ts))"

definition fresh_prog ::
  "externals \<Rightarrow> 's storage_backend \<Rightarrow> config \<Rightarrow> timestamp \<Rightarrow>
    ('s manager, cj_error + journal_page) guarded" where
  "fresh_prog X B cfg wstart =
     and_try (last_hash_prog B 0) (\<lambda>prev.
       case prev of
         Some h \<Rightarrow> act (create_page X cfg 0 (Some h) wstart)
       | None \<Rightarrow> and_try (last_hash_prog B 0) (\<lambda>prev. act (create_page X cfg 0 prev wstart)))"

definition page_prog ::
  "externals \<Rightarrow> 's storage_backend \<Rightarrow> config \<Rightarrow> journal_leaf \<Rightarrow>
    ('s manager, cj_error + journal_page) guarded" where
  "page_prog X B cfg leaf =
     and_try (holding ActivePages (act (place_leaf cfg leaf))) (\<lambda>place.
       case place of
         Usable p \<Rightarrow> Ret (Inr p)
       | Detached p wstart \<Rightarrow>
           and_try (finalize_prog X B cfg p (leaf_timestamp leaf)) (\<lambda>_. fresh_prog X B cfg wstart)
       | NoPage wstart \<Rightarrow> fresh_prog X B cfg wstart)"

definition close_prog ::
  "externals \<Rightarrow> 's storage_backend \<Rightarrow> config \<Rightarrow> journal_page \<Rightarrow> timestamp \<Rightarrow>
    ('s manager, cj_error + unit) guarded" where
  "close_prog X B cfg p ts =
     (let p = recalculate X p in
      and_try (store_prog B (page_level p) p) (\<lambda>_.
        and_then (holding ActivePages (upd (set_active (page_level p) None))) (\<lambda>_.
          rollup_prog X B cfg (page_level p) (page_hash p) ts)))"

definition insert_prog ::
  "externals \<Rightarrow> 's storage_backend \<Rightarrow> config \<Rightarrow> time_level \<Rightarrow> journal_leaf \<Rightarrow> timestamp \<Rightarrow> journal_page \<Rightarrow>
    ('s manager, cj_error + unit) guarded" where
  "insert_prog X B cfg lc leaf operation_time page =
     (case page_add_leaf page leaf of
        Inl e \<Rightarrow> Ret (Inl e)
      | Inr page \<Rightarrow>
          let (full_or_old, outside) = leaf_finalize lc page (leaf_timestamp leaf) operation_time in
          if full_or_old \<or> outside then close_prog X B cfg page (leaf_timestamp leaf)
          else and_then (holding ActivePages (upd (set_active (page_level page) (Some page))))
                 (\<lambda>_. Ret (Inr ())))"

definition add_leaf_prog ::
  "externals \<Rightarrow> 's storage_backend \<Rightarrow> config \<Rightarrow> journal_leaf \<Rightarrow> timestamp \<Rightarrow>
    ('s manager, cj_error + nat) guarded" where
  "add_leaf_prog X B cfg leaf operation_time =
     and_try (page_prog X B cfg leaf) (\<lambda>page.
       case level_at cfg (page_level page) of
         None \<Rightarrow> Ret (Inl Panicked)
       | Some lc \<Rightarrow>
         let original_page_id = page_id page in
         and_try
           (if fst (leaf_finalize lc page (leaf_timestamp leaf) operation_time) \<and>
               leaf_timestamp leaf < operation_time \<and> \<not> is_content_empty page
            then and_try (close_prog X B cfg page (leaf_timestamp leaf)) (\<lambda>_. page_prog X B cfg leaf)
            else Ret (Inr page))
           (\<lambda>page.
         and_try (insert_prog X B cfg lc leaf operation_time page) (\<lambda>_. Ret (Inr original_page_id))))"

text \<open>Retention takes no mutex.\<close>

primrec delete_prog ::
  "'s storage_backend \<Rightarrow> nat \<Rightarrow> page_summary list \<Rightarrow> ('s manager, unit) guarded" where
  "delete_prog B l [] = Ret ()"
| "delete_prog B l (x # xs) =
     and_then (upd (\<lambda>m. m\<lparr>storage := snd (delete_page B (storage m) l (sum_page_id x))\<rparr>))
       (\<lambda>_. delete_prog B l xs)"

definition listed_prog ::
  "'s storage_backend \<Rightarrow> nat \<Rightarrow> (page_summary list \<Rightarrow> page_summary list) \<Rightarrow>
    ('s manager, unit) guarded" where
  "listed_prog B l select =
     and_then (see (\<lambda>m. list_finalized_pages_summary B (storage m) l)) (\<lambda>r.
       case r of Inl e \<Rightarrow> Ret () | Inr sums \<Rightarrow> delete_prog B l (select sums))"

definition policy_prog ::
  "(page_summary list \<Rightarrow> page_summary list) \<Rightarrow> 's storage_backend \<Rightarrow> timestamp \<Rightarrow> nat \<Rightarrow>
    rollup_retention_policy \<Rightarrow> ('s manager, unit) guarded" where
  "policy_prog U B now l policy =
     (case policy of
        DeleteAfterSecs secs \<Rightarrow>
          if secs = 0 then Ret ()
          else listed_prog B l (filter (\<lambda>x. too_old now secs (sum_end_time x)))
      | KeepNPages n \<Rightarrow>
          if n = 0 then listed_prog B l id
          else listed_prog B l (\<lambda>sums.
            if length sums \<le> n then [] else take (length sums - n) (U sums))
      | KeepIndefinitely \<Rightarrow> Ret ())"

primrec levels_prog ::
  "(page_summary list \<Rightarrow> page_summary list) \<Rightarrow> 's storage_backend \<Rightarrow> config \<Rightarrow> timestamp \<Rightarrow>
    (nat \<times> time_level) list \<Rightarrow> ('s manager, cj_error + unit) guarded" where
  "levels_prog U B cfg now [] = Ret (Inr ())"
| "levels_prog U B cfg now (x # xs) =
     and_then (policy_prog U B now (fst x mod 256) (effective_policy cfg (snd x)))
       (\<lambda>_. levels_prog U B cfg now xs)"

subsection \<open>Without the guards they are the manager's tasks\<close>

lemma erase_store: "erase (store_prog B l p) = store_task B l p"
  by (simp add: store_prog_def store_task_def)

lemma erase_last_hash: "erase (last_hash_prog B l) = last_hash_task B l"
  by (simp add: last_hash_prog_def last_hash_task_def option.case_distrib[of erase] cong: option.case_cong)

lemma erase_stale: "erase (stale_prog X B pl ts) = stale_task X B pl ts"
  by (simp add: stale_prog_def stale_task_def option.case_distrib[of erase] if_distrib[of erase] Let_def
      erase_store cong: option.case_cong if_cong)

lemma then_do_option:
  "then_do (case x of None \<Rightarrow> t | Some i \<Rightarrow> f i) k =
     (case x of None \<Rightarrow> then_do t k | Some i \<Rightarrow> then_do (f i) k)"
  by (cases x) simp_all

lemma erase_parent: "erase (parent_prog X B cfg pl ts) = parent_task X B cfg pl ts"
  by (simp add: parent_prog_def parent_task_def last_parent_prog_def then_do_assoc then_do_option Let_def
      option.case_distrib[of erase] sum.case_distrib[of erase] if_distrib[of erase] split_def
      cong: option.case_cong sum.case_cong if_cong)

lemma erase_settle: "erase (settle_prog B pl pc p ts) = settle_task B pl pc p ts"
  by (simp add: settle_prog_def settle_task_def erase_store split: parent_fate.split)

lemma erase_attach: "erase (attach_prog X B cfg pl pc child ts) = attach_task X B cfg pl pc child ts"
  by (simp add: attach_prog_def attach_task_def erase_parent erase_settle if_distrib[of erase]
      sum.case_distrib[of erase] cong: if_cong sum.case_cong)

lemma erase_rollup: "erase (rollup_prog X B cfg l h ts) = rollup_task X B cfg l h ts"
proof (induction X B cfg l h ts rule: rollup_prog.induct)
  case (1 X B cfg l h ts)
  show ?case
    unfolding rollup_prog.simps[of X B cfg l h ts] rollup_task.simps[of X B cfg l h ts]
    using 1
    by (auto simp: erase_stale erase_attach option.case_distrib[of erase] sum.case_distrib[of erase]
        cong: option.case_cong sum.case_cong)
qed

lemma erase_finalize: "erase (finalize_prog X B cfg p ts) = finalize_task X B cfg p ts"
  by (simp add: finalize_prog_def finalize_task_def erase_store erase_rollup Let_def)

lemma erase_fresh: "erase (fresh_prog X B cfg ws) = fresh_task X B cfg ws"
  by (simp add: fresh_prog_def fresh_task_def erase_last_hash option.case_distrib[of erase] cong: option.case_cong)

lemma erase_page: "erase (page_prog X B cfg leaf) = page_task X B cfg leaf"
  by (simp add: page_prog_def page_task_def erase_finalize erase_fresh leaf_place.case_distrib[of erase]
      cong: leaf_place.case_cong)

lemma erase_close: "erase (close_prog X B cfg p ts) = close_task X B cfg p ts"
  by (simp add: close_prog_def close_task_def erase_store erase_rollup Let_def)

lemma erase_insert: "erase (insert_prog X B cfg lc leaf t p) = insert_task X B cfg lc leaf t p"
  by (simp add: insert_prog_def insert_task_def erase_close split_def Let_def split: sum.split)

lemma erase_add_leaf: "erase (add_leaf_prog X B cfg leaf t) = add_leaf_task X B cfg leaf t"
  by (simp add: add_leaf_prog_def add_leaf_task_def erase_page erase_close erase_insert Let_def
      option.case_distrib[of erase] if_distrib[of erase] cong: option.case_cong if_cong)

lemma erase_delete: "erase (delete_prog B l xs) = delete_task B l xs"
  by (induction xs) simp_all

lemma erase_policy: "erase (policy_prog U B now l p) = policy_task U B now l p"
  by (simp add: policy_prog_def policy_task_def listed_prog_def listed_task_def erase_delete
      sum.case_distrib[of erase] cong: sum.case_cong split: rollup_retention_policy.split)

lemma erase_levels: "erase (levels_prog U B cfg now xs) = levels_task U B cfg now xs"
  by (induction xs) (simp_all add: erase_policy)

section \<open>The calls\<close>

text \<open>The shared state of the calls: the journal and the counter of leaf ids.\<close>

type_synonym world = "journal \<times> nat"

definition on_journal_manager :: "(any_storage manager, 'a) guarded \<Rightarrow> (world, 'a) guarded" where
  "on_journal_manager = over_part (\<lambda>w. manager (fst w)) (\<lambda>m w. ((fst w)\<lparr>manager := m\<rparr>, snd w))"

definition leaf_of_call ::
  "externals \<Rightarrow> timestamp \<Rightarrow> page_content_hash option \<Rightarrow> string \<Rightarrow> json \<Rightarrow> world \<Rightarrow>
    (cj_error + journal_leaf) \<times> world" where
  "leaf_of_call X ts parent_hash cid data w =
     (case leaf_new X ts (previous_hash parent_hash (last_leaf_hash (fst w))) cid data (snd w) of
        (r, n) \<Rightarrow> (r, (fst w, n)))"

definition append_leaf_prog ::
  "externals \<Rightarrow> codecs \<Rightarrow> config \<Rightarrow> timestamp \<Rightarrow> page_content_hash option \<Rightarrow> string \<Rightarrow> json \<Rightarrow>
    (world, cj_error + page_content_hash) guarded" where
  "append_leaf_prog X C cfg ts parent_hash cid data =
     holding LastLeafHash (
       and_try (act (leaf_of_call X ts parent_hash cid data)) (\<lambda>leaf.
       and_try (on_journal_manager (add_leaf_prog X (any_backend C) cfg leaf ts)) (\<lambda>_.
       and_then (upd (\<lambda>w. ((fst w)\<lparr>last_leaf_hash := Some (leaf_hash leaf)\<rparr>, snd w))) (\<lambda>_.
         Ret (Inr (LeafHash (leaf_hash leaf)))))))"

definition get_page_prog ::
  "codecs \<Rightarrow> nat \<Rightarrow> nat \<Rightarrow> (world, cj_error + journal_page) guarded" where
  "get_page_prog C l i =
     and_then (see (\<lambda>w. load_page_from_storage (any_backend C) (manager (fst w)) l i)) (\<lambda>r.
       case r of
         Inr (Some page) \<Rightarrow> Ret (Inr page)
       | Inr None \<Rightarrow>
           and_then (holding ActivePages (see (\<lambda>w. get_active_page_by_id (manager (fst w)) l i))) (\<lambda>a.
             case a of
               Some active \<Rightarrow> Ret (Inr active)
             | None \<Rightarrow> Ret (Inl (PageNotFound l i)))
       | Inl e \<Rightarrow> Ret (Inl StorageError))"

definition retention_prog ::
  "(page_summary list \<Rightarrow> page_summary list) \<Rightarrow> codecs \<Rightarrow> config \<Rightarrow> timestamp \<Rightarrow>
    (world, cj_error + unit) guarded" where
  "retention_prog U C cfg now =
     on_journal_manager (levels_prog U (any_backend C) cfg now (List.enumerate 0 (levels cfg)))"

definition call_prog ::
  "externals \<Rightarrow> (page_summary list \<Rightarrow> page_summary list) \<Rightarrow> codecs \<Rightarrow> config \<Rightarrow> call \<Rightarrow>
    (world, op_result + (cj_error + unit)) guarded" where
  "call_prog X U C cfg c =
     (case c of
        OpCall (AppendOp r) \<Rightarrow>
          and_then (append_leaf_prog X C cfg (rq_timestamp r) (rq_parent r) (rq_container r) (rq_data r))
            (\<lambda>x. Ret (Inl (Appended x)))
      | OpCall (GetPageOp l k) \<Rightarrow> and_then (get_page_prog C l k) (\<lambda>x. Ret (Inl (Got x)))
      | RetentionCall now \<Rightarrow> and_then (retention_prog U C cfg now) (\<lambda>x. Ret (Inr x)))"

definition start_progs ::
  "externals \<Rightarrow> (page_summary list \<Rightarrow> page_summary list) \<Rightarrow> codecs \<Rightarrow> config \<Rightarrow> call list \<Rightarrow> world \<Rightarrow>
    (mutex, world, op_result + (cj_error + unit)) guarded_system" where
  "start_progs X U C cfg cs w = (map Some (map (call_prog X U C cfg) cs), Map.empty, w)"

section \<open>The discipline of the calls\<close>

abbreviation below_manager :: "mutex set \<Rightarrow> bool" where
  "below_manager H \<equiv> \<forall>y\<in>H. mutex_rank y < 1"

abbreviation keeps_order :: "mutex set \<Rightarrow> ('m, 'a) guarded \<Rightarrow> bool" where
  "keeps_order H t \<equiv> obeys mutex_rank H t H"

lemma order_store [disciplined]: "below_manager H \<Longrightarrow> keeps_order H (store_prog B l p)"
  unfolding store_prog_def by (auto intro!: disciplined)

lemma order_last_hash [disciplined]: "below_manager H \<Longrightarrow> keeps_order H (last_hash_prog B l)"
  unfolding last_hash_prog_def by (auto intro!: disciplined split: option.split)

lemma order_last_parent [disciplined]: "below_manager H \<Longrightarrow> keeps_order H (last_parent_prog B pl)"
  unfolding last_parent_prog_def by (auto intro!: disciplined split: option.split)

lemma order_parent [disciplined]: "below_manager H \<Longrightarrow> keeps_order H (parent_prog X B cfg pl ts)"
  unfolding parent_prog_def Let_def by (auto intro!: disciplined split: option.split sum.split)

lemma order_stale [disciplined]: "below_manager H \<Longrightarrow> keeps_order H (stale_prog X B pl ts)"
  unfolding stale_prog_def Let_def by (auto intro!: disciplined split: option.split)

lemma order_settle [disciplined]: "below_manager H \<Longrightarrow> keeps_order H (settle_prog B pl pc p ts)"
  unfolding settle_prog_def by (auto intro!: disciplined split: parent_fate.split)

lemma order_attach [disciplined]: "below_manager H \<Longrightarrow> keeps_order H (attach_prog X B cfg pl pc child ts)"
  unfolding attach_prog_def by (auto intro!: disciplined split: sum.split)

lemma order_rollup [disciplined]: "below_manager H \<Longrightarrow> keeps_order H (rollup_prog X B cfg l h ts)"
proof (induction X B cfg l h ts rule: rollup_prog.induct)
  case (1 X B cfg l h ts)
  then show ?case
    unfolding rollup_prog.simps[of X B cfg l h ts]
    by (auto intro!: disciplined split: option.split sum.split)
qed

lemma order_finalize [disciplined]: "below_manager H \<Longrightarrow> keeps_order H (finalize_prog X B cfg p ts)"
  unfolding finalize_prog_def Let_def by (auto intro!: disciplined)

lemma order_fresh [disciplined]: "below_manager H \<Longrightarrow> keeps_order H (fresh_prog X B cfg ws)"
  unfolding fresh_prog_def by (auto intro!: disciplined split: option.split)

lemma order_page [disciplined]: "below_manager H \<Longrightarrow> keeps_order H (page_prog X B cfg leaf)"
  unfolding page_prog_def by (auto intro!: disciplined split: leaf_place.split)

lemma order_close [disciplined]: "below_manager H \<Longrightarrow> keeps_order H (close_prog X B cfg p ts)"
  unfolding close_prog_def Let_def by (auto intro!: disciplined)

lemma order_insert [disciplined]: "below_manager H \<Longrightarrow> keeps_order H (insert_prog X B cfg lc leaf t p)"
  unfolding insert_prog_def Let_def by (auto intro!: disciplined split: sum.split prod.split)

lemma order_add_leaf [disciplined]: "below_manager H \<Longrightarrow> keeps_order H (add_leaf_prog X B cfg leaf t)"
  unfolding add_leaf_prog_def Let_def by (auto intro!: disciplined split: option.split)

lemma order_delete [disciplined]: "keeps_order H (delete_prog B l xs)"
  by (induction xs) (auto intro!: disciplined)

lemma order_policy [disciplined]: "keeps_order H (policy_prog U B now l p)"
  unfolding policy_prog_def listed_prog_def
  by (auto intro!: disciplined split: rollup_retention_policy.split sum.split)

lemma order_levels [disciplined]: "keeps_order H (levels_prog U B cfg now xs)"
  by (induction xs) (auto intro!: disciplined)

lemma order_call: "keeps_order {} (call_prog X U C cfg c)"
  unfolding call_prog_def append_leaf_prog_def get_page_prog_def retention_prog_def on_journal_manager_def
  by (auto intro!: disciplined split: call.split operation.split sum.split option.split)

lemma start_well_guarded: "well_guarded mutex_rank (start_progs X U C cfg cs w)"
  unfolding start_progs_def by (rule well_guarded_start) (auto intro: order_call)

section \<open>Their runs are schedules of the tasks\<close>

text \<open>
  The task of call \<open>i\<close>: \<open>last_leaf_hash\<close> is the lock of the tasks, the other guards are erased.
\<close>

definition world_of :: "shared \<Rightarrow> world" where
  "world_of M = (sh_journal M, sh_next_leaf_id M)"

definition put_world :: "world \<Rightarrow> shared \<Rightarrow> shared" where
  "put_world w M = M\<lparr>sh_journal := fst w, sh_next_leaf_id := snd w\<rparr>"

primrec erase_call :: "nat \<Rightarrow> (world, 'a) guarded \<Rightarrow> (shared, 'a) task" where
  "erase_call i (Ret a) = Done a"
| "erase_call i (Lock x t) =
     (if x = LastLeafHash then then_do (lock_task i) (\<lambda>_. erase_call i t) else erase_call i t)"
| "erase_call i (Unlock x t) =
     (if x = LastLeafHash then then_do (change (unlock i)) (\<lambda>_. erase_call i t) else erase_call i t)"
| "erase_call i (Do f) =
     Step (\<lambda>M. case map_prod (erase_call i) id (f (world_of M)) of (t, w) \<Rightarrow> Some (t, put_world w M))"

lemma erase_call_and_then:
  "erase_call i (and_then t k) = then_do (erase_call i t) (\<lambda>a. erase_call i (k a))"
  by (induction t rule: prog_induct) (auto simp: fun_eq_iff map_prod_def split_def then_do_assoc)

lemma erase_call_and_try:
  "erase_call i (and_try t k) = try_do (erase_call i t) (\<lambda>a. erase_call i (k a))"
  by (simp add: and_try_def try_do_def erase_call_and_then sum.case_distrib[of "erase_call i"]
      cong: sum.case_cong)

lemma erase_call_act:
  "erase_call i (act f) = access (\<lambda>M. case f (world_of M) of (a, w) \<Rightarrow> (a, put_world w M))"
  by (simp add: act_def access_def fun_eq_iff split: prod.split)

lemma put_same_world [simp]: "put_world (world_of M) M = M"
  by (simp add: put_world_def world_of_def)

lemma erase_call_see: "erase_call i (see f) = look (\<lambda>M. f (world_of M))"
  by (simp add: see_def look_def erase_call_act)

lemma erase_call_upd: "erase_call i (upd f) = change (\<lambda>M. put_world (f (world_of M)) M)"
  by (simp add: upd_def change_def erase_call_act)

lemma erase_call_holding:
  "erase_call i (holding LastLeafHash t) = then_do (lock_task i) (\<lambda>_. then_do (erase_call i t) (\<lambda>r.
     then_do (change (unlock i)) (\<lambda>_. Done r)))"
  "x \<noteq> LastLeafHash \<Longrightarrow> erase_call i (holding x t) = erase_call i t"
  by (simp_all add: holding_def erase_call_and_then)

text \<open>
  A program that keeps the order with and without \<open>last_leaf_hash\<close> held does not touch it.
\<close>

lemma erase_call_part:
  assumes "obeys mutex_rank H t H1" and "obeys mutex_rank (insert LastLeafHash H) t H2" and "LastLeafHash \<notin> H"
  shows "erase_call i (over_part (\<lambda>w. manager (fst w)) (\<lambda>m w. ((fst w)\<lparr>manager := m\<rparr>, snd w)) t) =
    on_part (\<lambda>M. manager (sh_journal M)) (\<lambda>m M. M\<lparr>sh_journal := (sh_journal M)\<lparr>manager := m\<rparr>\<rparr>) (erase t)"
  using assms
proof (induction t arbitrary: H rule: prog_induct)
  case (Lock x t)
  then have "x \<noteq> LastLeafHash" "obeys mutex_rank (insert x H) t H1"
    "obeys mutex_rank (insert LastLeafHash (insert x H)) t H2"
    by (auto simp: insert_commute)
  with Lock.IH[of "insert x H"] Lock.prems(3) show ?case by auto
next
  case (Unlock x t)
  then have x: "x \<in> H" "x \<noteq> LastLeafHash" "obeys mutex_rank (H - {x}) t H1" by auto
  have "obeys mutex_rank (insert LastLeafHash H - {x}) t H2" using Unlock.prems(2) by blast
  moreover have "insert LastLeafHash H - {x} = insert LastLeafHash (H - {x})" using x(2) by blast
  ultimately have "obeys mutex_rank (insert LastLeafHash (H - {x})) t H2" by (simp only:)
  from Unlock.IH[OF x(3) this] Unlock.prems(3) x(2) show ?case by simp
next
  case (Do f)
  have "obeys mutex_rank H (fst (f m)) H1" "obeys mutex_rank (insert LastLeafHash H) (fst (f m)) H2" for m
    using Do.prems by auto
  then show ?case using Do.IH[of H] Do.prems(3)
    by (simp add: fun_eq_iff map_prod_def split_def world_of_def put_world_def)
qed simp

lemma erase_call_manager:
  "keeps_order {} t \<Longrightarrow> keeps_order {LastLeafHash} t \<Longrightarrow> erase_call i (on_journal_manager t) = on_manager (erase t)"
  unfolding on_journal_manager_def on_manager_def by (rule erase_call_part) auto

lemma erase_append_leaf:
  "erase_call i (append_leaf_prog X C cfg ts ph c d) = append_leaf_task X C cfg i ts ph c d"
proof -
  have m: "erase_call i (on_journal_manager (add_leaf_prog X B cfg leaf ts)) = on_manager (add_leaf_task X B cfg leaf ts)"
    for B leaf
    unfolding erase_add_leaf[symmetric] by (rule erase_call_manager) (auto intro: disciplined)
  have l: "access (\<lambda>M. case leaf_of_call X ts ph c d (world_of M) of (a, w) \<Rightarrow> (a, put_world w M)) =
      access (new_leaf X ts ph c d)"
    by (simp add: access_def leaf_of_call_def new_leaf_def world_of_def put_world_def fun_eq_iff split: prod.split)
  have s: "change (\<lambda>M. put_world ((fst (world_of M))\<lparr>last_leaf_hash := Some h\<rparr>, snd (world_of M)) M) =
      change (set_last_hash h)" for h
    by (simp add: change_def access_def set_last_hash_def world_of_def put_world_def fun_eq_iff)
  show ?thesis
    by (simp add: append_leaf_prog_def append_leaf_task_def locked_append_def erase_call_holding erase_call_and_try
        erase_call_and_then erase_call_act erase_call_upd m l s)
qed

lemma erase_get_page: "erase_call i (get_page_prog C l k) = get_page_task C l k"
  by (simp add: get_page_prog_def get_page_task_def erase_call_and_then erase_call_see erase_call_holding world_of_def
      sum.case_distrib[of "erase_call i"] option.case_distrib[of "erase_call i"] cong: sum.case_cong option.case_cong)

lemma erase_retention: "erase_call i (retention_prog U C cfg now) = retention_task U C cfg now"
  unfolding retention_prog_def retention_task_def erase_levels[symmetric]
  by (rule erase_call_manager) (auto intro: disciplined)

lemma erase_call_prog: "erase_call i (call_prog X U C cfg c) = call_task X U C cfg i c"
  by (simp add: call_prog_def call_task_def op_task_def erase_call_and_then erase_append_leaf erase_get_page
      erase_retention then_do_assoc split: call.split operation.split)

definition tasks_of :: "(mutex, world, 'a) guarded_system \<Rightarrow> (shared, 'a) system" where
  "tasks_of s = (case s of (ts, own, w) \<Rightarrow>
     (map (\<lambda>i. map_option (erase_call i) (ts ! i)) [0..<length ts],
      \<lparr>sh_journal = fst w, sh_next_leaf_id = snd w, sh_lock = own LastLeafHash\<rparr>))"

lemma tasks_of_update:
  "i < length ts \<Longrightarrow> map (\<lambda>j. map_option (erase_call j) (ts[i := Some t] ! j)) [0..<length ts] =
     (map (\<lambda>j. map_option (erase_call j) (ts ! j)) [0..<length ts])[i := Some (erase_call i t)]"
  by (rule nth_equalityI) (auto simp: nth_list_update)

lemma lock_then:
  "then_do (lock_task i) (\<lambda>_. t) =
     Step (\<lambda>M. if sh_lock M = None then Some (t, M\<lparr>sh_lock := Some i\<rparr>) else None)"
  by (simp add: lock_task_def fun_eq_iff)

lemma unlock_then: "then_do (change (unlock i)) (\<lambda>_. t) = Step (\<lambda>M. Some (t, unlock i M))"
  by (simp add: change_def access_def fun_eq_iff)

lemma guard_step_schedule:
  assumes "guard_step s s'"
  shows "system_step\<^sup>*\<^sup>* (tasks_of s) (tasks_of s')"
  using assms
proof (induction rule: guard_step.induct)
  case (lock i ts x t own w)
  let ?ts = "map (\<lambda>j. map_option (erase_call j) (ts ! j)) [0..<length ts]"
  show ?case
  proof (cases "x = LastLeafHash")
    case True
    have "system_step (?ts, \<lparr>sh_journal = fst w, sh_next_leaf_id = snd w, sh_lock = own LastLeafHash\<rparr>)
        (?ts[i := Some (erase_call i t)], \<lparr>sh_journal = fst w, sh_next_leaf_id = snd w, sh_lock = Some i\<rparr>)"
      by (rule system_step.run[where f = "\<lambda>M. if sh_lock M = None
          then Some (erase_call i t, M\<lparr>sh_lock := Some i\<rparr>) else None"])
        (use lock True in \<open>simp_all add: lock_then\<close>)
    with lock(1) True show ?thesis by (auto simp: tasks_of_def tasks_of_update)
  next
    case False
    with lock have "?ts[i := Some (erase_call i t)] = ?ts" by (intro nth_equalityI) (auto simp: nth_list_update)
    with lock(1) False show ?thesis by (simp add: tasks_of_def tasks_of_update)
  qed
next
  case (unlock i ts x t own w)
  let ?ts = "map (\<lambda>j. map_option (erase_call j) (ts ! j)) [0..<length ts]"
  show ?case
  proof (cases "x = LastLeafHash")
    case True
    have "system_step (?ts, \<lparr>sh_journal = fst w, sh_next_leaf_id = snd w, sh_lock = own LastLeafHash\<rparr>)
        (?ts[i := Some (erase_call i t)], \<lparr>sh_journal = fst w, sh_next_leaf_id = snd w, sh_lock = None\<rparr>)"
      by (rule system_step.run[where f = "\<lambda>M. Some (erase_call i t, unlock i M)"])
        (use unlock True in \<open>simp_all add: unlock_then unlock_def\<close>)
    with unlock(1) True show ?thesis by (auto simp: tasks_of_def tasks_of_update)
  next
    case False
    with unlock have "?ts[i := Some (erase_call i t)] = ?ts" by (intro nth_equalityI) (auto simp: nth_list_update)
    with unlock(1) False show ?thesis by (simp add: tasks_of_def tasks_of_update)
  qed
next
  case (act i ts f w t w' own)
  let ?ts = "map (\<lambda>j. map_option (erase_call j) (ts ! j)) [0..<length ts]"
  have "system_step (?ts, \<lparr>sh_journal = fst w, sh_next_leaf_id = snd w, sh_lock = own LastLeafHash\<rparr>)
      (?ts[i := Some (erase_call i t)], \<lparr>sh_journal = fst w', sh_next_leaf_id = snd w', sh_lock = own LastLeafHash\<rparr>)"
    by (rule system_step.run[where f = "\<lambda>M. case map_prod (erase_call i) id (f (world_of M)) of
        (t, w) \<Rightarrow> Some (t, put_world w M)"])
      (use act in \<open>simp_all add: world_of_def put_world_def\<close>)
  with act(1) show ?case by (auto simp: tasks_of_def tasks_of_update)
qed

text \<open>So what holds of every schedule of the tasks holds of every run with the guards.\<close>

lemma guarded_runs_are_schedules:
  assumes "guard_step\<^sup>*\<^sup>* (start_progs X U C cfg cs (j, n)) s"
  shows "system_step\<^sup>*\<^sup>* (start_calls X U C cfg cs, fresh_shared j n) (tasks_of s)"
proof -
  have "tasks_of (start_progs X U C cfg cs (j, n)) = (start_calls X U C cfg cs, fresh_shared j n)"
    by (simp add: tasks_of_def start_progs_def start_calls_def fresh_shared_def erase_call_prog)
  moreover have "system_step\<^sup>*\<^sup>* (tasks_of (start_progs X U C cfg cs (j, n))) (tasks_of s)"
    using assms by (induction rule: rtranclp_induct) (auto intro: rtranclp_trans guard_step_schedule)
  ultimately show ?thesis by simp
qed

section \<open>No deadlock\<close>

text \<open>
  C8: no schedule of calls deadlocks on the journal's mutexes. From the start of any number
  of \<open>append_leaf\<close>, \<open>get_page\<close> and \<open>apply_retention_policies\<close> calls, whatever acquisitions,
  accesses and drops of guards they take and whichever calls are dropped halfway, on any
  storage and journal: as long as a call is unfinished some call is not waiting and can go on,
  the calls can all be brought to an end, and when they have ended all four mutexes are free.
  In particular no call waits for a mutex whose guard it holds itself.
\<close>

theorem calls_never_deadlock:
  assumes "guard_drop_step\<^sup>*\<^sup>* (start_progs X U C cfg cs w) (ts, own, w')"
  shows "(\<not> ended (ts, own, w') \<longrightarrow> (\<exists>s. guard_step (ts, own, w') s)) \<and>
    (\<exists>s. guard_step\<^sup>*\<^sup>* (ts, own, w') s \<and> ended s) \<and>
    (ended (ts, own, w') \<longrightarrow> own = Map.empty) \<and>
    (\<forall>i<length ts. \<forall>x t. ts ! i = Some (Lock x t) \<longrightarrow> own x \<noteq> Some i)"
proof -
  have W: "well_guarded mutex_rank (ts, own, w')"
    by (rule well_guarded_reachable[OF assms start_well_guarded])
  have "own x \<noteq> Some i" if "i < length ts" "ts ! i = Some (Lock x t)" for i x t
    using well_guardedD(1)[OF W that] by (auto simp: held_def)
  with journal_mutexes.progress[OF W] journal_mutexes.ends[OF W] journal_mutexes.all_free[OF W]
  show ?thesis by blast
qed

text \<open>Two appends: the second waits for \<open>last_leaf_hash\<close>, and both can still be brought to an end.\<close>

theorem calls_never_deadlock_witness:
  "\<exists>j ts own t s. journal_new memory_config sample_disk = Inr j \<and>
     guard_step\<^sup>*\<^sup>* (start_progs sample_hashing (sort_key sum_end_time) sample_codecs memory_config
       [OpCall (AppendOp (request 5)), OpCall (AppendOp (request 7))] (j, 0)) (ts, own, (j, 0)) \<and>
     own LastLeafHash = Some 0 \<and> ts ! 1 = Some (Lock LastLeafHash t) \<and>
     guard_step\<^sup>*\<^sup>* (ts, own, (j, 0)) s \<and> ended s"
proof -
  obtain j where j: "journal_new memory_config sample_disk = Inr j"
    by (simp add: journal_new_def create_storage_backend_def)
  let ?call = "\<lambda>r. call_prog sample_hashing (sort_key sum_end_time) sample_codecs memory_config (OpCall (AppendOp r))"
  let ?start = "start_progs sample_hashing (sort_key sum_end_time) sample_codecs memory_config
    [OpCall (AppendOp (request 5)), OpCall (AppendOp (request 7))] (j, 0)"
  have "\<exists>t. ?call r = Lock LastLeafHash t" for r
    by (simp add: call_prog_def append_leaf_prog_def holding_def)
  then obtain t u where t: "?call (request 5) = Lock LastLeafHash t" and u: "?call (request 7) = Lock LastLeafHash u"
    by metis
  have start: "?start = ([Some (Lock LastLeafHash t), Some (Lock LastLeafHash u)], Map.empty, (j, 0))"
    by (simp add: start_progs_def t u)
  let ?next = "([Some t, Some (Lock LastLeafHash u)], [LastLeafHash \<mapsto> 0], (j, 0::nat))"
  have "guard_step ?start ?next"
    unfolding start using guard_step.lock[of 0 "[Some (Lock LastLeafHash t), Some (Lock LastLeafHash u)]"] by simp
  then have r: "guard_step\<^sup>*\<^sup>* ?start ?next" and d: "guard_drop_step\<^sup>*\<^sup>* ?start ?next"
    by (auto intro: guard_drop_step.step)
  from calls_never_deadlock[OF d] obtain s where "guard_step\<^sup>*\<^sup>* ?next s" "ended s" by blast
  with j r show ?thesis
    by (intro exI[of _ j] exI[of _ "fst ?next"] exI[of _ "fst (snd ?next)"] exI[of _ u] exI[of _ s]) simp
qed

end
