(* ===== verification/Demo_Text.thy ===== *)
theory Demo_Text
  imports Turnstile
begin

text \<open>
  The operations on Rust strings the demonstration program uses: trimming, splitting,
  parsing integers, padding. A string is its UTF-8 bytes, one \<open>char\<close> each, so that lengths
  are in bytes, as \<open>str::len\<close> has them, and a width counts the bytes that begin a character.
\<close>

section \<open>Characters\<close>

definition continuation :: "char \<Rightarrow> bool" where
  "continuation c \<longleftrightarrow> 128 \<le> (of_char c :: nat) \<and> (of_char c :: nat) < 192"

definition char_count :: "string \<Rightarrow> nat" where
  "char_count s = length (filter (\<lambda>c. \<not> continuation c) s)"

definition upper_char :: "char \<Rightarrow> char" where
  "upper_char c =
     (if 97 \<le> (of_char c :: nat) \<and> (of_char c :: nat) \<le> 122
      then char_of ((of_char c :: nat) - 32) else c)"

text \<open>The bytes that a serialiser or formatter returns, read as text.\<close>

definition text_of :: "bytes \<Rightarrow> string" where
  "text_of bs = map (\<lambda>b. char_of (unat b)) bs"

definition pad_left :: "nat \<Rightarrow> string \<Rightarrow> string" where
  "pad_left w s = replicate (w - char_count s) (CHR '' '') @ s"

definition pad_right :: "nat \<Rightarrow> string \<Rightarrow> string" where
  "pad_right w s = s @ replicate (w - char_count s) (CHR '' '')"

section \<open>Trimming and splitting\<close>

text \<open>Remove prefixes from a list of nonempty strings as long as one matches.\<close>

definition starts_with :: "string \<Rightarrow> string \<Rightarrow> bool" where
  "starts_with w s \<longleftrightarrow> take (length w) s = w"

function trim_prefix :: "string list \<Rightarrow> string \<Rightarrow> string" where
  "trim_prefix ws s =
     (case find (\<lambda>w. w \<noteq> [] \<and> starts_with w s) ws of
        None \<Rightarrow> s
      | Some w \<Rightarrow> trim_prefix ws (drop (length w) s))"
  by pat_completeness auto
termination
proof (relation "measure (length \<circ> snd)", simp_all)
  fix ws s w assume "find (\<lambda>w. w \<noteq> [] \<and> starts_with w s) ws = Some w"
  then have "w \<noteq> []" "take (length w) s = w" by (auto simp: find_Some_iff starts_with_def)
  then show "length s - length w < length s" by (cases s) auto
qed

declare trim_prefix.simps [simp del]

text \<open>The characters with the Unicode property \<open>White_Space\<close>.\<close>

definition white_space :: "string list" where
  "white_space = map (map char_of)
     ([[9], [10], [11], [12], [13], [32], [194, 133], [194, 160], [225, 154, 128], [226, 128, 168],
       [226, 128, 169], [226, 128, 175], [226, 129, 159], [227, 128, 128::nat]] @
      map (\<lambda>n. [226, 128, n]) [128..<139])"

definition trim_start :: "string \<Rightarrow> string" where
  "trim_start s = trim_prefix white_space s"

definition trim_end :: "string \<Rightarrow> string" where
  "trim_end s = rev (trim_prefix (map rev white_space) (rev s))"

definition trim :: "string \<Rightarrow> string" where
  "trim s = trim_end (trim_start s)"

fun split_on :: "(char \<Rightarrow> bool) \<Rightarrow> string \<Rightarrow> string list" where
  "split_on P [] = [[]]"
| "split_on P (c # cs) =
     (if P c then [] # split_on P cs
      else case split_on P cs of w # ws \<Rightarrow> (c # w) # ws | [] \<Rightarrow> [[c]])"

section \<open>Integers\<close>

text \<open>\<open>str::parse\<close> at a signed type of \<open>w\<close> bits, and at an unsigned one.\<close>

definition parse_signed :: "nat \<Rightarrow> string \<Rightarrow> int option" where
  "parse_signed w s =
     (let (neg, ds) = (case s of
            c # cs \<Rightarrow> if c = CHR ''-'' then (True, cs) else if c = CHR ''+'' then (False, cs) else (False, s)
          | [] \<Rightarrow> (False, []));
          v = (if neg then - int (digits_value ds) else int (digits_value ds))
      in if ds \<noteq> [] \<and> (\<forall>c\<in>set ds. is_digit c) \<and> - (2 ^ (w - 1)) \<le> v \<and> v < 2 ^ (w - 1)
         then Some v else None)"

definition parse_unsigned :: "nat \<Rightarrow> string \<Rightarrow> nat option" where
  "parse_unsigned w s =
     (let ds = (case s of c # cs \<Rightarrow> if c = CHR ''+'' then cs else s | [] \<Rightarrow> [])
      in if ds \<noteq> [] \<and> (\<forall>c\<in>set ds. is_digit c) \<and> digits_value ds < 2 ^ w
         then Some (digits_value ds) else None)"

definition dec_int :: "int \<Rightarrow> string" where
  "dec_int n = (if n < 0 then CHR ''-'' # dec_digits (nat (- n)) else dec_digits (nat n))"

section \<open>Facts\<close>

lemma split_on_not_Nil [simp]: "split_on P s \<noteq> []"
  by (induction s) (auto split: list.split)

lemma split_on_word: "\<forall>c\<in>set w. \<not> P c \<Longrightarrow> split_on P w = [w]"
  by (induction w) auto

lemma split_on_append:
  assumes "\<forall>c\<in>set w. \<not> P c" and "P d"
  shows "split_on P (w @ d # s) = w # split_on P s"
  using assms(1) by (induction w) (auto simp: assms(2))

lemma dec_digits_first: "\<exists>c cs. dec_digits n = c # cs \<and> is_digit c"
proof -
  have "dec_digits n \<noteq> []" by (subst dec_digits.simps) simp
  then obtain c cs where "dec_digits n = c # cs" by (cases "dec_digits n") auto
  with dec_digits_digits[of c n] show ?thesis by simp
qed

lemma parse_unsigned_dec: "n < 2 ^ w \<Longrightarrow> parse_unsigned w (dec_digits n) = Some n"
proof -
  obtain c cs where c: "dec_digits n = c # cs" "is_digit c" using dec_digits_first by blast
  have "\<not> is_digit (CHR ''+'')" by (simp add: is_digit_def)
  then have "c \<noteq> CHR ''+''" using c(2) by blast
  moreover have "\<forall>c\<in>set (dec_digits n). is_digit c" using dec_digits_digits by blast
  moreover assume "n < 2 ^ w"
  moreover have "digits_value (c # cs) = n" using digits_value_dec[of n] c(1) by simp
  ultimately show ?thesis using c(1) by (simp add: parse_unsigned_def)
qed

lemma parse_signed_dec:
  assumes "n < 2 ^ (w - 1)" and "0 \<le> n"
  shows "parse_signed w (dec_int n) = Some n"
proof -
  obtain c cs where c: "dec_digits (nat n) = c # cs" "is_digit c" using dec_digits_first by blast
  have "\<not> is_digit (CHR ''+'')" "\<not> is_digit (CHR ''-'')" by (simp_all add: is_digit_def)
  then have "c \<noteq> CHR ''+''" "c \<noteq> CHR ''-''" using c(2) by blast+
  moreover have "\<forall>c\<in>set (dec_digits (nat n)). is_digit c" using dec_digits_digits by blast
  moreover have "digits_value (c # cs) = nat n" using digits_value_dec[of "nat n"] c(1) by simp
  moreover have "- (2 ^ (w - 1)) \<le> n" using assms(2) by (smt (verit) zero_le_power)
  ultimately show ?thesis using assms c(1) by (simp add: parse_signed_def dec_int_def)
qed

text \<open>Text that begins and ends with a visible ASCII character is not trimmed.\<close>

definition visible :: "char \<Rightarrow> bool" where
  "visible c \<longleftrightarrow> 32 < (of_char c :: nat) \<and> (of_char c :: nat) < 128"

lemma trim_prefix_none: "\<forall>w\<in>set ws. \<not> starts_with w s \<Longrightarrow> trim_prefix ws s = s"
  by (subst trim_prefix.simps) (auto simp: find_None_iff split: option.split dest!: find_Some_iff[THEN iffD1])

lemma starts_with_hd: "starts_with w s \<Longrightarrow> w \<noteq> [] \<Longrightarrow> s \<noteq> [] \<Longrightarrow> hd w = hd s"
  by (cases w; cases s) (auto simp: starts_with_def)

lemma white_space_visible: "\<forall>w\<in>set white_space. w \<noteq> [] \<and> \<not> visible (hd w) \<and> \<not> visible (last w)"
  by (simp add: white_space_def visible_def atLeastLessThan_upt upt_conv_Cons)

lemma trim_visible:
  assumes "s \<noteq> []" and "visible (hd s)" and "visible (last s)"
  shows "trim s = s"
proof -
  have "trim_start s = s"
    unfolding trim_start_def using assms white_space_visible
    by (intro trim_prefix_none) (metis starts_with_hd)
  moreover have "hd (rev s) = last s" "rev s \<noteq> []" using assms(1) by (simp_all add: hd_rev)
  then have "trim_prefix (map rev white_space) (rev s) = rev s"
    using assms white_space_visible
    by (intro trim_prefix_none) (auto dest!: starts_with_hd simp: hd_rev)
  ultimately show ?thesis by (simp add: trim_def trim_end_def)
qed

lemma digit_visible: "is_digit c \<Longrightarrow> visible c"
  by (simp add: is_digit_def visible_def)

end
