(* ===== verification/Demo_Cli.thy ===== *)
theory Demo_Cli
  imports Demo_Text Journal_Api
begin

text \<open>
  The commands of the demonstration program, \<open>src/demo_cli/mod.rs\<close>, that read a journal and
  let a user walk through it: the listings of leaves and pages, the navigator with its
  prompts, the reversal of a database, the log viewer and the menu.

  What is written to the terminal is the list of lines in the order they are written;
  colours, the cursor and clearing the screen are left out, and terminal calls succeed.
  Of the terminal's modes the model has raw mode and the alternate screen. The user is a
  list of events, \<open>Idle\<close> where \<open>event::poll\<close> finds nothing or another event than a key
  press, and the list of the lines typed at prompts. The loops end, as \<open>Waiting\<close>, where the
  events do. Formatting of times, JSON text, parsing a time, the calendar, the clock and the
  PostgreSQL client are parameters.
\<close>

section \<open>Parameters and output\<close>

text \<open>
  \<open>pg_runs\<close> tells whether the server accepts the last of the statements sent so far in the
  transaction; a statement has its text and its parameters.
\<close>

type_synonym sql = "string \<times> string list"

record demo_env =
  strftime :: "string \<Rightarrow> timestamp \<Rightarrow> string"
  iso_week :: "timestamp \<Rightarrow> nat \<times> int"
  json_pretty :: "json \<Rightarrow> string option"
  page_pretty :: "journal_page \<Rightarrow> string option"
  patches_pretty :: "net_patches \<Rightarrow> string option"
  parse_time :: "string \<Rightarrow> timestamp option"
  from_ymd :: "int \<Rightarrow> nat \<Rightarrow> nat \<Rightarrow> int option"
  and_hms :: "int \<Rightarrow> nat \<Rightarrow> nat \<Rightarrow> nat \<Rightarrow> timestamp option"
  utc_now :: "nat \<Rightarrow> timestamp"
  terminal_width :: nat
  pg_connects :: "string \<Rightarrow> bool"
  pg_runs :: "string \<Rightarrow> sql list \<Rightarrow> bool"
  pg_commits :: "string \<Rightarrow> sql list \<Rightarrow> bool"

definition show_time :: "externals \<Rightarrow> timestamp \<Rightarrow> string" where
  "show_time X t = text_of (rfc3339 X t)"

definition show_json :: "externals \<Rightarrow> json \<Rightarrow> string" where
  "show_json X v = (case json_to_vec X v of Some b \<Rightarrow> text_of b | None \<Rightarrow> [])"

definition or_default :: "string option \<Rightarrow> string" where
  "or_default s = (case s of Some t \<Rightarrow> t | None \<Rightarrow> [])"

definition show_hash :: "turnstile_codecs \<Rightarrow> hash option \<Rightarrow> string" where
  "show_hash T h = (case h of Some h \<Rightarrow> hex_encode T h | None \<Rightarrow> ''None'')"

section \<open>Leaves\<close>

text \<open>The summaries of the stored L0 pages and of the active one, by page id.\<close>

definition leaf_page_summaries :: "codecs \<Rightarrow> journal \<Rightarrow> cj_error + page_summary list" where
  "leaf_page_summaries C j =
     (case list_finalized_pages_summary (any_backend C) (storage (manager j)) 0 of
        Inl e \<Rightarrow> Inl e
      | Inr pages \<Rightarrow> Inr (sort_key sum_page_id (pages @
          (case get_active_page (manager j) 0 of Some active \<Rightarrow> [summary_of active] | None \<Rightarrow> []))))"

definition load_summarised :: "codecs \<Rightarrow> journal \<Rightarrow> page_summary \<Rightarrow> cj_error + journal_page option" where
  "load_summarised C j s = load_page (any_backend C) (storage (manager j)) (sum_level s) (sum_page_id s)"

fun container_leaves :: "string \<Rightarrow> journal_page option \<Rightarrow> journal_leaf list" where
  "container_leaves c None = []"
| "container_leaves c (Some page) =
     (case content page of
        Leaves leaves \<Rightarrow> filter (\<lambda>l. container_id l = c) leaves
      | _ \<Rightarrow> [])"

definition leaf_line :: "externals \<Rightarrow> turnstile_codecs \<Rightarrow> journal_leaf \<Rightarrow> string" where
  "leaf_line X T l =
     pad_left 6 (dec_digits (leaf_id l)) @ '' '' @ show_time X (leaf_timestamp l) @ '' '' @
     hex_encode T (leaf_hash l)"

text \<open>The loops over the summaries; an error stops them, what was printed before stays.\<close>

primrec list_each ::
  "externals \<Rightarrow> turnstile_codecs \<Rightarrow> codecs \<Rightarrow> journal \<Rightarrow> string \<Rightarrow> page_summary list \<Rightarrow> string list \<Rightarrow>
    (cj_error + unit) \<times> string list" where
  "list_each X T C j c [] out = (Inr (), out)"
| "list_each X T C j c (s # ss) out =
     (case load_summarised C j s of
        Inl e \<Rightarrow> (Inl e, out)
      | Inr page \<Rightarrow> list_each X T C j c ss (out @ map (leaf_line X T) (container_leaves c page)))"

definition list_leaves ::
  "externals \<Rightarrow> turnstile_codecs \<Rightarrow> codecs \<Rightarrow> journal \<Rightarrow> string \<Rightarrow> string list \<Rightarrow>
    (cj_error + unit) \<times> string list" where
  "list_leaves X T C j c out =
     (case leaf_page_summaries C j of
        Inl e \<Rightarrow> (Inl e, out)
      | Inr pages \<Rightarrow> list_each X T C j c pages out)"

primrec find_leaf ::
  "codecs \<Rightarrow> journal \<Rightarrow> string \<Rightarrow> nat \<Rightarrow> page_summary list \<Rightarrow> cj_error + journal_leaf option" where
  "find_leaf C j c i [] = Inr None"
| "find_leaf C j c i (s # ss) =
     (case load_summarised C j s of
        Inl e \<Rightarrow> Inl e
      | Inr page \<Rightarrow>
          (case find (\<lambda>l. leaf_id l = i) (container_leaves c page) of
             Some l \<Rightarrow> Inr (Some l)
           | None \<Rightarrow> find_leaf C j c i ss))"

definition show_leaf ::
  "externals \<Rightarrow> demo_env \<Rightarrow> turnstile_codecs \<Rightarrow> codecs \<Rightarrow> journal \<Rightarrow> string \<Rightarrow> nat \<Rightarrow> bool \<Rightarrow>
    cj_error + string list" where
  "show_leaf X E T C j c i pretty =
     (case try_pure (leaf_page_summaries C j) (find_leaf C j c i) of
        Inl e \<Rightarrow> Inl e
      | Inr None \<Rightarrow> Inr [''Leaf '' @ dec_digits i @ '' not found'']
      | Inr (Some l) \<Rightarrow> Inr
          [''Leaf '' @ dec_digits i @ '' @ '' @ show_time X (leaf_timestamp l),
           ''Prev: '' @ show_hash T (leaf_prev_hash l),
           ''Payload: '' @ (if pretty then or_default (json_pretty E (delta_payload l))
                            else show_json X (delta_payload l)),
           ''Hash: '' @ hex_encode T (leaf_hash l)])"

primrec collect_each ::
  "codecs \<Rightarrow> journal \<Rightarrow> string \<Rightarrow> page_summary list \<Rightarrow> journal_leaf list \<Rightarrow> cj_error + journal_leaf list" where
  "collect_each C j c [] leaves = Inr leaves"
| "collect_each C j c (s # ss) leaves =
     (case load_summarised C j s of
        Inl e \<Rightarrow> Inl e
      | Inr page \<Rightarrow> collect_each C j c ss (leaves @ container_leaves c page))"

definition collect_leaves :: "codecs \<Rightarrow> journal \<Rightarrow> string \<Rightarrow> cj_error + journal_leaf list" where
  "collect_leaves C j c =
     try_pure (leaf_page_summaries C j) (\<lambda>pages.
     try_pure (collect_each C j c pages []) (\<lambda>leaves. Inr (sort_key leaf_id leaves)))"

section \<open>Pages\<close>

definition page_label :: "demo_env \<Rightarrow> journal_page \<Rightarrow> string" where
  "page_label E p =
     (let t = creation_timestamp p; l = page_level p
      in if l = 0 then map upper_char (strftime E ''%-d%b%Y'' t)
         else if l = 1 then (case iso_week E t of (week, year) \<Rightarrow> ''W'' @ dec_digits week @ dec_int year)
         else if l = 2 then map upper_char (strftime E ''%b%Y'' t)
         else if l = 3 then strftime E ''%Y'' t
         else ''L'' @ dec_digits l @ ''P'' @ dec_digits (page_id p))"

definition page_title :: "demo_env \<Rightarrow> journal_page \<Rightarrow> string" where
  "page_title E p =
     page_label E p @ '' (L'' @ dec_digits (page_level p) @ ''P'' @ dec_digits (page_id p) @ '')''"

primrec pages_each ::
  "demo_env \<Rightarrow> codecs \<Rightarrow> journal \<Rightarrow> page_summary list \<Rightarrow> string list \<Rightarrow> (cj_error + unit) \<times> string list" where
  "pages_each E C j [] out = (Inr (), out)"
| "pages_each E C j (s # ss) out =
     (case load_summarised C j s of
        Inl e \<Rightarrow> (Inl e, out)
      | Inr None \<Rightarrow> pages_each E C j ss out
      | Inr (Some page) \<Rightarrow> pages_each E C j ss (out @ [page_title E page]))"

text \<open>\<open>level as u8\<close>.\<close>

definition list_pages ::
  "demo_env \<Rightarrow> codecs \<Rightarrow> journal \<Rightarrow> nat \<Rightarrow> string list \<Rightarrow> (cj_error + unit) \<times> string list" where
  "list_pages E C j l out =
     (case list_finalized_pages_summary (any_backend C) (storage (manager j)) (l mod 256) of
        Inl e \<Rightarrow> (Inl e, out)
      | Inr pages \<Rightarrow> pages_each E C j (sort_key sum_page_id pages) out)"

definition counted :: "string \<Rightarrow> 'a list \<Rightarrow> string" where
  "counted title xs = title @ '' ('' @ dec_digits (length xs) @ ''):''"

fun content_lines ::
  "externals \<Rightarrow> demo_env \<Rightarrow> turnstile_codecs \<Rightarrow> page_content \<Rightarrow> string list" where
  "content_lines X E T (Leaves leaves) =
     counted ''Leaves'' leaves # map (\<lambda>l. ''  #'' @ leaf_line X T l) leaves"
| "content_lines X E T (ThrallHashes hs) =
     counted ''Child Page Hashes'' hs # map (\<lambda>h. ''  '' @ hex_encode T h) hs"
| "content_lines X E T (NetPatches ps) = [''NetPatch: '' @ or_default (patches_pretty E ps)]"
| "content_lines X E T (ThrallHashesWithNetPatches hs ps) =
     counted ''Child Page Hashes'' hs # map (\<lambda>h. ''  '' @ hex_encode T h) hs @
     [''NetPatch: '' @ or_default (patches_pretty E ps)]"
| "content_lines X E T (Snapshot _) = [''Snapshot page'']"

definition page_lines ::
  "externals \<Rightarrow> demo_env \<Rightarrow> turnstile_codecs \<Rightarrow> journal_page \<Rightarrow> string list" where
  "page_lines X E T p =
     [page_title E p,
      ''Start: '' @ show_time X (creation_timestamp p),
      ''End: '' @ show_time X (end_time p),
      ''Prev: '' @ show_hash T (prev_page_hash p),
      ''Merkle: '' @ hex_encode T (page_merkle_root p),
      ''Hash: '' @ hex_encode T (page_hash p)] @ content_lines X E T (content p)"

primrec find_page_by_id :: "codecs \<Rightarrow> journal \<Rightarrow> nat \<Rightarrow> nat list \<Rightarrow> cj_error + journal_page option" where
  "find_page_by_id C j i [] = Inr None"
| "find_page_by_id C j i (l # ls) =
     (case load_page (any_backend C) (storage (manager j)) l i of
        Inl e \<Rightarrow> Inl e
      | Inr (Some page) \<Rightarrow> Inr (Some page)
      | Inr None \<Rightarrow> find_page_by_id C j i ls)"

definition show_page ::
  "externals \<Rightarrow> demo_env \<Rightarrow> turnstile_codecs \<Rightarrow> codecs \<Rightarrow> journal \<Rightarrow> nat \<Rightarrow> bool \<Rightarrow>
    cj_error + string list" where
  "show_page X E T C j i raw =
     (case find_page_by_id C j i [0..<7] of
        Inl e \<Rightarrow> Inl e
      | Inr None \<Rightarrow> Inr [''Page '' @ dec_digits i @ '' not found'']
      | Inr (Some p) \<Rightarrow> Inr (if raw then [or_default (page_pretty E p)] else page_lines X E T p))"

text \<open>The stored page of a level whose window has the time; the active page comes last.\<close>

primrec page_at :: "codecs \<Rightarrow> journal \<Rightarrow> nat \<Rightarrow> timestamp \<Rightarrow> page_summary list \<Rightarrow> cj_error + journal_page option" where
  "page_at C j l ts [] = Inr None"
| "page_at C j l ts (s # ss) =
     (if sum_creation_timestamp s \<le> ts \<and> ts < sum_end_time s then
        (case load_page (any_backend C) (storage (manager j)) l (sum_page_id s) of
           Inl e \<Rightarrow> Inl e
         | Inr (Some page) \<Rightarrow> Inr (Some page)
         | Inr None \<Rightarrow> page_at C j l ts ss)
      else page_at C j l ts ss)"

definition find_page_for_ts :: "codecs \<Rightarrow> journal \<Rightarrow> nat \<Rightarrow> timestamp \<Rightarrow> cj_error + journal_page option" where
  "find_page_for_ts C j l ts =
     (case list_finalized_pages_summary (any_backend C) (storage (manager j)) l of
        Inl e \<Rightarrow> Inl e
      | Inr pages \<Rightarrow> page_at C j l ts (sort_key sum_page_id pages @
          (case get_active_page (manager j) l of Some active \<Rightarrow> [summary_of active] | None \<Rightarrow> [])))"

end
