(* ===== verification/Demo_Nav.thy ===== *)
theory Demo_Nav
  imports Demo_Cli
begin

text \<open>
  The interactive part of \<open>src/demo_cli/mod.rs\<close>: typed times, the prompts, the reversal of a
  database, the table of fields, the log viewer, the navigator and the main menu, over the
  state of a session.
\<close>

section \<open>Typed times\<close>

definition number_or :: "nat \<Rightarrow> string list \<Rightarrow> nat \<Rightarrow> nat" where
  "number_or d parts i =
     (if i < length parts
      then case parse_unsigned 32 (parts ! i) of Some n \<Rightarrow> n | None \<Rightarrow> d
      else d)"

definition parse_fuzzy_datetime :: "demo_env \<Rightarrow> string \<Rightarrow> timestamp option" where
  "parse_fuzzy_datetime E input =
     (let input = trim input in
      if input = [] then None
      else
        let parts = split_on (\<lambda>c. c = CHR ''T'' \<or> c = CHR '' '') input;
            time_part = (if 1 < length parts then parts ! 1 else []);
            date = split_on (\<lambda>c. c = CHR ''-'') (parts ! 0);
            time = (if time_part = [] then [] else split_on (\<lambda>c. c = CHR '':'') time_part)
        in case parse_signed 32 (date ! 0) of
             None \<Rightarrow> None
           | Some year \<Rightarrow>
               (case from_ymd E year (number_or 1 date 1) (number_or 1 date 2) of
                  None \<Rightarrow> None
                | Some day \<Rightarrow> and_hms E day (number_or 0 time 0) (number_or 1 time 1) (number_or 0 time 2)))"

section \<open>A session\<close>

text \<open>
  The journal with the counter \<open>NEXT_LEAF_ID\<close>; the number of readings of the clock; the
  transactions committed, each with the URL of its database.
\<close>

record session =
  printed :: "string list"
  typed :: "string list"
  raw_mode :: bool
  alternate_screen :: bool
  clock_reads :: nat
  served_journal :: "journal \<times> nat"
  databases :: "(string \<times> sql list) list"

definition println :: "string list \<Rightarrow> session \<Rightarrow> session" where
  "println ls s = s\<lparr>printed := printed s @ ls\<rparr>"

definition set_raw :: "bool \<Rightarrow> session \<Rightarrow> session" where
  "set_raw b s = s\<lparr>raw_mode := b\<rparr>"

text \<open>At the end of its input \<open>read_line\<close> returns the empty line.\<close>

definition read_line :: "string \<Rightarrow> session \<Rightarrow> string \<times> session" where
  "read_line prompt s =
     (case typed s of
        [] \<Rightarrow> ([], println [prompt] s)
      | l # ls \<Rightarrow> (trim l, (println [prompt] s)\<lparr>typed := ls\<rparr>))"

definition press_enter :: "session \<Rightarrow> session" where
  "press_enter s = snd (read_line ''Press Enter to continue...'' s)"

definition read_clock :: "demo_env \<Rightarrow> session \<Rightarrow> timestamp \<times> session" where
  "read_clock E s = (utc_now E (clock_reads s), s\<lparr>clock_reads := clock_reads s + 1\<rparr>)"

definition state_at :: "codecs \<Rightarrow> string \<Rightarrow> timestamp \<Rightarrow> session \<Rightarrow> cj_error + json" where
  "state_at C c t s =
     (case journal_container_state C (fst (served_journal s)) c t of
        Inl e \<Rightarrow> Inl e
      | Inr st \<Rightarrow> Inr (rs_state_data st))"

definition add_record ::
  "externals \<Rightarrow> codecs \<Rightarrow> config \<Rightarrow> timestamp \<Rightarrow> page_content_hash option \<Rightarrow> string \<Rightarrow> json \<Rightarrow>
    session \<Rightarrow> (cj_error + page_content_hash) \<times> session" where
  "add_record X C cfg t parent c data s =
     (case append_leaf X C cfg t parent c data (served_journal s) of
        (r, j) \<Rightarrow> (r, s\<lparr>served_journal := j\<rparr>))"

section \<open>State and reversal\<close>

definition state_cmd ::
  "demo_env \<Rightarrow> codecs \<Rightarrow> string \<Rightarrow> string \<Rightarrow> session \<Rightarrow> (cj_error + unit) \<times> session" where
  "state_cmd E C c as_of s =
     (case parse_time E as_of of
        None \<Rightarrow> (Inl cj_error_new, s)
      | Some t \<Rightarrow>
          (case state_at C c t s of
             Inl e \<Rightarrow> (Inl e, s)
           | Inr data \<Rightarrow> (Inr (), println [or_default (json_pretty E data)] s)))"

text \<open>The statements of one transaction, and the first of them that fails.\<close>

definition create_sql :: "string \<Rightarrow> sql" where
  "create_sql c = (''CREATE TABLE IF NOT EXISTS '' @ c @ '' (field TEXT PRIMARY KEY, value JSONB)'', [])"

definition truncate_sql :: "string \<Rightarrow> sql" where
  "truncate_sql c = (''TRUNCATE '' @ c, [])"

definition insert_sql :: "string \<Rightarrow> string \<Rightarrow> string \<Rightarrow> sql" where
  "insert_sql c field text = (''INSERT INTO '' @ c @ '' (field, value) VALUES ($1, $2)'', [field, text])"

definition pg_execute :: "demo_env \<Rightarrow> string \<Rightarrow> sql \<Rightarrow> sql list \<Rightarrow> (cj_error + unit) \<times> sql list" where
  "pg_execute E url q sent =
     (if pg_runs E url (sent @ [q]) then (Inr (), sent @ [q]) else (Inl cj_error_new, sent))"

fun insert_fields ::
  "externals \<Rightarrow> demo_env \<Rightarrow> string \<Rightarrow> string \<Rightarrow> (string \<times> json) list \<Rightarrow> sql list \<Rightarrow>
    (cj_error + unit) \<times> sql list" where
  "insert_fields X E url c [] sent = (Inr (), sent)"
| "insert_fields X E url c ((field, value) # fs) sent =
     (case json_to_vec X value of
        None \<Rightarrow> (Inl cj_error_new, sent)
      | Some b \<Rightarrow>
          try_then (pg_execute E url (insert_sql c field (text_of b)) sent)
            (\<lambda>_. insert_fields X E url c fs))"

fun object_fields :: "json \<Rightarrow> (string \<times> json) list" where
  "object_fields (JObject fs) = fs"
| "object_fields _ = []"

definition revert_sql ::
  "externals \<Rightarrow> demo_env \<Rightarrow> string \<Rightarrow> string \<Rightarrow> json \<Rightarrow> (cj_error + unit) \<times> sql list" where
  "revert_sql X E url c data =
     try_then (pg_execute E url (create_sql c) []) (\<lambda>_ sent.
     try_then (pg_execute E url (truncate_sql c) sent) (\<lambda>_.
       insert_fields X E url c (object_fields data)))"

definition revert_cmd ::
  "externals \<Rightarrow> demo_env \<Rightarrow> codecs \<Rightarrow> config \<Rightarrow> string \<Rightarrow> string \<Rightarrow> string \<Rightarrow> session \<Rightarrow>
    (cj_error + unit) \<times> session" where
  "revert_cmd X E C cfg c as_of url s =
     (case parse_time E as_of of
        None \<Rightarrow> (Inl cj_error_new, s)
      | Some t \<Rightarrow>
          (case state_at C c t s of
             Inl e \<Rightarrow> (Inl e, s)
           | Inr data \<Rightarrow>
               if \<not> pg_connects E url then (Inl cj_error_new, s)
               else (case revert_sql X E url c data of
                 (Inl e, _) \<Rightarrow> (Inl e, s)
               | (Inr _, sent) \<Rightarrow>
                   if \<not> pg_commits E url sent then (Inl cj_error_new, s)
                   else (case read_clock E (s\<lparr>databases := databases s @ [(url, sent)]\<rparr>) of
                     (now, s) \<Rightarrow>
                       try_then (add_record X C cfg now None c (JObject [(''revert_to'', JString as_of)]) s)
                         (\<lambda>_ s. (Inr (), println [''Reverted '' @ c @ '' to '' @ as_of] s))))))"

section \<open>Prompts\<close>

definition invalid_time :: "session \<Rightarrow> (cj_error + unit) \<times> session" where
  "invalid_time s = (Inr (), set_raw True (press_enter (println [''Invalid timestamp''] s)))"

definition show_state_prompt ::
  "demo_env \<Rightarrow> codecs \<Rightarrow> string \<Rightarrow> session \<Rightarrow> (cj_error + unit) \<times> session" where
  "show_state_prompt E C c s =
     (case read_line ''Timestamp (YYYY[-MM[-DD[THH[:MM[:SS]]]]]): '' (set_raw False s) of
        (ts_str, s) \<Rightarrow>
          (case parse_fuzzy_datetime E ts_str of
             None \<Rightarrow> invalid_time s
           | Some t \<Rightarrow>
               (case state_at C c t s of
                  Inl e \<Rightarrow> (Inl e, s)
                | Inr data \<Rightarrow>
                    (Inr (), set_raw True (press_enter (println [or_default (json_pretty E data)] s))))))"

definition is_yes :: "string \<Rightarrow> bool" where
  "is_yes s \<longleftrightarrow> to_lowercase s = ''y''"

definition revert_prompt ::
  "externals \<Rightarrow> demo_env \<Rightarrow> codecs \<Rightarrow> config \<Rightarrow> string \<Rightarrow> session \<Rightarrow> (cj_error + unit) \<times> session" where
  "revert_prompt X E C cfg c s =
     (case read_line ''Revert to timestamp (YYYY[-MM[-DD[THH[:MM[:SS]]]]]): '' (set_raw False s) of
        (ts_str, s) \<Rightarrow>
          (case parse_fuzzy_datetime E ts_str of
             None \<Rightarrow> invalid_time s
           | Some t \<Rightarrow>
               (case read_line ''Postgres URL: '' s of (url, s) \<Rightarrow>
               (case read_line ''Are you sure? [y/N] '' s of (confirm, s) \<Rightarrow>
                  if is_yes confirm then
                    try_then (revert_cmd X E C cfg c (show_time X t) url (set_raw True s)) (\<lambda>_ s.
                      (Inr (), press_enter (println [''Reverted '' @ c @ '' to '' @ show_time X t]
                         (set_raw False s))))
                  else (Inr (), set_raw True s)))))"

fun leaf_position :: "nat \<Rightarrow> journal_leaf list \<Rightarrow> nat option" where
  "leaf_position i [] = None"
| "leaf_position i (l # ls) = (if leaf_id l = i then Some 0 else map_option Suc (leaf_position i ls))"

definition search_prompt :: "journal_leaf list \<Rightarrow> session \<Rightarrow> nat option \<times> session" where
  "search_prompt leaves s =
     (case read_line ''Leaf id to jump to: '' (set_raw False s) of
        (id_str, s) \<Rightarrow>
          (case parse_unsigned 64 id_str of
             None \<Rightarrow> None
           | Some i \<Rightarrow> leaf_position i leaves, set_raw True s))"

section \<open>The table of fields\<close>

text \<open>
  Keys \<open>field<n>\<close> are shown in a table ordered by \<open>n\<close>, all others below it. The cells are
  filled column by column; widths and counts are \<open>u16\<close>, and \<open>cols * rows\<close> stays below \<open>2 ^ 16\<close>
  when the number of rows does not overflow.
\<close>

definition field_number :: "string \<Rightarrow> nat option" where
  "field_number k =
     (if starts_with ''field'' k then parse_unsigned 64 (trim_prefix [''field''] k) else None)"

fun plain_text :: "externals \<Rightarrow> json \<Rightarrow> cj_error + string" where
  "plain_text X (JString s) = Inr s"
| "plain_text X v = try_pure (json_text X v) (\<lambda>b. Inr (text_of b))"

fun split_fields ::
  "externals \<Rightarrow> (string \<times> json) list \<Rightarrow> cj_error + (nat \<times> string) list \<times> (string \<times> string) list" where
  "split_fields X [] = Inr ([], [])"
| "split_fields X ((k, v) # kvs) =
     (case field_number k of
        Some n \<Rightarrow>
          try_pure (plain_text X v) (\<lambda>val.
          try_pure (split_fields X kvs) (\<lambda>(fs, other). Inr ((n, val) # fs, other)))
      | None \<Rightarrow>
          try_pure (json_text X v) (\<lambda>b.
          try_pure (split_fields X kvs) (\<lambda>(fs, other).
            Inr (fs, btree_insert k (text_of b) other))))"

definition formatted_fields :: "(nat \<times> string) list \<Rightarrow> string list" where
  "formatted_fields fs =
     map (\<lambda>(n, v). ''field'' @ dec_digits n @ '': '' @ v) (sort_key fst fs)"

definition column_width :: "string list \<Rightarrow> nat option" where
  "column_width formatted =
     (let max_len = fold max (map (\<lambda>s. length s mod 2 ^ 16) formatted) 0
      in if 2 ^ 16 \<le> max_len + 2 then None else Some (max (max_len + 2) 20))"

definition table_size :: "nat \<Rightarrow> nat \<Rightarrow> nat \<Rightarrow> (nat \<times> nat) option" where
  "table_size term_w col_width n =
     (let cols = max 1 (term_w div col_width)
      in if 2 ^ 16 \<le> n mod 2 ^ 16 + cols then None
         else Some ((n mod 2 ^ 16 + cols - 1) div cols, cols))"

definition table_cells :: "nat \<times> nat \<Rightarrow> string list \<Rightarrow> string option list list" where
  "table_cells shape formatted =
     (case shape of (rows, cols) \<Rightarrow>
        map (\<lambda>r. map (\<lambda>c. let i = c * rows + r in
                       if i < length formatted then Some (formatted ! i) else None) [0..<cols])
          [0..<rows])"

definition row_line :: "nat \<Rightarrow> string option list \<Rightarrow> string" where
  "row_line col_width cells =
     trim_end (concat (map (\<lambda>c. case c of Some s \<Rightarrow> pad_right col_width s | None \<Rightarrow> []) cells))"

definition database_lines :: "externals \<Rightarrow> demo_env \<Rightarrow> json \<Rightarrow> cj_error + string list" where
  "database_lines X E data =
     try_pure (split_fields X (object_fields data)) (\<lambda>(fs, other).
       let formatted = formatted_fields fs in
       case column_width formatted of
         None \<Rightarrow> Inl Panicked
       | Some w \<Rightarrow>
           (case table_size (terminal_width E) w (length formatted) of
              None \<Rightarrow> Inl Panicked
            | Some shape \<Rightarrow> Inr (map (row_line w) (table_cells shape formatted) @
                map (\<lambda>(k, v). k @ '': '' @ v) other)))"

definition display_db_prompt ::
  "externals \<Rightarrow> demo_env \<Rightarrow> codecs \<Rightarrow> string \<Rightarrow> session \<Rightarrow> (cj_error + unit) \<times> session" where
  "display_db_prompt X E C c s =
     (case read_clock E (set_raw False s) of
        (now, s) \<Rightarrow>
          (case try_pure (state_at C c now s) (database_lines X E) of
             Inl e \<Rightarrow> (Inl e, s)
           | Inr ls \<Rightarrow> (Inr (), set_raw True (press_enter (println ls s)))))"

section \<open>The log viewer\<close>

datatype key = LeftKey | RightKey | UpKey | DownKey | EscKey | CharKey char | OtherKey

datatype event = Idle | Pressed key

text \<open>How a loop ends: the user left it, it waits for the next event, an error.\<close>

datatype ending = Finished | Waiting | Failed cj_error

fun json_get :: "string \<Rightarrow> json \<Rightarrow> json option" where
  "json_get k (JObject kvs) = map_of kvs k"
| "json_get k _ = None"

definition arrow :: "nat \<Rightarrow> string" where
  "arrow n = map char_of [226, 134, n]"

definition log_lines :: "externals \<Rightarrow> journal_leaf list \<Rightarrow> nat \<Rightarrow> string list" where
  "log_lines X logs idx =
     (let leaf = logs ! idx;
          msg = (case json_get ''log'' (delta_payload leaf) of Some (JString m) \<Rightarrow> m | _ \<Rightarrow> ''log'')
      in [''Log entry '' @ dec_digits (idx + 1) @ ''/'' @ dec_digits (length logs),
          ''Leaf #'' @ dec_digits (leaf_id leaf) @ '' @ '' @ show_time X (leaf_timestamp leaf),
          ''Message: '' @ msg,
          ''['' @ arrow 144 @ '' prev] ['' @ arrow 146 @ '' next] [Q quit]''])"

text \<open>A letter key, in lower or upper case.\<close>

definition is_key :: "char \<Rightarrow> key \<Rightarrow> bool" where
  "is_key c k \<longleftrightarrow> (case k of CharKey d \<Rightarrow> lower_char d = c | _ \<Rightarrow> False)"

definition quits :: "key \<Rightarrow> bool" where
  "quits k \<longleftrightarrow> k = EscKey \<or> is_key (CHR ''q'') k"

definition move_left :: "nat \<Rightarrow> nat" where
  "move_left idx = (if 0 < idx then idx - 1 else idx)"

definition move_right :: "nat \<Rightarrow> nat \<Rightarrow> nat" where
  "move_right n idx = (if idx + 1 < n then idx + 1 else idx)"

text \<open>The entry is drawn before every poll; \<open>&logs[idx]\<close> panics outside the list.\<close>

fun log_viewer_loop ::
  "externals \<Rightarrow> journal_leaf list \<Rightarrow> nat \<Rightarrow> event list \<Rightarrow> session \<Rightarrow> ending \<times> event list \<times> session" where
  "log_viewer_loop X logs idx [] s =
     (if length logs \<le> idx then (Failed Panicked, [], s)
      else (Waiting, [], println (log_lines X logs idx) s))"
| "log_viewer_loop X logs idx (e # es) s =
     (if length logs \<le> idx then (Failed Panicked, e # es, s)
      else let s = println (log_lines X logs idx) s in
        case e of
          Idle \<Rightarrow> log_viewer_loop X logs idx es s
        | Pressed k \<Rightarrow>
            if k = LeftKey then log_viewer_loop X logs (move_left idx) es s
            else if k = RightKey then log_viewer_loop X logs (move_right (length logs) idx) es s
            else if quits k then (Finished, es, s)
            else log_viewer_loop X logs idx es s)"

definition log_viewer_prompt ::
  "externals \<Rightarrow> codecs \<Rightarrow> string \<Rightarrow> event list \<Rightarrow> session \<Rightarrow> ending \<times> event list \<times> session" where
  "log_viewer_prompt X C c es s =
     (case collect_leaves C (fst (served_journal s)) c of
        Inl e \<Rightarrow> (Failed e, es, s)
      | Inr all \<Rightarrow>
          let logs = filter (\<lambda>l. json_get ''log'' (delta_payload l) \<noteq> None) all in
          if logs = [] then (Finished, es, press_enter (println [''No log entries found.''] s))
          else log_viewer_loop X logs 0 es s)"

section \<open>The navigator\<close>

definition key_help :: string where
  "key_help = ''[D display DB] [S state] [R revert] [F find] [L logs] [H help] [Q quit]''"

definition arrow_help :: string where
  "arrow_help = ''['' @ arrow 144 @ '' prev] ['' @ arrow 146 @ '' next]  ['' @ arrow 145 @
     '' parent] ['' @ arrow 147 @ '' child]''"

definition first_five :: "string list \<Rightarrow> string list" where
  "first_five ls =
     map (\<lambda>l. ''  '' @ l) (take 5 ls) @
     (if 5 < length ls then [''  ... ('' @ dec_digits (length ls) @ '' total)''] else [])"

fun nav_content_lines ::
  "demo_env \<Rightarrow> turnstile_codecs \<Rightarrow> page_content \<Rightarrow> string list" where
  "nav_content_lines E T (Leaves leaves) =
     counted ''Leaves'' leaves #
     first_five (map (\<lambda>l. ''#'' @ pad_left 6 (dec_digits (leaf_id l)) @ '' '' @ hex_encode T (leaf_hash l)) leaves)"
| "nav_content_lines E T (ThrallHashes hs) =
     counted ''Child Hashes'' hs # first_five (map (hex_encode T) hs)"
| "nav_content_lines E T (NetPatches ps) = [''NetPatch: '' @ or_default (patches_pretty E ps)]"
| "nav_content_lines E T (ThrallHashesWithNetPatches hs ps) =
     counted ''Child Hashes'' hs # first_five (map (hex_encode T) hs) @
     [''NetPatch: '' @ or_default (patches_pretty E ps)]"
| "nav_content_lines E T (Snapshot _) = []"

definition render_nav ::
  "externals \<Rightarrow> demo_env \<Rightarrow> turnstile_codecs \<Rightarrow> codecs \<Rightarrow> journal \<Rightarrow> string \<Rightarrow> nat \<Rightarrow> nat \<Rightarrow>
    journal_leaf list \<Rightarrow> cj_error + string list" where
  "render_nav X E T C j c level idx leaves =
     (if length leaves \<le> idx then Inl Panicked
      else let leaf = leaves ! idx in
        if level = 0 then Inr
          [''Container: '' @ c,
           ''Leaf #'' @ dec_digits (leaf_id leaf) @ '' @ '' @ show_time X (leaf_timestamp leaf),
           arrow_help,
           ''Payload: '' @ show_json X (delta_payload leaf),
           ''Prev: '' @ show_hash T (leaf_prev_hash leaf),
           ''Hash: '' @ hex_encode T (leaf_hash leaf),
           key_help]
        else case find_page_for_ts C j level (leaf_timestamp leaf) of
          Inl e \<Rightarrow> Inl e
        | Inr None \<Rightarrow> Inr [''No page at level '' @ dec_digits level]
        | Inr (Some page) \<Rightarrow> Inr (
            [''Container: '' @ c,
             page_title E page,
             arrow_help,
             ''Start: '' @ show_time X (creation_timestamp page),
             ''End: '' @ show_time X (end_time page),
             ''Prev: '' @ show_hash T (prev_page_hash page),
             ''Hash: '' @ hex_encode T (page_hash page)] @
            nav_content_lines E T (content page) @ [key_help]))"

definition help_lines :: "string list" where
  "help_lines =
     [''Navigation Help'', arrow 144 @ ''/'' @ arrow 146 @ '' : previous/next leaf'',
      arrow 145 @ ''/'' @ arrow 147 @ '' : parent/child page'', ''S : show state at timestamp'',
      ''R : revert database'', ''F : find leaf by id'', ''D : display database state'',
      ''L : view log entries'', ''Q : quit'', ''Press any key to continue...'']"

text \<open>The help waits for one event of any kind.\<close>

definition show_help :: "event list \<Rightarrow> session \<Rightarrow> ending \<times> event list \<times> session" where
  "show_help es s =
     (case es of
        [] \<Rightarrow> (Waiting, [], println help_lines s)
      | _ # es \<Rightarrow> (Finished, es, println help_lines s))"

text \<open>After a key: the new position with \<open>needs_render\<close>, or the end of the loop.\<close>

datatype nav_step = Move nat nat bool | End ending

fun after_prompt :: "nat \<Rightarrow> nat \<Rightarrow> (cj_error + unit) \<times> session \<Rightarrow> nav_step \<times> session" where
  "after_prompt idx level (Inl e, s) = (End (Failed e), s)"
| "after_prompt idx level (Inr _, s) = (Move idx level True, s)"

fun after_view :: "nat \<Rightarrow> nat \<Rightarrow> ending \<times> event list \<times> session \<Rightarrow> nav_step \<times> event list \<times> session" where
  "after_view idx level (r, es, s) = (if r = Finished then Move idx level True else End r, es, s)"

definition level_up ::
  "codecs \<Rightarrow> journal \<Rightarrow> journal_leaf list \<Rightarrow> nat \<Rightarrow> nat \<Rightarrow> nav_step" where
  "level_up C j leaves idx level =
     (if level < 5 then
        if length leaves \<le> idx then End (Failed Panicked)
        else case find_page_for_ts C j (level + 1) (leaf_timestamp (leaves ! idx)) of
          Inl e \<Rightarrow> End (Failed e)
        | Inr None \<Rightarrow> Move idx level False
        | Inr (Some _) \<Rightarrow> Move idx (level + 1) True
      else Move idx level False)"

definition nav_key ::
  "externals \<Rightarrow> demo_env \<Rightarrow> codecs \<Rightarrow> config \<Rightarrow> string \<Rightarrow> journal_leaf list \<Rightarrow> key \<Rightarrow> nat \<Rightarrow> nat \<Rightarrow>
    event list \<Rightarrow> session \<Rightarrow> nav_step \<times> event list \<times> session" where
  "nav_key X E C cfg c leaves k idx level es s =
     (let with_events = (\<lambda>(step, s). (step, es, s)) in
      if k = LeftKey then (Move (move_left idx) level (move_left idx \<noteq> idx), es, s)
      else if k = RightKey then
        (Move (move_right (length leaves) idx) level (move_right (length leaves) idx \<noteq> idx), es, s)
      else if k = UpKey then (level_up C (fst (served_journal s)) leaves idx level, es, s)
      else if k = DownKey then
        (if 0 < level then Move idx (level - 1) True else Move idx level False, es, s)
      else if quits k then (End Finished, es, s)
      else if is_key (CHR ''h'') k then after_view idx level (show_help es s)
      else if is_key (CHR ''s'') k then with_events (after_prompt idx level (show_state_prompt E C c s))
      else if is_key (CHR ''r'') k then with_events (after_prompt idx level (revert_prompt X E C cfg c s))
      else if is_key (CHR ''f'') k then
        (case search_prompt leaves s of
           (Some n, s) \<Rightarrow> (Move n level True, es, s)
         | (None, s) \<Rightarrow> (Move idx level False, es, s))
      else if is_key (CHR ''d'') k then with_events (after_prompt idx level (display_db_prompt X E C c s))
      else if is_key (CHR ''l'') k then after_view idx level (log_viewer_prompt X C c es s)
      else (Move idx level False, es, s))"

lemma log_viewer_events:
  "log_viewer_prompt X C c es s = (r, es', s') \<Longrightarrow> length es' \<le> length es"
proof -
  have loop: "length (fst (snd (log_viewer_loop X logs idx es s))) \<le> length es" for logs idx es s
    by (induction X logs idx es s rule: log_viewer_loop.induct)
      (auto simp: Let_def split: event.split intro: le_SucI)
  assume "log_viewer_prompt X C c es s = (r, es', s')"
  with loop[of _ 0 es s] show ?thesis
    by (auto simp: log_viewer_prompt_def Let_def split: sum.splits if_splits) (metis fst_conv snd_conv)
qed

lemma nav_key_events:
  assumes "nav_key X E C cfg c leaves k idx level es s = (r, es', s')"
  shows "length es' \<le> length es"
proof -
  have "length (fst (snd (after_view idx level (log_viewer_prompt X C c es s)))) \<le> length es"
    using log_viewer_events[of X C c es s] by (cases "log_viewer_prompt X C c es s") auto
  moreover have "length (fst (snd (after_view idx level (show_help es s)))) \<le> length es"
    by (cases es) (auto simp: show_help_def)
  ultimately show ?thesis
    using assms by (auto simp: nav_key_def Let_def split: if_splits prod.splits option.splits)
qed

text \<open>The loop of \<open>nav_cmd\<close>; the indices it was left with are the caller's.\<close>

function nav_loop ::
  "externals \<Rightarrow> demo_env \<Rightarrow> turnstile_codecs \<Rightarrow> codecs \<Rightarrow> config \<Rightarrow> string \<Rightarrow> journal_leaf list \<Rightarrow>
    nat \<Rightarrow> nat \<Rightarrow> bool \<Rightarrow> event list \<Rightarrow> session \<Rightarrow> ending \<times> (nat \<times> nat) \<times> event list \<times> session" where
  "nav_loop X E T C cfg c leaves idx level needs_render es s =
     (case if needs_render then render_nav X E T C (fst (served_journal s)) c level idx leaves
           else Inr [] of
        Inl e \<Rightarrow> (Failed e, (idx, level), es, s)
      | Inr ls \<Rightarrow>
          let s = println ls s in
          case es of
            [] \<Rightarrow> (Waiting, (idx, level), [], s)
          | Idle # es \<Rightarrow> nav_loop X E T C cfg c leaves idx level False es s
          | Pressed k # es \<Rightarrow>
              (case nav_key X E C cfg c leaves k idx level es s of
                 (End r, es, s) \<Rightarrow> (r, (idx, level), es, s)
               | (Move idx level needs_render, es, s) \<Rightarrow>
                   nav_loop X E T C cfg c leaves idx level needs_render es s))"
  by pat_completeness auto
termination
  by (relation "measure (\<lambda>(X, E, T, C, cfg, c, leaves, idx, level, nr, es, s). length es)")
    (auto dest: nav_key_events[OF sym] simp: le_imp_less_Suc)

declare nav_loop.simps [simp del]

definition set_screen :: "bool \<Rightarrow> session \<Rightarrow> session" where
  "set_screen b s = s\<lparr>alternate_screen := b\<rparr>"

definition nav_cmd ::
  "externals \<Rightarrow> demo_env \<Rightarrow> turnstile_codecs \<Rightarrow> codecs \<Rightarrow> config \<Rightarrow> string \<Rightarrow> nat \<times> nat \<Rightarrow>
    event list \<Rightarrow> session \<Rightarrow> ending \<times> (nat \<times> nat) \<times> event list \<times> session" where
  "nav_cmd X E T C cfg c pos es s =
     (case collect_leaves C (fst (served_journal s)) c of
        Inl e \<Rightarrow> (Failed e, pos, es, s)
      | Inr leaves \<Rightarrow>
          if leaves = [] then (Finished, pos, es, println [''No leaves for '' @ c] s)
          else
            case nav_loop X E T C cfg c leaves (fst pos) (snd pos) True es (set_screen True (set_raw True s)) of
              (Finished, pos, es, s) \<Rightarrow> (Finished, pos, es, set_raw False (set_screen False s))
            | r \<Rightarrow> r)"

section \<open>The main menu\<close>

definition menu_lines :: "string list" where
  "menu_lines =
     [''CJ Demo Main Menu'', ''O : open navigator'', ''D : display database state'',
      ''S : show state at timestamp'', ''R : revert database'', ''L : view log entries'',
      ''H : help'', ''Q : quit'']"

text \<open>After a key of the menu; the position of the navigator is kept between its runs.\<close>

definition open_navigator ::
  "externals \<Rightarrow> demo_env \<Rightarrow> turnstile_codecs \<Rightarrow> codecs \<Rightarrow> config \<Rightarrow> string \<Rightarrow> nat \<times> nat \<Rightarrow>
    event list \<Rightarrow> session \<Rightarrow> nav_step \<times> event list \<times> session" where
  "open_navigator X E T C cfg c pos es s =
     (case nav_cmd X E T C cfg c pos es (set_raw False (set_screen False s)) of
        (Finished, (idx, level), es, s) \<Rightarrow> (Move idx level True, es, set_screen True (set_raw True s))
      | (r, _, es, s) \<Rightarrow> (End r, es, s))"

definition menu_key ::
  "externals \<Rightarrow> demo_env \<Rightarrow> turnstile_codecs \<Rightarrow> codecs \<Rightarrow> config \<Rightarrow> string \<Rightarrow> key \<Rightarrow> nat \<Rightarrow> nat \<Rightarrow>
    event list \<Rightarrow> session \<Rightarrow> nav_step \<times> event list \<times> session" where
  "menu_key X E T C cfg c k idx level es s =
     (let with_events = (\<lambda>(step, s). (step, es, s)) in
      if is_key (CHR ''o'') k then open_navigator X E T C cfg c (idx, level) es s
      else if is_key (CHR ''d'') k then with_events (after_prompt idx level (display_db_prompt X E C c s))
      else if is_key (CHR ''s'') k then with_events (after_prompt idx level (show_state_prompt E C c s))
      else if is_key (CHR ''r'') k then with_events (after_prompt idx level (revert_prompt X E C cfg c s))
      else if is_key (CHR ''h'') k then after_view idx level (show_help es s)
      else if is_key (CHR ''l'') k then after_view idx level (log_viewer_prompt X C c es s)
      else if is_key (CHR ''q'') k then (End Finished, es, s)
      else (Move idx level False, es, s))"

lemma nav_loop_events: "nav_loop X E T C cfg c leaves idx level nr es s = (r, pos, es', s') \<Longrightarrow> length es' \<le> length es"
proof (induction X E T C cfg c leaves idx level nr es s arbitrary: r pos es' s' rule: nav_loop.induct)
  case (1 X E T C cfg c leaves idx level nr es s)
  show ?case
  proof (cases "if nr then render_nav X E T C (fst (served_journal s)) c level idx leaves else Inr []")
    case (Inl e)
    with "1.prems" show ?thesis by (subst (asm) nav_loop.simps) simp
  next
    case (Inr ls)
    note IH = "1.IH"[OF Inr refl]
    show ?thesis
    proof (cases es)
      case Nil
      with "1.prems" Inr show ?thesis by (subst (asm) nav_loop.simps) simp
    next
      case (Cons e es1)
      show ?thesis
      proof (cases e)
        case Idle
        with "1.prems" Inr Cons have "nav_loop X E T C cfg c leaves idx level False es1 (println ls s) = (r, pos, es', s')"
          by (subst (asm) nav_loop.simps) simp
        from IH(1)[OF Cons Idle this] Cons show ?thesis by simp
      next
        case (Pressed k)
        obtain st es2 s2 where k: "nav_key X E C cfg c leaves k idx level es1 (println ls s) = (st, es2, s2)"
          by (cases "nav_key X E C cfg c leaves k idx level es1 (println ls s)")
        note l = nav_key_events[OF k]
        show ?thesis
        proof (cases st)
          case (Move i l' n)
          with "1.prems" Inr Cons Pressed k have "nav_loop X E T C cfg c leaves i l' n es2 s2 = (r, pos, es', s')"
            by (subst (asm) nav_loop.simps) simp
          from IH(2)[OF Cons Pressed k[symmetric] Move refl this] l Cons show ?thesis by simp
        next
          case (End r')
          with "1.prems" Inr Cons Pressed k l show ?thesis by (subst (asm) nav_loop.simps) simp
        qed
      qed
    qed
  qed
qed

lemma menu_key_events:
  assumes "menu_key X E T C cfg c k idx level es s = (r, es', s')"
  shows "length es' \<le> length es"
proof -
  have "length (fst (snd (after_view idx level (log_viewer_prompt X C c es s)))) \<le> length es"
    using log_viewer_events[of X C c es s] by (cases "log_viewer_prompt X C c es s") auto
  moreover have "length (fst (snd (after_view idx level (show_help es s)))) \<le> length es"
    by (cases es) (auto simp: show_help_def)
  moreover have "length (fst (snd (open_navigator X E T C cfg c (idx, level) es s))) \<le> length es"
    by (auto simp: open_navigator_def nav_cmd_def dest: nav_loop_events split: sum.splits prod.splits ending.splits)
  ultimately show ?thesis
    using assms by (auto simp: menu_key_def Let_def split: if_splits prod.splits)
qed

function demo_loop ::
  "externals \<Rightarrow> demo_env \<Rightarrow> turnstile_codecs \<Rightarrow> codecs \<Rightarrow> config \<Rightarrow> string \<Rightarrow> nat \<Rightarrow> nat \<Rightarrow> bool \<Rightarrow>
    event list \<Rightarrow> session \<Rightarrow> ending \<times> event list \<times> session" where
  "demo_loop X E T C cfg c idx level needs_render es s =
     (let s = (if needs_render then println menu_lines s else s) in
      case es of
        [] \<Rightarrow> (Waiting, [], s)
      | Idle # es \<Rightarrow> demo_loop X E T C cfg c idx level False es s
      | Pressed k # es \<Rightarrow>
          (case menu_key X E T C cfg c k idx level es s of
             (End r, es, s) \<Rightarrow> (r, es, s)
           | (Move idx level needs_render, es, s) \<Rightarrow>
               demo_loop X E T C cfg c idx level needs_render es s))"
  by pat_completeness auto
termination
  by (relation "measure (\<lambda>(X, E, T, C, cfg, c, idx, level, nr, es, s). length es)")
    (auto dest: menu_key_events[OF sym] simp: le_imp_less_Suc)

declare demo_loop.simps [simp del]

definition demo_app ::
  "externals \<Rightarrow> demo_env \<Rightarrow> turnstile_codecs \<Rightarrow> codecs \<Rightarrow> config \<Rightarrow> string \<Rightarrow> event list \<Rightarrow> session \<Rightarrow>
    ending \<times> event list \<times> session" where
  "demo_app X E T C cfg c es s =
     (case demo_loop X E T C cfg c 0 0 True es (set_screen True (set_raw True s)) of
        (Finished, es, s) \<Rightarrow> (Finished, es, set_raw False (set_screen False s))
      | r \<Rightarrow> r)"

end
