(* ===== verification/Demo_Data.thy ===== *)
theory Demo_Data
  imports Demo_Nav
begin

text \<open>
  The commands of \<open>src/demo_cli/mod.rs\<close> that write: the configuration the program derives, the
  simulation of a container's history, the data of the default demo, and the run of the demo
  with its directory. Both generators put every payload through a turnstile before they
  append it to the journal. Random draws, the shuffle, the generated sentences, the answer of
  an unreachable port and the launch of PostgreSQL are parameters.
\<close>

section \<open>Configuration and durations\<close>

definition demo_level :: "time_level \<Rightarrow> time_level" where
  "demo_level lvl =
     (let rc = (rollup_config lvl)\<lparr>max_page_age_seconds := duration_seconds lvl\<rparr>
      in lvl\<lparr>rollup_config :=
           (if level_name lvl = ''day'' then rc\<lparr>content_type := ChildHashesAndNetPatches\<rparr> else rc)\<rparr>)"

definition demo_config :: "config \<Rightarrow> config" where
  "demo_config cfg = cfg\<lparr>levels := map demo_level (levels cfg)\<rparr>"

text \<open>
  \<open>TimeDelta::days\<close> panics when the duration does not fit into 64 bits of milliseconds;
  \<open>split_at\<close> panics inside a character. The result is in seconds.
\<close>

definition duration_days :: "int \<Rightarrow> cj_error + int" where
  "duration_days n =
     (if \<bar>n * 86400\<bar> * 1000 < 2 ^ 63 then Inr (n * 86400) else Inl Panicked)"

definition times_days :: "int \<Rightarrow> int \<Rightarrow> cj_error + int" where
  "times_days n k = (if in_i64 (n * k) then duration_days (n * k) else Inl Panicked)"

definition parse_duration_spec :: "string \<Rightarrow> cj_error + int" where
  "parse_duration_spec spec =
     (if length spec < 2 then Inl InvalidInput
      else if continuation (last spec) then Inl Panicked
      else case parse_signed 64 (butlast spec) of
        None \<Rightarrow> Inl InvalidInput
      | Some n \<Rightarrow>
          if last spec = CHR ''y'' then times_days n 365
          else if last spec = CHR ''m'' then times_days n 30
          else if last spec = CHR ''d'' then duration_days n
          else Inl InvalidInput)"

section \<open>A turnstile in front of a journal\<close>

record demo_random =
  draw :: "nat \<Rightarrow> nat \<Rightarrow> int \<Rightarrow> int \<Rightarrow> int"
  sentence :: "nat \<Rightarrow> string"
  shuffle :: "nat \<Rightarrow> nat list \<Rightarrow> nat list"
  port_error :: "string option"

record feed =
  queue :: turnstile
  sink :: "journal \<times> nat"

definition on_queue :: "(turnstile \<Rightarrow> 'r \<times> turnstile) \<Rightarrow> feed \<Rightarrow> 'r \<times> feed" where
  "on_queue f s = (case f (queue s) of (r, t) \<Rightarrow> (r, s\<lparr>queue := t\<rparr>))"

definition append_to ::
  "externals \<Rightarrow> codecs \<Rightarrow> config \<Rightarrow> string \<Rightarrow> timestamp \<Rightarrow> page_content_hash option \<Rightarrow> json \<Rightarrow>
    feed \<Rightarrow> (cj_error + page_content_hash) \<times> feed" where
  "append_to X C cfg c ts prev data s =
     (case append_leaf X C cfg ts prev c data (sink s) of (r, j) \<Rightarrow> (r, s\<lparr>sink := j\<rparr>))"

text \<open>\<open>ts.timestamp() as u64\<close>.\<close>

definition unix_u64 :: "timestamp \<Rightarrow> nat" where
  "unix_u64 t = nat (t div 1000000000 mod 2 ^ 64)"

definition after :: "timestamp \<Rightarrow> int \<Rightarrow> timestamp" where
  "after t secs = t + nanos secs"

definition queue_payload ::
  "externals \<Rightarrow> turnstile_codecs \<Rightarrow> json \<Rightarrow> nat \<Rightarrow> feed \<Rightarrow> (cj_error + string) \<times> feed" where
  "queue_payload X T payload t s =
     (case json_text X payload of
        Inl e \<Rightarrow> (Inl e, s)
      | Inr b \<Rightarrow> on_queue (turnstile_append X T b t) s)"

text \<open>\<open>if let LeafHash(h) = res { prev = Some(LeafHash(h)) }\<close>.\<close>

definition keep_hash :: "page_content_hash option \<Rightarrow> page_content_hash \<Rightarrow> page_content_hash option" where
  "keep_hash prev res = (case res of LeafHash h \<Rightarrow> Some (LeafHash h) | ThrallPageHash _ \<Rightarrow> prev)"

definition log_entry :: "string \<Rightarrow> json" where
  "log_entry msg = JObject [(''log'', JString msg)]"

section \<open>Simulation\<close>

text \<open>The hash that the next leaf names is threaded through the loop.\<close>

type_synonym link = "page_content_hash option"

definition simulate_plain ::
  "externals \<Rightarrow> turnstile_codecs \<Rightarrow> codecs \<Rightarrow> config \<Rightarrow> string \<Rightarrow> timestamp \<Rightarrow> json \<Rightarrow> link \<Rightarrow>
    feed \<Rightarrow> (cj_error + link) \<times> feed" where
  "simulate_plain X T C cfg c ts payload prev s =
     try_then (queue_payload X T payload (unix_u64 ts) s) (\<lambda>ticket s.
     try_then (on_queue (confirm_ticket X T ticket True None) s) (\<lambda>_ s.
     try_then (append_to X C cfg c ts prev payload s) (\<lambda>res s.
       (Inr (keep_hash prev res), s))))"

definition malformed_packet ::
  "externals \<Rightarrow> turnstile_codecs \<Rightarrow> codecs \<Rightarrow> config \<Rightarrow> string \<Rightarrow> nat \<Rightarrow> timestamp \<Rightarrow> link \<Rightarrow>
    feed \<Rightarrow> (cj_error + unit) \<times> feed" where
  "malformed_packet X T C cfg c secs ts prev s =
     (case on_queue (turnstile_append X T (str_bytes ''{'') secs) s of
        (Inr _, s) \<Rightarrow> (Inr (), s)
      | (Inl _, s) \<Rightarrow>
          try_then (append_to X C cfg c ts prev (log_entry ''malformed packet'') s) (\<lambda>_ s. (Inr (), s)))"

definition simulate_malformed ::
  "externals \<Rightarrow> turnstile_codecs \<Rightarrow> codecs \<Rightarrow> config \<Rightarrow> string \<Rightarrow> timestamp \<Rightarrow> json \<Rightarrow> link \<Rightarrow>
    feed \<Rightarrow> (cj_error + link) \<times> feed" where
  "simulate_malformed X T C cfg c ts payload prev s =
     try_then (malformed_packet X T C cfg c (unix_u64 ts) ts prev s) (\<lambda>_ s.
     if 2 ^ 64 \<le> unix_u64 ts + 1 then (Inl Panicked, s)
     else
       try_then (queue_payload X T payload (unix_u64 ts + 1) s) (\<lambda>ticket s.
       try_then (on_queue (confirm_ticket X T ticket True None) s) (\<lambda>_ s.
       try_then (append_to X C cfg c (after ts 1) prev payload s) (\<lambda>res s.
         (Inr (keep_hash prev res), s)))))"

definition simulate_rejected ::
  "externals \<Rightarrow> turnstile_codecs \<Rightarrow> codecs \<Rightarrow> config \<Rightarrow> string \<Rightarrow> timestamp \<Rightarrow> json \<Rightarrow> link \<Rightarrow>
    feed \<Rightarrow> (cj_error + link) \<times> feed" where
  "simulate_rejected X T C cfg c ts payload prev s =
     try_then (queue_payload X T payload (unix_u64 ts) s) (\<lambda>ticket s.
     try_then (on_queue (confirm_ticket X T ticket False (Some ''network error'')) s) (\<lambda>_ s.
     try_then (append_to X C cfg c ts prev (log_entry ''network error'') s) (\<lambda>res1 s.
     let prev = keep_hash prev res1 in
     try_then (on_queue (retry_next_pending X T (\<lambda>_ _ _. 1)) s) (\<lambda>_ s.
     try_then (append_to X C cfg c (after ts 1) prev payload s) (\<lambda>res2 s.
     let prev = keep_hash prev res2 in
     try_then (append_to X C cfg c (after ts 2) prev (log_entry ''retry success'') s) (\<lambda>_ s.
       (Inr prev, s)))))))"

definition simulate_field ::
  "externals \<Rightarrow> demo_random \<Rightarrow> turnstile_codecs \<Rightarrow> codecs \<Rightarrow> config \<Rightarrow> string \<Rightarrow> timestamp \<Rightarrow> int \<Rightarrow>
    nat \<Rightarrow> nat \<Rightarrow> link \<Rightarrow> feed \<Rightarrow> (cj_error + link) \<times> feed" where
  "simulate_field X R T C cfg c start range_secs seed i prev s =
     (if range_secs \<le> 0 then (Inl Panicked, s)
      else
        let ts = after start (draw R seed i 0 range_secs);
            payload = JObject [(''field'' @ dec_digits (i + 1), JString (sentence R i))]
        in if i + 1 = 5 then simulate_malformed X T C cfg c ts payload prev s
           else if i + 1 = 10 then simulate_rejected X T C cfg c ts payload prev s
           else simulate_plain X T C cfg c ts payload prev s)"

primrec for_fields ::
  "(nat \<Rightarrow> link \<Rightarrow> feed \<Rightarrow> (cj_error + link) \<times> feed) \<Rightarrow> nat list \<Rightarrow> link \<Rightarrow> feed \<Rightarrow>
    (cj_error + link) \<times> feed" where
  "for_fields f [] prev s = (Inr prev, s)"
| "for_fields f (i # is) prev s = try_then (f i prev s) (\<lambda>prev. for_fields f is prev)"

definition new_queue :: "turnstile_codecs \<Rightarrow> turnstile" where
  "new_queue T = turnstile_new T (concat (replicate 32 ''00'')) 1 Map.empty (\<lambda>_. False)"

definition simulate ::
  "externals \<Rightarrow> demo_env \<Rightarrow> demo_random \<Rightarrow> turnstile_codecs \<Rightarrow> codecs \<Rightarrow> config \<Rightarrow> string \<Rightarrow> nat \<Rightarrow>
    string \<Rightarrow> string \<Rightarrow> nat \<Rightarrow> journal \<times> nat \<Rightarrow> (cj_error + unit) \<times> journal \<times> nat" where
  "simulate X E R T C cfg c n duration start seed j =
     (case parse_time E start of
        None \<Rightarrow> (Inl cj_error_new, j)
      | Some start_ts \<Rightarrow>
          (case parse_duration_spec duration of
             Inl e \<Rightarrow> (Inl e, j)
           | Inr range_secs \<Rightarrow>
               (case for_fields (simulate_field X R T C cfg c start_ts range_secs seed) [0..<n] None
                       \<lparr>queue = new_queue T, sink = j\<rparr> of
                  (Inl e, s) \<Rightarrow> (Inl e, sink s)
                | (Inr _, s) \<Rightarrow> (Inr (), sink s))))"

section \<open>The data of the default demo\<close>

record demo_event =
  ev_time :: timestamp
  ev_field :: string
  ev_value :: string
  ev_error :: bool

definition field_message :: "nat \<Rightarrow> nat \<Rightarrow> string" where
  "field_message idx k =
     ''I am data in field '' @ dec_digits (idx + 1) @ ''. I have been updated '' @ dec_digits k @
     '' times now.''"

text \<open>One event per day and field; the draws are numbered in the order they are made.\<close>

definition day_event :: "demo_random \<Rightarrow> timestamp \<Rightarrow> nat \<Rightarrow> nat \<Rightarrow> demo_event" where
  "day_event R start day i =
     \<lparr>ev_time = after (after start (int day * 86400)) (draw R 42 (day * 10 + i) (8 * 3600) (18 * 3600)),
      ev_field = ''field'' @ dec_digits (i + 1),
      ev_value = field_message i (day + 1),
      ev_error = False\<rparr>"

definition planned_events :: "demo_random \<Rightarrow> timestamp \<Rightarrow> demo_event list" where
  "planned_events R start =
     sort_key ev_time (concat (map (\<lambda>day. map (day_event R start day) [0..<10]) [0..<365]))"

definition contains :: "string \<Rightarrow> string \<Rightarrow> bool" where
  "contains w s \<longleftrightarrow> list_ex (\<lambda>k. starts_with w (drop k s)) [0..<Suc (length s)]"

definition update_indices :: "demo_random \<Rightarrow> demo_event list \<Rightarrow> nat list" where
  "update_indices R events =
     shuffle R 42 (map fst (filter (\<lambda>(i, e). contains ''upd'' (ev_value e)) (enumerate 0 events)))"

definition mark_error :: "nat \<Rightarrow> demo_event list \<Rightarrow> demo_event list" where
  "mark_error i events = events[i := (events ! i)\<lparr>ev_error := True\<rparr>]"

definition network_failure ::
  "externals \<Rightarrow> demo_random \<Rightarrow> codecs \<Rightarrow> config \<Rightarrow> string \<Rightarrow> timestamp \<Rightarrow> feed \<Rightarrow>
    (cj_error + unit) \<times> feed" where
  "network_failure X R C cfg c ts s =
     (case port_error R of
        None \<Rightarrow> (Inr (), s)
      | Some e \<Rightarrow>
          try_then (append_to X C cfg c ts None (log_entry (''network error: '' @ e)) s) (\<lambda>_ s. (Inr (), s)))"

definition demo_errors ::
  "externals \<Rightarrow> demo_random \<Rightarrow> turnstile_codecs \<Rightarrow> codecs \<Rightarrow> config \<Rightarrow> string \<Rightarrow> timestamp \<Rightarrow>
    feed \<Rightarrow> (cj_error + unit) \<times> feed" where
  "demo_errors X R T C cfg c mal_ts s =
     try_then (malformed_packet X T C cfg c (unix_u64 mal_ts) (after mal_ts 1) None s) (\<lambda>_.
       network_failure X R C cfg c (after mal_ts 2))"

definition failed_event ::
  "externals \<Rightarrow> turnstile_codecs \<Rightarrow> codecs \<Rightarrow> config \<Rightarrow> string \<Rightarrow> timestamp \<Rightarrow> json \<Rightarrow> string \<Rightarrow> link \<Rightarrow>
    feed \<Rightarrow> (cj_error + link) \<times> feed" where
  "failed_event X T C cfg c ts payload ticket prev s =
     try_then (on_queue (confirm_ticket X T ticket False (Some ''db error'')) s) (\<lambda>_ s.
     try_then (append_to X C cfg c ts prev (log_entry ''db error'') s) (\<lambda>res1 s.
     let prev = keep_hash prev res1 in
     try_then (append_to X C cfg c (after ts 1) prev payload s) (\<lambda>res2 s.
     let prev = keep_hash prev res2 in
     try_then (on_queue (retry_next_pending X T (\<lambda>_ _ _. 1)) s) (\<lambda>_ s.
     try_then (append_to X C cfg c (after ts 2) prev (log_entry ''retry success'') s) (\<lambda>_ s.
       (Inr prev, s))))))"

definition write_event ::
  "externals \<Rightarrow> turnstile_codecs \<Rightarrow> codecs \<Rightarrow> config \<Rightarrow> string \<Rightarrow> demo_event \<Rightarrow> link \<Rightarrow> feed \<Rightarrow>
    (cj_error + link) \<times> feed" where
  "write_event X T C cfg c e prev s =
     (let payload = JObject [(ev_field e, JString (ev_value e))] in
      try_then (queue_payload X T payload (unix_u64 (ev_time e)) s) (\<lambda>ticket s.
        if ev_error e then failed_event X T C cfg c (ev_time e) payload ticket prev s
        else
          try_then (on_queue (confirm_ticket X T ticket True None) s) (\<lambda>_ s.
          try_then (append_to X C cfg c (ev_time e) prev payload s) (\<lambda>res s.
            (Inr (keep_hash prev res), s)))))"

primrec write_events ::
  "externals \<Rightarrow> turnstile_codecs \<Rightarrow> codecs \<Rightarrow> config \<Rightarrow> string \<Rightarrow> demo_event list \<Rightarrow> link \<Rightarrow> feed \<Rightarrow>
    (cj_error + link) \<times> feed" where
  "write_events X T C cfg c [] prev s = (Inr prev, s)"
| "write_events X T C cfg c (e # es) prev s =
     try_then (write_event X T C cfg c e prev s) (\<lambda>prev. write_events X T C cfg c es prev)"

text \<open>\<open>start\<close> is 2025-01-01; \<open>reset_global_ids\<close> sets \<open>NEXT_LEAF_ID\<close> to 0.\<close>

definition demo_start :: timestamp where
  "demo_start = nanos 1735689600"

definition generate_demo_data ::
  "externals \<Rightarrow> demo_random \<Rightarrow> turnstile_codecs \<Rightarrow> codecs \<Rightarrow> config \<Rightarrow> string \<Rightarrow> journal \<times> nat \<Rightarrow>
    (cj_error + unit) \<times> journal \<times> nat" where
  "generate_demo_data X R T C cfg c j =
     (let s = \<lparr>queue = new_queue T, sink = (fst j, 0)\<rparr>;
          events = planned_events R demo_start;
          us = update_indices R events
      in case (if 3 \<le> length us then
                 try_then (demo_errors X R T C cfg c (after demo_start (draw R 42 3650 0 31536000)) s)
                   (\<lambda>_ s. (Inr (mark_error (us ! 1) (mark_error (us ! 0) events)), s))
               else (Inr events, s)) of
           (Inl e, s) \<Rightarrow> (Inl e, sink s)
         | (Inr events, s) \<Rightarrow>
             (case write_events X T C cfg c events None s of
                (Inl e, s) \<Rightarrow> (Inl e, sink s)
              | (Inr _, s) \<Rightarrow> (Inr (), sink s)))"

section \<open>The directory of the demo\<close>

text \<open>
  The base path: whether it exists, the text of \<open>demo_version\<close> in it, the tree a file backend
  finds. \<open>removable\<close> and \<open>writable\<close> are the operating system's answers. While a journal is
  open its backend has the tree; \<open>left_by\<close> gives it back. What was printed before an error that
  ends the program here is not kept.
\<close>

record demo_dir =
  dir_exists :: bool
  version_file :: "string option"
  dir_disk :: file_storage
  removable :: bool
  writable :: bool

definition left_by :: "journal \<Rightarrow> demo_dir \<Rightarrow> demo_dir" where
  "left_by j d =
     (case storage (manager j) of
        FileState fs \<Rightarrow> d\<lparr>dir_exists := True, dir_disk := fs\<rparr>
      | MemoryState _ \<Rightarrow> d)"

definition cleanup_demo :: "config \<Rightarrow> demo_dir \<Rightarrow> (cj_error + string list) \<times> demo_dir" where
  "cleanup_demo cfg d =
     (if storage_type (storage_cfg cfg) = FileType \<and> dir_exists d then
        if removable d then
          (Inr [''Removed '' @ base_path (storage_cfg cfg)],
           d\<lparr>dir_exists := False, version_file := None,
             dir_disk := (dir_disk d)\<lparr>fs_files := [], fs_dirs := []\<rparr>\<rparr>)
        else (Inl Io, d)
      else (Inr [], d))"

definition needs_data :: "config \<Rightarrow> demo_dir \<Rightarrow> (cj_error + bool \<times> string list) \<times> demo_dir" where
  "needs_data cfg d =
     (case storage_type (storage_cfg cfg) of
        FileType \<Rightarrow>
          if \<not> dir_exists d then (Inr (True, []), d)
          else if map_option trim (version_file d) = Some ''1'' then (Inr (False, []), d)
          else try_then (cleanup_demo cfg d) (\<lambda>ls d. (Inr (True, ls), d))
      | _ \<Rightarrow> (Inr (False, []), d))"

text \<open>Open the journal and fill it when its data is missing; \<open>n\<close> is \<open>NEXT_LEAF_ID\<close>.\<close>

definition demo_journal ::
  "externals \<Rightarrow> demo_random \<Rightarrow> turnstile_codecs \<Rightarrow> codecs \<Rightarrow> config \<Rightarrow> cj_error + string \<Rightarrow> nat \<Rightarrow>
    demo_dir \<Rightarrow> (cj_error + string list \<times> journal \<times> nat) \<times> demo_dir" where
  "demo_journal X R T C cfg launch n d =
     try_then (needs_data cfg d) (\<lambda>(need_gen, removed) d.
       case launch of
         Inl e \<Rightarrow> (Inl e, d)
       | Inr db_url \<Rightarrow>
           let lines = removed @ [''PostgreSQL running at '' @ db_url] in
           case journal_new cfg (dir_disk d) of
             Inl e \<Rightarrow> (Inl e, d)
           | Inr j \<Rightarrow>
               if \<not> need_gen then (Inr (lines, j, n), d)
               else case generate_demo_data X R T C cfg ''demoDB'' (j, n) of
                 (Inl e, j) \<Rightarrow> (Inl e, left_by (fst j) d)
               | (Inr _, j) \<Rightarrow>
                   if \<not> writable d then (Inl Io, left_by (fst j) d)
                   else (Inr (lines @ [''Generating demo data...''], j),
                         d\<lparr>dir_exists := True, version_file := Some ''1''\<rparr>))"

definition new_session :: "string list \<Rightarrow> journal \<times> nat \<Rightarrow> session" where
  "new_session user_input j =
     \<lparr>printed = [], typed = user_input, raw_mode = False, alternate_screen = False, clock_reads = 0,
      served_journal = j, databases = []\<rparr>"

definition run_demo ::
  "externals \<Rightarrow> demo_env \<Rightarrow> demo_random \<Rightarrow> turnstile_codecs \<Rightarrow> codecs \<Rightarrow> config \<Rightarrow> cj_error + string \<Rightarrow>
    nat \<Rightarrow> string list \<Rightarrow> event list \<Rightarrow> demo_dir \<Rightarrow> (ending \<times> session option) \<times> demo_dir" where
  "run_demo X E R T C cfg launch n user_input es d =
     (case demo_journal X R T C cfg launch n d of
        (Inl e, d) \<Rightarrow> ((Failed e, None), d)
      | (Inr (lines, j), d) \<Rightarrow>
          (case demo_app X E T C cfg ''demoDB'' es (println lines (new_session user_input j)) of
             (r, _, s) \<Rightarrow> ((r, Some s), left_by (fst (served_journal s)) d)))"

section \<open>The subcommands\<close>

datatype journal_command =
    Simulate string nat string string nat
  | StateOf string string
  | Revert string string string
  | LeafList string
  | LeafShow string nat bool
  | PageList nat
  | PageShow nat bool
  | Nav string

datatype command = DemoCommand | Cleanup | OnJournal journal_command

text \<open>A command that reads: its lines are printed, also those before an error.\<close>

definition print_all :: "(cj_error + unit) \<times> string list \<Rightarrow> session \<Rightarrow> ending \<times> session" where
  "print_all r s = (case r of (Inl e, ls) \<Rightarrow> (Failed e, println ls s) | (Inr _, ls) \<Rightarrow> (Finished, println ls s))"

definition print_result :: "cj_error + string list \<Rightarrow> session \<Rightarrow> ending \<times> session" where
  "print_result r s = (case r of Inl e \<Rightarrow> (Failed e, s) | Inr ls \<Rightarrow> (Finished, println ls s))"

definition ended :: "(cj_error + unit) \<times> session \<Rightarrow> ending \<times> session" where
  "ended r = (case r of (Inl e, s) \<Rightarrow> (Failed e, s) | (Inr _, s) \<Rightarrow> (Finished, s))"

fun run_on_journal ::
  "externals \<Rightarrow> demo_env \<Rightarrow> demo_random \<Rightarrow> turnstile_codecs \<Rightarrow> codecs \<Rightarrow> config \<Rightarrow> journal_command \<Rightarrow>
    event list \<Rightarrow> session \<Rightarrow> ending \<times> session" where
  "run_on_journal X E R T C cfg (Simulate c n duration start seed) es s =
     (case simulate X E R T C cfg c n duration start seed (served_journal s) of
        (Inl e, j) \<Rightarrow> (Failed e, s\<lparr>served_journal := j\<rparr>)
      | (Inr _, j) \<Rightarrow> (Finished, println [''Simulated '' @ dec_digits n @ '' fields over '' @ duration]
          (s\<lparr>served_journal := j\<rparr>)))"
| "run_on_journal X E R T C cfg (StateOf c as_of) es s = ended (state_cmd E C c as_of s)"
| "run_on_journal X E R T C cfg (Revert c as_of url) es s = ended (revert_cmd X E C cfg c as_of url s)"
| "run_on_journal X E R T C cfg (LeafList c) es s =
     print_all (list_leaves X T C (fst (served_journal s)) c []) s"
| "run_on_journal X E R T C cfg (LeafShow c i pretty) es s =
     print_result (show_leaf X E T C (fst (served_journal s)) c i pretty) s"
| "run_on_journal X E R T C cfg (PageList l) es s =
     print_all (list_pages E C (fst (served_journal s)) l []) s"
| "run_on_journal X E R T C cfg (PageShow i raw) es s =
     print_result (show_page X E T C (fst (served_journal s)) i raw) s"
| "run_on_journal X E R T C cfg (Nav c) es s =
     (case nav_cmd X E T C cfg c (0, 0) es s of (r, _, _, s) \<Rightarrow> (r, s))"

text \<open>\<open>run\<close> on the configuration that \<open>init\<close> returned; no subcommand is the demo.\<close>

definition run ::
  "externals \<Rightarrow> demo_env \<Rightarrow> demo_random \<Rightarrow> turnstile_codecs \<Rightarrow> codecs \<Rightarrow> config \<Rightarrow> command option \<Rightarrow>
    cj_error + string \<Rightarrow> nat \<Rightarrow> string list \<Rightarrow> event list \<Rightarrow> demo_dir \<Rightarrow>
    (ending \<times> session option) \<times> demo_dir" where
  "run X E R T C base cmd launch n user_input es d =
     (let cfg = demo_config base in
      case cmd of
        None \<Rightarrow> run_demo X E R T C cfg launch n user_input es d
      | Some DemoCommand \<Rightarrow> run_demo X E R T C cfg launch n user_input es d
      | Some Cleanup \<Rightarrow>
          (case cleanup_demo cfg d of
             (Inl e, d) \<Rightarrow> ((Failed e, None), d)
           | (Inr _, d) \<Rightarrow> ((Finished, None), d))
      | Some (OnJournal cmd) \<Rightarrow>
          (case journal_new cfg (dir_disk d) of
             Inl e \<Rightarrow> ((Failed e, None), d)
           | Inr j \<Rightarrow>
               (case run_on_journal X E R T C cfg cmd es (new_session user_input (j, n)) of
                  (r, s) \<Rightarrow> ((r, Some s), left_by (fst (served_journal s)) d))))"

end
