(* ===== verification/Demo_Properties.thy ===== *)
theory Demo_Properties
  imports Demo_Data Journal_Properties Turnstile_Properties "HOL-Library.Sublist"
begin

text \<open>
  What the demonstration program shows and does, on the journals of \<open>Journal_Properties\<close>: which
  leaves its listings have, that the navigator stays inside them, what a reversal writes, the
  table of fields, and the leaves of a simulated history.
\<close>

section \<open>The leaves that are listed\<close>

lemma list_each_loads:
  "(\<And>s. s \<in> set ss \<Longrightarrow> load_summarised C j s = Inr (f s)) \<Longrightarrow>
     list_each X T C j c ss out = (Inr (), out @ map (leaf_line X T) (concat (map (container_leaves c \<circ> f) ss)))"
  by (induction ss arbitrary: out) simp_all

lemma collect_each_loads:
  "(\<And>s. s \<in> set ss \<Longrightarrow> load_summarised C j s = Inr (f s)) \<Longrightarrow>
     collect_each C j c ss ls = Inr (ls @ concat (map (container_leaves c \<circ> f) ss))"
  by (induction ss arbitrary: ls) simp_all

lemma find_append:
  "find P (xs @ ys) = (case find P xs of None \<Rightarrow> find P ys | Some x \<Rightarrow> Some x)"
  by (induction xs) auto

lemma find_leaf_loads:
  "(\<And>s. s \<in> set ss \<Longrightarrow> load_summarised C j s = Inr (f s)) \<Longrightarrow>
     find_leaf C j c i ss = Inr (find (\<lambda>l. leaf_id l = i) (concat (map (container_leaves c \<circ> f) ss)))"
  by (induction ss) (auto simp: find_append split: option.split)

lemma container_leaves_Some [simp]:
  "container_leaves c (Some p) = filter (\<lambda>l. container_id l = c) (leaves_of p)"
  by (simp add: leaves_of_def split: page_content.split)

declare container_leaves.simps(2) [simp del]

lemma container_log:
  "concat (map (container_leaves c \<circ> Some) ps) = filter (\<lambda>l. container_id l = c) (pages_log ps)"
  by (induction ps) (simp_all add: pages_log_def)

lemma issued_chain_ids:
  assumes "issued_chain X n tracked rs ls" and "n + length rs \<le> 2 ^ 64"
  shows "sorted_wrt (<) (map leaf_id ls) \<and> (\<forall>l\<in>set ls. n \<le> leaf_id l \<and> leaf_id l < n + length rs)"
  using assms
proof (induction X n tracked rs ls rule: issued_chain.induct)
  case (3 X n tracked r rs l ls)
  then have i: "leaf_id l = n" by (auto simp: issued_def)
  show ?case
  proof (cases "rs = []")
    case True
    with 3 i show ?thesis by (cases ls) auto
  next
    case False
    then have "n + 1 < n + 1 + length rs" by simp
    also have "\<dots> \<le> 2 ^ 64" using "3.prems"(2) by simp
    finally have "n + 1 < 2 ^ 64" .
    then have m: "(n + 1) mod 2 ^ 64 = n + 1" by (rule mod_less)
    have "sorted_wrt (<) (map leaf_id ls) \<and> (\<forall>l\<in>set ls. n + 1 \<le> leaf_id l \<and> leaf_id l < n + 1 + length rs)"
      using "3.IH" "3.prems" m by simp
    with i show ?thesis by (auto simp: Suc_le_eq)
  qed
qed simp_all

context storage_laws begin

text \<open>The stored pages in id order, with the active page behind them.\<close>

lemma summaries_in_order:
  assumes "log_ok X cfg m ps" and "list_finalized_pages_summary B (storage m) 0 = Inr ss"
  shows "sort_key sum_page_id (ss @ (case active_pages m 0 of Some a \<Rightarrow> [summary_of a] | None \<Rightarrow> [])) =
    map summary_of ps @ (case active_pages m 0 of Some a \<Rightarrow> [summary_of a] | None \<Rightarrow> [])"
proof -
  note I = log_invD[OF assms(1)]
  let ?act = "case active_pages m 0 of Some a \<Rightarrow> [summary_of a] | None \<Rightarrow> []"
  have ss: "distinct (map sum_page_id ss)" "set ss = summary_of ` pages_at (pages (storage m)) 0"
    using list_ok[OF I(1), of 0] assms(2) by auto
  have "pages_at (pages (storage m)) 0 = set ps" using I(3) by (auto simp: pages_at_def l0_inv_def)
  then have set: "set ss = set (map summary_of ps)" using ss(2) by simp
  have id: "sum_page_id \<circ> summary_of = page_id" by (simp add: fun_eq_iff summary_of_def)
  have srt: "sorted_wrt (<) (map sum_page_id (map summary_of ps @ ?act))"
    using I(3) id by (auto simp: l0_inv_def continues_def sorted_wrt_append summary_of_def split: option.split)
  then have d: "distinct (map sum_page_id (map summary_of ps @ ?act))" by (auto simp: strict_sorted_iff)
  then have "distinct (map summary_of ps)"
    unfolding map_append distinct_append distinct_map[of sum_page_id "map summary_of ps"] by blast
  then have m: "mset (ss @ ?act) = mset (map summary_of ps @ ?act)"
    using set ss(1) set_eq_iff_mset_eq_distinct[of ss "map summary_of ps"] by (simp add: distinct_map)
  have "inj_on sum_page_id (set (ss @ ?act))"
    using d unfolding mset_eq_setD[OF m] distinct_map by blast
  moreover have "sorted (map sum_page_id (map summary_of ps @ ?act))" using srt by (simp only: strict_sorted_iff)
  ultimately show ?thesis by (rule sort_key_inj_key_eq[OF m])
qed

end

text \<open>The three listings in terms of the log, for any journal whose manager keeps the invariant.\<close>

lemma listings_of_log:
  assumes "any.log_ok C X cfg (manager j) ps"
  defines "shown \<equiv> \<lambda>c. filter (\<lambda>l. container_id l = c) (pages_log ps)"
  shows "collect_leaves C j c = Inr (sort_key leaf_id (shown c))"
    and "list_leaves X' T C j c out = (Inr (), out @ map (leaf_line X' T) (shown c))"
    and "try_pure (leaf_page_summaries C j) (find_leaf C j c i) = Inr (find (\<lambda>l. leaf_id l = i) (shown c))"
proof -
  note I = log_invD[OF assms(1)]
  let ?act = "case active_pages (manager j) 0 of Some a \<Rightarrow> [summary_of a] | None \<Rightarrow> []"
  let ?V = "any_view C (storage (manager j))"
  define f :: "page_summary \<Rightarrow> journal_page option" where "f s = ?V (sum_level s, sum_page_id s)" for s
  obtain ss where ss: "list_finalized_pages_summary (any_backend C) (storage (manager j)) 0 = Inr ss"
    using any.list_ok[OF I(1)] by blast
  have pages: "leaf_page_summaries C j = Inr (map summary_of ps @ ?act)"
    using any.summaries_in_order[OF assms(1) ss] by (simp add: leaf_page_summaries_def ss get_active_page_def)
  have load: "load_summarised C j s = Inr (f s)" for s
    by (simp add: load_summarised_def f_def any.load_ok[OF I(1)])
  have "f (summary_of p) = Some p" if "p \<in> set ps" for p
  proof -
    have p: "?V (0, page_id p) = Some p" using that I(3) by (simp add: l0_inv_def)
    then have "page_level p = 0" using any.keyed_pages[OF I(1)] unfolding keyed_def by blast
    with p show ?thesis by (simp add: f_def summary_of_def)
  qed
  then have stored: "map (container_leaves c \<circ> f) (map summary_of ps) = map (container_leaves c \<circ> Some) ps"
    by simp
  have "f (summary_of a) = None" if a: "active_pages (manager j) 0 = Some a" for a
  proof -
    have "page_level a = 0" using I(2) a by (simp add: manager_inv_def active_ok_def page_fits_def)
    then show ?thesis
      using any.active_not_stored[OF assms(1) a] by (simp add: f_def summary_of_def any.load_ok[OF I(1)])
  qed
  then have act: "concat (map (container_leaves c \<circ> f) ?act) = []"
    by (cases "active_pages (manager j) 0") simp_all
  have all: "concat (map (container_leaves c \<circ> f) (map summary_of ps @ ?act)) = shown c"
    unfolding map_append concat_append act stored container_log shown_def by simp
  show "collect_leaves C j c = Inr (sort_key leaf_id (shown c))"
    using collect_each_loads[OF load, where ss = "map summary_of ps @ ?act" and c = c and ls = "[]"] all
    by (simp add: collect_leaves_def pages)
  show "list_leaves X' T C j c out = (Inr (), out @ map (leaf_line X' T) (shown c))"
    using list_each_loads[OF load, where ss = "map summary_of ps @ ?act" and c = c, unfolded all]
    by (simp add: list_leaves_def pages)
  show "try_pure (leaf_page_summaries C j) (find_leaf C j c i) = Inr (find (\<lambda>l. leaf_id l = i) (shown c))"
    using find_leaf_loads[OF load, where ss = "map summary_of ps @ ?act" and c = c, unfolded all] by (simp add: pages)
qed

text \<open>The lines \<open>leaf show\<close> prints of a leaf.\<close>

definition leaf_details ::
  "externals \<Rightarrow> demo_env \<Rightarrow> turnstile_codecs \<Rightarrow> bool \<Rightarrow> journal_leaf \<Rightarrow> string list" where
  "leaf_details X E T pretty l =
     [''Leaf '' @ dec_digits (leaf_id l) @ '' @ '' @ show_time X (leaf_timestamp l),
      ''Prev: '' @ show_hash T (leaf_prev_hash l),
      ''Payload: '' @ (if pretty then or_default (json_pretty E (delta_payload l))
                       else show_json X (delta_payload l)),
      ''Hash: '' @ hex_encode T (leaf_hash l)]"

lemma find_by_id:
  assumes "sorted_wrt (<) (map leaf_id ls)" and "l \<in> set ls"
  shows "find (\<lambda>x. leaf_id x = leaf_id l) ls = Some l"
  using assms by (induction ls) auto

text \<open>
  C37: the listings of the demonstration program miss the leaves of the active page. After
  any appends to a fresh journal, whose ids do not wrap, the log is the leaves of the stored
  pages and then those of the active page; for every container the navigator's list and
  \<open>leaf list\<close> have exactly the stored leaves of the container, in log order. \<open>leaf show\<close>
  prints a stored leaf of the container under its id, and answers not found for every other
  id, those of the leaves of the active page included.
\<close>

theorem demo_misses_active_leaves:
  assumes "config_ok cfg" and "requests_valid rs"
    and "(4 * length rs + 6) * 2 ^ length (levels cfg) \<le> 2 ^ 64"
    and "journal_new cfg disk = Inr j" and "fresh_disk C cfg disk"
    and "append_leaves X C cfg rs (j, n) = (Inr hs, j', n')" and "n + length rs \<le> 2 ^ 64"
  shows "\<exists>stored. journal_log C j' = stored @ active_leaves (manager j') \<and>
    (\<forall>c. collect_leaves C j' c = Inr (filter (\<lambda>l. container_id l = c) stored) \<and>
       list_leaves X T C j' c [] =
         (Inr (), map (leaf_line X T) (filter (\<lambda>l. container_id l = c) stored)) \<and>
       (\<forall>l\<in>set stored. container_id l = c \<longrightarrow>
          show_leaf X E T C j' c (leaf_id l) pretty = Inr (leaf_details X E T pretty l)) \<and>
       (\<forall>i. i \<notin> leaf_id ` {l \<in> set stored. container_id l = c} \<longrightarrow>
          show_leaf X E T C j' c i pretty = Inr [''Leaf '' @ dec_digits i @ '' not found'']) \<and>
       leaf_id ` set (active_leaves (manager j')) \<inter> leaf_id ` set stored = {})"
proof -
  obtain ls ps where chain: "issued_chain X n None rs ls" and L: "any.log_ok C X cfg (manager j') ps"
    and log: "journal_log C j' = ls" "pages_log ps @ active_leaves (manager j') = ls"
    by (rule journal_run[OF assms(1-6)])
  have ids: "sorted_wrt (<) (map leaf_id (pages_log ps @ active_leaves (manager j')))"
    using issued_chain_ids[OF chain assms(7)] log(2) by simp
  have srt: "sort_key leaf_id (filter (\<lambda>l. container_id l = c) (pages_log ps)) =
      filter (\<lambda>l. container_id l = c) (pages_log ps)" for c
    using ids by (intro sort_key_id_if_sorted sorted_filter) (auto simp: sorted_wrt_append strict_sorted_iff)
  note list = listings_of_log[OF L, unfolded srt]
  have shown: "sorted_wrt (<) (map leaf_id (filter (\<lambda>l. container_id l = c) (pages_log ps)))" for c
    using ids by (simp add: sorted_wrt_append sorted_wrt_map sorted_wrt_filter)
  have found: "show_leaf X E T C j' c (leaf_id l) pretty = Inr (leaf_details X E T pretty l)"
    if "l \<in> set (pages_log ps)" "container_id l = c" for l c
    using list(3)[where i = "leaf_id l" and c = c] find_by_id[OF shown, of l c] that
    by (simp add: show_leaf_def leaf_details_def)
  have missing: "show_leaf X E T C j' c i pretty = Inr [''Leaf '' @ dec_digits i @ '' not found'']"
    if "i \<notin> leaf_id ` {l \<in> set (pages_log ps). container_id l = c}" for i c
  proof -
    have "find (\<lambda>x. leaf_id x = i) (filter (\<lambda>l. container_id l = c) (pages_log ps)) = None"
      using that by (auto simp: find_None_iff)
    then show ?thesis using list(3)[where i = i and c = c] by (simp add: show_leaf_def)
  qed
  have apart: "leaf_id ` set (active_leaves (manager j')) \<inter> leaf_id ` set (pages_log ps) = {}"
    using ids by (fastforce simp: sorted_wrt_append)
  have whole: "journal_log C j' = pages_log ps @ active_leaves (manager j')" using log by simp
  have listed: "list_leaves X T C j' c [] = (Inr (), map (leaf_line X T) (filter (\<lambda>l. container_id l = c) (pages_log ps)))"
    for c using list(2)[where out = "[]" and c = c] by simp
  show ?thesis
    by (rule exI[of _ "pages_log ps"], intro conjI allI ballI impI)
      (rule whole list(1) listed found missing apart; assumption?)+
qed

theorem demo_misses_active_leaves_witness:
  "\<exists>j hs j' n'. journal_new memory_config sample_disk = Inr j \<and>
     append_leaves sample_hashing sample_codecs memory_config two_requests (j, 0) = (Inr hs, j', n') \<and>
     (\<forall>E T pretty. \<exists>stored. journal_log sample_codecs j' = stored @ active_leaves (manager j') \<and>
        collect_leaves sample_codecs j' ''c'' = Inr (filter (\<lambda>l. container_id l = ''c'') stored) \<and>
        (\<forall>l\<in>set (active_leaves (manager j')). show_leaf sample_hashing E T sample_codecs j' ''c'' (leaf_id l) pretty =
           Inr [''Leaf '' @ dec_digits (leaf_id l) @ '' not found'']))"
proof -
  obtain j hs j' n' where r: "journal_new memory_config sample_disk = Inr j"
    "append_leaves sample_hashing sample_codecs memory_config two_requests (j, 0) = (Inr hs, j', n')"
    by (rule two_requests_run)
  have n: "0 + length two_requests \<le> 2 ^ 64" by (simp add: two_requests_def)
  have "\<exists>stored. journal_log sample_codecs j' = stored @ active_leaves (manager j') \<and>
      collect_leaves sample_codecs j' ''c'' = Inr (filter (\<lambda>l. container_id l = ''c'') stored) \<and>
      (\<forall>l\<in>set (active_leaves (manager j')). show_leaf sample_hashing E T sample_codecs j' ''c'' (leaf_id l) pretty =
         Inr [''Leaf '' @ dec_digits (leaf_id l) @ '' not found''])" for E T pretty
  proof -
    obtain stored where S: "journal_log sample_codecs j' = stored @ active_leaves (manager j')"
      "collect_leaves sample_codecs j' ''c'' = Inr (filter (\<lambda>l. container_id l = ''c'') stored)"
      "\<forall>i. i \<notin> leaf_id ` {l \<in> set stored. container_id l = ''c''} \<longrightarrow>
         show_leaf sample_hashing E T sample_codecs j' ''c'' i pretty = Inr [''Leaf '' @ dec_digits i @ '' not found'']"
      "leaf_id ` set (active_leaves (manager j')) \<inter> leaf_id ` set stored = {}"
      using demo_misses_active_leaves[OF memory_config_ok two_requests_facts(1,4) r(1) two_requests_facts(5) r(2) n,
          where T = T and E = E and pretty = pretty]
      by (elim exE conjE allE[of _ "''c''"]) (rule that)
    have "leaf_id l \<notin> leaf_id ` {l \<in> set stored. container_id l = ''c''}" if "l \<in> set (active_leaves (manager j'))" for l
      using S(4) that by auto
    with S(1-3) show ?thesis by blast
  qed
  with r show ?thesis by blast
qed

section \<open>The navigator\<close>

lemma session_simps [simp]:
  "alternate_screen (println ls s) = alternate_screen s" "raw_mode (println ls s) = raw_mode s"
  "served_journal (println ls s) = served_journal s" "databases (println ls s) = databases s"
  "alternate_screen (set_raw b s) = alternate_screen s" "raw_mode (set_raw b s) = b"
  "served_journal (set_raw b s) = served_journal s" "databases (set_raw b s) = databases s"
  "alternate_screen (press_enter s) = alternate_screen s" "raw_mode (press_enter s) = raw_mode s"
  "served_journal (press_enter s) = served_journal s" "databases (press_enter s) = databases s"
  "alternate_screen (set_screen b s) = b" "raw_mode (set_screen b s) = raw_mode s"
  "served_journal (set_screen b s) = served_journal s"
  by (simp_all add: println_def set_raw_def set_screen_def press_enter_def read_line_def split: list.split)

lemma read_line_simps:
  "read_line p s = (t, s') \<Longrightarrow> alternate_screen s' = alternate_screen s"
  "read_line p s = (t, s') \<Longrightarrow> served_journal s' = served_journal s"
  "read_line p s = (t, s') \<Longrightarrow> databases s' = databases s"
  "read_line p s = (t, s') \<Longrightarrow> raw_mode s' = raw_mode s"
  by (auto simp: read_line_def println_def split: list.splits)

text \<open>No prompt leaves the alternate screen.\<close>

lemma revert_cmd_screen: "alternate_screen (snd (revert_cmd X E C cfg c as_of url s)) = alternate_screen s"
  by (auto simp: revert_cmd_def read_clock_def add_record_def try_then_def split: option.split sum.split prod.split)

lemma prompts_screen:
  "alternate_screen (snd (show_state_prompt E C c s)) = alternate_screen s"
  "alternate_screen (snd (revert_prompt X E C cfg c s)) = alternate_screen s"
  "alternate_screen (snd (search_prompt leaves s)) = alternate_screen s"
  "alternate_screen (snd (display_db_prompt X E C c s)) = alternate_screen s"
proof -
  show "alternate_screen (snd (show_state_prompt E C c s)) = alternate_screen s"
    by (auto simp: show_state_prompt_def invalid_time_def read_line_simps split: prod.split option.split sum.split)
  show "alternate_screen (snd (search_prompt leaves s)) = alternate_screen s"
    by (auto simp: search_prompt_def read_line_simps split: prod.split)
  show "alternate_screen (snd (display_db_prompt X E C c s)) = alternate_screen s"
    by (auto simp: display_db_prompt_def read_clock_def split: sum.split)
  have "alternate_screen (snd (try_then (revert_cmd X E C cfg c t url s) (\<lambda>_ s. (Inr (), press_enter (println ls (set_raw False s)))))) =
      alternate_screen s" for t url ls s
    using revert_cmd_screen[of X E C cfg c t url s]
    by (auto simp: try_then_def split: prod.split sum.split)
  then show "alternate_screen (snd (revert_prompt X E C cfg c s)) = alternate_screen s"
    by (auto simp: revert_prompt_def invalid_time_def read_line_simps split: prod.split option.split)
qed

lemma log_viewer_loop_screen:
  "alternate_screen (snd (snd (log_viewer_loop X logs idx es s))) = alternate_screen s"
  "suffix (fst (snd (log_viewer_loop X logs idx es s))) es"
  "fst (log_viewer_loop X logs idx es s) = Waiting \<Longrightarrow> fst (snd (log_viewer_loop X logs idx es s)) = []"
  by (induction es arbitrary: idx s)
    (auto simp: Let_def intro: suffix_ConsI split: event.splits if_splits)

lemma log_viewer_screen:
  assumes "log_viewer_prompt X C c es s = (r, es', s')"
  shows "alternate_screen s' = alternate_screen s \<and> suffix es' es \<and> (r = Waiting \<longrightarrow> es' = [])"
proof (cases "collect_leaves C (fst (served_journal s)) c")
  case (Inr all)
  let ?logs = "filter (\<lambda>l. json_get ''log'' (delta_payload l) \<noteq> None) all"
  show ?thesis
    using assms Inr log_viewer_loop_screen[of X ?logs 0 es s]
    by (cases "?logs = []") (auto simp: log_viewer_prompt_def)
qed (use assms in \<open>auto simp: log_viewer_prompt_def\<close>)

lemma leaf_position_less: "leaf_position i leaves = Some n \<Longrightarrow> n < length leaves"
  by (induction leaves arbitrary: n) (auto split: if_splits)

lemma level_up_bounds:
  "level_up C j leaves idx level = Move i l n \<Longrightarrow> level \<le> 5 \<Longrightarrow> i = idx \<and> l \<le> 5"
  "level_up C j leaves idx level \<noteq> End Waiting" "level_up C j leaves idx level \<noteq> End Finished"
  by (auto simp: level_up_def split: if_splits sum.splits option.splits)

lemma move_bounds: "idx < n \<Longrightarrow> move_left idx < n" "idx < n \<Longrightarrow> move_right n idx < n"
  by (auto simp: move_left_def move_right_def)

text \<open>What a key keeps: the position is in bounds, the screen is the alternate one.\<close>

definition nav_ok :: "nat \<Rightarrow> event list \<Rightarrow> bool \<Rightarrow> nav_step \<times> event list \<times> session \<Rightarrow> bool" where
  "nav_ok n es alt r \<longleftrightarrow>
     (case r of (step, es', s') \<Rightarrow> alternate_screen s' = alt \<and> suffix es' es \<and>
        (case step of Move i l _ \<Rightarrow> i < n \<and> l \<le> 5 | End e \<Rightarrow> e = Waiting \<longrightarrow> es' = []))"

lemma nav_ok_prompt:
  assumes "alternate_screen (snd p) = alt" and "idx < n" and "level \<le> 5"
  shows "nav_ok n es alt (case after_prompt idx level p of (step, s) \<Rightarrow> (step, es, s))"
  using assms by (cases p; cases "fst p") (auto simp: nav_ok_def)

lemma nav_ok_view:
  assumes "alternate_screen s' = alt" and "suffix es' es" and "r = Waiting \<longrightarrow> es' = []"
    and "idx < n" and "level \<le> 5"
  shows "nav_ok n es alt (after_view idx level (r, es', s'))"
  using assms by (simp add: nav_ok_def)

lemma nav_ok_if:
  "(b \<Longrightarrow> nav_ok n es alt x) \<Longrightarrow> (\<not> b \<Longrightarrow> nav_ok n es alt y) \<Longrightarrow> nav_ok n es alt (if b then x else y)"
  by simp

lemma nav_key_ok:
  assumes "idx < length leaves" and "level \<le> 5"
  shows "nav_ok (length leaves) es (alternate_screen s) (nav_key X E C cfg c leaves k idx level es s)"
proof -
  let ?ok = "nav_ok (length leaves) es (alternate_screen s)"
  have move: "?ok (Move i l b, es, s)" if "i < length leaves" "l \<le> 5" for i l b
    using that by (simp add: nav_ok_def)
  have up: "?ok (level_up C (fst (served_journal s)) leaves idx level, es, s)"
    using assms level_up_bounds[of C "fst (served_journal s)" leaves idx level]
    by (cases "level_up C (fst (served_journal s)) leaves idx level") (auto simp: nav_ok_def)
  have quit: "?ok (End Finished, es, s)" by (simp add: nav_ok_def)
  have helped: "?ok (after_view idx level (show_help es s))"
    using assms by (cases es) (auto simp: show_help_def suffix_def nav_ok_def)
  obtain r1 es1 s1 where v: "log_viewer_prompt X C c es s = (r1, es1, s1)" by (metis prod_cases3)
  have view: "?ok (after_view idx level (log_viewer_prompt X C c es s))"
    unfolding v using log_viewer_screen[OF v] assms by (intro nav_ok_view) auto
  have jump: "?ok (case search_prompt leaves s of
         (Some n, s) \<Rightarrow> (Move n level True, es, s) | (None, s) \<Rightarrow> (Move idx level False, es, s))"
    using assms by (auto simp: search_prompt_def nav_ok_def read_line_simps dest: leaf_position_less
        split: prod.split option.split)
  show ?thesis
    unfolding nav_key_def Let_def
    by (intro nav_ok_if up quit helped view jump nav_ok_prompt prompts_screen move)
      (use assms in \<open>simp_all add: move_bounds move\<close>)
qed

lemma nav_loop_ok:
  assumes "nav_loop X E T C cfg c leaves idx level nr es s = (r, (idx', level'), es', s')"
    and "idx < length leaves" and "level \<le> 5"
  shows "idx' < length leaves \<and> level' \<le> 5 \<and> suffix es' es \<and> alternate_screen s' = alternate_screen s \<and>
    (r = Waiting \<longrightarrow> es' = [])"
  using assms
proof (induction X E T C cfg c leaves idx level nr es s arbitrary: r idx' level' es' s' rule: nav_loop.induct)
  case (1 X E T C cfg c leaves idx level nr es s)
  show ?case
  proof (cases "if nr then render_nav X E T C (fst (served_journal s)) c level idx leaves else Inr []")
    case (Inl e)
    with "1.prems" show ?thesis by (subst (asm) nav_loop.simps) auto
  next
    case (Inr ls)
    note IH = "1.IH"[OF Inr refl]
    show ?thesis
    proof (cases es)
      case Nil
      with "1.prems" Inr show ?thesis by (subst (asm) nav_loop.simps) auto
    next
      case (Cons e es1)
      show ?thesis
      proof (cases e)
        case Idle
        with "1.prems"(1) Inr Cons
        have "nav_loop X E T C cfg c leaves idx level False es1 (println ls s) = (r, (idx', level'), es', s')"
          by (subst (asm) nav_loop.simps) simp
        from IH(1)[OF Cons Idle this "1.prems"(2,3)] Cons show ?thesis by (auto intro: suffix_ConsI)
      next
        case (Pressed k)
        obtain st es2 s2 where k: "nav_key X E C cfg c leaves k idx level es1 (println ls s) = (st, es2, s2)"
          by (metis prod_cases3)
        have ok: "nav_ok (length leaves) es1 (alternate_screen s) (st, es2, s2)"
          using nav_key_ok[OF "1.prems"(2,3), of es1 "println ls s" X E C cfg c k] k by simp
        then have es: "suffix es2 es" using Cons by (auto simp: nav_ok_def intro: suffix_ConsI)
        show ?thesis
        proof (cases st)
          case (Move i l n)
          with "1.prems"(1) Inr Cons Pressed k
          have "nav_loop X E T C cfg c leaves i l n es2 s2 = (r, (idx', level'), es', s')"
            by (subst (asm) nav_loop.simps) simp
          from IH(2)[OF Cons Pressed k[symmetric] Move refl this] ok Move es show ?thesis
            by (auto simp: nav_ok_def intro: suffix_order.trans)
        next
          case (End r')
          with "1.prems" Inr Cons Pressed k ok es show ?thesis
            by (subst (asm) nav_loop.simps) (auto simp: nav_ok_def)
        qed
      qed
    qed
  qed
qed

text \<open>
  C39: the navigator stays inside the list of leaves and gives the terminal back only when it
  is left. Started at a leaf of the list and a level up to 5, on any keys, typed lines and
  server answers, it stops at a leaf of the list and a level up to 5, having consumed an
  initial part of the events; it waits only when all events are consumed. After \<open>q\<close> raw mode
  is off and the normal screen is back; when an operation fails, the program ends with the
  alternate screen still on.
\<close>

theorem navigator_stays_in_bounds:
  assumes "collect_leaves C (fst (served_journal s)) c = Inr leaves"
    and "idx < length leaves" and "level \<le> 5"
    and "nav_cmd X E T C cfg c (idx, level) es s = (r, (idx', level'), es', s')"
  shows "idx' < length leaves \<and> level' \<le> 5 \<and> suffix es' es \<and> (r = Waiting \<longrightarrow> es' = []) \<and>
    (if r = Finished then \<not> raw_mode s' \<and> \<not> alternate_screen s' else alternate_screen s')"
proof -
  obtain r1 i1 l1 es1 s1 where loop: "nav_loop X E T C cfg c leaves idx level True es
      (set_screen True (set_raw True s)) = (r1, (i1, l1), es1, s1)"
    by (metis prod_cases4 surj_pair)
  have ne: "leaves \<noteq> []" using assms(2) by auto
  from nav_loop_ok[OF loop assms(2,3)] assms(4) loop show ?thesis
    by (cases r1) (auto simp: nav_cmd_def assms(1) ne)
qed

section \<open>Typed times\<close>

lemma no_separators: "c \<in> set (dec_digits n) \<Longrightarrow>
    c \<noteq> CHR ''T'' \<and> c \<noteq> CHR '' '' \<and> c \<noteq> CHR ''-'' \<and> c \<noteq> CHR '':''"
  by (drule dec_digits_digits) (auto simp: is_digit_def)

lemma split_digits:
  assumes "c = CHR ''T'' \<or> c = CHR ''-'' \<or> c = CHR '':''"
  shows "split_on (\<lambda>x. x = c) (dec_digits n) = [dec_digits n]"
    and "split_on (\<lambda>x. x = c) (dec_digits n @ c # s) = dec_digits n # split_on (\<lambda>x. x = c) s"
  using assms by (auto intro!: split_on_word split_on_append dest: no_separators)

lemma trim_digits: "trim (dec_digits m @ s @ dec_digits n) = dec_digits m @ s @ dec_digits n"
proof -
  obtain c cs where c: "dec_digits m = c # cs" "is_digit c" using dec_digits_first by blast
  have n: "dec_digits n \<noteq> []" using dec_digits_first[of n] by auto
  then have "is_digit (last (dec_digits n))" using dec_digits_digits last_in_set by blast
  with c n show ?thesis by (intro trim_visible) (auto intro: digit_visible)
qed

text \<open>
  A date with its time of day in full is read as it is written. A date alone means one minute
  past midnight, because the default of the minute is 1.
\<close>

lemma parse_fuzzy_date_time:
  assumes "y < 2 ^ 31" and "mo < 2 ^ 32" and "d < 2 ^ 32" and "h < 2 ^ 32" and "mi < 2 ^ 32" and "se < 2 ^ 32"
  shows "parse_fuzzy_datetime E (dec_digits y @ ''-'' @ dec_digits mo @ ''-'' @ dec_digits d @ ''T'' @
      dec_digits h @ '':'' @ dec_digits mi @ '':'' @ dec_digits se) =
    Option.bind (from_ymd E (int y) mo d) (\<lambda>day. and_hms E day h mi se)"
proof -
  let ?date = "dec_digits y @ ''-'' @ dec_digits mo @ ''-'' @ dec_digits d"
  let ?time = "dec_digits h @ '':'' @ dec_digits mi @ '':'' @ dec_digits se"
  have t: "trim (?date @ ''T'' @ ?time) = ?date @ ''T'' @ ?time"
    using trim_digits[of y "''-'' @ dec_digits mo @ ''-'' @ dec_digits d @ ''T'' @ dec_digits h @ '':'' @ dec_digits mi @ '':''" se]
    by simp
  have "split_on (\<lambda>c. c = CHR ''T'' \<or> c = CHR '' '') (?date @ CHR ''T'' # ?time) =
      ?date # split_on (\<lambda>c. c = CHR ''T'' \<or> c = CHR '' '') ?time"
    by (rule split_on_append) (auto dest: no_separators)
  moreover have "split_on (\<lambda>c. c = CHR ''T'' \<or> c = CHR '' '') ?time = [?time]"
    by (rule split_on_word) (auto dest: no_separators)
  ultimately have parts: "split_on (\<lambda>c. c = CHR ''T'' \<or> c = CHR '' '') (?date @ ''T'' @ ?time) = [?date, ?time]"
    by simp
  note numbers = assms(2-)[THEN parse_unsigned_dec]
  have y: "parse_signed 32 (dec_digits y) = Some (int y)"
    using parse_signed_dec[of "int y" 32] assms(1) by (simp add: dec_int_def)
  have time: "split_on (\<lambda>c. c = CHR '':'') ?time = [dec_digits h, dec_digits mi, dec_digits se]"
    by (simp add: split_digits)
  have date: "split_on (\<lambda>c. c = CHR ''-'') ?date = [dec_digits y, dec_digits mo, dec_digits d]"
    by (simp add: split_digits)
  have date_numbers: "number_or 1 [dec_digits y, dec_digits mo, dec_digits d] 1 = mo"
    "number_or 1 [dec_digits y, dec_digits mo, dec_digits d] 2 = d"
    by (simp_all add: number_or_def numbers)
  have time_numbers: "number_or 0 [dec_digits h, dec_digits mi, dec_digits se] 0 = h"
    "number_or 1 [dec_digits h, dec_digits mi, dec_digits se] 1 = mi"
    "number_or 0 [dec_digits h, dec_digits mi, dec_digits se] 2 = se"
    by (simp_all add: number_or_def numbers)
  have items: "[?date, ?time] ! 0 = ?date" "[?date, ?time] ! 1 = ?time" "1 < length [?date, ?time]"
    "[dec_digits y, dec_digits mo, dec_digits d] ! 0 = dec_digits y" by simp_all
  have input: "dec_digits y @ ''-'' @ dec_digits mo @ ''-'' @ dec_digits d @ ''T'' @
      dec_digits h @ '':'' @ dec_digits mi @ '':'' @ dec_digits se = ?date @ ''T'' @ ?time" by simp
  have full: "?date @ ''T'' @ ?time \<noteq> []" "?time \<noteq> []" by simp_all
  show ?thesis
    unfolding parse_fuzzy_datetime_def input t parts Let_def items if_P[OF items(3)] full[THEN if_not_P] date time y
      date_numbers time_numbers option.case
    by (cases "from_ymd E (int y) mo d") simp_all
qed

lemma parse_fuzzy_date:
  assumes "y < 2 ^ 31" and "mo < 2 ^ 32" and "d < 2 ^ 32"
  shows "parse_fuzzy_datetime E (dec_digits y @ ''-'' @ dec_digits mo @ ''-'' @ dec_digits d) =
    Option.bind (from_ymd E (int y) mo d) (\<lambda>day. and_hms E day 0 1 0)"
proof -
  let ?date = "dec_digits y @ ''-'' @ dec_digits mo @ ''-'' @ dec_digits d"
  have t: "trim ?date = ?date" using trim_digits[of y "''-'' @ dec_digits mo @ ''-''" d] by simp
  have "\<forall>c\<in>set ?date. \<not> (c = CHR ''T'' \<or> c = CHR '' '')" by (auto dest: no_separators)
  then have parts: "split_on (\<lambda>c. c = CHR ''T'' \<or> c = CHR '' '') ?date = [?date]" by (rule split_on_word)
  note numbers = assms(2-)[THEN parse_unsigned_dec]
  have y: "parse_signed 32 (dec_digits y) = Some (int y)"
    using parse_signed_dec[of "int y" 32] assms(1) by (simp add: dec_int_def)
  show ?thesis
    unfolding parse_fuzzy_datetime_def t parts Let_def
    by (simp add: split_digits y number_or_def numbers split: option.split)
qed

section \<open>Reversal of a database\<close>

text \<open>The statements of a reversal that succeeds.\<close>

definition reverted_rows :: "externals \<Rightarrow> string \<Rightarrow> json \<Rightarrow> sql list" where
  "reverted_rows X c data =
     create_sql c # truncate_sql c # map (\<lambda>(k, v). insert_sql c k (show_json X v)) (object_fields data)"

lemma insert_fields_sent:
  "insert_fields X E url c fs sent = (Inr (), sent') \<Longrightarrow>
     sent' = sent @ map (\<lambda>(k, v). insert_sql c k (show_json X v)) fs"
proof (induction fs arbitrary: sent)
  case (Cons f fs)
  from Cons.prems show ?case
    by (cases f) (auto simp: pg_execute_def show_json_def elim!: try_then_InrE split: option.splits if_splits
        dest!: Cons.IH)
qed simp

lemma revert_sql_sent: "revert_sql X E url c data = (Inr (), sent) \<Longrightarrow> sent = reverted_rows X c data"
  by (auto simp: revert_sql_def pg_execute_def reverted_rows_def elim!: try_then_InrE split: if_splits
      dest!: insert_fields_sent)

definition revert_record :: "externals \<Rightarrow> timestamp \<Rightarrow> json" where
  "revert_record X t = JObject [(''revert_to'', JString (show_time X t))]"

lemma revert_cmd_result:
  assumes "parse_time E (show_time X t) = Some t"
    and "journal_container_state C (fst (served_journal s)) c t = Inr st"
    and "revert_cmd X E C cfg c (show_time X t) url s = (r, s')"
  defines "db \<equiv> databases s @ [(url, reverted_rows X c (rs_state_data st))]"
    and "logged \<equiv> append_leaf X C cfg (utc_now E (clock_reads s)) None c (revert_record X t) (served_journal s)"
  shows "raw_mode s' = raw_mode s \<and>
    (case r of
       Inr _ \<Rightarrow> databases s' = db \<and> (\<exists>h. logged = (Inr h, served_journal s'))
     | Inl e \<Rightarrow> databases s' = databases s \<and> served_journal s' = served_journal s \<or>
         databases s' = db \<and> logged = (Inl e, served_journal s'))"
proof (cases "pg_connects E url \<and> (\<exists>sent. revert_sql X E url c (rs_state_data st) = (Inr (), sent) \<and> pg_commits E url sent)")
  case False
  then show ?thesis
    using assms(1-3) by (auto simp: revert_cmd_def state_at_def split: if_splits prod.splits sum.splits)
next
  case True
  then obtain sent where q: "pg_connects E url" "revert_sql X E url c (rs_state_data st) = (Inr (), sent)"
    "pg_commits E url sent" by blast
  obtain r1 j1 where a: "logged = (r1, j1)" by (cases logged)
  show ?thesis
    using assms(1-3) q a revert_sql_sent[OF q(2)]
    by (cases r1) (auto simp: revert_cmd_def state_at_def read_clock_def add_record_def logged_def revert_record_def
        db_def println_def)
qed

text \<open>
  C40: a confirmed reversal writes the state it shows, records itself, and leaves the terminal
  in the wrong mode. When the user types a time, a database and \<open>y\<close>, a prompt that succeeds
  has committed one transaction that recreates the container's table with one row per field
  of the state reconstructed at that time, has appended one \<open>revert_to\<close> leaf, and returns with
  raw mode off, although the navigator goes on reading keys. When it fails, neither database
  nor journal changed, unless only the append failed: then the database is reverted without a
  record.
\<close>

theorem confirmed_revert:
  assumes "typed s = ts # url # yes # rest" and "parse_fuzzy_datetime E (trim ts) = Some t"
    and "is_yes (trim yes)" and "parse_time E (show_time X t) = Some t"
    and "journal_container_state C (fst (served_journal s)) c t = Inr st"
    and "revert_prompt X E C cfg c s = (r, s')"
  defines "db \<equiv> databases s @ [(trim url, reverted_rows X c (rs_state_data st))]"
    and "logged \<equiv> append_leaf X C cfg (utc_now E (clock_reads s)) None c (revert_record X t) (served_journal s)"
  shows "case r of
      Inr _ \<Rightarrow> databases s' = db \<and> (\<exists>h. logged = (Inr h, served_journal s')) \<and> \<not> raw_mode s'
    | Inl e \<Rightarrow> raw_mode s' \<and>
        (databases s' = databases s \<and> served_journal s' = served_journal s \<or>
         databases s' = db \<and> logged = (Inl e, served_journal s'))"
proof -
  define s1 where "s1 = (println [''Are you sure? [y/N] ''] (println [''Postgres URL: '']
     (println [''Revert to timestamp (YYYY[-MM[-DD[THH[:MM[:SS]]]]]): ''] (set_raw False s))))\<lparr>typed := rest\<rparr>"
  have s1: "databases (set_raw True s1) = databases s" "served_journal (set_raw True s1) = served_journal s"
    "clock_reads (set_raw True s1) = clock_reads s" "raw_mode (set_raw True s1)"
    by (simp_all add: s1_def println_def set_raw_def)
  have run: "revert_prompt X E C cfg c s =
      try_then (revert_cmd X E C cfg c (show_time X t) (trim url) (set_raw True s1)) (\<lambda>_ s.
        (Inr (), press_enter (println [''Reverted '' @ c @ '' to '' @ show_time X t] (set_raw False s))))"
    using assms(1-3) by (simp add: revert_prompt_def read_line_def println_def set_raw_def s1_def)
  obtain r2 s2 where cmd: "revert_cmd X E C cfg c (show_time X t) (trim url) (set_raw True s1) = (r2, s2)"
    by (metis surj_pair)
  have st: "journal_container_state C (fst (served_journal (set_raw True s1))) c t = Inr st"
    using assms(5) s1(2) by simp
  from revert_cmd_result[OF assms(4) st cmd] assms(6)
  show ?thesis
    unfolding s1 run cmd db_def logged_def by (cases r2) auto
qed

section \<open>The table of fields\<close>

lemma column_major: "concat (map (\<lambda>c. map (\<lambda>r. c * rows + r) [0..<rows]) [0..<cols]) = [0..<cols * rows]"
proof (induction cols)
  case (Suc cols)
  have "[0..<Suc cols * rows] = [0..<cols * rows] @ map (\<lambda>r. cols * rows + r) [0..<rows]"
    using upt_add_eq_append[of 0 "cols * rows" rows] map_add_upt[of "cols * rows" rows]
    by (simp add: add.commute)
  with Suc show ?case by simp
qed simp

lemma map_filter_concat: "List.map_filter f (concat xss) = concat (map (List.map_filter f) xss)"
  by (induction xss) (simp_all add: List.map_filter_def)

lemma map_filter_nth:
  assumes "length xs \<le> m"
  shows "List.map_filter (\<lambda>i. if i < length xs then Some (xs ! i) else None) [0..<m] = xs"
proof -
  have "[0..<m] = [0..<length xs] @ [length xs..<m]" using assms by (metis le_add_diff_inverse plus_nat.add_0 upt_add_eq_append zero_le)
  then have "List.map_filter (\<lambda>i. if i < length xs then Some (xs ! i) else None) [0..<m] = map ((!) xs) [0..<length xs]"
    by (simp add: List.map_filter_def comp_def cong: filter_cong map_cong)
  then show ?thesis by (simp add: map_nth)
qed

lemma ceiling_rows:
  assumes "0 < (cols::nat)"
  shows "n \<le> cols * ((n + cols - 1) div cols)" and "cols * ((n + cols - 1) div cols) \<le> n + cols - 1"
proof -
  have "n + cols - 1 < cols * ((n + cols - 1) div cols) + cols"
    using assms by (metis add.commute dividend_less_times_div mult.commute)
  then show "n \<le> cols * ((n + cols - 1) div cols)" using assms by linarith
qed (simp add: mult.commute)

text \<open>
  The table of a database shows every field once. For fewer than \<open>2 ^ 16\<close> fields and any
  width of the terminal for which the size of the table is computed without overflow, the
  cells read column by column are exactly the formatted fields in order, every row has one
  cell per column, and no product of the \<open>u16\<close> indices leaves the type.
\<close>

theorem table_shows_every_field:
  assumes "table_size term_w col_width (length formatted) = Some (rows, cols)"
    and "length formatted < 2 ^ 16"
  defines "cells \<equiv> table_cells (rows, cols) formatted"
  shows "concat (map (\<lambda>c. List.map_filter (\<lambda>row. row ! c) cells) [0..<cols]) = formatted \<and>
    length cells = rows \<and> (\<forall>row\<in>set cells. length row = cols) \<and> cols * rows < 2 ^ 16"
proof -
  have s: "cols = max 1 (term_w div col_width)" "length formatted + cols < 2 ^ 16"
    "rows = (length formatted + cols - 1) div cols"
    using assms(1,2) by (auto simp: table_size_def Let_def split: if_splits)
  then have c: "0 < cols" by simp
  note n = ceiling_rows[OF c, of "length formatted", folded s(3)]
  define g where "g i = (if i < length formatted then Some (formatted ! i) else None)" for i
  have cells: "cells = map (\<lambda>r. map (\<lambda>c. g (c * rows + r)) [0..<cols]) [0..<rows]"
    by (simp add: cells_def table_cells_def g_def Let_def)
  have col: "List.map_filter (\<lambda>row. row ! c) cells = List.map_filter g (map (\<lambda>r. c * rows + r) [0..<rows])"
    if "c < cols" for c
    using that by (simp add: cells List.map_filter_def filter_map comp_def)
  have "concat (map (\<lambda>c. List.map_filter (\<lambda>row. row ! c) cells) [0..<cols]) =
      concat (map (\<lambda>c. List.map_filter g (map (\<lambda>r. c * rows + r) [0..<rows])) [0..<cols])"
    using col by (intro arg_cong[where f = concat] map_cong) auto
  also have "\<dots> = List.map_filter g [0..<cols * rows]"
    unfolding column_major[symmetric] map_filter_concat by (simp add: comp_def)
  also have "\<dots> = formatted" unfolding g_def by (rule map_filter_nth) (use n in simp)
  finally show ?thesis using n(2) s(2) by (auto simp: cells)
qed

theorem table_shows_every_field_witness:
  "table_size 80 20 5 = Some (2, 4) \<and>
   concat (map (\<lambda>c. List.map_filter (\<lambda>row. row ! c) (table_cells (2, 4) [''a'', ''b'', ''c'', ''d'', ''e''])) [0..<4]) =
     [''a'', ''b'', ''c'', ''d'', ''e'']"
proof -
  have t: "table_size 80 20 (length [''a'', ''b'', ''c'', ''d'', ''e'']) = Some (2, 4)" by (simp add: table_size_def)
  moreover have "table_size 80 20 5 = Some (2, 4)" by (simp add: table_size_def)
  ultimately show ?thesis using table_shows_every_field[OF t] by simp
qed

section \<open>A closed session\<close>

definition shown_page :: journal_page where
  "shown_page = new_with_id sample_hashing day_only 0 0 None 0\<lparr>content := Leaves [sample_leaf 0 5]\<rparr>"

definition shown_journal :: journal where
  "shown_journal =
     \<lparr>manager = manager_new (MemoryState \<lparr>mem_pages = [((0, 0), shown_page)], fail_on_store_for = None\<rparr>),
      last_leaf_hash = None\<rparr>"

definition sample_demo_env :: demo_env where
  "sample_demo_env =
     \<lparr>strftime = (\<lambda>_ _. []), iso_week = (\<lambda>_. (1, 1970)), json_pretty = (\<lambda>_. None),
      page_pretty = (\<lambda>_. None), patches_pretty = (\<lambda>_. None), parse_time = (\<lambda>_. Some 9),
      from_ymd = (\<lambda>y m d. Some (y + int m + int d)), and_hms = (\<lambda>day h m s. Some 9), utc_now = (\<lambda>_. 7),
      terminal_width = 80, pg_connects = (\<lambda>_. True), pg_runs = (\<lambda>_ _. True), pg_commits = (\<lambda>_ _. True)\<rparr>"

definition shown_session :: "string list \<Rightarrow> session" where
  "shown_session user_input = new_session user_input (shown_journal, 1)"

lemma shown_journal_state:
  "journal_container_state C shown_journal ''c'' 9 =
     Inr \<lparr>rs_container_id = ''c'', rs_at_point = AtTimestamp 9,
          rs_state_data = JObject [(''f'', JBool True)]\<rparr>"
  by (simp add: journal_container_state_def shown_journal_def reconstruct_container_state_def query_result_def
      summaries_with_stored_active_def mem_list_summaries_def manager_new_def get_active_page_def core_def
      summary_of_def shown_page_def state_deltas_def mem_load_page_def sample_leaf_def get_current_active_page_id_def
      up_to_def Let_def apply_delta.simps)

lemma shown_journal_leaves: "collect_leaves C shown_journal ''c'' = Inr [sample_leaf 0 5]"
  by (simp add: collect_leaves_def leaf_page_summaries_def shown_journal_def manager_new_def mem_list_summaries_def
      get_active_page_def load_summarised_def summary_of_def shown_page_def mem_load_page_def sample_leaf_def
      leaves_of_def)

theorem navigator_stays_in_bounds_witness:
  "\<exists>r idx level es' s'. nav_cmd sample_hashing sample_demo_env sample_turnstile_codecs sample_codecs memory_config
       ''c'' (0, 0) [Pressed RightKey, Pressed UpKey, Pressed (CharKey (CHR ''q''))] (shown_session []) =
       (r, (idx, level), es', s') \<and> idx = 0 \<and> level \<le> 5"
proof -
  obtain r idx level es' s' where n: "nav_cmd sample_hashing sample_demo_env sample_turnstile_codecs sample_codecs
      memory_config ''c'' (0, 0) [Pressed RightKey, Pressed UpKey, Pressed (CharKey (CHR ''q''))] (shown_session []) =
      (r, (idx, level), es', s')" by (metis prod_cases4 surj_pair)
  have "collect_leaves sample_codecs (fst (served_journal (shown_session []))) ''c'' = Inr [sample_leaf 0 5]"
    by (simp add: shown_session_def new_session_def shown_journal_leaves)
  from navigator_stays_in_bounds[OF this _ _ n] n show ?thesis by auto
qed

theorem confirmed_revert_witness:
  "\<exists>r s'. revert_prompt sample_hashing sample_demo_env sample_codecs memory_config ''c''
       (shown_session [''2024-01-05'', ''url'', ''y'']) = (r, s') \<and>
     (case r of
        Inr _ \<Rightarrow> databases s' = [(''url'', reverted_rows sample_hashing ''c'' (JObject [(''f'', JBool True)]))] \<and>
          \<not> raw_mode s'
      | Inl e \<Rightarrow> raw_mode s')"
proof -
  let ?s = "shown_session [''2024-01-05'', ''url'', ''y'']"
  obtain r s' where p: "revert_prompt sample_hashing sample_demo_env sample_codecs memory_config ''c'' ?s = (r, s')"
    by (metis surj_pair)
  have t: "typed ?s = ''2024-01-05'' # ''url'' # ''y'' # []" "databases ?s = []"
    "fst (served_journal ?s) = shown_journal"
    by (simp_all add: shown_session_def new_session_def)
  have trims: "trim ''2024-01-05'' = ''2024-01-05''" "trim ''url'' = ''url''" "trim ''y'' = ''y''"
    by (rule trim_visible; simp add: visible_def)+
  have "split_on (\<lambda>c. c = CHR ''T'' \<or> c = CHR '' '') ''2024-01-05'' = [''2024-01-05'']" by simp
  moreover have "split_on (\<lambda>c. c = CHR ''-'') ''2024-01-05'' = [''2024'', ''01'', ''05'']" by simp
  moreover have "parse_signed 32 ''2024'' = Some 2024" by code_simp
  ultimately have time: "parse_fuzzy_datetime sample_demo_env (trim ''2024-01-05'') = Some 9"
    by (simp add: parse_fuzzy_datetime_def trims sample_demo_env_def)
  have url: "trim ''url'' = ''url''" "is_yes (trim ''y'')" by (simp_all add: trims is_yes_def to_lowercase_def lower_char_def)
  have "parse_time sample_demo_env (show_time sample_hashing 9) = Some 9" by (simp add: sample_demo_env_def)
  from confirmed_revert[OF t(1) time url(2) this shown_journal_state[folded t(3)] p] p
  show ?thesis by (cases r) (auto simp: t(2) url(1))
qed

end
