(* ===== verification/Demo_Data_Properties.thy ===== *)
theory Demo_Data_Properties
  imports Demo_Data Journal_Properties Turnstile_Properties
begin

text \<open>
  What the simulation of \<open>src/demo_cli/mod.rs\<close> and the generated demo data leave in a journal:
  the steps of both keep that the queue is empty and that the journal has taken exactly the
  requests made so far, which is enough to read off the log and its links.
\<close>

section \<open>The configuration of the demo\<close>

text \<open>It is one the manager's operations are made for when the configuration it is made from is.\<close>

lemma demo_config_ok: "config_ok cfg \<Longrightarrow> config_ok (demo_config cfg)"
  by (auto simp: config_ok_def demo_config_def demo_level_def level_ok_def Let_def)

section \<open>Results with a condition\<close>

text \<open>\<open>P\<close> holds of the value and the state; with \<open>tot\<close> there is no error.\<close>

definition ends_in :: "bool \<Rightarrow> ('a \<Rightarrow> 's \<Rightarrow> bool) \<Rightarrow> (cj_error + 'a) \<times> 's \<Rightarrow> bool" where
  "ends_in tot P r = (case r of (Inl e, s) \<Rightarrow> \<not> tot | (Inr x, s) \<Rightarrow> P x s)"

lemma ends_in_simps [simp]:
  "ends_in tot P (Inr x, s) = P x s" "ends_in tot P (Inl e, s) = (\<not> tot)"
  by (simp_all add: ends_in_def)

lemma ends_in_then:
  "ends_in tot P r \<Longrightarrow> (\<And>x s. P x s \<Longrightarrow> ends_in tot Q (k x s)) \<Longrightarrow> ends_in tot Q (try_then r k)"
  by (cases r; cases "fst r") auto

lemma ends_in_mono: "ends_in tot P r \<Longrightarrow> (\<And>x s. P x s \<Longrightarrow> Q x s) \<Longrightarrow> ends_in tot Q r"
  by (auto simp: ends_in_def split: prod.splits sum.splits)

section \<open>The queue\<close>

definition queue_ready :: "turnstile_codecs \<Rightarrow> turnstile \<Rightarrow> bool" where
  "queue_ready T t \<longleftrightarrow>
     storage_path t = None \<and> max_retries t = 1 \<and> hex_decode T (prev_leaf_hash t) \<noteq> None"

definition queue_idle :: "turnstile_codecs \<Rightarrow> turnstile \<Rightarrow> bool" where
  "queue_idle T t \<longleftrightarrow> queue_ready T t \<and> pending t = []"

text \<open>The only entry is pending under the ticket \<open>h\<close>, after \<open>k\<close> failures.\<close>

definition queue_holds ::
  "externals \<Rightarrow> turnstile_codecs \<Rightarrow> nat \<Rightarrow> string \<Rightarrow> turnstile \<Rightarrow> bool" where
  "queue_holds X T k h t \<longleftrightarrow> queue_ready T t \<and> (\<exists>e. pending t = [(h, e)] \<and> pe_status e = Pending \<and>
     retry_count e = k \<and> compute_hash X T (pe_prev_hash e) (payload_json e) = Inr h)"

lemma payload_text:
  assumes "codecs_total X T"
  obtains b where "json_to_vec X v = Some b" and "json_parses X b"
  using assms unfolding codecs_total_def by (metis option.case_eq_if option.collapse)

lemma ticket_decodes: "codecs_total X T \<Longrightarrow> compute_hash X T p b = Inr h \<Longrightarrow> hex_decode T h \<noteq> None"
  by (auto simp: compute_hash_def codecs_total_def split: if_splits option.splits)

lemma queue_payload_step:
  assumes "codecs_total X T" and "queue_idle T (queue s)"
  shows "ends_in True (\<lambda>h s'. sink s' = sink s \<and> queue_holds X T 0 h (queue s')) (queue_payload X T v t s)"
proof -
  obtain b where b: "json_to_vec X v = Some b" "json_parses X b" by (rule payload_text[OF assms(1)])
  obtain raw where raw: "hex_decode T (prev_leaf_hash (queue s)) = Some raw"
    using assms(2) by (auto simp: queue_idle_def queue_ready_def)
  obtain h where h: "compute_hash X T (prev_leaf_hash (queue s)) b = Inr h"
    using b raw by (simp add: compute_hash_def)
  show ?thesis
    using assms(2) h b raw by (simp add: queue_payload_def json_text_def on_queue_def turnstile_append_def persist_state_def
        queue_idle_def queue_ready_def queue_holds_def pending_entry_new_def)
qed

lemma confirm_step:
  assumes "codecs_total X T" and "queue_holds X T k h (queue s)"
  shows "ends_in True (\<lambda>_ s'. sink s' = sink s \<and> queue_idle T (queue s'))
    (on_queue (confirm_ticket X T h True None) s)"
  using assms(2)
  by (auto simp: queue_holds_def on_queue_def confirm_ticket_def persist_state_def remove_entry_def commit_log_leaf_def
      queue_idle_def queue_ready_def dest: ticket_decodes[OF assms(1)])

lemma reject_step:
  assumes "codecs_total X T" and "queue_holds X T 0 h (queue s)"
  shows "ends_in True (\<lambda>_ s'. sink s' = sink s \<and> queue_holds X T 1 h (queue s'))
    (on_queue (confirm_ticket X T h False (Some msg)) s)"
proof -
  obtain e where q: "queue_ready T (queue s)" "pending (queue s) = [(h, e)]" "pe_status e = Pending"
    "retry_count e = 0" "compute_hash X T (pe_prev_hash e) (payload_json e) = Inr h"
    using assms(2) by (auto simp: queue_holds_def)
  let ?e = "rejected_entry 1 (Some msg) e"
  let ?t = "set_entry h ?e (queue s)"
  let ?r = "log_orphan_leaf X T h msg (pe_timestamp ?e) ?t"
  have "hex_decode T (prev_leaf_hash ?t) \<noteq> None" using q(1) by (simp add: queue_ready_def set_entry_def)
  note o = log_orphan_ok[OF assms(1) this, of h msg "pe_timestamp ?e"]
  have "confirm_ticket X T h False (Some msg) (queue s) = (Inr (), snd ?r)"
    using q o(1) log_orphan_same(3)[of X T h msg "pe_timestamp ?e" ?t]
    by (cases ?r) (simp add: confirm_ticket_def queue_ready_def persist_state_def set_entry_def)
  moreover have "queue_holds X T 1 h (snd ?r)"
    using q o(2) by (auto simp: queue_holds_def queue_ready_def log_orphan_same set_entry_def rejected_entry_def)
  ultimately show ?thesis by (simp add: on_queue_def)
qed

lemma log_success_ok:
  assumes "codecs_total X T" and "queue_ready T t"
  shows "ends_in True (\<lambda>_ t'. queue_ready T t' \<and> pending t' = pending t) (log_success_leaf X T h ts t)"
proof -
  obtain b where b: "json_to_vec X (JObject [(''orig_hash'', JString h), (''timestamp'', JNumber (dec_digits ts)),
      (''type'', JString ''retry_success'')]) = Some b" "json_parses X b"
    by (rule payload_text[OF assms(1)])
  obtain raw where "hex_decode T (prev_leaf_hash t) = Some raw" using assms(2) by (auto simp: queue_ready_def)
  then obtain g where "compute_hash X T (prev_leaf_hash t) b = Inr g" using b by (simp add: compute_hash_def)
  with assms(2) b show ?thesis
    by (auto simp: log_success_leaf_def json_text_def commit_log_leaf_def queue_ready_def
        dest: ticket_decodes[OF assms(1)])
qed

lemma retry_step:
  assumes "codecs_total X T" and "queue_holds X T k h (queue s)"
  shows "ends_in True (\<lambda>_ s'. sink s' = sink s \<and> queue_idle T (queue s'))
    (on_queue (retry_next_pending X T (\<lambda>_ _ _. 1)) s)"
proof -
  obtain e where q: "queue_ready T (queue s)" "pending (queue s) = [(h, e)]" "pe_status e = Pending"
    "compute_hash X T (pe_prev_hash e) (payload_json e) = Inr h"
    using assms(2) by (auto simp: queue_holds_def)
  let ?t = "commit_log_leaf h (remove_entry h (queue s))"
  have "queue_ready T ?t" "pending ?t = []"
    using q ticket_decodes[OF assms(1) q(4)] by (simp_all add: queue_ready_def commit_log_leaf_def remove_entry_def)
  moreover have "retry_next_pending X T (\<lambda>_ _ _. 1) (queue s) =
      try_then (log_success_leaf X T h (pe_timestamp e) ?t) (\<lambda>_ t. (Inr 0, t))"
    using q by (simp add: retry_next_pending_def oldest_pending_def persist_state_def queue_ready_def commit_log_leaf_def
        remove_entry_def)
  ultimately show ?thesis
    using log_success_ok[OF assms(1), of ?t h "pe_timestamp e"]
    by (cases "log_success_leaf X T h (pe_timestamp e) ?t"; cases "fst (log_success_leaf X T h (pe_timestamp e) ?t)")
      (auto simp: on_queue_def queue_idle_def)
qed

section \<open>The journal behind the queue\<close>

lemma ends_in_always: "ends_in True P r \<Longrightarrow> ends_in tot P r"
  by (cases r; cases "fst r") auto

lemma append_leaves_snoc:
  "append_leaves X C cfg (rs @ [r]) st =
     try_then (append_leaves X C cfg rs st) (\<lambda>hs st.
     try_then (append_leaf X C cfg (rq_timestamp r) (rq_parent r) (rq_container r) (rq_data r) st) (\<lambda>h st.
       (Inr (hs @ [h]), st)))"
proof (induction rs arbitrary: st)
  case (Cons q rs)
  then show ?case by (auto simp: try_then_def split: prod.split sum.split)
qed (simp add: try_then_def split: prod.split sum.split)

text \<open>The journal \<open>j\<close> has taken the requests \<open>rs\<close>, answering \<open>hs\<close>.\<close>

definition taken ::
  "externals \<Rightarrow> codecs \<Rightarrow> config \<Rightarrow> journal \<times> nat \<Rightarrow> append_request list \<Rightarrow> page_content_hash list \<Rightarrow>
    feed \<Rightarrow> bool" where
  "taken X C cfg j rs hs s \<longleftrightarrow>
     append_leaves X C cfg rs j = (Inr hs, sink s) \<and> requests_valid rs \<and> length hs = length rs"

text \<open>\<open>tot\<close> stands for a journal in memory with room for \<open>N\<close> requests, which refuses none.\<close>

definition can_take :: "config \<Rightarrow> file_storage \<Rightarrow> journal \<Rightarrow> nat \<Rightarrow> bool \<Rightarrow> bool" where
  "can_take cfg disk j N tot \<longleftrightarrow>
     (tot \<longrightarrow> config_ok cfg \<and> storage_type (storage_cfg cfg) = MemoryType \<and> journal_new cfg disk = Inr j \<and>
       (4 * N + 6) * 2 ^ length (levels cfg) \<le> 2 ^ 64)"

definition entry :: "string \<Rightarrow> timestamp \<Rightarrow> page_content_hash option \<Rightarrow> json \<Rightarrow> append_request" where
  "entry c ts prev data = \<lparr>rq_timestamp = ts, rq_parent = prev, rq_container = c, rq_data = data\<rparr>"

lemma entry_simps [simp]:
  "rq_timestamp (entry c ts prev data) = ts" "rq_parent (entry c ts prev data) = prev"
  "rq_container (entry c ts prev data) = c" "rq_data (entry c ts prev data) = data"
  by (simp_all add: entry_def)

lemma append_step:
  assumes "codecs_total X T" and "can_take cfg disk j N tot" and "length rs < N"
    and "taken X C cfg (j, n) rs hs s" and "0 \<le> ts" and "in_i64 ts"
  shows "ends_in tot (\<lambda>res s'. (\<exists>h. res = LeafHash h) \<and> queue s' = queue s \<and>
      taken X C cfg (j, n) (rs @ [entry c ts prev data]) (hs @ [res]) s')
    (append_to X C cfg c ts prev data s)"
proof -
  let ?r = "entry c ts prev data"
  have v: "requests_valid (rs @ [?r])" using assms(4-6) by (auto simp: taken_def requests_valid_def)
  obtain r jn where a: "append_leaf X C cfg ts prev c data (sink s) = (r, jn)" by (metis surj_pair)
  have snoc: "append_leaves X C cfg (rs @ [?r]) (j, n) = try_then (r, jn) (\<lambda>h st. (Inr (hs @ [h]), st))"
    using assms(4) a by (simp add: append_leaves_snoc taken_def)
  show ?thesis
  proof (cases r)
    case (Inl e)
    have "\<not> tot"
    proof
      assume tot
      with assms(2) have m: "config_ok cfg" "storage_type (storage_cfg cfg) = MemoryType" "journal_new cfg disk = Inr j"
        "(4 * N + 6) * 2 ^ length (levels cfg) \<le> 2 ^ 64" by (simp_all add: can_take_def)
      have "payloads_ok X (rs @ [?r])" unfolding payloads_ok_def using payload_text[OF assms(1)] by metis
      moreover have "(4 * length (rs @ [?r]) + 6) * 2 ^ length (levels cfg) \<le> (4 * N + 6) * 2 ^ length (levels cfg)"
        using assms(3) by (intro mult_right_mono) simp_all
      then have "(4 * length (rs @ [?r]) + 6) * 2 ^ length (levels cfg) \<le> 2 ^ 64" using m(4) by linarith
      ultimately obtain hs' j' n' where "append_leaves X C cfg (rs @ [?r]) (j, n) = (Inr hs', j', n')"
        using memory_appends_succeed[OF m(1,2) v, of X disk C n] m(3) by force
      with snoc Inl show False by simp
    qed
    with a Inl show ?thesis by (simp add: append_to_def)
  next
    case (Inr res)
    have "\<exists>h. res = LeafHash h"
      using a Inr by (auto simp: append_leaf_def split: prod.splits sum.splits)
    moreover have "append_leaves X C cfg (rs @ [?r]) (j, n) = (Inr (hs @ [res]), jn)" using snoc Inr by simp
    ultimately show ?thesis
      using a Inr v assms(4) by (auto simp: append_to_def taken_def)
  qed
qed

lemma taken_sink: "taken X C cfg j rs hs s \<Longrightarrow> sink s' = sink s \<Longrightarrow> taken X C cfg j rs hs s'"
  by (simp add: taken_def)

definition fed ::
  "externals \<Rightarrow> turnstile_codecs \<Rightarrow> codecs \<Rightarrow> config \<Rightarrow> journal \<times> nat \<Rightarrow> append_request list \<Rightarrow>
    page_content_hash list \<Rightarrow> feed \<Rightarrow> bool" where
  "fed X T C cfg j rs hs s \<longleftrightarrow> queue_idle T (queue s) \<and> taken X C cfg j rs hs s"

text \<open>One payload under a ticket: accepted and confirmed, or rejected and later retried.\<close>

lemma fed_payload:
  assumes "codecs_total X T" and "fed X T C cfg j rs hs s"
  shows "ends_in tot (\<lambda>h s'. queue_holds X T 0 h (queue s') \<and> taken X C cfg j rs hs s') (queue_payload X T v t s)"
  by (rule ends_in_mono[OF ends_in_always[OF queue_payload_step[OF assms(1)]]])
    (use assms(2) in \<open>auto simp: fed_def intro: taken_sink\<close>)

lemma fed_confirm:
  assumes "codecs_total X T" and "queue_holds X T k h (queue s)" and "taken X C cfg j rs hs s"
  shows "ends_in tot (\<lambda>_. fed X T C cfg j rs hs) (on_queue (confirm_ticket X T h True None) s)"
  by (rule ends_in_mono[OF ends_in_always[OF confirm_step[OF assms(1,2)]]])
    (use assms(3) in \<open>auto simp: fed_def intro: taken_sink\<close>)

lemma fed_reject:
  assumes "codecs_total X T" and "queue_holds X T 0 h (queue s)" and "taken X C cfg j rs hs s"
  shows "ends_in tot (\<lambda>_ s'. queue_holds X T 1 h (queue s') \<and> taken X C cfg j rs hs s')
    (on_queue (confirm_ticket X T h False (Some msg)) s)"
  by (rule ends_in_mono[OF ends_in_always[OF reject_step[OF assms(1,2)]]])
    (use assms(3) in \<open>auto intro: taken_sink\<close>)

lemma fed_retry:
  assumes "codecs_total X T" and "queue_holds X T k h (queue s)" and "taken X C cfg j rs hs s"
  shows "ends_in tot (\<lambda>_. fed X T C cfg j rs hs) (on_queue (retry_next_pending X T (\<lambda>_ _ _. 1)) s)"
  by (rule ends_in_mono[OF ends_in_always[OF retry_step[OF assms(1,2)]]])
    (use assms(3) in \<open>auto simp: fed_def intro: taken_sink\<close>)

lemma fed_append:
  assumes "codecs_total X T" and "can_take cfg disk j N tot" and "length rs < N"
    and "fed X T C cfg (j, n) rs hs s" and "0 \<le> ts" and "in_i64 ts"
  shows "ends_in tot (\<lambda>res s'. (\<exists>h. res = LeafHash h) \<and>
      fed X T C cfg (j, n) (rs @ [entry c ts prev data]) (hs @ [res]) s')
    (append_to X C cfg c ts prev data s)"
proof -
  have t: "taken X C cfg (j, n) rs hs s" and q: "queue_idle T (queue s)" using assms(4) by (simp_all add: fed_def)
  show ?thesis
    by (rule ends_in_mono[OF append_step[OF assms(1,2,3) t assms(5,6)]]) (use q in \<open>auto simp: fed_def\<close>)
qed

section \<open>The fields of a simulation\<close>

lemma simulate_plain_fed:
  assumes "codecs_total X T" and "can_take cfg disk j N tot" and "length rs < N"
    and "fed X T C cfg (j, n) rs hs s" and "0 \<le> ts" and "in_i64 ts"
  shows "ends_in tot (\<lambda>p s'. \<exists>res. p = Some res \<and>
      fed X T C cfg (j, n) (rs @ [entry c ts prev payload]) (hs @ [res]) s')
    (simulate_plain X T C cfg c ts payload prev s)"
  unfolding simulate_plain_def
proof (rule ends_in_then[OF fed_payload[OF assms(1,4)]], elim conjE)
  fix h s1 assume q: "queue_holds X T 0 h (queue s1)" "taken X C cfg (j, n) rs hs s1"
  show "ends_in tot (\<lambda>p s'. \<exists>res. p = Some res \<and> fed X T C cfg (j, n) (rs @ [entry c ts prev payload]) (hs @ [res]) s')
    (try_then (on_queue (confirm_ticket X T h True None) s1) (\<lambda>_ s.
     try_then (append_to X C cfg c ts prev payload s) (\<lambda>res s. (Inr (keep_hash prev res), s))))"
    by (rule ends_in_then[OF fed_confirm[OF assms(1) q]])
      (auto intro!: ends_in_then[OF fed_append[OF assms(1-3) _ assms(5,6)]] simp: keep_hash_def)
qed

lemma malformed_fed:
  assumes "codecs_total X T" and "\<not> json_parses X (str_bytes ''{'')" and "can_take cfg disk j N tot"
    and "length rs < N" and "fed X T C cfg (j, n) rs hs s" and "0 \<le> ts" and "in_i64 ts"
  shows "ends_in tot (\<lambda>_ s'. \<exists>h. fed X T C cfg (j, n) (rs @ [entry c ts prev (log_entry ''malformed packet'')]) (hs @ [h]) s')
    (malformed_packet X T C cfg c secs ts prev s)"
proof -
  have "on_queue (turnstile_append X T (str_bytes ''{'') secs) s = (Inl SerdeJson, s)"
    using assms(2) by (simp add: on_queue_def turnstile_append_def compute_hash_def)
  then have "malformed_packet X T C cfg c secs ts prev s =
      try_then (append_to X C cfg c ts prev (log_entry ''malformed packet'') s) (\<lambda>_ s. (Inr (), s))"
    by (simp add: malformed_packet_def)
  then show ?thesis
    by (auto intro!: ends_in_then[OF fed_append[OF assms(1,3-7)]])
qed

lemma after_times:
  assumes "0 \<le> ts" and "in_i64 (after ts 2)"
  shows "in_i64 ts" "0 \<le> after ts 1" "in_i64 (after ts 1)" "0 \<le> after ts 2" "unix_u64 ts + 1 < 2 ^ 64"
proof -
  show *: "in_i64 ts" "0 \<le> after ts 1" "in_i64 (after ts 1)" "0 \<le> after ts 2"
    using assms by (auto simp: after_def nanos_def in_i64_def)
  have "ts div 1000000000 mod 2 ^ 64 \<le> ts div 1000000000" using assms(1) by (intro zmod_le_nonneg_dividend) simp
  also have "\<dots> < 2 ^ 63" using *(1) assms(1) by (simp add: in_i64_def)
  finally show "unix_u64 ts + 1 < 2 ^ 64" by (simp add: unix_u64_def nat_less_iff)
qed

lemma simulate_malformed_fed:
  assumes "codecs_total X T" and "\<not> json_parses X (str_bytes ''{'')" and "can_take cfg disk j N tot"
    and "length rs + 1 < N" and "fed X T C cfg (j, n) rs hs s" and "0 \<le> ts" and "in_i64 (after ts 2)"
  shows "ends_in tot (\<lambda>p s'. \<exists>h res. p = Some res \<and> fed X T C cfg (j, n)
      (rs @ [entry c ts prev (log_entry ''malformed packet''), entry c (after ts 1) prev payload]) (hs @ [h, res]) s')
    (simulate_malformed X T C cfg c ts payload prev s)"
  unfolding simulate_malformed_def
proof (rule ends_in_then[OF malformed_fed[OF assms(1-3) _ assms(5,6)]], goal_cases)
  case 1 show ?case using assms(4) by simp
next
  case 2 show ?case by (rule after_times(1)[OF assms(6,7)])
next
  case (3 u s1)
  then obtain h where f: "fed X T C cfg (j, n) (rs @ [entry c ts prev (log_entry ''malformed packet'')]) (hs @ [h]) s1"
    by blast
  have l: "length (rs @ [entry c ts prev (log_entry ''malformed packet'')]) < N" using assms(4) by simp
  note t = after_times[OF assms(6,7)]
  have "ends_in tot (\<lambda>p s'. \<exists>h res. p = Some res \<and> fed X T C cfg (j, n)
      (rs @ [entry c ts prev (log_entry ''malformed packet''), entry c (after ts 1) prev payload]) (hs @ [h, res]) s')
    (try_then (queue_payload X T payload (unix_u64 ts + 1) s1) (\<lambda>ticket s.
       try_then (on_queue (confirm_ticket X T ticket True None) s) (\<lambda>_ s.
       try_then (append_to X C cfg c (after ts 1) prev payload s) (\<lambda>res s.
         (Inr (keep_hash prev res), s)))))"
  proof (rule ends_in_then[OF fed_payload[OF assms(1) f]], elim conjE)
    fix g s2 assume q: "queue_holds X T 0 g (queue s2)"
      "taken X C cfg (j, n) (rs @ [entry c ts prev (log_entry ''malformed packet'')]) (hs @ [h]) s2"
    show "ends_in tot (\<lambda>p s'. \<exists>h res. p = Some res \<and> fed X T C cfg (j, n)
        (rs @ [entry c ts prev (log_entry ''malformed packet''), entry c (after ts 1) prev payload]) (hs @ [h, res]) s')
      (try_then (on_queue (confirm_ticket X T g True None) s2) (\<lambda>_ s.
         try_then (append_to X C cfg c (after ts 1) prev payload s) (\<lambda>res s. (Inr (keep_hash prev res), s))))"
      by (rule ends_in_then[OF fed_confirm[OF assms(1) q]], rule ends_in_then[OF fed_append[OF assms(1,3) l _ t(2,3)]])
        (auto simp: keep_hash_def)
  qed
  with t(5) show ?case by simp
qed

lemma simulate_rejected_fed:
  assumes "codecs_total X T" and "can_take cfg disk j N tot" and "length rs + 2 < N"
    and "fed X T C cfg (j, n) rs hs s" and "0 \<le> ts" and "in_i64 (after ts 2)"
  shows "ends_in tot (\<lambda>p s'. \<exists>h1 h2 h3. p = Some h2 \<and> fed X T C cfg (j, n)
      (rs @ [entry c ts prev (log_entry ''network error''), entry c (after ts 1) (Some h1) payload,
         entry c (after ts 2) (Some h2) (log_entry ''retry success'')]) (hs @ [h1, h2, h3]) s')
    (simulate_rejected X T C cfg c ts payload prev s)"
  unfolding simulate_rejected_def
proof (rule ends_in_then[OF fed_payload[OF assms(1,4)]], elim conjE, goal_cases)
  case (1 g s1)
  note t = after_times[OF assms(5,6)]
  let ?r1 = "entry c ts prev (log_entry ''network error'')"
  have l: "length rs < N" "length (rs @ [?r1]) < N" "length (rs @ [?r1, r2]) < N" for r2 using assms(3) by simp_all
  show ?case
  proof (rule ends_in_then[OF fed_reject[OF assms(1) 1]], elim conjE, goal_cases)
    case (1 _ s2)
    show ?case
    proof (rule ends_in_then[OF append_step[OF assms(1,2) l(1) 1(2) assms(5) t(1)]], elim conjE exE, goal_cases)
      case (1 h1 s3 h1')
      have f3: "queue_holds X T 1 g (queue s3)" using 1 \<open>queue_holds X T 1 g (queue s2)\<close> by simp
      show ?case
        unfolding Let_def
      proof (rule ends_in_then[OF fed_retry[OF assms(1) f3 1(2)]], rule ends_in_then[OF fed_append[OF assms(1,2) l(2) _ t(2,3)]],
          assumption, elim conjE exE, goal_cases)
        case (1 _ s4 h2 s5 h2')
        have f5: "fed X T C cfg (j, n) (rs @ [?r1, entry c (after ts 1) (Some h1) payload]) (hs @ [h1, h2]) s5"
          using 1 \<open>h1 = LeafHash h1'\<close> by (simp add: keep_hash_def)
        show ?case
          by (rule ends_in_then[OF fed_append[OF assms(1,2) l(3) f5 t(4) assms(6)]])
            (use 1 \<open>h1 = LeafHash h1'\<close> in \<open>auto simp: keep_hash_def\<close>)
      qed
    qed
  qed
qed

section \<open>The simulated history\<close>

text \<open>
  The update and the log messages of a field,
  and the place of the leaf each leaf names: the one before it, but the update of field 5
  names the update of field 4, past the malformed packet, and field 11 that of field 10, past
  the message about its retry.
\<close>

definition field_entries ::
  "demo_random \<Rightarrow> timestamp \<Rightarrow> int \<Rightarrow> nat \<Rightarrow> nat \<Rightarrow> (timestamp \<times> json) list" where
  "field_entries R start range_secs seed i =
     (let ts = after start (draw R seed i 0 range_secs);
          payload = JObject [(''field'' @ dec_digits (i + 1), JString (sentence R i))]
      in if i = 4 then [(ts, log_entry ''malformed packet''), (after ts 1, payload)]
         else if i = 9 then [(ts, log_entry ''network error''), (after ts 1, payload),
           (after ts 2, log_entry ''retry success'')]
         else [(ts, payload)])"

definition simulated :: "demo_random \<Rightarrow> timestamp \<Rightarrow> int \<Rightarrow> nat \<Rightarrow> nat \<Rightarrow> (timestamp \<times> json) list" where
  "simulated R start range_secs seed n =
     concat (map (field_entries R start range_secs seed) [0..<n])"

definition parent_of :: "nat \<Rightarrow> nat option" where
  "parent_of k = (if k = 0 then None else Some (if k = 5 then 3 else if k = 13 then 11 else k - 1))"

definition sim_count :: "nat \<Rightarrow> nat" where
  "sim_count i = i + (if 5 \<le> i then 1 else 0) + (if 10 \<le> i then 2 else 0)"

definition last_kept :: "nat \<Rightarrow> nat" where
  "last_kept i = (if i < 5 then i - 1 else if i < 10 then i else if i = 10 then 11 else i + 2)"

definition linked :: "append_request list \<Rightarrow> page_content_hash list \<Rightarrow> bool" where
  "linked rs hs \<longleftrightarrow> (\<forall>k<length rs. rq_parent (rs ! k) = map_option ((!) hs) (parent_of k))"

lemma linked_snoc:
  assumes "linked rs hs" and "length hs = length rs"
    and "rq_parent r = map_option ((!) hs) (parent_of (length rs))"
  shows "linked (rs @ [r]) (hs @ [h])"
proof -
  have "map_option ((!) (hs @ [h])) (parent_of k) = map_option ((!) hs) (parent_of k)" if "k \<le> length rs" for k
    using that assms(2) by (auto simp: parent_of_def nth_append)
  with assms show ?thesis by (auto simp: linked_def nth_append less_Suc_eq)
qed

definition sim_inv ::
  "externals \<Rightarrow> turnstile_codecs \<Rightarrow> codecs \<Rightarrow> config \<Rightarrow> string \<Rightarrow> journal \<times> nat \<Rightarrow> (timestamp \<times> json) list \<Rightarrow>
    nat \<Rightarrow> page_content_hash option \<Rightarrow> feed \<Rightarrow> bool" where
  "sim_inv X T C cfg c j entries i prev s \<longleftrightarrow>
     (\<exists>rs hs. fed X T C cfg j rs hs s \<and> map (\<lambda>r. (rq_timestamp r, rq_data r)) rs = entries \<and>
        (\<forall>r\<in>set rs. rq_container r = c) \<and> length rs = sim_count i \<and> length hs = length rs \<and> linked rs hs \<and>
        prev = (if i = 0 then None else Some (hs ! last_kept i)))"

lemma simulate_field_step:
  assumes "codecs_total X T" and "\<not> json_parses X (str_bytes ''{'')" and "can_take cfg disk j N tot"
    and "sim_count (Suc i) \<le> N" and "0 < range_secs"
    and "0 \<le> after start (draw R seed i 0 range_secs)"
    and "in_i64 (after (after start (draw R seed i 0 range_secs)) 2)"
    and "sim_inv X T C cfg c (j, n) entries i prev s"
  shows "ends_in tot (sim_inv X T C cfg c (j, n) (entries @ field_entries R start range_secs seed i) (Suc i))
    (simulate_field X R T C cfg c start range_secs seed i prev s)"
proof -
  let ?ts = "after start (draw R seed i 0 range_secs)"
  let ?v = "JObject [(''field'' @ dec_digits (i + 1), JString (sentence R i))]"
  obtain rs hs where I: "fed X T C cfg (j, n) rs hs s" "map (\<lambda>r. (rq_timestamp r, rq_data r)) rs = entries"
    "\<forall>r\<in>set rs. rq_container r = c" "length rs = sim_count i" "length hs = length rs" "linked rs hs"
    "prev = (if i = 0 then None else Some (hs ! last_kept i))"
    using assms(8) by (auto simp: sim_inv_def)
  have parent: "prev = map_option ((!) hs) (parent_of (length rs))"
    unfolding I(4,7) by (auto simp: parent_of_def sim_count_def last_kept_def)
  consider "i = 4" | "i = 9" | "i \<noteq> 4" "i \<noteq> 9" by blast
  then show ?thesis
  proof cases
    case 1
    have "length rs + 1 < N" using assms(4) 1 I(4) by (simp add: sim_count_def)
    note step = simulate_malformed_fed[OF assms(1-3) this I(1) assms(6,7), of c prev ?v]
    have run: "simulate_field X R T C cfg c start range_secs seed i prev s = simulate_malformed X T C cfg c ?ts ?v prev s"
      using assms(5) 1 by (simp add: simulate_field_def Let_def)
    have l: "length rs = 4" "length hs = 4" using I(4,5) 1 by (simp_all add: sim_count_def)
    have link: "linked ((rs @ [entry c ?ts prev m]) @ [entry c (after ?ts 1) prev ?v]) ((hs @ [h]) @ [res])" for m h res
      using I(5,6) parent by (intro linked_snoc) (simp_all add: l parent_of_def nth_append)
    show ?thesis
      unfolding run
      by (rule ends_in_mono[OF step], elim exE conjE, unfold sim_inv_def, (rule exI)+, rule conjI, assumption)
        (use I(2,3) link l 1 in \<open>auto simp: field_entries_def Let_def sim_count_def last_kept_def nth_append\<close>)
  next
    case 2
    have "length rs + 2 < N" using assms(4) 2 I(4) by (simp add: sim_count_def)
    note step = simulate_rejected_fed[OF assms(1,3) this I(1) assms(6,7), of c prev ?v]
    have run: "simulate_field X R T C cfg c start range_secs seed i prev s = simulate_rejected X T C cfg c ?ts ?v prev s"
      using assms(5) 2 by (simp add: simulate_field_def Let_def)
    have l: "length rs = 10" "length hs = 10" using I(4,5) 2 by (simp_all add: sim_count_def)
    have link: "linked (((rs @ [entry c ?ts prev m]) @ [entry c (after ?ts 1) (Some h1) ?v]) @
        [entry c (after ?ts 2) (Some h2) m']) (((hs @ [h1]) @ [h2]) @ [h3])" for m m' h1 h2 h3
      using I(5,6) parent by (intro linked_snoc) (simp_all add: l parent_of_def nth_append)
    show ?thesis
      unfolding run
      by (rule ends_in_mono[OF step], elim exE conjE, unfold sim_inv_def, (rule exI)+, rule conjI, assumption)
        (use I(2,3) link l 2 in \<open>auto simp: field_entries_def Let_def sim_count_def last_kept_def nth_append\<close>)
  next
    case 3
    have "length rs < N" using assms(4) I(4) by (auto simp: sim_count_def split: if_splits)
    note step = simulate_plain_fed[OF assms(1,3) this I(1) assms(6) after_times(1)[OF assms(6,7)], of c prev ?v]
    have run: "simulate_field X R T C cfg c start range_secs seed i prev s = simulate_plain X T C cfg c ?ts ?v prev s"
      using assms(5) 3 by (simp add: simulate_field_def Let_def)
    have link: "linked (rs @ [entry c ?ts prev ?v]) (hs @ [res])" for res
      using I(5,6) parent by (intro linked_snoc) simp_all
    have k: "last_kept (Suc i) = length hs" "sim_count (Suc i) = Suc (length rs)"
      using 3 I(4,5) by (auto simp: last_kept_def sim_count_def)
    show ?thesis
      unfolding run
      by (rule ends_in_mono[OF step], elim exE conjE, unfold sim_inv_def, (rule exI)+, rule conjI, assumption)
        (use I(2,3,5) link k 3 in \<open>auto simp: field_entries_def Let_def nth_append\<close>)
  qed
qed

lemma for_fields_steps:
  assumes "i \<le> m" and "P i prev s"
    and "\<And>k p s. i \<le> k \<Longrightarrow> k < m \<Longrightarrow> P k p s \<Longrightarrow> ends_in tot (P (Suc k)) (f k p s)"
  shows "ends_in tot (P m) (for_fields f [i..<m] prev s)"
  using assms
proof (induction "m - i" arbitrary: i prev s)
  case (Suc d)
  then have "[i..<m] = i # [Suc i..<m]" by (simp add: upt_conv_Cons)
  moreover have "ends_in tot (P m) (for_fields f [Suc i..<m] p s)" if "P (Suc i) p s" for p s
    using Suc that by (intro Suc.hyps(1)) auto
  ultimately show ?case
    using Suc.prems Suc.hyps(2) by (auto intro!: ends_in_then[OF Suc.prems(3)])
qed simp

lemma new_queue_idle:
  assumes "hex_decode T (concat (replicate 32 ''00'')) \<noteq> None"
  shows "queue_idle T (new_queue T)"
  using assms by (simp add: new_queue_def turnstile_new_def turnstile_new_with_storage_def load_state_def
      queue_idle_def queue_ready_def)

text \<open>The draws lie in the range asked for, so that every time used is valid.\<close>

definition draws_ok :: "demo_random \<Rightarrow> timestamp \<Rightarrow> int \<Rightarrow> nat \<Rightarrow> nat \<Rightarrow> bool" where
  "draws_ok R start range_secs seed m \<longleftrightarrow>
     (\<forall>i<m. 0 \<le> draw R seed i 0 range_secs \<and> draw R seed i 0 range_secs < range_secs) \<and>
     0 \<le> start \<and> in_i64 (after start (range_secs + 2))"

lemma draws_okD:
  assumes "draws_ok R start range_secs seed m" and "i < m"
  shows "0 \<le> after start (draw R seed i 0 range_secs)"
    and "in_i64 (after (after start (draw R seed i 0 range_secs)) 2)"
proof -
  let ?d = "draw R seed i 0 range_secs"
  have d: "0 \<le> ?d" "?d < range_secs" "0 \<le> start" "in_i64 (after start (range_secs + 2))"
    using assms by (auto simp: draws_ok_def)
  show "0 \<le> after start ?d" using d by (simp add: after_def nanos_def)
  have "nanos (?d + 2) \<le> nanos (range_secs + 2)" "0 \<le> nanos (?d + 2)" using d by (simp_all add: nanos_def)
  with d(3,4) show "in_i64 (after (after start ?d) 2)"
    by (auto simp: in_i64_def after_def nanos_def algebra_simps)
qed

lemma simulate_fields_run:
  assumes "codecs_total X T" and "\<not> json_parses X (str_bytes ''{'')" and "can_take cfg disk j (m + 3) tot"
    and "0 < range_secs" and "draws_ok R start range_secs seed m" and "queue_idle T t"
  shows "ends_in tot (sim_inv X T C cfg c (j, n) (simulated R start range_secs seed m) m)
    (for_fields (simulate_field X R T C cfg c start range_secs seed) [0..<m] None \<lparr>queue = t, sink = (j, n)\<rparr>)"
proof (rule for_fields_steps[where P = "\<lambda>i. sim_inv X T C cfg c (j, n) (simulated R start range_secs seed i) i"])
  show "sim_inv X T C cfg c (j, n) (simulated R start range_secs seed 0) 0 None \<lparr>queue = t, sink = (j, n)\<rparr>"
    using assms(6) by (simp add: sim_inv_def fed_def taken_def simulated_def requests_valid_def linked_def sim_count_def)
next
  fix k p s assume k: "0 \<le> k" "k < m" and I: "sim_inv X T C cfg c (j, n) (simulated R start range_secs seed k) k p s"
  have "sim_count (Suc k) \<le> m + 3" using k(2) by (simp add: sim_count_def)
  from simulate_field_step[OF assms(1-3) this assms(4) draws_okD[OF assms(5) k(2)] I]
  show "ends_in tot (sim_inv X T C cfg c (j, n) (simulated R start range_secs seed (Suc k)) (Suc k))
      (simulate_field X R T C cfg c start range_secs seed k p s)"
    by (simp add: simulated_def)
qed simp

text \<open>Where the requests name their parents, the leaves name the leaves of these.\<close>

lemma issued_chain_nth:
  "issued_chain X n tracked rs ls \<Longrightarrow> k < length rs \<Longrightarrow>
     \<exists>i tr. issued X i tr (rs ! k) (ls ! k) \<and> (k = 0 \<longrightarrow> tr = tracked)"
proof (induction X n tracked rs ls arbitrary: k rule: issued_chain.induct)
  case (3 X n tracked r rs l ls)
  show ?case
  proof (cases k)
    case 0
    with 3 show ?thesis by auto
  next
    case (Suc k')
    with 3 show ?thesis by fastforce
  qed
qed simp_all

lemma log_of_requests:
  assumes "issued_chain X n None rs ls" and "requests_valid rs"
  shows "length ls = length rs"
    and "map (\<lambda>l. (leaf_timestamp l, delta_payload l)) ls = map (\<lambda>r. (rq_timestamp r, rq_data r)) rs"
    and "map container_id ls = map rq_container rs"
proof -
  show len: "length ls = length rs" using issued_chain_valid[OF assms] by simp
  have same: "leaf_timestamp (ls ! k) = rq_timestamp (rs ! k)" "delta_payload (ls ! k) = rq_data (rs ! k)"
    "container_id (ls ! k) = rq_container (rs ! k)" if "k < length rs" for k
    using issued_chain_nth[OF assms(1) that] by (auto simp: issued_def)
  show "map (\<lambda>l. (leaf_timestamp l, delta_payload l)) ls = map (\<lambda>r. (rq_timestamp r, rq_data r)) rs"
    and "map container_id ls = map rq_container rs"
    using len same by (intro nth_equalityI; simp)+
qed

lemma log_links:
  assumes "issued_chain X n None rs ls" and "requests_valid rs" and "hs = map (LeafHash \<circ> leaf_hash) ls"
    and "linked rs hs" and "k < length ls"
  shows "leaf_prev_hash (ls ! k) = map_option (\<lambda>p. leaf_hash (ls ! p)) (parent_of k)"
proof -
  have k: "k < length rs" using assms(5) log_of_requests(1)[OF assms(1,2)] by simp
  obtain i tr where i: "issued X i tr (rs ! k) (ls ! k)" "k = 0 \<longrightarrow> tr = None"
    using issued_chain_nth[OF assms(1) k] by blast
  have "rq_parent (rs ! k) = map_option ((!) hs) (parent_of k)" using assms(4) k by (simp add: linked_def)
  moreover have "leaf_prev_hash (ls ! k) = predecessor (rs ! k) tr" using i(1) by (auto simp: issued_def)
  ultimately show ?thesis
    using i(2) assms(5) by (auto simp: predecessor_def assms(3) parent_of_def)
qed

text \<open>
  C38: a simulated history has the leaves it announces, but they are no chain. On a fresh
  journal, with draws inside the span and payloads that serialise, the simulation succeeds in
  memory, and where it succeeds the log has exactly one update per field at its drawn time,
  with the message about a malformed packet before field 5 and the messages about an error
  and a retry around field 10, all of the container. Every leaf names the leaf before it as
  its predecessor, except that field 5 names field 4 and field 11 names field 10: the two
  messages in between are the predecessor of no leaf.
\<close>

theorem simulated_history:
  assumes "config_ok cfg" and "codecs_total X T" and "\<not> json_parses X (str_bytes ''{'')"
    and "hex_decode T (concat (replicate 32 ''00'')) \<noteq> None"
    and "parse_time E start = Some t0" and "parse_duration_spec duration = Inr range_secs"
    and "0 < range_secs" and "draws_ok R t0 range_secs seed m"
    and "(4 * (m + 3) + 6) * 2 ^ length (levels cfg) \<le> 2 ^ 64"
    and "journal_new cfg disk = Inr j" and "fresh_disk C cfg disk"
    and "simulate X E R T C cfg c m duration start seed (j, n) = (r, j', n')"
  defines "ls \<equiv> journal_log C j'"
  shows "(storage_type (storage_cfg cfg) = MemoryType \<longrightarrow> r = Inr ()) \<and>
    (r = Inr () \<longrightarrow>
       map (\<lambda>l. (leaf_timestamp l, delta_payload l)) ls = simulated R t0 range_secs seed m \<and>
       (\<forall>l\<in>set ls. container_id l = c) \<and>
       (\<forall>k<length ls. leaf_prev_hash (ls ! k) = map_option (\<lambda>p. leaf_hash (ls ! p)) (parent_of k)))"
proof -
  let ?tot = "storage_type (storage_cfg cfg) = MemoryType"
  let ?run = "for_fields (simulate_field X R T C cfg c t0 range_secs seed) [0..<m] None \<lparr>queue = new_queue T, sink = (j, n)\<rparr>"
  have room: "can_take cfg disk j (m + 3) ?tot" using assms(1,9,10) by (simp add: can_take_def)
  note inv = simulate_fields_run[OF assms(2,3) room assms(7,8) new_queue_idle[OF assms(4)], of C c n]
  obtain r1 s1 where run: "?run = (r1, s1)" by (metis surj_pair)
  show ?thesis
  proof (cases r1)
    case (Inl e)
    then have "\<not> ?tot" using inv run by simp
    moreover have "r = Inl e" using assms(5,6,12) run Inl by (simp add: simulate_def)
    ultimately show ?thesis by simp
  next
    case (Inr p)
    have r: "r = Inr ()" "sink s1 = (j', n')" using assms(5,6,12) run Inr by (simp_all add: simulate_def)
    obtain rs hs where I: "fed X T C cfg (j, n) rs hs s1"
      "map (\<lambda>r. (rq_timestamp r, rq_data r)) rs = simulated R t0 range_secs seed m"
      "\<forall>r\<in>set rs. rq_container r = c" "length rs = sim_count m" "length hs = length rs" "linked rs hs"
      using inv run Inr by (auto simp: sim_inv_def)
    have a: "append_leaves X C cfg rs (j, n) = (Inr hs, j', n')" and v: "requests_valid rs"
      using I(1) r(2) by (simp_all add: fed_def taken_def)
    have "(4 * length rs + 6) * 2 ^ length (levels cfg) \<le> (4 * (m + 3) + 6) * 2 ^ length (levels cfg)"
      using I(4) by (intro mult_right_mono) (simp_all add: sim_count_def)
    then have b: "(4 * length rs + 6) * 2 ^ length (levels cfg) \<le> 2 ^ 64" using assms(9) by linarith
    obtain ls' where chain: "issued_chain X n None rs ls'" and hs: "hs = map (LeafHash \<circ> leaf_hash) ls'"
      and log: "journal_log C j' = ls'"
      by (rule journal_run[OF assms(1) v b assms(10,11) a])
    note L = log_of_requests[OF chain v]
    have "\<forall>l\<in>set ls'. container_id l = c" using I(3) L(3) by (metis image_eqI image_iff list.set_map)
    then show ?thesis
      using r(1) I(2) log L(2) log_links[OF chain v hs I(6)] by (simp add: ls_def)
  qed
qed

text \<open>A closed run over six fields: leaves 4 and 5 both name leaf 3.\<close>

definition sample_sim_externals :: externals where
  "sample_sim_externals = sample_hashing\<lparr>json_to_vec := (\<lambda>_. Some []), json_parses := (\<lambda>b. b = [])\<rparr>"

definition sample_random :: demo_random where
  "sample_random = \<lparr>draw = (\<lambda>_ i _ _. int i), sentence = (\<lambda>_. ''x''), shuffle = (\<lambda>_ is. is), port_error = None\<rparr>"

definition sample_times :: demo_env where
  "sample_times =
     \<lparr>strftime = (\<lambda>_ _. []), iso_week = (\<lambda>_. (1, 1970)), json_pretty = (\<lambda>_. None),
      page_pretty = (\<lambda>_. None), patches_pretty = (\<lambda>_. None), parse_time = (\<lambda>_. Some 9),
      from_ymd = (\<lambda>y m d. None), and_hms = (\<lambda>day h m s. None), utc_now = (\<lambda>_. 7),
      terminal_width = 80, pg_connects = (\<lambda>_. False), pg_runs = (\<lambda>_ _. False), pg_commits = (\<lambda>_ _. False)\<rparr>"

theorem simulated_history_witness:
  "\<exists>j j' n' ls. journal_new memory_config sample_disk = Inr j \<and>
     simulate sample_sim_externals sample_times sample_random sample_turnstile_codecs sample_codecs memory_config ''c''
       6 ''9d'' ''now'' 42 (j, 0) = (Inr (), j', n') \<and>
     journal_log sample_codecs j' = ls \<and> length ls = 7 \<and>
     leaf_prev_hash (ls ! 4) = Some (leaf_hash (ls ! 3)) \<and> leaf_prev_hash (ls ! 5) = Some (leaf_hash (ls ! 3))"
proof -
  obtain j where j: "journal_new memory_config sample_disk = Inr j"
    by (simp add: journal_new_def create_storage_backend_def)
  obtain r j' n' where run: "simulate sample_sim_externals sample_times sample_random sample_turnstile_codecs sample_codecs
      memory_config ''c'' 6 ''9d'' ''now'' 42 (j, 0) = (r, j', n')" by (metis prod_cases3)
  have X: "codecs_total sample_sim_externals sample_turnstile_codecs"
    using sample_codecs_total by (simp add: codecs_total_def sample_sim_externals_def)
  have brace: "\<not> json_parses sample_sim_externals (str_bytes ''{'')"
    by (simp add: sample_sim_externals_def str_bytes_def)
  have hex: "hex_decode sample_turnstile_codecs (concat (replicate 32 ''00'')) \<noteq> None"
    by (simp add: sample_turnstile_codecs_def)
  have t: "parse_time sample_times ''now'' = Some 9" by (simp add: sample_times_def)
  have d: "parse_duration_spec ''9d'' = Inr 777600" by code_simp
  have dr: "draws_ok sample_random 9 777600 42 6"
    by (simp add: draws_ok_def sample_random_def after_def nanos_def in_i64_def)
  have b: "(4 * (6 + 3) + 6) * 2 ^ length (levels memory_config) \<le> (2 ^ 64 :: nat)" by (simp add: default_levels_def)
  have fd: "fresh_disk sample_codecs memory_config sample_disk" by (rule two_requests_facts(5))
  have len: "length (simulated sample_random 9 777600 42 6) = 7"
    by (simp add: simulated_def field_entries_def Let_def upt_conv_Cons)
  note S = simulated_history[OF memory_config_ok X brace hex t d _ dr b j fd run]
  have r: "r = Inr ()" using S by simp
  have m: "map (\<lambda>l. (leaf_timestamp l, delta_payload l)) (journal_log sample_codecs j') = simulated sample_random 9 777600 42 6"
    and p: "\<forall>k<length (journal_log sample_codecs j'). leaf_prev_hash (journal_log sample_codecs j' ! k) =
      map_option (\<lambda>p. leaf_hash (journal_log sample_codecs j' ! p)) (parent_of k)"
    using S r by simp_all
  have l: "length (journal_log sample_codecs j') = 7" using arg_cong[OF m, of length] len by simp
  with p have "leaf_prev_hash (journal_log sample_codecs j' ! 4) = Some (leaf_hash (journal_log sample_codecs j' ! 3))"
    "leaf_prev_hash (journal_log sample_codecs j' ! 5) = Some (leaf_hash (journal_log sample_codecs j' ! 3))"
    by (simp_all add: parent_of_def)
  with r j run l show ?thesis by blast
qed

end
