(* ===== verification/Spec2Isabelle.thy ===== *)
theory Spec2Isabelle
  imports File_Storage Time_Window Rollup_Content Retention Query_Integrity Turnstile_Properties
    Config_Properties Snapshot_Properties Journal_Properties Backup_Properties C_Ffi_Properties
    Wasm_Properties Async_Guards Demo_Properties Demo_Data_Properties Demo_Server
begin

text \<open>
  A verification development for \<open>civicjournal-time\<close>, a time-series journal in Rust: leaves
  (JSON deltas of a container) are appended to pages of time windows, finished pages are
  stored, hash-chained and rolled up into pages of coarser levels, and queries, proofs,
  retention and snapshots read the stored pages. All paths below are under \<open>src/src/\<close>.

  \<^bold>\<open>The parts and how they interact.\<close> An application calls the turnstile
  (\<open>turnstile/mod.rs\<close>, from C through \<open>ffi/c_ffi.rs\<close>), which hands out tickets for payloads
  that wait for an external database, or the journal (\<open>api/async_api.rs\<close>,
  \<open>api/sync_api.rs\<close>), which hash-chains the leaves it appends. The journal's core is the \<open>TimeHierarchyManager\<close>
  (\<open>core/time_manager.rs\<close>): \<open>add_leaf\<close> finds or creates the active page of level 0, finishes
  it when it is full, old or left behind, stores it through the \<open>StorageBackend\<close>
  (\<open>storage/memory.rs\<close>, \<open>storage/file.rs\<close>), and calls \<open>perform_rollup\<close>, which loads the
  stored child by its hash, attaches it to the parent level's page and cascades. The query
  engine (\<open>query/engine.rs\<close>), retention and the snapshot manager (\<open>core/snapshot_manager.rs\<close>)
  work on the same storage and manager; \<open>config/\<close> and \<open>lib.rs\<close> load the configuration;
  the file backend packs its directory into an archive and restores it. The program
  \<open>demo_cli/mod.rs\<close> fills a journal with generated histories and shows it in a terminal.

  \<^bold>\<open>The theories.\<close> \<open>Cj_Prelude\<close> has bytes, machine integers, results and shared lemmas;
  \<open>Cj_Types\<close> the errors, JSON values, the configuration and its defaults. \<open>Merkle\<close>, \<open>Leaf\<close> and
  \<open>Page\<close> model \<open>core/merkle.rs\<close>, \<open>core/hash.rs\<close> and \<open>core/leaf.rs\<close>, \<open>core/page.rs\<close>, each with
  its properties. \<open>Storage\<close> states the trait \<open>StorageBackend\<close> as a record of operations and
  the contract of a backend as the locales \<open>storage_laws\<close> and \<open>reliable_storage\<close>;
  \<open>Memory_Storage\<close> and \<open>File_Storage\<close> model the two backends and interpret the locales.
  \<open>Time_Window\<close> has the page windows. \<open>Time_Manager\<close> models the manager: its record is the
  Rust struct with the storage inside, an operation maps it to a result and a new manager.
  \<open>Rollup_Invariant\<close> proves inside \<open>storage_laws\<close> what the cascade keeps, \<open>Journal_Log\<close> that
  level 0 is an append-only log, and \<open>Manager_Properties\<close> and \<open>Rollup_Content\<close> state both over
  the backends. \<open>Retention\<close>, \<open>Query\<close> with \<open>Query_Properties\<close> and \<open>Query_Integrity\<close>, and \<open>Snapshot\<close>
  with \<open>Snapshot_Properties\<close> follow. \<open>Turnstile\<close> and \<open>Turnstile_Properties\<close> model the turnstile
  as a state machine, \<open>C_Ffi\<close> and \<open>C_Ffi_Properties\<close> its C interface over a memory of byte
  objects. \<open>Journal_Api\<close> models both journals with the choice of the backend, whose trait
  object is a datatype with a dispatching record that again interprets the storage locales,
  and \<open>Journal_Properties\<close> says what a client of the journal can rely on. \<open>Tasks\<close> has tasks
  over a shared state and the steps of a list of them, \<open>Async_Journal\<close> the same
  \<open>append_leaf\<close>, \<open>add_leaf\<close>, \<open>perform_rollup\<close> and \<open>get_page\<close> as tasks whose accesses are the
  code's lock scopes and storage calls, and \<open>Async_Properties\<close> relates their interleavings to
  the sequential model. \<open>Async_Retention\<close> adds \<open>apply_retention_policies\<close> as a task beside them.
  \<open>Guards\<close> has programs that lock and unlock any number of mutexes and the locale \<open>mutex_order\<close>,
  in which a discipline on them excludes deadlocks; \<open>Async_Guards\<close> has the same calls once
  more with the journal's four mutexes and the guards where the code drops them, shows that
  they follow the discipline, and that without the guards they are the tasks of
  \<open>Async_Journal\<close>. \<open>Wasm\<close> and \<open>Wasm_Properties\<close> model \<open>ffi/wasm_ffi.rs\<close>. \<open>Backup\<close> and
  \<open>Backup_Properties\<close> model the backup and the restore of a journal directory,
  \<open>Config_Validation\<close> and \<open>Config_Properties\<close> the loading and validation of
  the configuration and \<open>init\<close>. Of the demonstration program, \<open>Demo_Text\<close> has the functions
  on text it uses, \<open>Demo_Cli\<close> the listings, \<open>Demo_Nav\<close> the prompts, the navigator and the menu
  as functions of a session (lines typed and printed, the terminal's mode, the journal, the
  database transactions) and a list of key events, \<open>Demo_Data\<close> the generators, the directory of
  the demo and the subcommands, \<open>Demo_Server\<close> the launch of its database server
  (\<open>demo_cli/auto_db.rs\<close>); \<open>Demo_Properties\<close> and \<open>Demo_Data_Properties\<close> say what the user
  sees and what a generated journal holds.

  \<^bold>\<open>Conventions.\<close> A Rust function that may fail returns \<open>error + value\<close>; one that changes
  state takes it as its last argument and returns the new state with the result, also on
  failure. \<open>Inl Panicked\<close> marks the branches on which the code panics. \<open>u64\<close>, \<open>usize\<close> and
  \<open>u8\<close> are natural numbers with casts, wrap-around and overflow written out, bytes are 8-bit
  words, a time is its number of nanoseconds since the epoch. A \<open>HashMap\<close> is a map where it
  is only looked up and an association list with distinct keys where it is iterated.
  Third-party code (SHA-256, serde, compression crates, hex, the clock, unstable sorting,
  the iteration order of hash sets, the zip archive, UTF-8 decoding, random draws, PostgreSQL) is a parameter; a
  property that relies on it names what it needs (\<open>codecs_ok\<close>, \<open>codecs_total\<close>,
  \<open>state_roundtrip\<close>, \<open>env_ok\<close>, \<open>backup_env_ok\<close>, \<open>hashes_are_text\<close>). Of JSON, \<open>codecs_ok\<close> and
  \<open>codecs_total\<close> ask that what is written is read back as it was; they idealise \<open>serde_json\<close>
  for values nested deeper than its recursion limit of 128 and for floating-point numbers,
  which it reads back exactly only with a feature the build does not select.

  \<^bold>\<open>What is shown.\<close> The backends refine a finite map from (level, id) to pages. On every
  storage that keeps the contract, \<open>add_leaf\<close> keeps the invariant of the manager, the stored
  pages of level 0 and the active page are the log of the leaves added, in order, chained by
  hashes and within their windows; on a reliable storage it always succeeds. A fresh journal
  holds one leaf per \<open>append_leaf\<close>, linked to the one before, and its pages can be read back;
  a journal opened again on the same directory overwrites them. Appends that run as
  concurrent tasks have the effect of the sequential model in some order, and no schedule of
  calls deadlocks on the journal's mutexes, also beside retention and when calls are dropped;
  an append that is dropped halfway may lose the active page, and one that runs beside
  retention may fail. Rollups record
  the child's hash in a page of the parent level and merge net patches with last write wins.
  Delta reports, pagination, inclusion proofs, integrity reports and snapshots are related to
  that log. Retention keeps exactly what its policies say. Turnstile tickets are hashes of
  their entries in every reachable state, failing retries end, a restart recovers the state;
  the C interface writes them into buffers of 65 bytes. A restored backup has the same pages.
  A loaded configuration is well formed. The demonstration program lists the leaves of stored
  pages and misses those of the active page; its navigator stays in bounds and gives the
  terminal back, unless an operation fails; a confirmed reversal writes the state of the time;
  a simulated history has the leaves it announces, with two forks of the chain. Where the code does not do what it means to, a
  property says what it does instead.

  \<^bold>\<open>Bounds.\<close> \<open>config_ok\<close> asks for at most 255 levels, positive page sizes below \<open>2 ^ 32\<close> and
  level durations below 292 years, so that no cast changes a value. Timestamps of leaves are
  not before the epoch and fit in 64 bits of nanoseconds (\<open>leaves_valid\<close>). One \<open>add_leaf\<close>
  closes at most two pages of level 0, and closing a page draws fewer than \<open>2 ^ n\<close> ids from
  the generator on \<open>n\<close> levels, so \<open>(4 * length xs + 6) * 2 ^ n \<le> 2 ^ 64\<close> keeps its 64-bit
  counter from wrapping. The cascade recurses on the level and needs no fuel. The loops over
  key events recurse on the list of events; one that uses it up is waiting for the next key.

  \<^bold>\<open>Not modelled.\<close> Interleavings are modelled for \<open>append_leaf\<close>, \<open>get_page\<close> and
  retention; snapshots and the other queries run one at a time, and a call of the storage backend is one
  access. Left out are the text of errors and logs, chrono's range panics, failures to
  read a disk file that exists, and changes to the directory by other processes. Of the
  demonstration program, colours, the cursor, resizing and the progress bar are left out,
  argument parsing is clap's, and \<open>dump_prompt\<close> is not called; \<open>bin/cj-demo.rs\<close> only
  calls the program. The test utilities and the placeholder
  \<open>time/unit.rs\<close> are not part of the journal's logic.
\<close>

end
